(* ===== verification/Prelude.thy ===== *)
theory Prelude
  imports Main "HOL-Library.Word"
begin

text \<open>
  Shared vocabulary of the development: the machine types the server uses, C's
  truncation of unsigned values to sixteen bits, little-endian byte strings, and a flat
  byte memory with the two operations (\<open>memcpy\<close> out of and into a buffer) that the
  network code performs on its arrays.  The lemmas on memory are declared as rewrite
  rules or put into the collection \<open>mem_simps\<close>, so that the proofs about messages are
  rewriting over reads and writes.
\<close>

named_theorems mem_simps "reading a buffer after writing to it"
named_theorems wrap_simps "wrap-around of unsigned fields"

type_synonym u8 = "8 word"
type_synonym u32 = "32 word"
type_synonym memory = "nat \<Rightarrow> u8"

subsection \<open>Unsigned sixteen-bit fields\<close>

text \<open>A \<open>uint16_t\<close> field holds a natural number below 65536; every store truncates.\<close>

definition wrap16 :: "nat \<Rightarrow> nat" where
  "wrap16 n = n mod 65536"

lemma wrap16_id [simp, wrap_simps]: "n < 65536 \<Longrightarrow> wrap16 n = n"
  by (simp add: wrap16_def)

lemma wrap16_less [simp, intro]: "wrap16 n < 65536"
  by (simp add: wrap16_def)

lemma wrap16_wrap16 [simp]: "wrap16 (wrap16 n) = wrap16 n"
  by simp

lemma wrap16_add_left: "wrap16 (wrap16 m + n) = wrap16 (m + n)"
  by (simp add: wrap16_def mod_add_left_eq)

subsection \<open>Little-endian byte strings\<close>

text \<open>
  \<open>nat_to_le n x\<close> is what \<open>memcpy\<close> of an \<open>n\<close>-byte integer with value \<open>x\<close> produces on
  the little-endian machines the server is built for, \<open>le_to_nat\<close> what reading it back gives.
\<close>

fun nat_to_le :: "nat \<Rightarrow> nat \<Rightarrow> u8 list" where
  "nat_to_le 0 x = []"
| "nat_to_le (Suc n) x = word_of_nat x # nat_to_le n (x div 256)"

fun le_to_nat :: "u8 list \<Rightarrow> nat" where
  "le_to_nat [] = 0"
| "le_to_nat (b # bs) = unat b + 256 * le_to_nat bs"

lemma length_nat_to_le [simp]: "length (nat_to_le n x) = n"
  by (induction n arbitrary: x) auto

lemma unat_u8_less [simp]: "unat (b :: u8) < 256"
  using unsigned_less [of b] by simp

lemma unat_u16_less [simp]: "unat (w :: 16 word) < 65536"
  using unsigned_less [of w] by simp

lemma unat_u32_less [simp]: "unat (w :: u32) < 4294967296"
  using unsigned_less [of w] by simp

lemma le_to_nat_nat_to_le: "le_to_nat (nat_to_le n x) = x mod 256 ^ n"
proof (induction n arbitrary: x)
  case (Suc n)
  have "x mod (256 * 256 ^ n) = 256 * (x div 256 mod 256 ^ n) + x mod 256"
    by (rule mod_mult2_eq)
  with Suc show ?case by (simp add: unat_of_nat)
qed simp

lemma le_to_nat_less: "le_to_nat bs < 256 ^ length bs"
proof (induction bs)
  case (Cons b bs)
  have "unat b + 256 * le_to_nat bs < 256 * (le_to_nat bs + 1)"
    by simp
  also have "\<dots> \<le> 256 * 256 ^ length bs"
    using Cons by (simp add: Suc_leI)
  finally show ?case by simp
qed simp

lemma u8_256: "(256 :: u8) = 0"
  by simp

lemma nat_to_le_le_to_nat: "nat_to_le (length bs) (le_to_nat bs) = bs"
proof (induction bs)
  case (Cons b bs)
  have "(word_of_nat (unat b + 256 * le_to_nat bs) :: u8) = b"
    by (simp add: u8_256)
  with Cons show ?case by simp
qed simp

subsection \<open>Flat memory\<close>

definition mem_read :: "memory \<Rightarrow> nat \<Rightarrow> nat \<Rightarrow> u8 list" where
  "mem_read m p n = map m [p ..< p + n]"

definition mem_write :: "memory \<Rightarrow> nat \<Rightarrow> u8 list \<Rightarrow> memory" where
  "mem_write m p bs = (\<lambda>i. if p \<le> i \<and> i < p + length bs then bs ! (i - p) else m i)"

lemma length_mem_read [simp]: "length (mem_read m p n) = n"
  by (simp add: mem_read_def)

lemma nth_mem_read [simp]: "i < n \<Longrightarrow> mem_read m p n ! i = m (p + i)"
  by (simp add: mem_read_def)

lemma mem_read_0 [simp]: "mem_read m p 0 = []"
  by (simp add: mem_read_def)

lemma mem_read_add: "mem_read m p (a + b) = mem_read m p a @ mem_read m (p + a) b"
  by (rule nth_equalityI) (auto simp: nth_append)

lemma mem_write_Nil [simp]: "mem_write m p [] = m"
  by (auto simp: mem_write_def fun_eq_iff)

lemma mem_write_outside [mem_simps]:
  "i < p \<or> p + length bs \<le> i \<Longrightarrow> mem_write m p bs i = m i"
  by (auto simp: mem_write_def)

lemma mem_write_inside: "i < length bs \<Longrightarrow> mem_write m p bs (p + i) = bs ! i"
  by (simp add: mem_write_def)

lemma mem_read_write_same [mem_simps]: "n = length bs \<Longrightarrow> mem_read (mem_write m p bs) p n = bs"
  by (rule nth_equalityI) (auto simp: mem_write_inside)

lemma mem_read_write_disjoint [mem_simps]:
  "q + n \<le> p \<or> p + length bs \<le> q \<Longrightarrow> mem_read (mem_write m p bs) q n = mem_read m q n"
  by (rule nth_equalityI) (auto simp: mem_write_def)

lemma mem_read_cong: "(\<And>i. p \<le> i \<Longrightarrow> i < p + n \<Longrightarrow> m i = m' i) \<Longrightarrow> mem_read m p n = mem_read m' p n"
  by (simp add: mem_read_def)

lemma mem_write_append: "mem_write m p (bs @ cs) = mem_write (mem_write m p bs) (p + length bs) cs"
  by (rule ext) (auto simp: mem_write_def nth_append)

lemma mem_write_read [simp]: "mem_write m p (mem_read m p n) = m"
  by (rule ext) (auto simp: mem_write_def)

subsection \<open>Lower case\<close>

text \<open>C's \<open>tolower\<close> in the default locale, on one character and over a string.\<close>

definition c_tolower :: "char \<Rightarrow> char" where
  "c_tolower c = (let n = (of_char c :: nat) in if 65 \<le> n \<and> n \<le> 90 then char_of (n + 32) else c)"

definition asLowerCaseString :: "string \<Rightarrow> string" where
  "asLowerCaseString s = map c_tolower s"

end
