(* ===== verification/Position.thy ===== *)
theory Position
  imports Prelude
begin

text \<open>
  Map positions and directions: \<open>game/movement/position.hpp\<close>, \<open>position.cpp\<close> and the
  direction helpers of \<open>utils/tools.cpp\<close>.  Coordinates are kept at their width
  (\<open>x\<close>, \<open>y\<close> sixteen bits, \<open>z\<close> eight), so stepping off the edge of the map wraps as the
  code does; offsets and distances are the signed integers the code computes with.
  The comparison \<open>operator<\<close> is shown to be a linear order by instantiating the class.
\<close>

subsection \<open>Data\<close>

datatype direction = DIRECTION_NORTH | DIRECTION_EAST | DIRECTION_SOUTH | DIRECTION_WEST
  | DIRECTION_SOUTHWEST | DIRECTION_SOUTHEAST | DIRECTION_NORTHWEST | DIRECTION_NORTHEAST
  | DIRECTION_NONE

datatype position = Pos (pos_x: "16 word") (pos_y: "16 word") (pos_z: "8 word")

subsection \<open>Operations of struct Position\<close>

definition getOffsetX :: "position \<Rightarrow> position \<Rightarrow> int" where
  "getOffsetX p1 p2 = uint (pos_x p1) - uint (pos_x p2)"

definition getOffsetY :: "position \<Rightarrow> position \<Rightarrow> int" where
  "getOffsetY p1 p2 = uint (pos_y p1) - uint (pos_y p2)"

definition getOffsetZ :: "position \<Rightarrow> position \<Rightarrow> int" where
  "getOffsetZ p1 p2 = uint (pos_z p1) - uint (pos_z p2)"

definition getDistanceX :: "position \<Rightarrow> position \<Rightarrow> int" where
  "getDistanceX p1 p2 = \<bar>getOffsetX p1 p2\<bar>"

definition getDistanceY :: "position \<Rightarrow> position \<Rightarrow> int" where
  "getDistanceY p1 p2 = \<bar>getOffsetY p1 p2\<bar>"

definition getDistanceZ :: "position \<Rightarrow> position \<Rightarrow> int" where
  "getDistanceZ p1 p2 = \<bar>getOffsetZ p1 p2\<bar>"

definition getDiagonalDistance :: "position \<Rightarrow> position \<Rightarrow> int" where
  "getDiagonalDistance p1 p2 = max (getDistanceX p1 p2) (getDistanceY p1 p2)"

definition areInRange2 :: "int \<Rightarrow> int \<Rightarrow> position \<Rightarrow> position \<Rightarrow> bool" where
  "areInRange2 deltax deltay p1 p2 \<longleftrightarrow>
     getDistanceX p1 p2 \<le> deltax \<and> getDistanceY p1 p2 \<le> deltay"

definition areInRange3 :: "int \<Rightarrow> int \<Rightarrow> int \<Rightarrow> position \<Rightarrow> position \<Rightarrow> bool" where
  "areInRange3 deltax deltay deltaz p1 p2 \<longleftrightarrow>
     getDistanceX p1 p2 \<le> deltax \<and> getDistanceY p1 p2 \<le> deltay \<and> getDistanceZ p1 p2 \<le> deltaz"

definition pos_plus :: "position \<Rightarrow> position \<Rightarrow> position" where
  "pos_plus p q = Pos (pos_x p + pos_x q) (pos_y p + pos_y q) (pos_z p + pos_z q)"

definition pos_minus :: "position \<Rightarrow> position \<Rightarrow> position" where
  "pos_minus p q = Pos (pos_x p - pos_x q) (pos_y p - pos_y q) (pos_z p - pos_z q)"

definition pos_lt :: "position \<Rightarrow> position \<Rightarrow> bool" where
  "pos_lt p q \<longleftrightarrow> pos_z p < pos_z q
     \<or> (pos_z p = pos_z q \<and> pos_y p < pos_y q)
     \<or> (pos_z p = pos_z q \<and> pos_y p = pos_y q \<and> pos_x p < pos_x q)"

definition pos_gt :: "position \<Rightarrow> position \<Rightarrow> bool" where
  "pos_gt p q \<longleftrightarrow> \<not> pos_lt p q"

definition pos_eq :: "position \<Rightarrow> position \<Rightarrow> bool" where
  "pos_eq q p \<longleftrightarrow> pos_x p = pos_x q \<and> pos_y p = pos_y q \<and> pos_z p = pos_z q"

unbundle bit_operations_syntax

definition pos_hash :: "position \<Rightarrow> 64 word" where
  "pos_hash p = (ucast (pos_x p) OR push_bit 16 (ucast (pos_y p))) OR push_bit 32 (ucast (pos_z p))"

subsection \<open>Direction helpers of tools.cpp\<close>

definition getDirection :: "string \<Rightarrow> direction" where
  "getDirection s =
    (if s = ''north'' \<or> s = ''n'' \<or> s = ''0'' then DIRECTION_NORTH
     else if s = ''east'' \<or> s = ''e'' \<or> s = ''1'' then DIRECTION_EAST
     else if s = ''south'' \<or> s = ''s'' \<or> s = ''2'' then DIRECTION_SOUTH
     else if s = ''west'' \<or> s = ''w'' \<or> s = ''3'' then DIRECTION_WEST
     else if s = ''southwest'' \<or> s = ''south west'' \<or> s = ''south-west'' \<or> s = ''sw'' \<or> s = ''4''
       then DIRECTION_SOUTHWEST
     else if s = ''southeast'' \<or> s = ''south east'' \<or> s = ''south-east'' \<or> s = ''se'' \<or> s = ''5''
       then DIRECTION_SOUTHEAST
     else if s = ''northwest'' \<or> s = ''north west'' \<or> s = ''north-west'' \<or> s = ''nw'' \<or> s = ''6''
       then DIRECTION_NORTHWEST
     else if s = ''northeast'' \<or> s = ''north east'' \<or> s = ''north-east'' \<or> s = ''ne'' \<or> s = ''7''
       then DIRECTION_NORTHEAST
     else DIRECTION_NORTH)"

fun direction_name :: "direction \<Rightarrow> string option" where
  "direction_name DIRECTION_NORTH = Some ''North''"
| "direction_name DIRECTION_EAST = Some ''East''"
| "direction_name DIRECTION_WEST = Some ''West''"
| "direction_name DIRECTION_SOUTH = Some ''South''"
| "direction_name DIRECTION_SOUTHWEST = Some ''South-West''"
| "direction_name DIRECTION_SOUTHEAST = Some ''South-East''"
| "direction_name DIRECTION_NORTHWEST = Some ''North-West''"
| "direction_name DIRECTION_NORTHEAST = Some ''North-East''"
| "direction_name DIRECTION_NONE = None"

fun getNextPosition :: "direction \<Rightarrow> position \<Rightarrow> position" where
  "getNextPosition DIRECTION_NORTH (Pos x y z) = Pos x (y - 1) z"
| "getNextPosition DIRECTION_SOUTH (Pos x y z) = Pos x (y + 1) z"
| "getNextPosition DIRECTION_WEST (Pos x y z) = Pos (x - 1) y z"
| "getNextPosition DIRECTION_EAST (Pos x y z) = Pos (x + 1) y z"
| "getNextPosition DIRECTION_SOUTHWEST (Pos x y z) = Pos (x - 1) (y + 1) z"
| "getNextPosition DIRECTION_NORTHWEST (Pos x y z) = Pos (x - 1) (y - 1) z"
| "getNextPosition DIRECTION_NORTHEAST (Pos x y z) = Pos (x + 1) (y - 1) z"
| "getNextPosition DIRECTION_SOUTHEAST (Pos x y z) = Pos (x + 1) (y + 1) z"
| "getNextPosition DIRECTION_NONE p = p"

definition getDirectionTo :: "position \<Rightarrow> position \<Rightarrow> bool \<Rightarrow> direction" where
  "getDirectionTo from to exactDiagonalOnly =
    (let dx = getOffsetX from to; dy = getOffsetY from to in
     if exactDiagonalOnly \<and> \<bar>dx\<bar> > \<bar>dy\<bar> then (if dx < 0 then DIRECTION_EAST else DIRECTION_WEST)
     else if exactDiagonalOnly \<and> \<bar>dx\<bar> < \<bar>dy\<bar> then (if dy > 0 then DIRECTION_NORTH else DIRECTION_SOUTH)
     else if dx < 0 then
       (if dy < 0 then DIRECTION_SOUTHEAST else if dy > 0 then DIRECTION_NORTHEAST else DIRECTION_EAST)
     else if dx > 0 then
       (if dy < 0 then DIRECTION_SOUTHWEST else if dy > 0 then DIRECTION_NORTHWEST else DIRECTION_WEST)
     else (if dy > 0 then DIRECTION_NORTH else DIRECTION_SOUTH))"

lemmas offset_defs = getOffsetX_def getOffsetY_def getOffsetZ_def
lemmas distance_defs = getDistanceX_def getDistanceY_def getDistanceZ_def getDiagonalDistance_def offset_defs

subsection \<open>The comparison is a linear order\<close>

instantiation position :: linorder
begin

definition less_position :: "position \<Rightarrow> position \<Rightarrow> bool" where
  "less_position p q = pos_lt p q"

definition less_eq_position :: "position \<Rightarrow> position \<Rightarrow> bool" where
  "less_eq_position p q = (pos_lt p q \<or> p = q)"

instance
  by standard (auto simp: less_position_def less_eq_position_def pos_lt_def position.expand
      intro: position.expand)

end

lemma pos_eq_iff: "pos_eq p q \<longleftrightarrow> p = q"
  by (cases p; cases q) (auto simp: pos_eq_def)

subsection \<open>Distances\<close>

lemma uint_eq_iff: "uint (a :: 'a::len word) = uint b \<longleftrightarrow> a = b"
  by (auto dest: word_uint_eqI)

lemma getDiagonalDistance_0_iff:
  "getDiagonalDistance p q = 0 \<longleftrightarrow> pos_x p = pos_x q \<and> pos_y p = pos_y q"
  by (auto simp: distance_defs max_def uint_eq_iff split: if_splits)

lemma getDiagonalDistance_triangle:
  "getDiagonalDistance p r \<le> getDiagonalDistance p q + getDiagonalDistance q r"
  unfolding distance_defs by arith

lemma uint_succ_lt: "(a :: 16 word) < b \<Longrightarrow> uint (a + 1) = uint a + 1"
  by uint_arith

lemma uint_pred_gt: "(b :: 16 word) < a \<Longrightarrow> uint (a - 1) = uint a - 1"
  by uint_arith

lemma offset_sign:
  "uint (a :: 16 word) - uint b < 0 \<longleftrightarrow> a < b" "uint (a :: 16 word) - uint b > 0 \<longleftrightarrow> b < a"
  by (simp_all add: word_less_def)

text \<open>
  One step in the direction that \<open>getDirectionTo\<close> picks: on each axis the coordinate moves
  towards the target, stays put, or (only where the axis is not the longer one) is left alone.
\<close>

definition axis_step :: "16 word \<Rightarrow> 16 word \<Rightarrow> 16 word \<Rightarrow> bool" where
  "axis_step a b a' \<longleftrightarrow> \<bar>uint a' - uint b\<bar> = \<bar>uint a - uint b\<bar> - 1"

lemma axis_step_up: "uint (a :: 16 word) - uint b < 0 \<Longrightarrow> axis_step a b (a + 1)"
  unfolding axis_step_def offset_sign(1) using uint_succ_lt [of a b] by (simp add: word_less_def)

lemma axis_step_down: "0 < uint (a :: 16 word) - uint b \<Longrightarrow> axis_step a b (a - 1)"
  unfolding axis_step_def offset_sign(2) using uint_pred_gt [of b a] by (simp add: word_less_def)

subsection \<open>Walking towards a target\<close>

text \<open>
  One step in the direction that \<open>getDirectionTo\<close> picks.  On a coordinate that differs
  from the target's, the step of that axis brings it one closer.
\<close>

lemma closer_up: "uint (a :: 16 word) - uint (b :: 16 word) < 0 \<Longrightarrow> \<bar>uint (a + 1) - uint b\<bar> = \<bar>uint a - uint b\<bar> - 1"
  using uint_succ_lt [of a b] by (simp add: word_less_def)

lemma closer_down: "0 < uint (a :: 16 word) - uint (b :: 16 word) \<Longrightarrow> \<bar>uint (a - 1) - uint b\<bar> = \<bar>uint a - uint b\<bar> - 1"
  using uint_pred_gt [of b a] by (simp add: word_less_def)

lemmas closer = closer_up closer_down

text \<open>
  Unless the creature already stands on the target's column and row, one step in the direction
  \<open>getDirectionTo\<close> returns (in either mode) brings it exactly one field closer in the king-move
  distance, and never wraps over the edge of the map.
\<close>

theorem getDirectionTo_approaches:
  assumes "getDiagonalDistance p q \<noteq> 0"
  shows "getDiagonalDistance (getNextPosition (getDirectionTo p q e) p) q = getDiagonalDistance p q - 1"
proof (cases p; cases q)
  fix x y z x' y' z'
  assume pq: "p = Pos x y z" "q = Pos x' y' z'"
  have ne: "\<not> (uint x - uint x' = 0 \<and> uint y - uint y' = 0)"
    using assms by (auto simp: pq getDiagonalDistance_0_iff uint_eq_iff)
  consider "uint x - uint x' < 0" | "uint x - uint x' = 0" | "0 < uint x - uint x'" by linarith
  then show ?thesis
  proof cases
    case 1
    consider "uint y - uint y' < 0" | "uint y - uint y' = 0" | "0 < uint y - uint y'" by linarith
    then show ?thesis using 1
      by cases (auto simp: pq getDirectionTo_def Let_def distance_defs closer max_def)
  next
    case 2
    consider "uint y - uint y' < 0" | "0 < uint y - uint y'" using ne 2 by linarith
    then show ?thesis using 2
      by cases (auto simp: pq getDirectionTo_def Let_def distance_defs closer max_def)
  next
    case 3
    consider "uint y - uint y' < 0" | "uint y - uint y' = 0" | "0 < uint y - uint y'" by linarith
    then show ?thesis using 3
      by cases (auto simp: pq getDirectionTo_def Let_def distance_defs closer max_def)
  qed
qed

theorem getDirectionTo_approaches_witness:
  "getDiagonalDistance (getNextPosition (getDirectionTo (Pos 100 100 7) (Pos 103 96 7) False) (Pos 100 100 7))
     (Pos 103 96 7) = 3"
proof -
  have d: "getDiagonalDistance (Pos 100 100 7) (Pos 103 96 7) = 4" by (simp add: distance_defs)
  show ?thesis using getDirectionTo_approaches [of "Pos 100 100 7" "Pos 103 96 7" False] d by simp
qed

text \<open>
  The hash the server uses for positions is collision free: the three coordinates occupy
  disjoint bit ranges of the 64-bit value.
\<close>

theorem pos_hash_injective: "pos_hash p = pos_hash q \<longleftrightarrow> pos_eq p q"
proof
  assume h: "pos_hash p = pos_hash q"
  have bits: "bit (pos_hash r) n \<longleftrightarrow>
      (n < 16 \<and> bit (pos_x r) n) \<or> (16 \<le> n \<and> n < 32 \<and> bit (pos_y r) (n - 16))
      \<or> (32 \<le> n \<and> n < 40 \<and> bit (pos_z r) (n - 32))" for r n
    by (auto simp: pos_hash_def bit_simps dest: bit_imp_le_length)
  have "bit (pos_x p) n = bit (pos_x q) n" if "n < 16" for n
    using bits [of p n] bits [of q n] that by (simp add: h)
  moreover have "bit (pos_y p) n = bit (pos_y q) n" if "n < 16" for n
    using bits [of p "n + 16"] bits [of q "n + 16"] that by (simp add: h)
  moreover have "bit (pos_z p) n = bit (pos_z q) n" if "n < 8" for n
    using bits [of p "n + 32"] bits [of q "n + 32"] that by (simp add: h)
  ultimately show "pos_eq p q"
    by (auto simp: pos_eq_def bit_eq_iff dest: bit_imp_le_length intro!: bit_word_eqI)
qed (simp add: pos_eq_iff)

text \<open>The \<open>operator>\<close> of the code is \<open>not (a < b)\<close>: it also holds of equal positions.\<close>

lemma pos_gt_iff: "pos_gt p q \<longleftrightarrow> q \<le> p"
  by (auto simp: pos_gt_def less_position_def [symmetric])

lemma getDirection_name:
  "map_option (getDirection \<circ> asLowerCaseString) (direction_name d)
    = (if d = DIRECTION_NONE then None else Some d)"
  by (cases d) (simp_all add: getDirection_def asLowerCaseString_def c_tolower_def of_char_Char char_of_eq_iff)

end
