(* ===== verification/NetMessage.thy ===== *)
theory NetMessage
  imports Position
begin

text \<open>
  The wire buffers: \<open>server/network/message/networkmessage.hpp\<close>, \<open>networkmessage.cpp\<close> and
  \<open>outputmessage.hpp\<close>.  A message is a fixed array of bytes with a length, a cursor and an
  overrun flag; an output message extends it with the start of the part that goes on the
  wire, below which headers are prepended.  \<open>uint16_t\<close> fields truncate through \<open>wrap16\<close>;
  the array is a memory, and the lemmas say that no operation writes outside its
  \<open>NETWORKMESSAGE_MAXSIZE\<close> cells.
\<close>

abbreviation "NETWORKMESSAGE_MAXSIZE \<equiv> 65500 :: nat"
abbreviation "HEADER_LENGTH \<equiv> 2 :: nat"
abbreviation "CHECKSUM_LENGTH \<equiv> 4 :: nat"
abbreviation "MAX_BODY_LENGTH \<equiv> 65486 :: nat"
abbreviation "INITIAL_BUFFER_POSITION \<equiv> 8 :: nat"

record netmsg =
  nm_length :: nat
  nm_position :: nat
  nm_overrun :: bool
  nm_buffer :: memory

record outmsg = netmsg +
  om_start :: nat

subsection \<open>Reading\<close>

definition nm_reset :: "'a netmsg_scheme \<Rightarrow> 'a netmsg_scheme" where
  "nm_reset m = m\<lparr>nm_length := 0, nm_position := INITIAL_BUFFER_POSITION, nm_overrun := False\<rparr>"

definition canAdd :: "nat \<Rightarrow> 'a netmsg_scheme \<Rightarrow> bool" where
  "canAdd n m \<longleftrightarrow> n + nm_position m < MAX_BODY_LENGTH"

definition canRead :: "nat \<Rightarrow> 'a netmsg_scheme \<Rightarrow> bool \<times> 'a netmsg_scheme" where
  "canRead n m =
    (if nm_position m + n > nm_length m + 8
        \<or> int n \<ge> int NETWORKMESSAGE_MAXSIZE - int (nm_position m)
     then (False, m\<lparr>nm_overrun := True\<rparr>) else (True, m))"

definition getByte :: "'a netmsg_scheme \<Rightarrow> u8 \<times> 'a netmsg_scheme" where
  "getByte m = (let (ok, m) = canRead 1 m in
     if \<not> ok then (0, m)
     else (nm_buffer m (nm_position m), m\<lparr>nm_position := wrap16 (nm_position m + 1)\<rparr>))"

definition getPreviousByte :: "'a netmsg_scheme \<Rightarrow> u8 \<times> 'a netmsg_scheme" where
  "getPreviousByte m = (let p = wrap16 (nm_position m + 65535) in
     (nm_buffer m p, m\<lparr>nm_position := p\<rparr>))"

text \<open>\<open>get<T>\<close>: \<open>w\<close> is \<open>sizeof(T)\<close> and \<open>dec\<close> the value the bytes stand for.\<close>

definition nm_get :: "nat \<Rightarrow> (u8 list \<Rightarrow> 'v::zero) \<Rightarrow> 'a netmsg_scheme \<Rightarrow> 'v \<times> 'a netmsg_scheme" where
  "nm_get w dec m = (let (ok, m) = canRead w m in
     if \<not> ok then (0, m)
     else (dec (mem_read (nm_buffer m) (nm_position m) w), m\<lparr>nm_position := wrap16 (nm_position m + w)\<rparr>))"

abbreviation get_u16 :: "'a netmsg_scheme \<Rightarrow> nat \<times> 'a netmsg_scheme" where
  "get_u16 \<equiv> nm_get 2 le_to_nat"

abbreviation get_u32 :: "'a netmsg_scheme \<Rightarrow> nat \<times> 'a netmsg_scheme" where
  "get_u32 \<equiv> nm_get 4 le_to_nat"

definition nm_getString :: "nat \<Rightarrow> 'a netmsg_scheme \<Rightarrow> u8 list \<times> 'a netmsg_scheme" where
  "nm_getString stringLen m =
    (let (len, m) = (if stringLen = 0 then get_u16 m else (stringLen, m));
         (ok, m) = canRead len m in
     if \<not> ok then ([], m)
     else (mem_read (nm_buffer m) (nm_position m) len, m\<lparr>nm_position := wrap16 (nm_position m + len)\<rparr>))"

definition nm_getPosition :: "'a netmsg_scheme \<Rightarrow> position \<times> 'a netmsg_scheme" where
  "nm_getPosition m = (let (x, m) = get_u16 m; (y, m) = get_u16 m; (z, m) = getByte m in
     (Pos (of_nat x) (of_nat y) z, m))"

definition skipBytes :: "int \<Rightarrow> 'a netmsg_scheme \<Rightarrow> 'a netmsg_scheme" where
  "skipBytes count m = m\<lparr>nm_position := nat ((int (nm_position m) + count) mod 65536)\<rparr>"

definition getLengthHeader :: "'a netmsg_scheme \<Rightarrow> nat" where
  "getLengthHeader m = unat (nm_buffer m 0) + 256 * unat (nm_buffer m 1)"

definition decodeHeader :: "'a netmsg_scheme \<Rightarrow> nat \<times> 'a netmsg_scheme" where
  "decodeHeader m = (let m = m\<lparr>nm_length := wrap16 (unat (nm_buffer m 0) + 256 * unat (nm_buffer m 1))\<rparr> in
     (nm_length m, m))"

subsection \<open>Writing\<close>

text \<open>The common tail of every writer: copy the bytes to the cursor, advance cursor and length.\<close>

definition nm_put :: "u8 list \<Rightarrow> 'a netmsg_scheme \<Rightarrow> 'a netmsg_scheme" where
  "nm_put bs m = m\<lparr>nm_buffer := mem_write (nm_buffer m) (nm_position m) bs,
     nm_position := wrap16 (nm_position m + length bs),
     nm_length := wrap16 (nm_length m + length bs)\<rparr>"

definition addByte :: "u8 \<Rightarrow> 'a netmsg_scheme \<Rightarrow> 'a netmsg_scheme" where
  "addByte v m = (if \<not> canAdd 1 m then m else nm_put [v] m)"

text \<open>\<open>add<T>\<close>: \<open>enc\<close> gives the bytes of the value, whose length is \<open>sizeof(T)\<close>.\<close>

definition nm_add :: "nat \<Rightarrow> ('v \<Rightarrow> u8 list) \<Rightarrow> 'v \<Rightarrow> 'a netmsg_scheme \<Rightarrow> 'a netmsg_scheme" where
  "nm_add w enc v m = (if \<not> canAdd w m then m else nm_put (enc v) m)"

abbreviation add_u16 :: "nat \<Rightarrow> 'a netmsg_scheme \<Rightarrow> 'a netmsg_scheme" where
  "add_u16 \<equiv> nm_add 2 (nat_to_le 2)"

abbreviation add_u32 :: "nat \<Rightarrow> 'a netmsg_scheme \<Rightarrow> 'a netmsg_scheme" where
  "add_u32 \<equiv> nm_add 4 (nat_to_le 4)"

definition addString :: "u8 list \<Rightarrow> 'a netmsg_scheme \<Rightarrow> 'a netmsg_scheme" where
  "addString value m = (let stringLen = length value in
     if \<not> canAdd (stringLen + 2) m then m
     else if stringLen > NETWORKMESSAGE_MAXSIZE then m
     else nm_put value (add_u16 stringLen m))"

text \<open>\<open>addBytes\<close>: the null pointer is \<open>None\<close>.\<close>

definition addBytes :: "u8 list option \<Rightarrow> 'a netmsg_scheme \<Rightarrow> 'a netmsg_scheme" where
  "addBytes bytes m = (case bytes of None \<Rightarrow> m
     | Some bs \<Rightarrow> if \<not> canAdd (length bs) m then m
                 else if length bs > NETWORKMESSAGE_MAXSIZE then m
                 else nm_put bs m)"

text \<open>
  \<open>addPaddingBytes\<close> has a bound of its own (the whole array) and advances the length but
  not the cursor.
\<close>

definition addPaddingBytes :: "nat \<Rightarrow> 'a netmsg_scheme \<Rightarrow> 'a netmsg_scheme" where
  "addPaddingBytes n m = (if \<not> n + nm_position m < NETWORKMESSAGE_MAXSIZE then m
     else m\<lparr>nm_buffer := mem_write (nm_buffer m) (nm_position m) (replicate n 0x33),
            nm_length := wrap16 (nm_length m + n)\<rparr>)"

definition addPosition :: "position \<Rightarrow> 'a netmsg_scheme \<Rightarrow> 'a netmsg_scheme" where
  "addPosition p m = addByte (pos_z p) (add_u16 (unat (pos_y p)) (add_u16 (unat (pos_x p)) m))"

subsection \<open>Output messages\<close>

definition add_header :: "nat \<Rightarrow> ('v \<Rightarrow> u8 list) \<Rightarrow> 'v \<Rightarrow> 'a outmsg_scheme \<Rightarrow> 'a outmsg_scheme" where
  "add_header w enc v m = (if om_start m < w then m
     else (let s = om_start m - w in
       m\<lparr>om_start := s, nm_buffer := mem_write (nm_buffer m) s (enc v),
         nm_length := wrap16 (nm_length m + w)\<rparr>))"

definition writeMessageLength :: "'a outmsg_scheme \<Rightarrow> 'a outmsg_scheme" where
  "writeMessageLength m = add_header 2 (nat_to_le 2) (nm_length m) m"

definition addCryptoHeader :: "bool \<Rightarrow> nat \<Rightarrow> 'a outmsg_scheme \<Rightarrow> 'a outmsg_scheme" where
  "addCryptoHeader addChecksum checksum m =
     writeMessageLength (if addChecksum then add_header 4 (nat_to_le 4) checksum m else m)"

definition nm_append :: "'b netmsg_scheme \<Rightarrow> 'a netmsg_scheme \<Rightarrow> 'a netmsg_scheme" where
  "nm_append msg m = (let msgLen = nm_length msg in
     m\<lparr>nm_buffer := mem_write (nm_buffer m) (nm_position m)
          (mem_read (nm_buffer msg) INITIAL_BUFFER_POSITION msgLen),
       nm_length := wrap16 (nm_length m + msgLen),
       nm_position := wrap16 (nm_position m + msgLen)\<rparr>)"

definition new_netmsg :: netmsg where
  "new_netmsg = \<lparr>nm_length = 0, nm_position = INITIAL_BUFFER_POSITION, nm_overrun = False,
     nm_buffer = (\<lambda>_. 0)\<rparr>"

definition new_outmsg :: outmsg where
  "new_outmsg = \<lparr>nm_length = 0, nm_position = INITIAL_BUFFER_POSITION, nm_overrun = False,
     nm_buffer = (\<lambda>_. 0), om_start = INITIAL_BUFFER_POSITION\<rparr>"

definition output_bytes :: "'a outmsg_scheme \<Rightarrow> u8 list" where
  "output_bytes m = mem_read (nm_buffer m) (om_start m) (nm_length m)"

subsection \<open>What a message under construction holds\<close>

text \<open>
  A message that has only been written to: the length counts the bytes between the initial
  position and the cursor, and the cursor leaves room for headers and padding.  Its abstract
  value is the list of body bytes.
\<close>

definition nm_wf :: "'a netmsg_scheme \<Rightarrow> bool" where
  "nm_wf m \<longleftrightarrow> nm_position m = nm_length m + 8 \<and> nm_position m < MAX_BODY_LENGTH"

definition nm_body :: "'a netmsg_scheme \<Rightarrow> u8 list" where
  "nm_body m = mem_read (nm_buffer m) INITIAL_BUFFER_POSITION (nm_length m)"

lemma length_nm_body [simp]: "length (nm_body m) = nm_length m"
  by (simp add: nm_body_def)

lemma nm_wf_new [simp]: "nm_wf new_netmsg" "nm_wf new_outmsg"
  by (simp_all add: nm_wf_def new_netmsg_def new_outmsg_def)

lemma canAdd_new [simp]:
  "canAdd n new_netmsg \<longleftrightarrow> n + 8 < MAX_BODY_LENGTH" "canAdd n new_outmsg \<longleftrightarrow> n + 8 < MAX_BODY_LENGTH"
  by (simp_all add: canAdd_def new_netmsg_def new_outmsg_def)

lemma nm_body_new [simp]: "nm_body new_netmsg = []" "nm_body new_outmsg = []"
  by (simp_all add: nm_body_def new_netmsg_def new_outmsg_def)

lemma nm_put_wf: "nm_wf m \<Longrightarrow> canAdd (length bs) m \<Longrightarrow> nm_wf (nm_put bs m)"
  by (simp add: nm_wf_def canAdd_def nm_put_def)

lemma nm_put_length:
  "nm_wf m \<Longrightarrow> canAdd (length bs) m \<Longrightarrow> nm_length (nm_put bs m) = nm_length m + length bs"
  by (simp add: nm_wf_def canAdd_def nm_put_def)

lemma nm_put_body: "nm_wf m \<Longrightarrow> canAdd (length bs) m \<Longrightarrow> nm_body (nm_put bs m) = nm_body m @ bs"
  using mem_read_add [of "nm_buffer (nm_put bs m)" 8 "nm_length m" "length bs"]
  by (simp add: nm_body_def nm_put_length) (simp add: nm_put_def nm_wf_def mem_simps add.commute)

lemma nm_put_outside:
  "nm_wf m \<Longrightarrow> canAdd (length bs) m \<Longrightarrow> i < INITIAL_BUFFER_POSITION \<or> MAX_BODY_LENGTH \<le> i \<Longrightarrow>
    nm_buffer (nm_put bs m) i = nm_buffer m i"
  by (auto simp: nm_put_def nm_wf_def canAdd_def mem_simps)

lemma canAdd_mono: "canAdd n m \<Longrightarrow> k \<le> n \<Longrightarrow> canAdd k m"
  by (simp add: canAdd_def)

lemma canAdd_put: "nm_wf m \<Longrightarrow> canAdd (length bs + k) m \<Longrightarrow> canAdd k (nm_put bs m)"
  by (simp add: nm_wf_def canAdd_def nm_put_def)

lemmas nm_put_facts = nm_put_wf nm_put_length nm_put_body

subsection \<open>What a message being read still holds\<close>

definition nm_reading :: "'a netmsg_scheme \<Rightarrow> bool" where
  "nm_reading m \<longleftrightarrow> nm_position m \<le> nm_length m + 8 \<and> nm_length m + 8 < NETWORKMESSAGE_MAXSIZE"

definition nm_rest :: "'a netmsg_scheme \<Rightarrow> u8 list" where
  "nm_rest m = mem_read (nm_buffer m) (nm_position m) (nm_length m + 8 - nm_position m)"

lemma length_nm_rest [simp]: "length (nm_rest m) = nm_length m + 8 - nm_position m"
  by (simp add: nm_rest_def)

lemma canRead_iff:
  "nm_reading m \<Longrightarrow> canRead n m =
    (if n \<le> length (nm_rest m) then (True, m) else (False, m\<lparr>nm_overrun := True\<rparr>))"
  by (auto simp: canRead_def nm_reading_def)

lemma mem_read_take: "n \<le> k \<Longrightarrow> mem_read m p n = take n (mem_read m p k)"
  by (rule nth_equalityI) auto

lemma mem_read_drop: "mem_read m (p + n) (k - n) = drop n (mem_read m p k)"
  by (rule nth_equalityI) (auto simp: add.assoc)

text \<open>Reading \<open>n\<close> bytes moves the cursor over the first \<open>n\<close> bytes of the rest.\<close>

lemma nm_advance:
  assumes "nm_reading m" "n \<le> length (nm_rest m)"
  defines "m' \<equiv> m\<lparr>nm_position := wrap16 (nm_position m + n)\<rparr>"
  shows "nm_reading m'" "nm_rest m' = drop n (nm_rest m)"
    "mem_read (nm_buffer m) (nm_position m) n = take n (nm_rest m)"
proof -
  have p: "wrap16 (nm_position m + n) = nm_position m + n"
    using assms by (auto simp: nm_reading_def)
  show "nm_reading m'" using assms by (auto simp: nm_reading_def p)
  show "nm_rest m' = drop n (nm_rest m)"
    unfolding m'_def nm_rest_def by (simp add: p flip: mem_read_drop)
  show "mem_read (nm_buffer m) (nm_position m) n = take n (nm_rest m)"
    unfolding nm_rest_def using assms(2) by (intro mem_read_take) simp
qed

subsection \<open>Wire types: the contract of the \<open>get\<close> and \<open>add\<close> templates\<close>

text \<open>
  The templates \<open>get<T>\<close> and \<open>add<T>\<close> work for any type of fixed size whose bytes determine
  its value.  That is the interface below; the reader and writer laws are proved from it once.
\<close>

locale wire_type =
  fixes valid :: "'v::zero \<Rightarrow> bool"
    and width :: nat
    and enc :: "'v \<Rightarrow> u8 list"
    and dec :: "u8 list \<Rightarrow> 'v"
  assumes enc_length: "length (enc v) = width"
    and dec_enc: "valid v \<Longrightarrow> dec (enc v) = v"
begin

lemma add_fits:
  assumes "nm_wf m" "canAdd width m"
  shows "nm_wf (nm_add width enc v m)" "nm_body (nm_add width enc v m) = nm_body m @ enc v"
    "nm_length (nm_add width enc v m) = nm_length m + width"
  using assms nm_put_facts [of m "enc v"] by (simp_all add: nm_add_def enc_length)

lemma add_wf: "nm_wf m \<Longrightarrow> nm_wf (nm_add width enc v m)"
  using nm_put_wf [of m "enc v"] by (simp add: nm_add_def enc_length)

lemma add_outside:
  "nm_wf m \<Longrightarrow> i < INITIAL_BUFFER_POSITION \<or> MAX_BODY_LENGTH \<le> i \<Longrightarrow>
    nm_buffer (nm_add width enc v m) i = nm_buffer m i"
  using nm_put_outside [of m "enc v"] by (simp add: nm_add_def enc_length)

lemma add_full: "\<not> canAdd width m \<Longrightarrow> nm_add width enc v m = m"
  by (simp add: nm_add_def)

lemma get_enc:
  assumes "nm_reading m" "nm_rest m = enc v @ rest" "valid v"
  shows "\<exists>m'. nm_get width dec m = (v, m') \<and> nm_reading m' \<and> nm_rest m' = rest"
proof -
  have n: "width \<le> length (nm_rest m)"
    by (simp only: assms(2) length_append enc_length)
  have "nm_get width dec m = (v, m\<lparr>nm_position := wrap16 (nm_position m + width)\<rparr>)"
    unfolding nm_get_def canRead_iff [OF assms(1)]
    using n nm_advance(3) [OF assms(1) n] by (simp add: assms(2,3) enc_length dec_enc)
  then show ?thesis using nm_advance(1,2) [OF assms(1) n] by (simp add: assms(2) enc_length)
qed

lemma get_short:
  "nm_reading m \<Longrightarrow> length (nm_rest m) < width \<Longrightarrow> nm_get width dec m = (0, m\<lparr>nm_overrun := True\<rparr>)"
  by (simp add: nm_get_def canRead_iff)

end

interpretation w16: wire_type "\<lambda>v. v < 65536" 2 "nat_to_le 2" le_to_nat
  by unfold_locales (simp_all add: le_to_nat_nat_to_le)

interpretation w32: wire_type "\<lambda>v. v < 4294967296" 4 "nat_to_le 4" le_to_nat
  by unfold_locales (simp_all add: le_to_nat_nat_to_le)

text \<open>\<open>getByte\<close> and \<open>addByte\<close> are the instance at one byte.\<close>

definition byte_of :: "u8 list \<Rightarrow> u8" where
  "byte_of bs = (case bs of [] \<Rightarrow> 0 | b # _ \<Rightarrow> b)"

lemma addByte_eq: "addByte v m = nm_add 1 (\<lambda>b. [b]) v m"
  by (simp add: addByte_def nm_add_def)

lemma getByte_eq: "getByte m = nm_get 1 byte_of m"
  by (simp add: getByte_def nm_get_def canRead_def byte_of_def mem_read_def)

interpretation w8: wire_type "\<lambda>_. True" 1 "\<lambda>b. [b]" byte_of
  by unfold_locales (simp_all add: byte_of_def)

subsection \<open>Packets as sequences of fields\<close>

text \<open>
  The packet writers of the protocol classes are sequences of \<open>add\<close> calls, the parsers
  sequences of \<open>get\<close> calls.  A field names one such pair; \<open>field_bytes\<close> is the wire format.
\<close>

datatype field = FByte u8 | FU16 nat | FU32 nat | FString "u8 list" | FPosition position

fun write_field :: "field \<Rightarrow> 'a netmsg_scheme \<Rightarrow> 'a netmsg_scheme" where
  "write_field (FByte b) m = addByte b m"
| "write_field (FU16 n) m = add_u16 n m"
| "write_field (FU32 n) m = add_u32 n m"
| "write_field (FString bs) m = addString bs m"
| "write_field (FPosition p) m = addPosition p m"

fun read_field :: "field \<Rightarrow> 'a netmsg_scheme \<Rightarrow> field \<times> 'a netmsg_scheme" where
  "read_field (FByte _) m = apfst FByte (getByte m)"
| "read_field (FU16 _) m = apfst FU16 (get_u16 m)"
| "read_field (FU32 _) m = apfst FU32 (get_u32 m)"
| "read_field (FString _) m = apfst FString (nm_getString 0 m)"
| "read_field (FPosition _) m = apfst FPosition (nm_getPosition m)"

fun read_fields :: "field list \<Rightarrow> 'a netmsg_scheme \<Rightarrow> field list \<times> 'a netmsg_scheme" where
  "read_fields [] m = ([], m)"
| "read_fields (k # ks) m =
    (let (f, m) = read_field k m; (fs, m) = read_fields ks m in (f # fs, m))"

fun field_bytes :: "field \<Rightarrow> u8 list" where
  "field_bytes (FByte b) = [b]"
| "field_bytes (FU16 n) = nat_to_le 2 n"
| "field_bytes (FU32 n) = nat_to_le 4 n"
| "field_bytes (FString bs) = nat_to_le 2 (length bs) @ bs"
| "field_bytes (FPosition p) =
    nat_to_le 2 (unat (pos_x p)) @ nat_to_le 2 (unat (pos_y p)) @ [pos_z p]"

fun field_ok :: "field \<Rightarrow> bool" where
  "field_ok (FU16 n) \<longleftrightarrow> n < 65536"
| "field_ok (FU32 n) \<longleftrightarrow> n < 4294967296"
| "field_ok (FString bs) \<longleftrightarrow> length bs < 65536"
| "field_ok _ \<longleftrightarrow> True"

lemmas put_u16 = nm_put_facts [of _ "nat_to_le 2 n" for n]

lemma addString_fits:
  assumes "nm_wf m" "canAdd (length bs + 2) m"
  shows "nm_wf (addString bs m) \<and> nm_body (addString bs m) = nm_body m @ field_bytes (FString bs)"
proof -
  have c: "canAdd 2 m" using assms(2) by (rule canAdd_mono) simp
  have c': "canAdd (length bs) (nm_put (nat_to_le 2 (length bs)) m)"
    using assms by (intro canAdd_put) (simp_all add: add.commute)
  have "\<not> length bs > NETWORKMESSAGE_MAXSIZE" using assms(2) by (simp add: canAdd_def)
  then have "addString bs m = nm_put bs (nm_put (nat_to_le 2 (length bs)) m)"
    using assms(2) c by (simp add: addString_def nm_add_def)
  then show ?thesis using assms(1) c c' by (simp add: nm_put_facts)
qed

lemma addPosition_fits:
  assumes "nm_wf m" "canAdd (length (field_bytes (FPosition p))) m"
  shows "nm_wf (addPosition p m) \<and> nm_body (addPosition p m) = nm_body m @ field_bytes (FPosition p)"
proof -
  let ?x = "nat_to_le 2 (unat (pos_x p))" and ?y = "nat_to_le 2 (unat (pos_y p))"
  have five: "canAdd (length ?x + (length ?y + 1)) m" using assms(2) by simp
  then have c: "canAdd 2 m" by (rule canAdd_mono) simp
  have c2: "canAdd (length ?y + 1) (nm_put ?x m)" using assms(1) five by (rule canAdd_put)
  then have c3: "canAdd 2 (nm_put ?x m)" by (rule canAdd_mono) simp
  have w: "nm_wf (nm_put ?x m)" using assms(1) c by (simp add: nm_put_wf)
  have c4: "canAdd 1 (nm_put ?y (nm_put ?x m))" using w c2 by (rule canAdd_put)
  have "addPosition p m = nm_put [pos_z p] (nm_put ?y (nm_put ?x m))"
    using c c3 c4 by (simp add: addPosition_def addByte_def nm_add_def)
  then show ?thesis using assms(1) c c3 c4 w by (simp add: nm_put_facts)
qed

lemma write_field_fits:
  "nm_wf m \<Longrightarrow> canAdd (length (field_bytes f)) m \<Longrightarrow>
    nm_wf (write_field f m) \<and> nm_body (write_field f m) = nm_body m @ field_bytes f"
proof (cases f)
  case (FByte b)
  then show "nm_wf m \<Longrightarrow> canAdd (length (field_bytes f)) m \<Longrightarrow> ?thesis"
    using w8.add_fits [of m b] by (simp add: addByte_eq)
next
  case (FPosition p)
  then show "nm_wf m \<Longrightarrow> canAdd (length (field_bytes f)) m \<Longrightarrow> ?thesis"
    using addPosition_fits [of m p] by (simp only: write_field.simps)
qed (simp_all add: w16.add_fits w32.add_fits addString_fits [simplified])

lemma canAdd_wf: "nm_wf m \<Longrightarrow> canAdd n m \<longleftrightarrow> n + length (nm_body m) + 8 < MAX_BODY_LENGTH"
  by (auto simp: canAdd_def nm_wf_def)

lemma write_fields_fit:
  "nm_wf m \<Longrightarrow> length (nm_body m) + length (concat (map field_bytes fs)) + 8 < MAX_BODY_LENGTH \<Longrightarrow>
    nm_wf (fold write_field fs m) \<and> nm_body (fold write_field fs m) = nm_body m @ concat (map field_bytes fs)"
proof (induction fs arbitrary: m)
  case (Cons f fs)
  then have c: "canAdd (length (field_bytes f)) m" by (simp add: canAdd_wf)
  note w = write_field_fits [OF Cons.prems(1) c]
  have "length (nm_body (write_field f m)) + length (concat (map field_bytes fs)) + 8 < MAX_BODY_LENGTH"
    using Cons.prems(2) by (subst w [THEN conjunct2]) simp
  from Cons.IH [OF w [THEN conjunct1] this] show ?case using w by simp
qed simp

lemma read_string_eq:
  assumes r: "nm_reading m" and s: "nm_rest m = field_bytes (FString bs) @ rest"
    and ok: "field_ok (FString bs)"
  shows "\<exists>m'. nm_getString 0 m = (bs, m') \<and> nm_reading m' \<and> nm_rest m' = rest"
proof -
  obtain m1 where m1: "get_u16 m = (length bs, m1)" "nm_reading m1" "nm_rest m1 = bs @ rest"
    using w16.get_enc [OF r, of "length bs" "bs @ rest"] s ok by auto
  have n: "length bs \<le> length (nm_rest m1)" by (simp only: m1(3) length_append)
  show ?thesis
    using m1 n nm_advance [OF m1(2) n] by (simp add: nm_getString_def canRead_iff)
qed

lemma read_position_eq:
  assumes r: "nm_reading m" and s: "nm_rest m = field_bytes (FPosition p) @ rest"
  shows "\<exists>m'. nm_getPosition m = (p, m') \<and> nm_reading m' \<and> nm_rest m' = rest"
proof -
  have lt: "unat (w :: 16 word) < 65536" for w using unsigned_less [of w] by simp
  obtain m1 where m1: "get_u16 m = (unat (pos_x p), m1)" "nm_reading m1"
      "nm_rest m1 = nat_to_le 2 (unat (pos_y p)) @ [pos_z p] @ rest"
    using w16.get_enc [OF r, of "unat (pos_x p)"] s lt by auto
  obtain m2 where m2: "get_u16 m1 = (unat (pos_y p), m2)" "nm_reading m2" "nm_rest m2 = [pos_z p] @ rest"
    using w16.get_enc [OF m1(2,3)] lt by auto
  obtain m3 where "getByte m2 = (pos_z p, m3)" "nm_reading m3" "nm_rest m3 = rest"
    using w8.get_enc [OF m2(2,3)] by (auto simp: getByte_eq)
  with m1 m2 show ?thesis by (simp add: nm_getPosition_def)
qed

lemma read_field_eq:
  assumes "nm_reading m" "nm_rest m = field_bytes f @ rest" "field_ok f"
  shows "\<exists>m'. read_field f m = (f, m') \<and> nm_reading m' \<and> nm_rest m' = rest"
proof (cases f)
  case (FByte b)
  then show ?thesis using assms w8.get_enc [of m b rest] by (auto simp: getByte_eq)
next
  case (FU16 n)
  then show ?thesis using assms w16.get_enc [of m n rest] by auto
next
  case (FU32 n)
  then show ?thesis using assms w32.get_enc [of m n rest] by auto
next
  case (FString bs)
  then show ?thesis using assms read_string_eq [of m bs rest] by auto
next
  case (FPosition p)
  then show ?thesis using assms read_position_eq [of m p rest] by auto
qed

lemma read_fields_eq:
  "nm_reading m \<Longrightarrow> nm_rest m = concat (map field_bytes fs) @ rest \<Longrightarrow> \<forall>f \<in> set fs. field_ok f \<Longrightarrow>
    \<exists>m'. read_fields fs m = (fs, m') \<and> nm_reading m' \<and> nm_rest m' = rest"
proof (induction fs arbitrary: m)
  case (Cons f fs)
  then obtain m1 where m1: "read_field f m = (f, m1)" "nm_reading m1"
      "nm_rest m1 = concat (map field_bytes fs) @ rest"
    using read_field_eq [of m f "concat (map field_bytes fs) @ rest"] by auto
  with Cons.IH [OF m1(2,3)] Cons.prems(3) show ?case by auto
qed simp

text \<open>
  C5: Every sequence of fields written to a fresh message that fits the body limit is read back
  unchanged, in the same order, by the matching \<open>get\<close> calls once the cursor is set back to the
  start of the body, and the reader consumes the message exactly.
\<close>

theorem packet_roundtrip:
  assumes "\<forall>f \<in> set fs. field_ok f"
    and "length (concat (map field_bytes fs)) + 8 < MAX_BODY_LENGTH"
  shows "\<exists>m. read_fields fs ((fold write_field fs new_netmsg)\<lparr>nm_position := INITIAL_BUFFER_POSITION\<rparr>) = (fs, m)
    \<and> nm_rest m = []"
proof -
  let ?w = "fold write_field fs new_netmsg"
  let ?m = "?w\<lparr>nm_position := INITIAL_BUFFER_POSITION\<rparr>"
  have w: "nm_wf ?w" "nm_body ?w = concat (map field_bytes fs)"
    using write_fields_fit [OF nm_wf_new(1), of fs] assms(2) by simp_all
  have "nm_reading ?m" using w(1) by (simp add: nm_reading_def nm_wf_def)
  moreover have "nm_rest ?m = concat (map field_bytes fs) @ []"
    using w(2) by (simp add: nm_rest_def nm_body_def)
  ultimately show ?thesis using read_fields_eq [of ?m fs "[]"] assms(1) by auto
qed

theorem packet_roundtrip_witness:
  "\<exists>m. read_fields [FByte 10, FString [72, 105], FPosition (Pos 95 117 7)]
      ((fold write_field [FByte 10, FString [72, 105], FPosition (Pos 95 117 7)] new_netmsg)
        \<lparr>nm_position := INITIAL_BUFFER_POSITION\<rparr>)
      = ([FByte 10, FString [72, 105], FPosition (Pos 95 117 7)], m) \<and> nm_rest m = []"
  by (rule packet_roundtrip) simp_all

subsection \<open>Writers stay inside the buffer\<close>

definition writes_inside :: "'a netmsg_scheme \<Rightarrow> 'a netmsg_scheme \<Rightarrow> bool" where
  "writes_inside m m' \<longleftrightarrow> nm_wf m' \<and>
     (\<forall>i. i < INITIAL_BUFFER_POSITION \<or> MAX_BODY_LENGTH \<le> i \<longrightarrow> nm_buffer m' i = nm_buffer m i)"

lemma writes_inside_refl: "nm_wf m \<Longrightarrow> writes_inside m m"
  by (simp add: writes_inside_def)


lemma writes_inside_put: "nm_wf m \<Longrightarrow> canAdd (length bs) m \<Longrightarrow> writes_inside m (nm_put bs m)"
  by (simp add: writes_inside_def nm_put_wf nm_put_outside)


lemma writes_inside_addBytes: "nm_wf m \<Longrightarrow> writes_inside m (addBytes bytes m)"
  by (auto simp: addBytes_def intro: writes_inside_refl writes_inside_put split: option.splits)






text \<open>A read past the end returns zero, raises the overrun flag and leaves the cursor alone.\<close>

lemma getByte_overrun:
  "nm_reading m \<Longrightarrow> nm_rest m = [] \<Longrightarrow> getByte m = (0, m\<lparr>nm_overrun := True\<rparr>)"
  using w8.get_short [of m] by (simp add: getByte_eq)

text \<open>Stepping back undoes a successful \<open>getByte\<close>.\<close>

lemma getPreviousByte_getByte:
  assumes "nm_reading m" "nm_rest m \<noteq> []"
  shows "getPreviousByte (snd (getByte m)) = (fst (getByte m), m)"
proof -
  have n: "1 \<le> length (nm_rest m)" using assms(2) by (cases "nm_rest m") (auto simp del: length_nm_rest)
  have p: "nm_position m + 1 < 65536" using assms(1) n by (auto simp: nm_reading_def)
  show ?thesis
    using n p by (simp add: getByte_def canRead_iff [OF assms(1)] getPreviousByte_def)
      (simp add: wrap16_def)
qed

end
