(* ===== verification/Xtea.thy ===== *)
theory Xtea
  imports Prelude
begin

text \<open>
  The packet cipher of \<open>server/network/protocol/protocol.cpp\<close>: the two tables of round
  sums that \<open>XTEA_encrypt\<close> and \<open>XTEA_decrypt\<close> compute, the thirty-two Feistel rounds on a
  pair of 32-bit words, and the loop that runs them over the buffer in steps of eight bytes.
  The contract between the two directions is the locale \<open>block_cipher\<close>; the loop is proved
  to invert in the locale, and the cipher of the code is an interpretation for every key.
\<close>

unbundle bit_operations_syntax

subsection \<open>Round sums\<close>

type_synonym xtea_key = "u32 \<times> u32 \<times> u32 \<times> u32"

abbreviation xtea_delta :: u32 where "xtea_delta \<equiv> 0x61C88647"

definition key_at :: "xtea_key \<Rightarrow> u32 \<Rightarrow> u32" where
  "key_at key i = (case key of (k0, k1, k2, k3) \<Rightarrow>
     if i = 0 then k0 else if i = 1 then k1 else if i = 2 then k2 else k3)"

definition key_lo :: "xtea_key \<Rightarrow> u32 \<Rightarrow> u32" where
  "key_lo key sm = sm + key_at key (sm AND 3)"

definition key_hi :: "xtea_key \<Rightarrow> u32 \<Rightarrow> u32" where
  "key_hi key sm = sm + key_at key (drop_bit 11 sm AND 3)"

text \<open>The loops that fill \<open>precachedControlSum\<close>: one row per round, the sum running along.\<close>

fun encrypt_sums :: "xtea_key \<Rightarrow> nat \<Rightarrow> u32 \<Rightarrow> (u32 \<times> u32) list" where
  "encrypt_sums key 0 sm = []"
| "encrypt_sums key (Suc n) sm =
    (let sm' = sm - xtea_delta in (key_lo key sm, key_hi key sm') # encrypt_sums key n sm')"

fun decrypt_sums :: "xtea_key \<Rightarrow> nat \<Rightarrow> u32 \<Rightarrow> (u32 \<times> u32) list" where
  "decrypt_sums key 0 sm = []"
| "decrypt_sums key (Suc n) sm =
    (let sm' = sm + xtea_delta in (key_hi key sm, key_lo key sm') # decrypt_sums key n sm')"

subsection \<open>Rounds and blocks\<close>

definition xtea_mix :: "u32 \<Rightarrow> u32" where
  "xtea_mix v = (push_bit 4 v XOR drop_bit 5 v) + v"

fun encrypt_round :: "u32 \<times> u32 \<Rightarrow> u32 \<times> u32 \<Rightarrow> u32 \<times> u32" where
  "encrypt_round (s0, s1) (v0, v1) =
    (let v0 = v0 + (xtea_mix v1 XOR s0); v1 = v1 + (xtea_mix v0 XOR s1) in (v0, v1))"

fun decrypt_round :: "u32 \<times> u32 \<Rightarrow> u32 \<times> u32 \<Rightarrow> u32 \<times> u32" where
  "decrypt_round (s0, s1) (v0, v1) =
    (let v1 = v1 - (xtea_mix v0 XOR s0); v0 = v0 - (xtea_mix v1 XOR s1) in (v0, v1))"

definition encrypt_block :: "xtea_key \<Rightarrow> u32 \<times> u32 \<Rightarrow> u32 \<times> u32" where
  "encrypt_block key v = fold encrypt_round (encrypt_sums key 32 0) v"

definition decrypt_block :: "xtea_key \<Rightarrow> u32 \<times> u32 \<Rightarrow> u32 \<times> u32" where
  "decrypt_block key v = fold decrypt_round (decrypt_sums key 32 0xC6EF3720) v"

text \<open>Eight bytes as two little-endian words (the two \<open>memcpy\<close> calls around the rounds).\<close>

definition block_of :: "u8 list \<Rightarrow> u32 \<times> u32" where
  "block_of bs = (of_nat (le_to_nat (take 4 bs)), of_nat (le_to_nat (drop 4 bs)))"

definition bytes_of :: "u32 \<times> u32 \<Rightarrow> u8 list" where
  "bytes_of v = nat_to_le 4 (unat (fst v)) @ nat_to_le 4 (unat (snd v))"

text \<open>
  The \<open>while (readPos < messageLength)\<close> loop, \<open>start\<close> being where the buffer pointer stands.
\<close>

function block_loop :: "(u32 \<times> u32 \<Rightarrow> u32 \<times> u32) \<Rightarrow> nat \<Rightarrow> nat \<Rightarrow> nat \<Rightarrow> memory \<Rightarrow> memory" where
  "block_loop f start readPos messageLength buf =
    (if readPos < messageLength
     then block_loop f start (readPos + 8) messageLength
            (mem_write buf (start + readPos) (bytes_of (f (block_of (mem_read buf (start + readPos) 8)))))
     else buf)"
  by pat_completeness auto
termination
  by (relation "measure (\<lambda>(_, _, p, n, _). n - p)") auto

declare block_loop.simps [simp del]

subsection \<open>The sum tables are each other's mirror image\<close>

lemma encrypt_sums_snoc:
  "encrypt_sums key (Suc n) sm = encrypt_sums key n sm @
     [(key_lo key (sm - of_nat n * xtea_delta), key_hi key (sm - of_nat (Suc n) * xtea_delta))]"
proof (induction n arbitrary: sm)
  case (Suc n)
  have "encrypt_sums key (Suc (Suc n)) sm =
      (key_lo key sm, key_hi key (sm - xtea_delta)) # encrypt_sums key (Suc n) (sm - xtea_delta)"
    by (simp only: encrypt_sums.simps Let_def)
  also have "\<dots> = encrypt_sums key (Suc n) sm @
      [(key_lo key (sm - xtea_delta - of_nat n * xtea_delta),
        key_hi key (sm - xtea_delta - of_nat (Suc n) * xtea_delta))]"
    by (subst Suc.IH) (simp only: encrypt_sums.simps Let_def append_Cons)
  finally show ?case by (simp add: algebra_simps del: encrypt_sums.simps)
qed (simp add: Let_def)

lemma decrypt_sums_mirror:
  "decrypt_sums key n (sm - of_nat n * xtea_delta) = rev (map prod.swap (encrypt_sums key n sm))"
proof (induction n)
  case (Suc n)
  have s: "sm - of_nat (Suc n) * xtea_delta + xtea_delta = sm - of_nat n * xtea_delta"
    by (simp add: algebra_simps)
  show ?case
    unfolding encrypt_sums_snoc decrypt_sums.simps Let_def s using Suc by simp
qed simp

lemma decrypt_start: "(0 :: u32) - of_nat 32 * xtea_delta = 0xC6EF3720"
  by simp

lemma decrypt_sums_32: "decrypt_sums key 32 0xC6EF3720 = rev (map prod.swap (encrypt_sums key 32 0))"
  using decrypt_sums_mirror [of key 32 0] by (simp only: decrypt_start)

subsection \<open>Rounds and blocks invert\<close>

lemma decrypt_encrypt_round: "decrypt_round (prod.swap s) (encrypt_round s v) = v"
  by (cases s; cases v) (simp add: Let_def)

lemma encrypt_decrypt_round: "encrypt_round s (decrypt_round (prod.swap s) v) = v"
  by (cases s; cases v) (simp add: Let_def)

lemma fold_rounds_inverse:
  assumes "\<And>s v. g (prod.swap s) (f s v) = v"
  shows "fold g (rev (map prod.swap ss)) (fold f ss v) = v"
  by (induction ss arbitrary: v) (simp_all add: fold_append assms)

lemma decrypt_encrypt_block: "decrypt_block key (encrypt_block key v) = v"
  unfolding decrypt_block_def encrypt_block_def decrypt_sums_32
  by (rule fold_rounds_inverse) (rule decrypt_encrypt_round)

lemma encrypt_decrypt_block: "encrypt_block key (decrypt_block key v) = v"
proof -
  let ?e = "encrypt_sums key 32 0"
  have "fold encrypt_round (rev (map prod.swap (rev (map prod.swap ?e))))
      (fold decrypt_round (rev (map prod.swap ?e)) v) = v"
    by (rule fold_rounds_inverse) (metis encrypt_decrypt_round swap_swap)
  then show ?thesis
    by (simp add: decrypt_block_def encrypt_block_def decrypt_sums_32 rev_map)
qed

lemma length_bytes_of [simp]: "length (bytes_of v) = 8"
  by (simp add: bytes_of_def)

lemma block_of_bytes_of [simp]: "block_of (bytes_of v) = v"
proof -
  have u: "unat (w :: u32) mod 4294967296 = unat w" for w
    using unat_u32_less [of w] by simp
  show ?thesis by (simp add: block_of_def bytes_of_def le_to_nat_nat_to_le u)
qed

lemma bytes_of_block_of: "length bs = 8 \<Longrightarrow> bytes_of (block_of bs) = bs"
proof -
  assume bs: "length bs = 8"
  have u: "nat_to_le 4 (unat (of_nat (le_to_nat xs) :: u32)) = xs" if "length xs = 4" for xs
    using le_to_nat_less [of xs] nat_to_le_le_to_nat [of xs] that by (simp add: unat_of_nat)
  show ?thesis using bs by (simp add: block_of_def bytes_of_def u)
qed

subsection \<open>The loop over the buffer\<close>

text \<open>
  The two directions of a block cipher, as the send and receive paths use them.  Everything
  about the loop follows from \<open>dec (enc v) = v\<close> alone.
\<close>

locale block_cipher =
  fixes enc :: "u32 \<times> u32 \<Rightarrow> u32 \<times> u32"
    and dec :: "u32 \<times> u32 \<Rightarrow> u32 \<times> u32"
  assumes dec_enc: "dec (enc v) = v"

lemma block_loop_stop: "messageLength \<le> readPos \<Longrightarrow> block_loop f start readPos messageLength buf = buf"
  by (simp add: block_loop.simps [of f start readPos])

lemma block_loop_step:
  "readPos < messageLength \<Longrightarrow> block_loop f start readPos messageLength buf =
    block_loop f start (readPos + 8) messageLength
      (mem_write buf (start + readPos) (bytes_of (f (block_of (mem_read buf (start + readPos) 8)))))"
  by (simp add: block_loop.simps [of f start readPos])

lemma next_block:
  fixes n p :: nat
  assumes "8 dvd n - p" "p < n"
  shows "8 dvd n - (p + 8)" "p + 8 \<le> n"
proof -
  show "p + 8 \<le> n" using dvd_imp_le [OF assms(1)] assms(2) by linarith
  then have "n - p = 8 + (n - (p + 8))" by linarith
  then show "8 dvd n - (p + 8)" using assms(1) by (simp only: dvd_add_right_iff dvd_refl)
qed

text \<open>The loop touches only the blocks from \<open>readPos\<close> on, and it reads nothing else.\<close>

lemma block_loop_outside:
  "8 dvd n - p \<Longrightarrow> i < start + p \<or> start + n \<le> i \<Longrightarrow> block_loop f start p n buf i = buf i"
proof (induction f start p n buf rule: block_loop.induct)
  case (1 f start p n buf)
  show ?case
  proof (cases "p < n")
    case True
    then have d: "8 dvd n - (p + 8)" "p + 8 \<le> n"
      using next_block "1.prems"(1) True by blast+
    show ?thesis unfolding block_loop_step [OF True]
      using "1.IH" [OF True d(1)] "1.prems"(2) d(2) by (auto simp: mem_simps)
  qed (simp add: block_loop_stop)
qed

text \<open>
  Reference: the cipher over a byte string whose length is a multiple of eight.  The in-place
  loop computes it on the region it runs over.
\<close>

function crypt_bytes :: "(u32 \<times> u32 \<Rightarrow> u32 \<times> u32) \<Rightarrow> u8 list \<Rightarrow> u8 list" where
  "crypt_bytes f bs =
    (if bs = [] then [] else bytes_of (f (block_of (take 8 bs))) @ crypt_bytes f (drop 8 bs))"
  by pat_completeness auto
termination
  by (relation "measure (\<lambda>(_, bs). length bs)") auto

declare crypt_bytes.simps [simp del]

lemma crypt_bytes_Nil [simp]: "crypt_bytes f [] = []"
  by (simp add: crypt_bytes.simps)

lemma crypt_bytes_block:
  "length b = 8 \<Longrightarrow> crypt_bytes f (b @ bs) = bytes_of (f (block_of b)) @ crypt_bytes f bs"
  by (subst crypt_bytes.simps) auto

lemma block_induct [consumes 1, case_names Nil Block]:
  assumes "8 dvd length bs" "P []"
    and "\<And>b cs. length b = 8 \<Longrightarrow> 8 dvd length cs \<Longrightarrow> P cs \<Longrightarrow> P (b @ cs)"
  shows "P bs"
  using assms(1)
proof (induction bs rule: length_induct)
  case (1 bs)
  show ?case
  proof (cases "bs = []")
    case False
    then have n: "8 dvd length bs - (0 + 8)" "0 + 8 \<le> length bs"
      using next_block [of "length bs" 0] "1.prems" by simp_all
    then have "P (take 8 bs @ drop 8 bs)"
      using "1.IH" by (intro assms(3)) simp_all
    then show ?thesis by simp
  qed (simp add: assms(2))
qed

lemma length_crypt_bytes: "8 dvd length bs \<Longrightarrow> length (crypt_bytes f bs) = length bs"
  by (induction bs rule: block_induct) (simp_all add: crypt_bytes_block)

lemma block_loop_refines:
  "8 dvd n - p \<Longrightarrow> mem_read (block_loop f start p n buf) (start + p) (n - p)
    = crypt_bytes f (mem_read buf (start + p) (n - p))"
proof (induction f start p n buf rule: block_loop.induct)
  case (1 f start p n buf)
  show ?case
  proof (cases "p < n")
    case True
    note d = next_block [OF "1.prems" True]
    let ?b = "bytes_of (f (block_of (mem_read buf (start + p) 8)))"
    let ?w = "mem_write buf (start + p) ?b"
    let ?l = "block_loop f start (p + 8) n ?w"
    have n: "n - p = 8 + (n - (p + 8))" using d(2) by linarith
    have first: "mem_read ?l (start + p) 8 = ?b"
    proof -
      have "mem_read ?l (start + p) 8 = mem_read ?w (start + p) 8"
        by (rule mem_read_cong) (simp add: block_loop_outside [OF d(1)])
      then show ?thesis by (simp add: mem_simps)
    qed
    have rest: "mem_read ?l (start + p + 8) (n - (p + 8)) =
        crypt_bytes f (mem_read buf (start + p + 8) (n - (p + 8)))"
      using "1.IH" [OF True d(1)] by (simp add: add.assoc mem_simps)
    show ?thesis unfolding block_loop_step [OF True]
      by (simp only: n mem_read_add first rest) (simp add: crypt_bytes_block)
  qed (simp add: block_loop_stop)
qed

context block_cipher
begin

lemma crypt_inverse: "8 dvd length bs \<Longrightarrow> crypt_bytes dec (crypt_bytes enc bs) = bs"
  by (induction bs rule: block_induct)
    (simp_all add: crypt_bytes_block dec_enc bytes_of_block_of)

lemma loop_inverse:
  assumes "8 dvd n"
    and "mem_read b start' n = mem_read (block_loop enc start 0 n buf) start n"
  shows "mem_read (block_loop dec start' 0 n b) start' n = mem_read buf start n"
  using block_loop_refines [of n 0 dec start' b] block_loop_refines [of n 0 enc start buf] assms
  by (simp add: crypt_inverse)

end

interpretation xtea: block_cipher "encrypt_block key" "decrypt_block key" for key
  by unfold_locales (rule decrypt_encrypt_block)

interpretation xtea_inv: block_cipher "decrypt_block key" "encrypt_block key" for key
  by unfold_locales (rule encrypt_decrypt_block)

text \<open>
  C2: For every key, encrypting a buffer region of whole blocks in place with \<open>XTEA_encrypt\<close>'s
  loop and running \<open>XTEA_decrypt\<close>'s loop over those bytes, wherever they then stand, restores
  the plain text; bytes outside the region are never touched.
\<close>

theorem xtea_roundtrip:
  assumes "8 dvd n"
    and "mem_read b start' n = mem_read (block_loop (encrypt_block key) start 0 n buf) start n"
  shows "mem_read (block_loop (decrypt_block key) start' 0 n b) start' n = mem_read buf start n \<and>
    (\<forall>i. i < start' \<or> start' + n \<le> i \<longrightarrow> block_loop (decrypt_block key) start' 0 n b i = b i)"
  using xtea.loop_inverse [OF assms] block_loop_outside [of n 0 _ start'] assms(1) by auto

theorem xtea_roundtrip_witness:
  "mem_read (block_loop (decrypt_block (1, 2, 3, 4)) 6 0 16
      (block_loop (encrypt_block (1, 2, 3, 4)) 6 0 16 (\<lambda>i. of_nat i))) 6 16 = mem_read (\<lambda>i. of_nat i) 6 16"
  using xtea_roundtrip [of 16 "block_loop (encrypt_block (1, 2, 3, 4)) 6 0 16 (\<lambda>i. of_nat i)" 6 "(1, 2, 3, 4)" 6 "\<lambda>i. of_nat i"]
  by simp

end
