(* ===== verification/Protocol.thy ===== *)
theory Protocol
  imports NetMessage Xtea
begin

text \<open>
  The transport of \<open>server/network/protocol/protocol.cpp\<close>: what \<open>onSendMessage\<close> puts on the
  wire for a message, what \<open>onRecvMessage\<close> accepts from it, the sequence numbers of both
  directions, the Adler-32 checksum of \<open>utils/tools.cpp\<close> and the packet header that
  \<open>Connection::parseHeader\<close> reads.  zlib is not part of the sources: the compressor is a
  parameter, absent when compression is off.
\<close>

unbundle bit_operations_syntax

subsection \<open>Checksum\<close>

text \<open>One run of the inner loop over up to 5552 bytes, without reduction.\<close>

fun adler_run :: "u32 \<Rightarrow> u32 \<Rightarrow> u8 list \<Rightarrow> u32 \<times> u32" where
  "adler_run a b [] = (a, b)"
| "adler_run a b (d # ds) = (let a = a + ucast d; b = b + a in adler_run a b ds)"

function adler_loop :: "u32 \<Rightarrow> u32 \<Rightarrow> u8 list \<Rightarrow> u32 \<times> u32" where
  "adler_loop a b ds =
    (if length ds > 0 then
       (let tmp = (if length ds > 5552 then 5552 else length ds);
            (a, b) = adler_run a b (take tmp ds)
        in adler_loop (a mod 65521) (b mod 65521) (drop tmp ds))
     else (a, b))"
  by pat_completeness auto
termination
  by (relation "measure (\<lambda>(_, _, ds). length ds)") auto

declare adler_loop.simps [simp del]

definition adlerChecksum :: "u8 list \<Rightarrow> u32" where
  "adlerChecksum bs = (if length bs > NETWORKMESSAGE_MAXSIZE then 0
     else let (a, b) = adler_loop 1 0 bs in push_bit 16 b OR a)"

subsection \<open>Protocol state\<close>

datatype checksum_method = CHECKSUM_METHOD_NONE | CHECKSUM_METHOD_ADLER32 | CHECKSUM_METHOD_SEQUENCE

record protocol =
  pr_key :: xtea_key
  serverSequenceNumber :: u32
  clientSequenceNumber :: u32
  checksumMethod :: checksum_method
  encryptionEnabled :: bool
  rawMessages :: bool

text \<open>The compressor: \<open>None\<close> without a stream, otherwise what \<open>deflate\<close> yields, if it succeeds.\<close>

type_synonym zstream = "(u8 list \<Rightarrow> u8 list option) option"

definition compression :: "zstream \<Rightarrow> protocol \<Rightarrow> 'a outmsg_scheme \<Rightarrow> bool \<times> 'a outmsg_scheme" where
  "compression z p msg =
    (if checksumMethod p \<noteq> CHECKSUM_METHOD_SEQUENCE then (False, msg)
     else case z of
       None \<Rightarrow> (False, msg)
     | Some deflate \<Rightarrow>
         if nm_length msg > NETWORKMESSAGE_MAXSIZE then (False, msg)
         else case deflate (output_bytes msg) of
           None \<Rightarrow> (False, msg)
         | Some out \<Rightarrow> if out = [] then (False, msg) else (True, addBytes (Some out) (nm_reset msg)))"

definition XTEA_encrypt :: "protocol \<Rightarrow> 'a outmsg_scheme \<Rightarrow> 'a outmsg_scheme" where
  "XTEA_encrypt p msg =
    (let paddingBytes = nm_length msg mod 8;
         msg = (if paddingBytes \<noteq> 0 then addPaddingBytes (8 - paddingBytes) msg else msg)
     in msg\<lparr>nm_buffer := block_loop (encrypt_block (pr_key p)) (om_start msg) 0 (nm_length msg) (nm_buffer msg)\<rparr>)"

definition XTEA_decrypt :: "protocol \<Rightarrow> 'a netmsg_scheme \<Rightarrow> bool \<times> 'a netmsg_scheme" where
  "XTEA_decrypt p msg =
    (let msgLength = nat ((int (nm_length msg) - (if checksumMethod p = CHECKSUM_METHOD_NONE then 2 else 6)) mod 65536)
     in if msgLength mod 8 \<noteq> 0 then (False, msg)
        else
          (let msg = msg\<lparr>nm_buffer := block_loop (decrypt_block (pr_key p)) (nm_position msg) 0 msgLength (nm_buffer msg)\<rparr>;
               (innerLength, msg) = get_u16 msg
           in if int innerLength > int msgLength - 2 then (False, msg)
              else (True, msg\<lparr>nm_length := innerLength\<rparr>)))"

definition next_seq :: "u32 \<Rightarrow> u32" where
  "next_seq n = (if n + 1 \<ge> 0x7FFFFFFF then 0 else n + 1)"

definition onSendMessage :: "zstream \<Rightarrow> protocol \<Rightarrow> 'a outmsg_scheme \<Rightarrow> protocol \<times> 'a outmsg_scheme" where
  "onSendMessage z p msg =
    (if rawMessages p then (p, msg)
     else
       (let (compressed, msg) = (if nm_length msg \<ge> 128 then compression z p msg else (False, msg));
            sendMessageChecksum = (if compressed then push_bit 31 1 else 0 :: u32);
            msg = writeMessageLength msg
        in if \<not> encryptionEnabled p then (p, msg)
           else
             (let msg = XTEA_encrypt p msg in
              case checksumMethod p of
                CHECKSUM_METHOD_NONE \<Rightarrow> (p, addCryptoHeader False 0 msg)
              | CHECKSUM_METHOD_ADLER32 \<Rightarrow>
                  (p, addCryptoHeader True (unat (adlerChecksum (output_bytes msg))) msg)
              | CHECKSUM_METHOD_SEQUENCE \<Rightarrow>
                  (p\<lparr>serverSequenceNumber := next_seq (serverSequenceNumber p)\<rparr>,
                   addCryptoHeader True (unat (sendMessageChecksum OR (serverSequenceNumber p + 1))) msg))))"

text \<open>
  The receiving side.  The result \<open>Some m\<close> is the message the dispatched event will hand to
  \<open>parsePacket\<close>; \<open>None\<close> is the return value false.
\<close>

definition sendRecvMessageCallback :: "protocol \<Rightarrow> 'a netmsg_scheme \<Rightarrow> 'a netmsg_scheme option" where
  "sendRecvMessageCallback p msg =
    (if encryptionEnabled p
     then (let (ok, msg) = XTEA_decrypt p msg in if ok then Some msg else None)
     else Some msg)"

definition onRecvMessage :: "protocol \<Rightarrow> 'a netmsg_scheme \<Rightarrow> protocol \<times> 'a netmsg_scheme option" where
  "onRecvMessage p msg =
    (if checksumMethod p = CHECKSUM_METHOD_NONE then (p, sendRecvMessageCallback p msg)
     else
       (let (recvChecksum, msg) = get_u32 msg in
        if checksumMethod p = CHECKSUM_METHOD_SEQUENCE then
          (if recvChecksum = 0 then (p, None)
           else
             (let checksum = clientSequenceNumber p + 1;
                  p = p\<lparr>clientSequenceNumber := next_seq (clientSequenceNumber p)\<rparr>
              in if recvChecksum \<noteq> unat checksum then (p, None) else (p, sendRecvMessageCallback p msg)))
        else
          (let len = int (nm_length msg) - int (nm_position msg);
               checksum = (if len > 0 then adlerChecksum (mem_read (nm_buffer msg) (nm_position msg) (nat len)) else 0)
           in if recvChecksum \<noteq> unat checksum then (p, None) else (p, sendRecvMessageCallback p msg))))"

subsection \<open>Packet header of the connection\<close>

definition getBodyBuffer :: "'a netmsg_scheme \<Rightarrow> 'a netmsg_scheme" where
  "getBodyBuffer m = m\<lparr>nm_position := 2\<rparr>"

text \<open>
  The size check of \<open>parseHeader\<close>: \<open>None\<close> closes the connection, \<open>Some (n, m)\<close> asks the
  socket for \<open>n\<close> more bytes, to be stored at offset \<open>HEADER_LENGTH\<close>.
\<close>

definition header_size :: "'a netmsg_scheme \<Rightarrow> (nat \<times> 'a netmsg_scheme) option" where
  "header_size m = (let sz = getLengthHeader m in
     if sz = 0 \<or> sz > 4096 then None
     else Some (sz, getBodyBuffer (m\<lparr>nm_length := wrap16 (sz + HEADER_LENGTH)\<rparr>)))"

definition receive_wire :: "'a netmsg_scheme \<Rightarrow> u8 list \<Rightarrow> 'a netmsg_scheme option" where
  "receive_wire m wire =
    (case header_size (m\<lparr>nm_buffer := mem_write (nm_buffer m) 0 (take HEADER_LENGTH wire)\<rparr>) of
       None \<Rightarrow> None
     | Some (n, m) \<Rightarrow> if length wire = HEADER_LENGTH + n
         then Some (m\<lparr>nm_buffer := mem_write (nm_buffer m) HEADER_LENGTH (drop HEADER_LENGTH wire)\<rparr>) else None)"

subsection \<open>The checksum is Adler-32\<close>

text \<open>Reference: RFC 1950, both sums reduced after every byte, in unbounded arithmetic.\<close>

fun adler_ref :: "nat \<Rightarrow> nat \<Rightarrow> u8 list \<Rightarrow> nat \<times> nat" where
  "adler_ref a b [] = (a, b)"
| "adler_ref a b (d # ds) = (let a = (a + unat d) mod 65521; b = (b + a) mod 65521 in adler_ref a b ds)"

definition adler32 :: "u8 list \<Rightarrow> nat" where
  "adler32 bs = (case adler_ref 1 0 bs of (a, b) \<Rightarrow> b * 65536 + a)"

lemma adler_ref_append:
  "adler_ref a b (xs @ ys) = (case adler_ref a b xs of (a', b') \<Rightarrow> adler_ref a' b' ys)"
  by (induction xs arbitrary: a b) (simp_all add: Let_def)

lemma adler_ref_cong:
  "a mod 65521 = a' mod 65521 \<Longrightarrow> b mod 65521 = b' mod 65521 \<Longrightarrow> ds \<noteq> [] \<Longrightarrow>
    adler_ref a b ds = adler_ref a' b' ds"
proof (cases ds)
  case (Cons d ds')
  assume a: "a mod 65521 = a' mod 65521" and b: "b mod 65521 = b' mod 65521"
  have 1: "(a + unat d) mod 65521 = (a' + unat d) mod 65521" using a by (rule mod_add_cong) simp
  have 2: "(b + x) mod 65521 = (b' + x) mod 65521" for x using b by (rule mod_add_cong) simp
  show ?thesis unfolding Cons adler_ref.simps Let_def 1 2 [of "(a' + unat d) mod 65521"] ..
qed simp

text \<open>
  Within a run nothing overflows as long as the worst case (all bytes 255) stays below \<open>2 ^ 32\<close>;
  the bound is stated doubled to stay clear of division.
\<close>

lemma adler_arith:
  fixes a b d n P Q X :: nat
  shows "2 * b + (P + 2 * a) + (X + 510 * n + 510) < K \<Longrightarrow> d \<le> 255 \<Longrightarrow> Q \<le> P + 510 * n \<Longrightarrow>
    2 * (b + (a + d)) + Q + X < K"
  by simp

lemma adler_run_ref:
  "unat a + 255 * length ds < 4294967296 \<Longrightarrow>
   2 * unat b + 2 * length ds * unat a + 255 * length ds * (length ds + 1) < 8589934592 \<Longrightarrow>
   (case adler_run a b ds of (a', b') \<Rightarrow> (unat a' mod 65521, unat b' mod 65521))
     = adler_ref (unat a mod 65521) (unat b mod 65521) ds"
proof (induction ds arbitrary: a b)
  case (Cons d ds)
  let ?n = "length ds"
  have d: "unat d \<le> 255" using unat_u8_less [of d] by linarith
  have ud: "unat (ucast d :: u32) = unat d"
    using d by (simp add: unsigned_ucast_eq take_bit_nat_eq_self)
  have b0: "2 * unat b + (2 * ?n * unat a + 2 * unat a) + (255 * ?n * (?n + 1) + 510 * ?n + 510) < 8589934592"
    using Cons.prems(2) by (simp add: algebra_simps)
  have a': "unat (a + ucast d) = unat a + unat d"
    using Cons.prems(1) d by (simp add: unat_word_ariths ud)
  have b': "unat (b + (a + ucast d)) = unat b + (unat a + unat d)"
    using b0 d by (subst unat_word_ariths) (simp add: a')
  have nd: "2 * ?n * (unat a + unat d) \<le> 2 * ?n * unat a + 510 * ?n"
    using mult_le_mono2 [OF d, of "2 * ?n"] by (simp only: distrib_left)
  have 1: "unat (a + ucast d) + 255 * ?n < 4294967296" using Cons.prems(1) d by (simp add: a')
  have 2: "2 * unat (b + (a + ucast d)) + 2 * ?n * unat (a + ucast d) + 255 * ?n * (?n + 1) < 8589934592"
    using b0 d nd unfolding a' b' by (rule adler_arith)
  have m: "(unat a mod 65521 + unat d) mod 65521 = (unat a + unat d) mod 65521"
    "(unat b mod 65521 + (unat a + unat d) mod 65521) mod 65521 = (unat b + (unat a + unat d)) mod 65521"
    by (simp_all add: mod_simps)
  show ?case
    unfolding adler_run.simps adler_ref.simps Let_def m
    using Cons.IH [OF 1 2] by (simp only: a' b')
qed simp

lemma adler_chunk_bound:
  assumes "length ds \<le> 5552" "a < 65521" "b < 65521"
  shows "a + 255 * length ds < (4294967296 :: nat)"
    "2 * b + 2 * length ds * a + 255 * length ds * (length ds + 1) < (8589934592 :: nat)"
proof -
  have "2 * length ds * a \<le> 2 * 5552 * 65520" "255 * length ds * (length ds + 1) \<le> 255 * 5552 * 5553"
    using assms by (intro mult_le_mono; simp)+
  then show "2 * b + 2 * length ds * a + 255 * length ds * (length ds + 1) < 8589934592"
    using assms(3) by linarith
qed (use assms in linarith)

lemma unat_mod_65521: "unat (w mod 65521 :: u32) = unat w mod 65521"
  by (simp add: unat_mod)

lemma adler_loop_ref:
  "unat a < 65521 \<Longrightarrow> unat b < 65521 \<Longrightarrow>
    (case adler_loop a b ds of (a', b') \<Rightarrow> (unat a', unat b')) = adler_ref (unat a) (unat b) ds \<and>
    unat (fst (adler_loop a b ds)) < 65521 \<and> unat (snd (adler_loop a b ds)) < 65521"
proof (induction a b ds rule: adler_loop.induct)
  case (1 a b ds)
  show ?case
  proof (cases "length ds > 0")
    case True
    let ?t = "if length ds > 5552 then 5552 else length ds"
    obtain a' b' where r: "adler_run a b (take ?t ds) = (a', b')" by fastforce
    have le: "length (take ?t ds) \<le> 5552" by simp
    have chunk: "(unat a' mod 65521, unat b' mod 65521) = adler_ref (unat a) (unat b) (take ?t ds)"
      using adler_run_ref [OF adler_chunk_bound [OF le "1.prems"]] "1.prems" by (simp add: r)
    have step: "adler_loop a b ds = adler_loop (a' mod 65521) (b' mod 65521) (drop ?t ds)"
      using True by (subst adler_loop.simps) (simp only: Let_def r if_True prod.case)
    have "adler_ref (unat a) (unat b) ds = adler_ref (unat (a' mod 65521)) (unat (b' mod 65521)) (drop ?t ds)"
      using adler_ref_append [of "unat a" "unat b" "take ?t ds" "drop ?t ds"]
      by (simp only: append_take_drop_id chunk [symmetric] prod.case unat_mod_65521)
    then show ?thesis
      unfolding step using "1.IH" [OF True refl r [symmetric]] by (simp add: unat_mod_65521)
  next
    case False
    then show ?thesis using "1.prems" by (subst (1 2 3) adler_loop.simps) simp
  qed
qed

lemma push_or_unat:
  assumes "unat a < 65536" "unat b < 65536"
  shows "unat (push_bit 16 b OR a :: u32) = unat b * 65536 + unat a"
proof -
  have d: "push_bit 16 b AND a = 0"
  proof (rule bit_word_eqI)
    fix n assume "n < LENGTH(32)"
    have "\<not> bit a n" if "16 \<le> n"
    proof -
      have "take_bit 16 (unat a) = unat a" using assms(1) by (simp add: take_bit_nat_eq_self)
      then have "\<not> bit (unat a) n" using that by (metis bit_take_bit_iff not_le)
      then show ?thesis by (simp add: bit_unsigned_iff)
    qed
    then show "bit (push_bit 16 b AND a) n = bit (0 :: u32) n" by (auto simp: bit_simps)
  qed
  have "push_bit 16 b OR a = push_bit 16 b + a" using d by (simp add: disjunctive_add_eq_or)
  moreover have "unat (push_bit 16 b) = unat b * 65536"
    using assms(2) by (simp add: push_bit_eq_mult unat_word_ariths mult.commute)
  ultimately show ?thesis using assms by (simp add: unat_word_ariths)
qed

text \<open>
  C4: For every buffer a message can hold, the checksum routine, which defers the reduction
  modulo 65521 over runs of 5552 bytes in 32-bit arithmetic, computes Adler-32 exactly: the
  deferred sums never overflow.
\<close>

theorem adlerChecksum_correct:
  assumes "length bs \<le> NETWORKMESSAGE_MAXSIZE"
  shows "unat (adlerChecksum bs) = adler32 bs"
proof -
  obtain a b where ab: "adler_loop 1 0 bs = (a, b)" by fastforce
  have r: "adler_ref 1 0 bs = (unat a, unat b)" and "unat a < 65521" "unat b < 65521"
    using adler_loop_ref [of 1 0 bs] by (simp_all add: ab)
  then show ?thesis
    using assms push_or_unat [of a b] unfolding adlerChecksum_def adler32_def ab r by simp
qed

theorem adlerChecksum_correct_witness:
  "unat (adlerChecksum (replicate 6000 255)) = adler32 (replicate 6000 255)"
  by (rule adlerChecksum_correct) simp

subsection \<open>What goes on the wire\<close>

text \<open>
  The abstract packet.  A body becomes length, body and padding, enciphered; in front of it
  come the packet length and, with a checksum method, a four-byte check value.
\<close>

definition pad_len :: "nat \<Rightarrow> nat" where
  "pad_len n = (if n mod 8 = 0 then 0 else 8 - n mod 8)"

lemma pad_len_le: "pad_len n \<le> 7"
  by (auto simp: pad_len_def)

lemma pad_len_dvd: "8 dvd n + pad_len n"
proof (cases "n mod 8 = 0")
  case False
  have "n + (8 - n mod 8) = 8 * (n div 8) + 8"
    using div_mult_mod_eq [of n 8] mod_less_divisor [of 8 n] by linarith
  then show ?thesis using False by (simp add: pad_len_def)
qed (simp add: pad_len_def dvd_eq_mod_eq_0)

definition plain_text :: "u8 list \<Rightarrow> u8 list" where
  "plain_text body = (let t = nat_to_le 2 (length body) @ body in
     t @ replicate (pad_len (length t)) 0x33)"

definition cipher_text :: "xtea_key \<Rightarrow> u8 list \<Rightarrow> u8 list" where
  "cipher_text key body = crypt_bytes (encrypt_block key) (plain_text body)"

definition check_value :: "protocol \<Rightarrow> u8 list \<Rightarrow> nat" where
  "check_value p cipher = (if checksumMethod p = CHECKSUM_METHOD_ADLER32 then unat (adlerChecksum cipher)
     else unat (serverSequenceNumber p + 1))"

definition wire_packet :: "protocol \<Rightarrow> u8 list \<Rightarrow> u8 list" where
  "wire_packet p body = (let c = cipher_text (pr_key p) body in
     if checksumMethod p = CHECKSUM_METHOD_NONE then nat_to_le 2 (length c) @ c
     else nat_to_le 2 (length c + 4) @ nat_to_le 4 (check_value p c) @ c)"

lemma plain_text_dvd: "8 dvd length (plain_text body)"
  using pad_len_dvd [of "length body + 2"] by (simp add: plain_text_def Let_def)

lemma length_plain_text_bounds:
  "length body + 2 \<le> length (plain_text body)" "length (plain_text body) \<le> length body + 9"
  using pad_len_le [of "length body + 2"] by (simp_all add: plain_text_def Let_def)

lemma length_cipher_text: "length (cipher_text key body) = length (plain_text body)"
  by (simp add: cipher_text_def length_crypt_bytes plain_text_dvd)

lemma cipher_text_inverse: "crypt_bytes (decrypt_block key) (cipher_text key body) = plain_text body"
  by (simp add: cipher_text_def xtea.crypt_inverse plain_text_dvd)

text \<open>An output message that has not been sent: the header area in front is still free.\<close>

definition om_fresh :: "'a outmsg_scheme \<Rightarrow> bool" where
  "om_fresh m \<longleftrightarrow> nm_wf m \<and> om_start m = 8"

lemma add_header_output:
  assumes "length (enc v) = w" "w \<le> om_start m" "nm_length m + w < 65536"
  shows "output_bytes (add_header w enc v m) = enc v @ output_bytes m"
    "om_start (add_header w enc v m) = om_start m - w"
    "nm_length (add_header w enc v m) = nm_length m + w"
    "nm_position (add_header w enc v m) = nm_position m"
proof -
  have s: "om_start m - w + w = om_start m" using assms(2) by simp
  have "mem_read (mem_write (nm_buffer m) (om_start m - w) (enc v)) (om_start m - w) (w + nm_length m)
      = enc v @ mem_read (nm_buffer m) (om_start m) (nm_length m)"
    by (simp only: mem_read_add s) (simp add: mem_simps assms)
  then show "output_bytes (add_header w enc v m) = enc v @ output_bytes m"
    using assms(2,3) by (simp add: output_bytes_def add_header_def Let_def add.commute)
qed (use assms in \<open>simp_all add: add_header_def Let_def\<close>)

lemma writeMessageLength_output:
  assumes "2 \<le> om_start m" "nm_length m + 2 < 65536"
  shows "output_bytes (writeMessageLength m) = nat_to_le 2 (nm_length m) @ output_bytes m"
    "om_start (writeMessageLength m) = om_start m - 2"
    "nm_length (writeMessageLength m) = nm_length m + 2"
    "nm_position (writeMessageLength m) = nm_position m"
  unfolding writeMessageLength_def using assms by (simp_all add: add_header_output)

text \<open>\<open>XTEA_encrypt\<close> on a message whose bytes end at the cursor: pad, then encipher in place.\<close>

lemma XTEA_encrypt_output:
  assumes "om_start m + nm_length m = nm_position m" "nm_position m + 8 < NETWORKMESSAGE_MAXSIZE"
  defines "pad \<equiv> pad_len (nm_length m)"
  shows "output_bytes (XTEA_encrypt p m) = crypt_bytes (encrypt_block (pr_key p)) (output_bytes m @ replicate pad 0x33)"
    "om_start (XTEA_encrypt p m) = om_start m"
    "nm_length (XTEA_encrypt p m) = nm_length m + pad"
proof -
  let ?m = "m\<lparr>nm_buffer := mem_write (nm_buffer m) (nm_position m) (replicate pad 0x33),
            nm_length := nm_length m + pad\<rparr>"
  have pad: "pad \<le> 7" by (simp add: pad_def pad_len_le)
  have e: "XTEA_encrypt p m = ?m\<lparr>nm_buffer := block_loop (encrypt_block (pr_key p)) (om_start m) 0
      (nm_length m + pad) (nm_buffer ?m)\<rparr>"
    using assms(1,2) pad by (auto simp: XTEA_encrypt_def addPaddingBytes_def pad_def pad_len_def Let_def)
  have dvd: "8 dvd nm_length m + pad" unfolding pad_def by (rule pad_len_dvd)
  have "mem_read (nm_buffer ?m) (om_start m) (nm_length m + pad) = output_bytes m @ replicate pad 0x33"
    by (simp only: mem_read_add assms(1)) (simp add: output_bytes_def mem_simps assms(1))
  then show "output_bytes (XTEA_encrypt p m) = crypt_bytes (encrypt_block (pr_key p)) (output_bytes m @ replicate pad 0x33)"
    using block_loop_refines [of "nm_length m + pad" 0 "encrypt_block (pr_key p)" "om_start m" "nm_buffer ?m"] dvd
    by (simp add: e output_bytes_def)
  show "om_start (XTEA_encrypt p m) = om_start m" "nm_length (XTEA_encrypt p m) = nm_length m + pad"
    by (simp_all add: e)
qed

lemma onSendMessage_wire:
  assumes "om_fresh m" "encryptionEnabled p" "\<not> rawMessages p"
    and small: "nm_length m < 65477"
    and "nm_length m < 128 \<or> fst (compression z p m) = False \<and> snd (compression z p m) = m"
  shows "output_bytes (snd (onSendMessage z p m)) = wire_packet p (nm_body m)"
proof -
  have wf: "nm_position m = nm_length m + 8" "om_start m = 8"
    using assms(1) by (auto simp: om_fresh_def nm_wf_def)
  have nc: "(if nm_length m \<ge> 128 then compression z p m else (False, m)) = (False, m)"
    using assms(5) by (auto simp: prod_eq_iff)
  let ?w = "writeMessageLength m"
  have w: "output_bytes ?w = nat_to_le 2 (length (nm_body m)) @ nm_body m" "om_start ?w = 6"
    "nm_length ?w = nm_length m + 2" "nm_position ?w = nm_length m + 8"
    using small wf by (simp_all add: writeMessageLength_output) (simp add: output_bytes_def nm_body_def)
  let ?x = "XTEA_encrypt p ?w"
  have lw: "nm_length ?w = length (output_bytes ?w)" using w by (simp add: w(1))
  have x: "output_bytes ?x = cipher_text (pr_key p) (nm_body m)" "om_start ?x = 6"
    using XTEA_encrypt_output [of ?w p] w small
    by (simp_all add: cipher_text_def plain_text_def Let_def)
  have lx: "nm_length ?x = length (cipher_text (pr_key p) (nm_body m))"
    using arg_cong [OF x(1), of length] by (simp add: output_bytes_def)
  have bx: "nm_length ?x < 65500"
    using length_plain_text_bounds(2) [of "nm_body m"] small by (simp add: lx length_cipher_text)
  show ?thesis
    unfolding onSendMessage_def nc
    using assms(2,3) x(2) lx bx
    by (cases "checksumMethod p")
      (simp_all add: addCryptoHeader_def writeMessageLength_output add_header_output x(1)
        wire_packet_def check_value_def Let_def)
qed

subsection \<open>What the receiver accepts\<close>

definition crypt_offset :: "protocol \<Rightarrow> nat" where
  "crypt_offset p = (if checksumMethod p = CHECKSUM_METHOD_NONE then 2 else 6)"

lemma receive_wire_packet:
  assumes "length rest = n" "0 < n" "n \<le> 4096"
  shows "\<exists>m. receive_wire m0 (nat_to_le 2 n @ rest) = Some m \<and> nm_position m = 2 \<and> nm_length m = n + 2
    \<and> mem_read (nm_buffer m) 2 n = rest"
proof -
  let ?w = "mem_write (nm_buffer m0) 0 (nat_to_le 2 n)"
  have "mem_read ?w 0 2 = nat_to_le 2 n" by (simp add: mem_simps)
  then have "[?w 0, ?w 1] = nat_to_le 2 n" by (simp add: mem_read_def upt_rec)
  then have "le_to_nat [?w 0, ?w 1] = n mod 256 ^ 2" by (simp only: le_to_nat_nat_to_le)
  then have h: "unat (?w 0) + 256 * unat (?w (Suc 0)) = n" using assms(3) by simp
  show ?thesis
    using assms h by (simp add: receive_wire_def header_size_def getLengthHeader_def getBodyBuffer_def
        Let_def mem_simps)
qed

lemma nm_get_inside:
  assumes "nm_position m + w \<le> nm_length m + 8" "nm_position m + w < NETWORKMESSAGE_MAXSIZE"
  shows "nm_get w dec m = (dec (mem_read (nm_buffer m) (nm_position m) w), m\<lparr>nm_position := nm_position m + w\<rparr>)"
  using assms by (simp add: nm_get_def canRead_def)

lemma XTEA_decrypt_accepts:
  assumes pos: "nm_position m = crypt_offset p"
    and len: "nm_length m = crypt_offset p + length (cipher_text (pr_key p) body)"
    and buf: "mem_read (nm_buffer m) (crypt_offset p) (length (cipher_text (pr_key p) body)) = cipher_text (pr_key p) body"
    and small: "length body < 65000"
  shows "\<exists>m'. XTEA_decrypt p m = (True, m') \<and> nm_position m' = crypt_offset p + 2 \<and>
    nm_length m' = length body \<and> mem_read (nm_buffer m') (crypt_offset p + 2) (length body) = body"
proof -
  let ?k = "crypt_offset p" and ?c = "cipher_text (pr_key p) body" and ?t = "plain_text body"
  let ?n = "length ?t"
  have k: "?k \<le> 6" by (simp add: crypt_offset_def)
  have n: "length ?c = ?n" "length body + 2 \<le> ?n" "?n < 65010"
    using length_plain_text_bounds [of body] small by (simp_all add: length_cipher_text)
  have ml: "nat ((int (nm_length m) - (if checksumMethod p = CHECKSUM_METHOD_NONE then 2 else 6)) mod 65536) = ?n"
    using n by (auto simp: len crypt_offset_def n(1))
  have d: "?n mod 8 = 0" using plain_text_dvd [of body] by (simp add: dvd_eq_mod_eq_0)
  let ?b = "block_loop (decrypt_block (pr_key p)) ?k 0 ?n (nm_buffer m)"
  have b: "mem_read ?b ?k ?n = ?t"
    using block_loop_refines [of ?n 0 "decrypt_block (pr_key p)" ?k "nm_buffer m"] plain_text_dvd [of body] buf
    by (simp add: n(1) cipher_text_inverse)
  have t: "take 2 ?t = nat_to_le 2 (length body)" "take (length body) (drop 2 ?t) = body"
    by (simp_all add: plain_text_def Let_def)
  have g: "get_u16 (m\<lparr>nm_buffer := ?b\<rparr>) = (length body, m\<lparr>nm_buffer := ?b, nm_position := ?k + 2\<rparr>)"
  proof -
    have "mem_read ?b ?k 2 = nat_to_le 2 (length body)"
      using n mem_read_take [of 2 ?n ?b ?k] by (simp add: b t)
    then show ?thesis using k n small
      by (subst nm_get_inside) (simp_all add: pos len n(1) le_to_nat_nat_to_le)
  qed
  have r: "mem_read ?b (?k + 2) (length body) = body"
    using mem_read_take [of "length body" "?n - 2" ?b "?k + 2"] mem_read_drop [of ?b ?k 2 ?n] n
    by (simp add: b t)
  show ?thesis
    unfolding XTEA_decrypt_def Let_def ml
    using d n(2) r by (simp add: pos g)
qed

text \<open>Sender and receiver agree on everything the transport depends on.\<close>

definition in_step :: "protocol \<Rightarrow> protocol \<Rightarrow> bool" where
  "in_step ps pr \<longleftrightarrow> pr_key ps = pr_key pr \<and> checksumMethod ps = checksumMethod pr
     \<and> encryptionEnabled ps \<and> encryptionEnabled pr \<and> \<not> rawMessages ps
     \<and> serverSequenceNumber ps = clientSequenceNumber pr
     \<and> serverSequenceNumber ps < 0x7FFFFFFF"

lemma seq_plus_1: "(n :: u32) < 0x7FFFFFFF \<Longrightarrow> unat (n + 1) = unat n + 1 \<and> unat (n + 1) \<noteq> 0"
  by (simp add: word_less_nat_alt unat_word_ariths)

lemma next_seq_less: "next_seq n < 0x7FFFFFFF"
  by (auto simp: next_seq_def not_le)

lemma onRecv_checksum_ok:
  assumes "checksumMethod p \<noteq> CHECKSUM_METHOD_NONE" "nm_position m = 2" "nm_length m = length c + 6"
    and buf: "mem_read (nm_buffer m) 2 (length c + 4) = nat_to_le 4 v @ c"
    and v: "v = (if checksumMethod p = CHECKSUM_METHOD_ADLER32 then unat (adlerChecksum c)
                 else unat (clientSequenceNumber p + 1))"
    and seq: "clientSequenceNumber p < 0x7FFFFFFF" and c: "length c < 65000" "c \<noteq> []"
  shows "onRecvMessage p m =
    (let p' = (if checksumMethod p = CHECKSUM_METHOD_SEQUENCE
               then p\<lparr>clientSequenceNumber := next_seq (clientSequenceNumber p)\<rparr> else p)
     in (p', sendRecvMessageCallback p' (m\<lparr>nm_position := 6\<rparr>)))"
proof -
  have v32: "v < 4294967296" using v by simp
  have r4: "mem_read (nm_buffer m) 2 4 = nat_to_le 4 v" and rc: "mem_read (nm_buffer m) 6 (length c) = c"
    using mem_read_take [of 4 "length c + 4" "nm_buffer m" 2] mem_read_drop [of "nm_buffer m" 2 4 "length c + 4"]
    by (simp_all add: buf)
  have g: "get_u32 m = (v, m\<lparr>nm_position := 6\<rparr>)"
    using assms(2,3) v32 c by (subst nm_get_inside) (simp_all add: r4 le_to_nat_nat_to_le)
  show ?thesis
    using assms(1,3) seq_plus_1 [OF seq] c v
    by (cases "checksumMethod p") (simp_all add: onRecvMessage_def g rc Let_def)
qed

text \<open>
  C1: A message sent through \<open>onSendMessage\<close> without compression arrives.  For every key, checksum
  method, starting sequence number and body that fits the input limit, the receiving side, whatever its
  buffer held before, accepts the packet and hands the parser a message whose next bytes are
  exactly the body; both sides stay in step for the next packet.
\<close>

theorem send_receive:
  assumes step: "in_step ps pr" and fresh: "om_fresh m" and limit: "nm_length m \<le> 4083"
    and plain: "nm_length m < 128 \<or> z = None"
  shows "\<exists>r r' pr'. receive_wire m0 (output_bytes (snd (onSendMessage z ps m))) = Some r \<and>
    onRecvMessage pr r = (pr', Some r') \<and>
    mem_read (nm_buffer r') (nm_position r') (nm_length r') = nm_body m \<and>
    in_step (fst (onSendMessage z ps m)) pr'"
proof -
  let ?c = "cipher_text (pr_key ps) (nm_body m)"
  have c: "length ?c \<le> 4092" "2 \<le> length ?c"
    using length_plain_text_bounds [of "nm_body m"] limit by (simp_all add: length_cipher_text)
  have ne: "?c \<noteq> []" using c(2) by auto
  have nc: "nm_length m < 128 \<or> fst (compression z ps m) = False \<and> snd (compression z ps m) = m"
    using plain by (auto simp: compression_def)
  have wire: "output_bytes (snd (onSendMessage z ps m)) = wire_packet ps (nm_body m)"
    using step limit by (intro onSendMessage_wire [OF fresh _ _ _ nc]) (simp_all add: in_step_def)
  have ps': "fst (onSendMessage z ps m) = (if checksumMethod ps = CHECKSUM_METHOD_SEQUENCE
      then ps\<lparr>serverSequenceNumber := next_seq (serverSequenceNumber ps)\<rparr> else ps)"
    using step by (cases "checksumMethod ps") (simp_all add: onSendMessage_def in_step_def Let_def split: prod.split)
  show ?thesis
  proof (cases "checksumMethod ps = CHECKSUM_METHOD_NONE")
    case True
    then obtain r where r: "receive_wire m0 (wire_packet ps (nm_body m)) = Some r" "nm_position r = 2"
        "nm_length r = length ?c + 2" "mem_read (nm_buffer r) 2 (length ?c) = ?c"
      using receive_wire_packet [of ?c "length ?c" m0] c ne by (auto simp: wire_packet_def Let_def)
    obtain r' where "XTEA_decrypt pr r = (True, r')" "nm_position r' = 4"
        "nm_length r' = length (nm_body m)" "mem_read (nm_buffer r') 4 (length (nm_body m)) = nm_body m"
      using XTEA_decrypt_accepts [of r pr "nm_body m"] r True step limit
      by (auto simp: crypt_offset_def in_step_def)
    then show ?thesis
      using r(1) step True by (auto simp: wire ps' onRecvMessage_def sendRecvMessageCallback_def in_step_def)
  next
    case False
    let ?v = "check_value ps ?c"
    obtain r where r: "receive_wire m0 (wire_packet ps (nm_body m)) = Some r" "nm_position r = 2"
        "nm_length r = length ?c + 6" "mem_read (nm_buffer r) 2 (length ?c + 4) = nat_to_le 4 ?v @ ?c"
      using receive_wire_packet [of "nat_to_le 4 ?v @ ?c" "length ?c + 4" m0] c False
      by (auto simp: wire_packet_def Let_def)
    let ?p = "if checksumMethod pr = CHECKSUM_METHOD_SEQUENCE
               then pr\<lparr>clientSequenceNumber := next_seq (clientSequenceNumber pr)\<rparr> else pr"
    have recv: "onRecvMessage pr r = (?p, sendRecvMessageCallback ?p (r\<lparr>nm_position := 6\<rparr>))"
    proof -
      have v: "?v = (if checksumMethod pr = CHECKSUM_METHOD_ADLER32 then unat (adlerChecksum ?c)
          else unat (clientSequenceNumber pr + 1))"
        using step by (simp add: check_value_def in_step_def)
      have "checksumMethod pr \<noteq> CHECKSUM_METHOD_NONE" "clientSequenceNumber pr < 0x7FFFFFFF"
        using step False by (auto simp: in_step_def)
      from onRecv_checksum_ok [OF this(1) r(2,3,4) v this(2)] show ?thesis
        using c ne by (simp add: Let_def)
    qed
    have rc: "mem_read (nm_buffer r) 6 (length ?c) = ?c"
      \<comment> \<open>the cipher text starts behind header and check value\<close>
      using mem_read_drop [of "nm_buffer r" 2 4 "length ?c + 4"] by (simp add: r(4))
    obtain r' where "XTEA_decrypt ?p (r\<lparr>nm_position := 6\<rparr>) = (True, r')" "nm_position r' = 8"
        "nm_length r' = length (nm_body m)" "mem_read (nm_buffer r') 8 (length (nm_body m)) = nm_body m"
    proof -
      have p: "crypt_offset ?p = 6" "pr_key ?p = pr_key ps"
        using step False by (auto simp: crypt_offset_def in_step_def)
      have "\<exists>m'. XTEA_decrypt ?p (r\<lparr>nm_position := 6\<rparr>) = (True, m') \<and> nm_position m' = 6 + 2 \<and>
          nm_length m' = length (nm_body m) \<and> mem_read (nm_buffer m') (6 + 2) (length (nm_body m)) = nm_body m"
        using r(3) rc limit XTEA_decrypt_accepts [of "r\<lparr>nm_position := 6\<rparr>" ?p "nm_body m", unfolded p]
        by simp
      then show ?thesis using that by auto
    qed
    then have "onRecvMessage pr r = (?p, Some r')" "nm_position r' = 8"
        "nm_length r' = length (nm_body m)" "mem_read (nm_buffer r') 8 (length (nm_body m)) = nm_body m"
      using step by (simp_all add: recv sendRecvMessageCallback_def in_step_def)
    then show ?thesis
      using r(1) step by (auto simp: wire ps' in_step_def next_seq_less)
  qed
qed

text \<open>An opened connection of both kinds, for the examples below.\<close>

definition example_protocol :: "checksum_method \<Rightarrow> protocol" where
  "example_protocol method = \<lparr>pr_key = (1, 2, 3, 4), serverSequenceNumber = 41, clientSequenceNumber = 41,
     checksumMethod = method, encryptionEnabled = True, rawMessages = False\<rparr>"

theorem send_receive_witness:
  "\<exists>r r' pr'. receive_wire new_netmsg (output_bytes (snd (onSendMessage None
        (example_protocol CHECKSUM_METHOD_SEQUENCE) (addByte 29 new_outmsg)))) = Some r \<and>
    onRecvMessage (example_protocol CHECKSUM_METHOD_SEQUENCE) r = (pr', Some r') \<and>
    mem_read (nm_buffer r') (nm_position r') (nm_length r') = [29]"
proof -
  let ?p = "example_protocol CHECKSUM_METHOD_SEQUENCE" and ?m = "addByte 29 new_outmsg"
  have "in_step ?p ?p" by (simp add: in_step_def example_protocol_def)
  moreover have m: "nm_wf ?m" "nm_body ?m = [29]"
    using write_field_fits [of new_outmsg "FByte 29"] by simp_all
  moreover have "om_fresh ?m"
    using m by (simp add: om_fresh_def addByte_def nm_put_def new_outmsg_def)
  moreover have "nm_length ?m \<le> 4083" using arg_cong [OF m(2), of length] by simp
  ultimately show ?thesis using send_receive [of ?p ?p ?m None new_netmsg] by auto
qed



text \<open>
  The length field never makes the decryptor run past the packet: a packet shorter than its own
  headers would wrap around, but then the block check refuses it.
\<close>

lemma XTEA_decrypt_short:
  assumes "nm_length m < crypt_offset p"
  shows "XTEA_decrypt p m = (False, m)"
proof -
  have "nm_length m \<in> {0, 1, 2, 3, 4, 5}" using assms by (auto simp: crypt_offset_def split: if_splits)
  moreover have "nm_length m \<in> {0, 1}" if "checksumMethod p = CHECKSUM_METHOD_NONE"
    using that assms by (auto simp: crypt_offset_def)
  ultimately show ?thesis by (auto simp: XTEA_decrypt_def)
qed

end
