(* ===== verification/Money.thy ===== *)
theory Money
  imports Prelude "HOL-Library.Multiset"
begin

text \<open>
  Cash: \<open>Item::getWorth\<close> (\<open>items/item.cpp\<close>), \<open>Player::getMoney\<close> (\<open>player.cpp\<close>) and the two money
  handlers of \<open>game/game.cpp\<close>, \<open>removeMoney\<close> and \<open>addMoney\<close>.  Items are objects that
  containers refer to, so the model keeps an explicit store from references to items; removing
  an item takes its reference out of the store.  Coins that \<open>addMoney\<close> creates are returned as a
  list: which slot or tile \<open>internalAddItem\<close> finds for them is not modelled.
\<close>

subsection \<open>Items and coins\<close>

datatype coin = ITEM_GOLD_COIN | ITEM_PLATINUM_COIN | ITEM_CRYSTAL_COIN

datatype gitem = Coins coin nat | Thing_item nat | Box "nat list"

type_synonym istore = "nat \<Rightarrow> gitem option"

fun coin_worth :: "coin \<Rightarrow> nat" where
  "coin_worth ITEM_GOLD_COIN = 1"
| "coin_worth ITEM_PLATINUM_COIN = 100"
| "coin_worth ITEM_CRYSTAL_COIN = 10000"

fun getWorth :: "gitem \<Rightarrow> nat" where
  "getWorth (Coins ITEM_GOLD_COIN n) = n"
| "getWorth (Coins ITEM_PLATINUM_COIN n) = n * 100"
| "getWorth (Coins ITEM_CRYSTAL_COIN n) = n * 10000"
| "getWorth _ = 0"

lemma getWorth_Coins: "getWorth (Coins c n) = n * coin_worth c"
  by (cases c) simp_all

definition worth_at :: "istore \<Rightarrow> nat \<Rightarrow> nat" where
  "worth_at st u = (case st u of None \<Rightarrow> 0 | Some it \<Rightarrow> getWorth it)"

definition getItemCount :: "istore \<Rightarrow> nat \<Rightarrow> nat" where
  "getItemCount st u = (case st u of Some (Coins c n) \<Rightarrow> n | Some (Thing_item n) \<Rightarrow> n | _ \<Rightarrow> 1)"

text \<open>
  Collecting: the slots first, then the containers breadth first, each container's contents in
  order.  \<open>fuel\<close> bounds the number of containers opened; \<open>collect_enough\<close> says when it suffices.
\<close>

definition is_box :: "istore \<Rightarrow> nat \<Rightarrow> bool" where
  "is_box st u = (case st u of Some (Box _) \<Rightarrow> True | _ \<Rightarrow> False)"

definition box_items :: "istore \<Rightarrow> nat \<Rightarrow> nat list" where
  "box_items st u = (case st u of Some (Box us) \<Rightarrow> us | _ \<Rightarrow> [])"

fun walk :: "nat \<Rightarrow> istore \<Rightarrow> nat list \<Rightarrow> nat list option" where
  "walk fuel st [] = Some []"
| "walk 0 st (c # cs) = None"
| "walk (Suc fuel) st (c # cs) =
    (let us = box_items st c in
     map_option (\<lambda>rest. filter (\<lambda>u. \<not> is_box st u) us @ rest) (walk fuel st (cs @ filter (is_box st) us)))"

definition collect :: "nat \<Rightarrow> istore \<Rightarrow> nat option list \<Rightarrow> nat list option" where
  "collect fuel st slots = (let us = concat (map (\<lambda>s. case s of None \<Rightarrow> [] | Some u \<Rightarrow> [u]) slots) in
     map_option (\<lambda>rest. filter (\<lambda>u. \<not> is_box st u) us @ rest) (walk fuel st (filter (is_box st) us)))"

definition getMoney :: "nat \<Rightarrow> istore \<Rightarrow> nat option list \<Rightarrow> nat option" where
  "getMoney fuel st slots = map_option (\<lambda>us. \<Sum>u\<leftarrow>us. worth_at st u) (collect fuel st slots)"

subsection \<open>Creating coins\<close>

text \<open>\<open>CreateItem\<close> takes sixteen bits, treats 0 as 1, and the item keeps eight of them.\<close>

definition create_count :: "nat \<Rightarrow> nat" where
  "create_count n = (let c = n mod 65536 in if c = 0 then 1 else c mod 256)"

function crystal_stacks :: "nat \<Rightarrow> (coin \<times> nat) list" where
  "crystal_stacks n = (if n > 0 then (let count = min 100 n in
     (ITEM_CRYSTAL_COIN, create_count count) # crystal_stacks (n - count)) else [])"
  by pat_completeness auto
termination
  by (relation "measure id") auto

declare crystal_stacks.simps [simp del]

definition addMoney :: "nat \<Rightarrow> (coin \<times> nat) list" where
  "addMoney money = (if money = 0 then []
     else (let crystalCoins = (money div 10000) mod 2 ^ 32;
               money = money - (crystalCoins * 10000) mod 2 ^ 32;
               platinumCoins = (money div 100) mod 65536;
               money' = (if platinumCoins \<noteq> 0 then money - platinumCoins * 100 else money)
           in crystal_stacks crystalCoins
              @ (if platinumCoins \<noteq> 0 then [(ITEM_PLATINUM_COIN, create_count platinumCoins)] else [])
              @ (if money' \<noteq> 0 then [(ITEM_GOLD_COIN, create_count money')] else [])))"

definition coins_worth :: "(coin \<times> nat) list \<Rightarrow> nat" where
  "coins_worth cs = (\<Sum>(c, n)\<leftarrow>cs. n * coin_worth c)"

subsection \<open>Taking money\<close>

definition internalRemoveItem :: "istore \<Rightarrow> nat \<Rightarrow> nat \<Rightarrow> istore" where
  "internalRemoveItem st u n = (case st u of
     Some (Coins c k) \<Rightarrow> if n \<ge> k then st(u := None) else st(u \<mapsto> Coins c (k - n))
   | _ \<Rightarrow> st(u := None))"

text \<open>The loop over the multimap, cheapest stack first; it returns the coins of the change and what is left to pay.\<close>

fun pay :: "istore \<Rightarrow> nat list \<Rightarrow> nat \<Rightarrow> istore \<times> (coin \<times> nat) list \<times> nat option" where
  "pay st [] money = (st, [], Some money)"
| "pay st (u # us) money =
    (if worth_at st u < money then pay (internalRemoveItem st u (getItemCount st u)) us (money - worth_at st u)
     else if worth_at st u > money then
       (let w = worth_at st u div getItemCount st u;
            removeCount = (money + w - 1) div w
        in (internalRemoveItem st u removeCount, addMoney (w * removeCount - money), None))
     else (internalRemoveItem st u (getItemCount st u), [], None))"

text \<open>
  \<open>removeMoney\<close>: \<open>us\<close> are the collected references, \<open>balance\<close> is \<open>Some\<close> bank balance when
  \<open>useBalance\<close> applies to a player.  The result is the return value, the new store, the change
  and the new balance.
\<close>

definition removeMoney ::
    "istore \<Rightarrow> nat list \<Rightarrow> nat \<Rightarrow> nat option \<Rightarrow> bool \<times> istore \<times> (coin \<times> nat) list \<times> nat option" where
  "removeMoney st us money balance =
    (if money = 0 then (True, st, [], balance)
     else
       (let coins = filter (\<lambda>u. worth_at st u \<noteq> 0) us;
            moneyCount = (\<Sum>u\<leftarrow>coins. worth_at st u);
            bal = (case balance of None \<Rightarrow> 0 | Some b \<Rightarrow> b)
        in if moneyCount + bal < money then (False, st, [], balance)
           else (case pay st (sort_key (worth_at st) coins) money of
               (st', change, None) \<Rightarrow> (True, st', change, balance)
             | (st', change, Some rest) \<Rightarrow>
                 (True, st', change, map_option (\<lambda>b. if b \<ge> rest then b - rest else b) balance))))"

subsection \<open>Creating coins is exact below \<open>2 ^ 32\<close>\<close>

lemma create_count_small: "0 < n \<Longrightarrow> n < 256 \<Longrightarrow> create_count n = n"
  by (simp add: create_count_def)

lemma crystal_stacks_worth: "coins_worth (crystal_stacks n) = n * 10000"
proof (induction n rule: crystal_stacks.induct)
  case (1 n)
  show ?case
  proof (cases "n > 0")
    case True
    have "coins_worth (crystal_stacks n) = min 100 n * 10000 + coins_worth (crystal_stacks (n - min 100 n))"
      using True by (subst crystal_stacks.simps) (simp add: coins_worth_def create_count_small Let_def)
    also have "\<dots> = min 100 n * 10000 + (n - min 100 n) * 10000"
      using "1.IH" [OF True refl] by simp
    also have "\<dots> = n * 10000"
      unfolding distrib_right [symmetric] by simp
    finally show ?thesis .
  qed (simp add: crystal_stacks.simps coins_worth_def)
qed

lemma crystal_stacks_count: "(c, k) \<in> set (crystal_stacks n) \<Longrightarrow> 0 < k \<and> k \<le> 100"
proof (induction n rule: crystal_stacks.induct)
  case (1 n)
  show ?case
  proof (cases "n > 0")
    case True
    then have "create_count (min 100 n) = min 100 n" by (intro create_count_small) auto
    then show ?thesis
      using "1.IH" [OF True refl] "1.prems" True by (subst (asm) crystal_stacks.simps) (auto simp: Let_def)
  qed (use "1.prems" in \<open>simp add: crystal_stacks.simps\<close>)
qed

lemma coins_worth_Nil [simp]: "coins_worth [] = 0"
  by (simp add: coins_worth_def)

lemma coins_worth_append [simp]: "coins_worth (xs @ ys) = coins_worth xs + coins_worth ys"
  by (simp add: coins_worth_def)

lemma addMoney_worth: "money < 2 ^ 32 \<Longrightarrow> coins_worth (addMoney money) = money"
proof -
  assume m: "money < 2 ^ 32"
  let ?c = "money div 10000" and ?r = "money mod 10000"
  have c: "?c mod 2 ^ 32 = ?c" "(?c * 10000) mod 2 ^ 32 = ?c * 10000"
    using m div_mult_mod_eq [of money 10000] by simp_all
  have r: "money - ?c * 10000 = ?r" by (simp add: minus_div_mult_eq_mod)
  have p: "?r div 100 < 100" by simp
  have pc: "create_count (?r div 100) = ?r div 100" if "?r div 100 \<noteq> 0"
    using that p by (intro create_count_small) auto
  have g: "?r - ?r div 100 * 100 = ?r mod 100" by (simp add: minus_div_mult_eq_mod)
  have gc: "create_count (?r mod 100) = ?r mod 100" if "?r mod 100 \<noteq> 0"
    using that mod_less_divisor [of 100 ?r] by (intro create_count_small) auto
  have p16: "?r div 100 mod 65536 = ?r div 100" using p by simp
  have m': "(if ?r div 100 \<noteq> 0 then ?r - ?r div 100 * 100 else ?r) = ?r mod 100"
    using g by auto
  have "coins_worth (addMoney money) = ?c * 10000 + (?r div 100) * 100 + ?r mod 100"
  proof (cases "money = 0")
    case False
    then show ?thesis
      unfolding addMoney_def Let_def c r p16 m'
      using pc gc by (auto simp: crystal_stacks_worth coins_worth_def [of "[]"] coins_worth_def [of "[(_, _)]"])
  qed (simp add: addMoney_def coins_worth_def)
  also have "\<dots> = money" by simp
  finally show ?thesis .
qed



text \<open>
  Above that bound the 32-bit product \<open>crystalCoins * 10000\<close> wraps, and coins are created out of
  nothing: five thousand million gold pieces turn into more.
\<close>

theorem addMoney_overflow: "coins_worth (addMoney 5000000000) > 5000000000"
  by (simp add: addMoney_def crystal_stacks_worth) (simp add: coins_worth_def create_count_def)

subsection \<open>Paying\<close>

abbreviation cash :: "istore \<Rightarrow> nat list \<Rightarrow> nat" where
  "cash st us \<equiv> (\<Sum>u\<leftarrow>us. worth_at st u)"

lemma total_cong: "(\<And>u. u \<in> set us \<Longrightarrow> worth_at st u = worth_at st' u) \<Longrightarrow> cash st us = cash st' us"
  by (induction us) simp_all

lemma worth_remove_other [simp]: "v \<noteq> u \<Longrightarrow> worth_at (internalRemoveItem st u n) v = worth_at st v"
  by (auto simp: worth_at_def internalRemoveItem_def split: option.splits gitem.splits)

lemma worth_remove_all [simp]: "worth_at (internalRemoveItem st u (getItemCount st u)) u = 0"
  by (auto simp: worth_at_def internalRemoveItem_def getItemCount_def split: option.splits gitem.splits)

lemma internalRemoveItem_frame: "v \<noteq> u \<Longrightarrow> internalRemoveItem st u n v = st v"
  by (auto simp: internalRemoveItem_def split: option.splits gitem.splits)

lemma worth_posE:
  assumes "worth_at st u \<noteq> 0"
  obtains c k where "st u = Some (Coins c k)" "0 < k" "worth_at st u = k * coin_worth c" "0 < coin_worth c"
    "coin_worth c \<le> 10000"
proof -
  obtain it where it: "st u = Some it" "getWorth it \<noteq> 0"
    using assms by (auto simp: worth_at_def split: option.splits)
  then obtain c k where "it = Coins c k" by (cases it) auto
  then show ?thesis using that [of c k] it by (cases c) (auto simp: worth_at_def)
qed

text \<open>Breaking a stack: the coins taken cover the amount, and the change is less than one of them.\<close>

lemma break_stack:
  assumes w: "worth_at st u > money" and m: "0 < money"
  defines "unit \<equiv> worth_at st u div getItemCount st u"
  defines "n \<equiv> (money + unit - 1) div unit"
  shows "worth_at (internalRemoveItem st u n) u + coins_worth (addMoney (unit * n - money)) + money = worth_at st u"
proof -
  obtain c k where u: "st u = Some (Coins c k)" "0 < k" "worth_at st u = k * coin_worth c"
      "0 < coin_worth c" "coin_worth c \<le> 10000"
    using worth_posE [of st u] w by (metis not_less_zero)
  have unit: "unit = coin_worth c" using u by (simp add: unit_def getItemCount_def)
  have lo: "money \<le> unit * n" and hi: "unit * n < money + unit"
  proof -
    have "0 < unit" using u(4) by (simp add: unit)
    then have "money + unit - 1 < unit + unit * n" "unit * n \<le> money + unit - 1"
      unfolding n_def by (rule dividend_less_times_div) (rule times_div_less_eq_dividend)
    then show "money \<le> unit * n" "unit * n < money + unit" using m by linarith+
  qed
  have nk: "n \<le> k"
  proof (rule ccontr)
    assume "\<not> n \<le> k"
    then have "unit * (k + 1) \<le> unit * n" by (intro mult_le_mono) simp_all
    then show False using hi w by (simp add: u(3) unit algebra_simps)
  qed
  have "worth_at (internalRemoveItem st u n) u = (k - n) * coin_worth c"
    using u(1) nk by (auto simp: internalRemoveItem_def worth_at_def getWorth_Coins)
  moreover have "coins_worth (addMoney (unit * n - money)) = unit * n - money"
    using hi u(5) by (intro addMoney_worth) (simp add: unit)
  moreover have "(k - n) * coin_worth c + unit * n = worth_at st u"
  proof -
    have "(k - n) * coin_worth c + n * coin_worth c = k * coin_worth c"
      using nk by (simp flip: distrib_right)
    then show ?thesis by (simp add: u(3) unit mult.commute)
  qed
  ultimately show ?thesis using lo by linarith
qed

lemma pay_exact:
  "distinct us \<Longrightarrow> 0 < money \<Longrightarrow> pay st us money = (st', change, r) \<Longrightarrow>
    (case r of None \<Rightarrow> cash st' us + coins_worth change + money = cash st us
     | Some rest \<Rightarrow> cash st' us = 0 \<and> change = [] \<and> cash st us + rest = money \<and> 0 < rest)
    \<and> (\<forall>v. v \<notin> set us \<longrightarrow> st' v = st v)"
proof (induction us arbitrary: st money)
  case (Cons u us)
  have other: "cash (internalRemoveItem st u n) us = cash st us" for n
    using Cons.prems(1) by (intro total_cong worth_remove_other) auto
  consider "worth_at st u < money" | "worth_at st u > money" | "worth_at st u = money" by linarith
  then show ?case
  proof cases
    case 1
    let ?st = "internalRemoveItem st u (getItemCount st u)"
    have p: "pay ?st us (money - worth_at st u) = (st', change, r)" using 1 Cons.prems(3) by simp
    note IH = Cons.IH [OF _ _ p]
    have frame: "st' u = ?st u" using IH 1 Cons.prems(1) by auto
    then have "worth_at st' u = 0" using worth_remove_all [of st u] by (simp add: worth_at_def)
    then show ?thesis using IH 1 Cons.prems(1) other
      by (auto simp: internalRemoveItem_frame split: option.splits)
  next
    case 2
    then show ?thesis using Cons.prems break_stack [OF 2] other
      by (auto simp: Let_def internalRemoveItem_frame)
  next
    case 3
    then show ?thesis using Cons.prems other
      by (auto simp: internalRemoveItem_frame coins_worth_def)
  qed
qed (auto simp: coins_worth_def)

lemma total_filter: "cash st (filter (\<lambda>u. worth_at st u \<noteq> 0) us) = cash st us"
  by (induction us) simp_all

lemma total_filter_pos: "cash st (filter (\<lambda>u. 0 < worth_at st u) us) = cash st us"
  by (induction us) simp_all

lemma total_sort: "cash st (sort_key f us) = cash st us"
  by (metis mset_map mset_sort sum_mset_sum_list)

lemma total_partition:
  assumes "distinct us" "\<And>v. v \<notin> set cs \<Longrightarrow> st' v = st v" "set cs = set (filter (\<lambda>u. worth_at st u \<noteq> 0) us)" "distinct cs"
  shows "cash st' us = cash st' cs"
proof -
  have "cash st' us = sum (worth_at st') (set us)"
    using assms(1) by (simp add: sum_list_distinct_conv_sum_set)
  also have "\<dots> = sum (worth_at st') (set cs)"
    using assms(2,3) by (intro sum.mono_neutral_right) (auto simp: worth_at_def)
  finally show ?thesis using assms(4) by (simp add: sum_list_distinct_conv_sum_set)
qed

lemma removeMoney_cases:
  assumes d: "distinct us" and r: "removeMoney st us money balance = (ok, st', change, balance')"
  shows "ok \<longleftrightarrow> money \<le> cash st us + (case balance of None \<Rightarrow> 0 | Some b \<Rightarrow> b)"
    and "ok \<Longrightarrow> cash st' us + coins_worth change + (case balance' of None \<Rightarrow> 0 | Some b \<Rightarrow> b) + money
           = cash st us + (case balance of None \<Rightarrow> 0 | Some b \<Rightarrow> b)"
    and "\<not> ok \<Longrightarrow> st' = st \<and> change = [] \<and> balance' = balance"
    and "v \<notin> set us \<Longrightarrow> st' v = st v"
proof -
  let ?b = "case balance of None \<Rightarrow> 0 | Some b \<Rightarrow> b"
  let ?coins = "filter (\<lambda>u. worth_at st u \<noteq> 0) us"
  let ?cs = "sort_key (worth_at st) ?coins"
  have cs: "distinct ?cs" "set ?cs = set ?coins" "cash st ?cs = cash st us"
    using d by (simp, simp, simp only: total_sort total_filter)
  obtain st1 ch1 r1 where p: "pay st ?cs money = (st1, ch1, r1)" by (metis prod_cases3)
  have main: "ok = (money \<le> cash st us + ?b) \<and>
      (ok \<longrightarrow> cash st' us + coins_worth change + (case balance' of None \<Rightarrow> 0 | Some b \<Rightarrow> b) + money = cash st us + ?b) \<and>
      (\<not> ok \<longrightarrow> st' = st \<and> change = [] \<and> balance' = balance) \<and> (v \<notin> set us \<longrightarrow> st' v = st v)"
  proof (cases "money = 0 \<or> cash st us + ?b < money")
    case True
    then show ?thesis using r by (auto simp: removeMoney_def total_filter_pos coins_worth_def Let_def split: if_splits)
  next
    case False
    note pe = pay_exact [OF cs(1) _ p]
    have "cash st1 us = cash st1 ?cs"
      using pe False by (intro total_partition [OF d _ cs(2,1)]) auto
    then show ?thesis
      using r False pe p cs(3)
      by (auto simp: removeMoney_def total_filter_pos Let_def split: option.splits)
  qed
  show "ok \<longleftrightarrow> money \<le> cash st us + ?b" using main by blast
  show "ok \<Longrightarrow> cash st' us + coins_worth change + (case balance' of None \<Rightarrow> 0 | Some b \<Rightarrow> b) + money = cash st us + ?b"
    using main by blast
  show "\<not> ok \<Longrightarrow> st' = st \<and> change = [] \<and> balance' = balance" using main by blast
  show "v \<notin> set us \<Longrightarrow> st' v = st v" using main by blast
qed

text \<open>
  C7: \<open>removeMoney\<close> succeeds exactly when cash and usable balance cover the price; then the cash
  left, the change handed out and the balance left together are worth exactly the price less
  than before, and items it did not collect are untouched; otherwise nothing changes.
\<close>

theorem removeMoney_exact:
  assumes "distinct us" and "removeMoney st us money balance = (ok, st', change, balance')"
  shows "(ok \<longleftrightarrow> money \<le> cash st us + (case balance of None \<Rightarrow> 0 | Some b \<Rightarrow> b))
    \<and> (if ok then cash st' us + coins_worth change + (case balance' of None \<Rightarrow> 0 | Some b \<Rightarrow> b) + money
           = cash st us + (case balance of None \<Rightarrow> 0 | Some b \<Rightarrow> b)
       else st' = st \<and> change = [] \<and> balance' = balance)
    \<and> (\<forall>v. v \<in> set us \<or> st' v = st v)"
  using removeMoney_cases [OF assms] by auto

definition example_purse :: istore where
  "example_purse = [0 \<mapsto> Coins ITEM_PLATINUM_COIN 3, 1 \<mapsto> Thing_item 1, 2 \<mapsto> Coins ITEM_GOLD_COIN 40]"

theorem removeMoney_exact_witness:
  "\<exists>st' change. removeMoney example_purse [0, 1, 2] 150 None = (True, st', change, None) \<and>
    cash st' [0, 1, 2] + coins_worth change = 190"
proof -
  obtain ok st' change b where r: "removeMoney example_purse [0, 1, 2] 150 None = (ok, st', change, b)"
    by (metis prod_cases4)
  have t: "cash example_purse [0, 1, 2] = 340" by (simp add: example_purse_def worth_at_def)
  have "ok" "b = None"
    using r by (auto simp: removeMoney_def example_purse_def worth_at_def Let_def split: prod.splits option.splits)
  then show ?thesis using removeMoney_exact [OF _ r] r t by auto
qed

subsection \<open>Collecting ends\<close>

text \<open>
  Containers nest without cycles, so some ranking of the boxes decreases from a box to the boxes
  in it taken together; then that rank, summed over the queue, is fuel enough.
\<close>

definition ranked :: "istore \<Rightarrow> (nat \<Rightarrow> nat) \<Rightarrow> bool" where
  "ranked st r \<longleftrightarrow> (\<forall>u. is_box st u \<longrightarrow> (\<Sum>v\<leftarrow>filter (is_box st) (box_items st u). r v) < r u)"

lemma walk_enough:
  "ranked st r \<Longrightarrow> \<forall>c \<in> set cs. is_box st c \<Longrightarrow> (\<Sum>c\<leftarrow>cs. r c) \<le> fuel \<Longrightarrow> \<exists>us. walk fuel st cs = Some us"
proof (induction fuel arbitrary: cs)
  case 0
  show ?case
  proof (cases cs)
    case (Cons c cs')
    then have "(\<Sum>v\<leftarrow>filter (is_box st) (box_items st c). r v) < r c" using 0(1,2) by (simp add: ranked_def)
    then have "0 < r c" by linarith
    then show ?thesis using 0 Cons by simp
  qed simp
next
  case (Suc fuel)
  show ?case
  proof (cases cs)
    case (Cons c cs')
    let ?new = "cs' @ filter (is_box st) (box_items st c)"
    have "(\<Sum>v\<leftarrow>filter (is_box st) (box_items st c). r v) < r c"
      using Suc.prems(1,2) Cons by (simp add: ranked_def)
    then have "(\<Sum>v\<leftarrow>?new. r v) \<le> fuel" using Suc.prems(3) Cons by simp
    moreover have "\<forall>c \<in> set ?new. is_box st c" using Suc.prems(2) Cons by auto
    ultimately obtain us where "walk fuel st ?new = Some us"
      using Suc.IH [OF Suc.prems(1)] by blast
    then show ?thesis by (simp add: Cons Let_def)
  qed simp
qed

lemma sum_filter_le: "(\<Sum>u\<leftarrow>filter P us. r u) \<le> (\<Sum>u\<leftarrow>us. r u :: nat)"
  by (induction us) auto

lemma collect_enough:
  assumes "ranked st r" "(\<Sum>s\<leftarrow>slots. case s of None \<Rightarrow> 0 | Some u \<Rightarrow> r u) \<le> fuel"
  shows "\<exists>us. collect fuel st slots = Some us"
proof -
  let ?us = "concat (map (\<lambda>s. case s of None \<Rightarrow> [] | Some u \<Rightarrow> [u]) slots)"
  have "(\<Sum>u\<leftarrow>filter (is_box st) ?us. r u) \<le> (\<Sum>u\<leftarrow>?us. r u)" by (rule sum_filter_le)
  moreover have "(\<Sum>u\<leftarrow>?us. r u) = (\<Sum>s\<leftarrow>slots. case s of None \<Rightarrow> 0 | Some u \<Rightarrow> r u)"
    by (induction slots) (auto split: option.splits)
  ultimately show ?thesis
    using walk_enough [OF assms(1), of "filter (is_box st) ?us" fuel] assms(2) by (auto simp: collect_def Let_def)
qed

end
