(* ===== verification/Bank.thy ===== *)
theory Bank
  imports Money
begin

text \<open>
  Bank accounts: \<open>game/bank/bank.cpp\<close>, over the two kinds of account holder (\<open>Player\<close> of
  \<open>player.hpp\<close> and \<open>Guild\<close> of \<open>guild.hpp\<close>), both of which implement \<open>Bankable\<close>.  Balances are
  64-bit words.  A bank is a possibly null pointer to a holder; the interface between the bank
  operations and the holders is the locale \<open>bankable\<close>.
\<close>

type_synonym u64 = "64 word"

record bank_player =
  bp_name :: string
  bp_town :: int
  bp_balance :: u64
  bp_store :: istore
  bp_slots :: "nat option list"
  bp_given :: "(coin \<times> nat) list"

record bank_guild =
  bg_name :: string
  bg_balance :: u64

record bank_world =
  bw_players :: "nat \<Rightarrow> bank_player"
  bw_guilds :: "nat \<Rightarrow> bank_guild"

datatype holder = HPlayer nat | HGuild nat

type_synonym bank = "holder option"

subsection \<open>Holders\<close>

fun getBankBalance :: "bank_world \<Rightarrow> holder \<Rightarrow> u64" where
  "getBankBalance w (HPlayer p) = bp_balance (bw_players w p)"
| "getBankBalance w (HGuild g) = bg_balance (bw_guilds w g)"

fun setBankBalance :: "bank_world \<Rightarrow> holder \<Rightarrow> u64 \<Rightarrow> bank_world" where
  "setBankBalance w (HPlayer p) b = w\<lparr>bw_players := (bw_players w)(p := (bw_players w p)\<lparr>bp_balance := b\<rparr>)\<rparr>"
| "setBankBalance w (HGuild g) b = w\<lparr>bw_guilds := (bw_guilds w)(g := (bw_guilds w g)\<lparr>bg_balance := b\<rparr>)\<rparr>"

fun getPlayer :: "holder \<Rightarrow> nat option" where
  "getPlayer (HPlayer p) = Some p"
| "getPlayer (HGuild _) = None"

subsection \<open>Operations of class Bank\<close>

definition bank_balance :: "bank_world \<Rightarrow> bank \<Rightarrow> u64" where
  "bank_balance w b = (case b of None \<Rightarrow> 0 | Some h \<Rightarrow> getBankBalance w h)"

definition bank_set :: "bank_world \<Rightarrow> bank \<Rightarrow> u64 \<Rightarrow> bool \<times> bank_world" where
  "bank_set w b amount = (case b of None \<Rightarrow> (False, w) | Some h \<Rightarrow> (True, setBankBalance w h amount))"

definition bank_credit :: "bank_world \<Rightarrow> bank \<Rightarrow> u64 \<Rightarrow> bool \<times> bank_world" where
  "bank_credit w b amount = bank_set w b (bank_balance w b + amount)"

definition hasBalance :: "bank_world \<Rightarrow> bank \<Rightarrow> u64 \<Rightarrow> bool" where
  "hasBalance w b amount \<longleftrightarrow> bank_balance w b \<ge> amount"

definition bank_debit :: "bank_world \<Rightarrow> bank \<Rightarrow> u64 \<Rightarrow> bool \<times> bank_world" where
  "bank_debit w b amount = (if \<not> hasBalance w b amount then (False, w)
     else bank_set w b (bank_balance w b - amount))"

definition deniedNames :: "string list" where
  "deniedNames = [''accountmanager'', ''rooksample'', ''druidsample'', ''sorcerersample'',
     ''knightsample'', ''paladinsample'']"

text \<open>\<open>replaceString(name, " ", "")\<close> deletes the blanks.\<close>

definition transferTo :: "int \<Rightarrow> bank_world \<Rightarrow> bank \<Rightarrow> bank option \<Rightarrow> u64 \<Rightarrow> bool \<times> bank_world" where
  "transferTo minTown w source destination amount =
    (case destination of None \<Rightarrow> (False, w) | Some dest \<Rightarrow>
     case source of None \<Rightarrow> (False, w) | Some h \<Rightarrow>
     case dest of None \<Rightarrow> (False, w) | Some dh \<Rightarrow>
       let denied = (case getPlayer dh of None \<Rightarrow> False | Some p \<Rightarrow>
             let name = filter (\<lambda>c. c \<noteq> CHR '' '') (asLowerCaseString (bp_name (bw_players w p))) in
             name \<in> set deniedNames \<or> bp_town (bw_players w p) < minTown)
       in if denied then (False, w)
          else (case bank_debit w source amount of
              (False, w) \<Rightarrow> (False, w)
            | (True, w) \<Rightarrow> (case bank_credit w dest amount of
                (False, w) \<Rightarrow> (False, w) | (True, w) \<Rightarrow> (True, w))))"

definition give_money :: "bank_world \<Rightarrow> nat \<Rightarrow> u64 \<Rightarrow> bank_world" where
  "give_money w p amount = w\<lparr>bw_players := (bw_players w)(p := (bw_players w p)
     \<lparr>bp_given := bp_given (bw_players w p) @ addMoney (unat amount)\<rparr>)\<rparr>"

definition bank_withdraw :: "bank_world \<Rightarrow> bank \<Rightarrow> nat \<Rightarrow> u64 \<Rightarrow> bool \<times> bank_world" where
  "bank_withdraw w b p amount = (case bank_debit w b amount of
     (False, w) \<Rightarrow> (False, w) | (True, w) \<Rightarrow> (True, give_money w p amount))"

text \<open>\<open>us\<close> are the references collected from the player's inventory.\<close>

definition take_money :: "bank_world \<Rightarrow> nat list \<Rightarrow> nat \<Rightarrow> u64 \<Rightarrow> bool \<times> bank_world" where
  "take_money w us p amount = (let pl = bw_players w p in
     case removeMoney (bp_store pl) us (unat amount) None of (ok, st, change, _) \<Rightarrow>
       (ok, w\<lparr>bw_players := (bw_players w)(p := pl\<lparr>bp_store := st, bp_given := bp_given pl @ change\<rparr>)\<rparr>))"

definition bank_deposit :: "nat \<Rightarrow> bank_world \<Rightarrow> bank \<Rightarrow> bank option \<Rightarrow> u64 \<Rightarrow> bool \<times> bank_world" where
  "bank_deposit fuel w b destination amount =
    (case destination of None \<Rightarrow> (False, w) | Some dest \<Rightarrow>
     case b of None \<Rightarrow> (False, w) | Some h \<Rightarrow>
     case getPlayer h of None \<Rightarrow> (False, w) | Some p \<Rightarrow>
     case collect fuel (bp_store (bw_players w p)) (bp_slots (bw_players w p)) of None \<Rightarrow> (False, w) | Some us \<Rightarrow>
       (case take_money w us p amount of
          (False, w) \<Rightarrow> (False, w) | (True, w) \<Rightarrow> bank_credit w dest amount))"

definition bank_deposit_all :: "nat \<Rightarrow> bank_world \<Rightarrow> bank \<Rightarrow> bank option \<Rightarrow> bool \<times> bank_world" where
  "bank_deposit_all fuel w b destination =
    (case b of None \<Rightarrow> (False, w) | Some h \<Rightarrow>
     case getPlayer h of None \<Rightarrow> (False, w) | Some p \<Rightarrow>
     case getMoney fuel (bp_store (bw_players w p)) (bp_slots (bw_players w p)) of None \<Rightarrow> (False, w) | Some amount \<Rightarrow>
       bank_deposit fuel w b destination (of_nat amount))"

subsection \<open>The contract of an account holder\<close>

locale bankable =
  fixes get :: "'w \<Rightarrow> 'h \<Rightarrow> u64"
    and put :: "'w \<Rightarrow> 'h \<Rightarrow> u64 \<Rightarrow> 'w"
  assumes get_put: "get (put w h b) h' = (if h' = h then b else get w h')"
    and put_get: "put w h (get w h) = w"
    and put_put: "put (put w h b) h b' = put w h b'"
begin

text \<open>Moving money between two holders, when neither side wraps.\<close>

definition move :: "'w \<Rightarrow> 'h \<Rightarrow> 'h \<Rightarrow> u64 \<Rightarrow> 'w" where
  "move w h h' a = (let w = put w h (get w h - a) in put w h' (get w h' + a))"

lemma move_self: "move w h h a = w"
  by (simp add: move_def Let_def get_put put_put put_get)

lemma get_move: "h \<noteq> h' \<Longrightarrow> get (move w h h' a) k =
    (if k = h then get w h - a else if k = h' then get w h' + a else get w k)"
  by (auto simp: move_def Let_def get_put)

lemma move_conserves:
  assumes "h \<noteq> h'" "a \<le> get w h" "unat (get w h') + unat a < 2 ^ 64"
  shows "unat (get (move w h h' a) h) + unat (get (move w h h' a) h') = unat (get w h) + unat (get w h')"
proof -
  have "unat (get w h - a) = unat (get w h) - unat a" using assms(2) by (rule unat_sub)
  moreover have "unat a \<le> unat (get w h)" using assms(2) by (simp add: word_le_nat_alt)
  moreover have "unat (get w h' + a) = unat (get w h') + unat a"
    using assms(3) by (simp add: unat_word_ariths)
  ultimately show ?thesis using assms(1) by (simp add: get_move)
qed

end

lemma getBankBalance_set: "getBankBalance (setBankBalance w h b) h' = (if h' = h then b else getBankBalance w h')"
  by (cases h; cases h') auto

lemma setBankBalance_same: "setBankBalance w h (getBankBalance w h) = w"
  by (cases h) simp_all

lemma setBankBalance_twice: "setBankBalance (setBankBalance w h b) h b' = setBankBalance w h b'"
  by (cases h) simp_all

interpretation holders: bankable getBankBalance setBankBalance
  by unfold_locales (rule getBankBalance_set setBankBalance_same setBankBalance_twice)+

subsection \<open>Transfers\<close>

definition transfer_denied :: "int \<Rightarrow> bank_world \<Rightarrow> holder \<Rightarrow> bool" where
  "transfer_denied minTown w dh = (case getPlayer dh of None \<Rightarrow> False | Some p \<Rightarrow>
     filter (\<lambda>c. c \<noteq> CHR '' '') (asLowerCaseString (bp_name (bw_players w p))) \<in> set deniedNames
     \<or> bp_town (bw_players w p) < minTown)"

lemma transferTo_eq:
  "transferTo minTown w (Some h) (Some (Some dh)) amount =
    (if transfer_denied minTown w dh \<or> \<not> amount \<le> getBankBalance w h then (False, w)
     else (True, holders.move w h dh amount))"
  by (cases "getPlayer dh")
    (auto simp: transferTo_def transfer_denied_def bank_debit_def hasBalance_def bank_balance_def
      bank_set_def bank_credit_def holders.move_def Let_def)

lemma transferTo_fails_unchanged:
  assumes "transferTo minTown w b d amount = (False, w')"
  shows "w' = w"
proof (cases "\<exists>h dh. b = Some h \<and> d = Some (Some dh)")
  case True
  then show ?thesis using assms by (auto simp: transferTo_eq split: if_splits)
next
  case False
  then show ?thesis using assms by (auto simp: transferTo_def split: option.splits)
qed

text \<open>
  C8: A transfer either fails and changes nothing, or moves exactly the amount: the two balances
  keep their sum, all others keep their value, and the source was covered.  The side condition
  is that the destination's 64-bit balance does not wrap.
\<close>

theorem transferTo_conserves:
  assumes "transferTo minTown w (Some h) (Some (Some dh)) amount = (ok, w')"
    and "unat (getBankBalance w dh) + unat amount < 2 ^ 64" and "h \<noteq> dh"
  shows "(\<not> ok \<longrightarrow> w' = w) \<and>
    (ok \<longrightarrow> amount \<le> getBankBalance w h
      \<and> unat (getBankBalance w' h) + unat amount = unat (getBankBalance w h)
      \<and> unat (getBankBalance w' h) + unat (getBankBalance w' dh) = unat (getBankBalance w h) + unat (getBankBalance w dh)
      \<and> (\<forall>k. k \<noteq> h \<longrightarrow> k \<noteq> dh \<longrightarrow> getBankBalance w' k = getBankBalance w k))"
proof -
  have "unat (getBankBalance w h - amount) + unat amount = unat (getBankBalance w h)"
    if "amount \<le> getBankBalance w h"
    using that unat_sub [OF that] by (simp add: word_le_nat_alt)
  then show ?thesis
    using assms holders.move_conserves [of h dh amount w]
    by (auto simp: transferTo_eq holders.get_move split: if_splits)
qed

definition example_world :: bank_world where
  "example_world = \<lparr>bw_players = (\<lambda>p. \<lparr>bp_name = ''Knight'', bp_town = 5, bp_balance = 1000,
     bp_store = example_purse, bp_slots = [Some 0, None, Some 1, Some 2], bp_given = []\<rparr>),
     bw_guilds = (\<lambda>g. \<lparr>bg_name = ''Guild'', bg_balance = 7\<rparr>)\<rparr>"

theorem transferTo_conserves_witness:
  "\<exists>w'. transferTo 1 example_world (Some (HPlayer 3)) (Some (Some (HGuild 1))) 400 = (True, w')
    \<and> unat (getBankBalance w' (HPlayer 3)) + unat (getBankBalance w' (HGuild 1)) = 1007"
proof -
  obtain ok w' where t: "transferTo 1 example_world (Some (HPlayer 3)) (Some (Some (HGuild 1))) 400 = (ok, w')"
    by fastforce
  have "ok" using t by (auto simp: transferTo_eq transfer_denied_def example_world_def)
  then show ?thesis using transferTo_conserves [OF t] t by (auto simp: example_world_def)
qed

text \<open>A transfer to oneself changes nothing, whatever the amount, and the accounts of the sample characters never receive any.\<close>

lemma transferTo_self: "snd (transferTo minTown w (Some h) (Some (Some h)) amount) = w"
  by (simp add: transferTo_eq holders.move_self)

lemma transferTo_denied:
  "transfer_denied minTown w dh \<Longrightarrow> transferTo minTown w b (Some (Some dh)) amount = (False, w)"
  by (cases b) (simp add: transferTo_def, simp add: transferTo_eq)

subsection \<open>Cash and balance together\<close>

text \<open>Everything a player owns: balance, the collected cash, and the coins handed out.\<close>

definition wealth :: "bank_world \<Rightarrow> nat list \<Rightarrow> nat \<Rightarrow> nat" where
  "wealth w us p = unat (bp_balance (bw_players w p)) + cash (bp_store (bw_players w p)) us
     + coins_worth (bp_given (bw_players w p))"

lemma withdraw_eq:
  "bank_withdraw w (Some h) p amount = (if amount \<le> getBankBalance w h
     then (True, give_money (setBankBalance w h (getBankBalance w h - amount)) p amount) else (False, w))"
  by (simp add: bank_withdraw_def bank_debit_def hasBalance_def bank_balance_def bank_set_def)

lemma withdraw_wealth:
  assumes "bank_withdraw w (Some (HPlayer p)) p amount = (ok, w')" "unat amount < 2 ^ 32"
  shows "wealth w' us p = wealth w us p \<and> (ok \<longleftrightarrow> amount \<le> getBankBalance w (HPlayer p))"
proof (cases "amount \<le> bp_balance (bw_players w p)")
  case True
  then have "unat (bp_balance (bw_players w p) - amount) + unat amount = unat (bp_balance (bw_players w p))"
    using unat_sub [OF True] by (simp add: word_le_nat_alt)
  then show ?thesis using assms True
    by (auto simp: withdraw_eq wealth_def give_money_def addMoney_worth)
qed (use assms in \<open>auto simp: withdraw_eq\<close>)

lemma deposit_wealth:
  assumes d: "bank_deposit fuel w (Some (HPlayer p)) (Some (Some (HPlayer p))) amount = (ok, w')"
    and us: "collect fuel (bp_store (bw_players w p)) (bp_slots (bw_players w p)) = Some us" "distinct us"
    and nw: "unat (bp_balance (bw_players w p)) + unat amount < 2 ^ 64"
  shows "wealth w' us p = wealth w us p \<and> (ok \<longleftrightarrow> unat amount \<le> cash (bp_store (bw_players w p)) us)"
proof -
  obtain ok1 st ch b where r: "removeMoney (bp_store (bw_players w p)) us (unat amount) None = (ok1, st, ch, b)"
    by (metis prod_cases4)
  note rc = removeMoney_cases [OF us(2) r]
  have b: "b = None" using r by (auto simp: removeMoney_def Let_def split: if_splits prod.splits option.splits)
  have "unat (bp_balance (bw_players w p) + amount) = unat (bp_balance (bw_players w p)) + unat amount"
    using nw by (simp add: unat_word_ariths)
  then show ?thesis
    using d rc us(1) b
    by (cases ok1) (auto simp: bank_deposit_def take_money_def r Let_def bank_credit_def bank_set_def
        bank_balance_def wealth_def)
qed

text \<open>
  Withdrawing from one's own account and depositing into it never create or destroy money:
  balance, cash and coins handed out keep their total, in the successful case and in the
  refused one.
\<close>

theorem withdraw_deposit_conserve:
  assumes "distinct us" "unat amount < 2 ^ 32"
    and "collect fuel (bp_store (bw_players w p)) (bp_slots (bw_players w p)) = Some us"
    and "unat (bp_balance (bw_players w p)) + unat amount < 2 ^ 64"
  shows "wealth (snd (bank_withdraw w (Some (HPlayer p)) p amount)) us p = wealth w us p
    \<and> wealth (snd (bank_deposit fuel w (Some (HPlayer p)) (Some (Some (HPlayer p))) amount)) us p = wealth w us p"
proof -
  obtain a b c d where "bank_withdraw w (Some (HPlayer p)) p amount = (a, b)"
      "bank_deposit fuel w (Some (HPlayer p)) (Some (Some (HPlayer p))) amount = (c, d)"
    by fastforce
  then show ?thesis using withdraw_wealth deposit_wealth assms by simp
qed

theorem withdraw_deposit_conserve_witness:
  "wealth (snd (bank_deposit 5 example_world (Some (HPlayer 3)) (Some (Some (HPlayer 3))) 250)) [0, 1, 2] 3 = 1340"
proof -
  have c: "collect 5 (bp_store (bw_players example_world 3)) (bp_slots (bw_players example_world 3)) = Some [0, 1, 2]"
    by (simp add: collect_def example_world_def example_purse_def is_box_def)
  have w: "wealth example_world [0, 1, 2] 3 = 1340"
    by (simp add: wealth_def example_world_def example_purse_def worth_at_def)
  have b: "unat (bp_balance (bw_players example_world 3)) + unat (250 :: u64) < 2 ^ 64"
    by (simp add: example_world_def)
  show ?thesis using conjunct2 [OF withdraw_deposit_conserve [OF _ _ c b]] w by simp
qed

end
