(* ===== verification/Account.thy ===== *)
theory Account
  imports Prelude "HOL-Library.Signed_Division"
begin

text \<open>
  Accounts: \<open>account/account.cpp\<close> over \<open>account/account_repository_db.cpp\<close>.  The database engine
  is not part of the repository: the queries the repository issues are the fields of a record
  that the definitions take as an argument, and \<open>sql_laws\<close> states the SQL behaviour the coin
  operations rely on.  \<open>now\<close> is \<open>getTimeNow()\<close>.  Signed 32-bit arithmetic is written with
  \<open>s32\<close>; \<open>sdiv\<close> and \<open>smod\<close> are C's truncating division.
\<close>

unbundle bit_operations_syntax

definition s32 :: "int \<Rightarrow> int" where
  "s32 i = sint (word_of_int i :: u32)"

datatype account_error = AccOk | Storage | RemoveCoins | InvalidLastDay | LoadingAccount | NotInitialized

record account_info =
  ai_id :: u32
  ai_remaining :: u32
  ai_lastDay :: int
  ai_type :: u8
  ai_players :: "string \<rightharpoonup> nat"
  ai_oldProtocol :: bool
  ai_expires :: int
  ai_purchased :: u32
  ai_creation :: u32

record account =
  ac_descriptor :: string
  ac_info :: account_info
  ac_loaded :: bool

subsection \<open>The queries of the repository\<close>

datatype account_query = ById u32 | ByIdentifier string string | BySession string

record account_row =
  row_id :: u32
  row_type :: "16 word"
  row_lastday :: int
  row_expires :: int
  row_purchased :: u32
  row_creation :: u32

record 'db sql =
  sql_account :: "'db \<Rightarrow> account_query \<Rightarrow> account_row option"
  sql_players :: "'db \<Rightarrow> u32 \<Rightarrow> (string \<times> nat) list"
  sql_coins :: "'db \<Rightarrow> string \<Rightarrow> u32 \<Rightarrow> u32 option"
  sql_password :: "'db \<Rightarrow> u32 \<Rightarrow> string option"
  sql_save :: "'db \<Rightarrow> account_info \<Rightarrow> bool \<times> 'db"
  sql_set_coins :: "'db \<Rightarrow> string \<Rightarrow> u32 \<Rightarrow> u32 \<Rightarrow> bool \<times> 'db"
  sql_transaction :: "'db \<Rightarrow> u32 \<Rightarrow> u8 \<Rightarrow> u8 \<Rightarrow> u32 \<Rightarrow> string \<Rightarrow> bool \<times> 'db"

text \<open>A successful update changes the named column of the named row only, a failed one nothing; the log of transactions is another table.\<close>

definition sql_laws :: "'db sql \<Rightarrow> bool" where
  "sql_laws S \<longleftrightarrow>
     (\<forall>db c i v. \<forall>c' i'. sql_coins S (snd (sql_set_coins S db c i v)) c' i' =
        (if fst (sql_set_coins S db c i v) \<and> c' = c \<and> i' = i \<and> sql_coins S db c i \<noteq> None
         then Some v else sql_coins S db c' i')) \<and>
     (\<forall>db i k t n d. \<forall>c' i'. sql_coins S (snd (sql_transaction S db i k t n d)) c' i' = sql_coins S db c' i')"

subsection \<open>Repository\<close>

definition coinTypeToColumn :: "u8 \<Rightarrow> string option" where
  "coinTypeToColumn t = (if t = 1 then Some ''coins'' else if t = 2 then Some ''tournament_coins''
     else if t = 3 then Some ''coins_transferable'' else None)"

definition repo_getCoins :: "'db sql \<Rightarrow> 'db \<Rightarrow> u32 \<Rightarrow> u8 \<Rightarrow> u32 option" where
  "repo_getCoins S db i t = (case coinTypeToColumn t of None \<Rightarrow> None | Some c \<Rightarrow> sql_coins S db c i)"

definition repo_setCoins :: "'db sql \<Rightarrow> 'db \<Rightarrow> u32 \<Rightarrow> u8 \<Rightarrow> u32 \<Rightarrow> bool \<times> 'db" where
  "repo_setCoins S db i t amount =
     (case coinTypeToColumn t of None \<Rightarrow> (False, db) | Some c \<Rightarrow> sql_set_coins S db c i amount)"

definition repo_getPassword :: "'db sql \<Rightarrow> 'db \<Rightarrow> u32 \<Rightarrow> string option" where
  "repo_getPassword S db i = sql_password S db i"

definition repo_save :: "'db sql \<Rightarrow> 'db \<Rightarrow> account_info \<Rightarrow> bool \<times> 'db" where
  "repo_save S db acc = sql_save S db acc"

definition repo_registerCoinsTransaction :: "'db sql \<Rightarrow> 'db \<Rightarrow> u32 \<Rightarrow> u8 \<Rightarrow> u32 \<Rightarrow> u8 \<Rightarrow> string \<Rightarrow> bool \<times> 'db" where
  "repo_registerCoinsTransaction S db i ttype coins coinType description =
     sql_transaction S db i ttype coinType coins description"

text \<open>
  \<open>try_emplace\<close> receives one braced argument, which builds the key \<open>name.substr(deletion)\<close> with
  \<open>deletion = 0\<close>; the mapped value is the default 0.
\<close>

fun add_players :: "(string \<rightharpoonup> nat) \<Rightarrow> (string \<times> nat) list \<Rightarrow> (string \<rightharpoonup> nat)" where
  "add_players m [] = m"
| "add_players m ((name, deletion) # rs) =
     (if deletion \<noteq> 0 then add_players m rs
      else add_players (if m name = None then m(name \<mapsto> 0) else m) rs)"

definition loadAccountPlayers :: "'db sql \<Rightarrow> 'db \<Rightarrow> account_info \<Rightarrow> bool \<times> account_info" where
  "loadAccountPlayers S db acc = (case sql_players S db (ai_id acc) of [] \<Rightarrow> (False, acc)
     | rs \<Rightarrow> (True, acc\<lparr>ai_players := add_players (ai_players acc) rs\<rparr>))"

definition setupLoyaltyInfo :: "int \<Rightarrow> 'db sql \<Rightarrow> 'db \<Rightarrow> account_info \<Rightarrow> account_info \<times> 'db" where
  "setupLoyaltyInfo now S db acc =
     (if ai_purchased acc \<ge> ai_remaining acc \<and> ai_creation acc \<noteq> 0 then (acc, db)
      else let acc = (if ai_purchased acc < ai_remaining acc then acc\<lparr>ai_purchased := ai_remaining acc\<rparr> else acc);
               acc = (if ai_creation acc = 0 then acc\<lparr>ai_creation := word_of_int now\<rparr> else acc)
           in (acc, snd (repo_save S db acc)))"

definition repo_load :: "int \<Rightarrow> 'db sql \<Rightarrow> 'db \<Rightarrow> account_query \<Rightarrow> account_info \<Rightarrow> bool \<times> account_info \<times> 'db" where
  "repo_load now S db q acc = (case sql_account S db q of None \<Rightarrow> (False, acc, db)
   | Some r \<Rightarrow>
     let acc = acc\<lparr>ai_id := row_id r, ai_type := ucast (row_type r), ai_lastDay := row_lastday r,
                   ai_expires := row_expires r, ai_purchased := row_purchased r, ai_creation := row_creation r,
                   ai_remaining := (if row_lastday r > now then word_of_int ((row_lastday r - now) sdiv 86400) else 0)\<rparr>;
         (acc, db) = setupLoyaltyInfo now S db acc;
         (ok, acc) = loadAccountPlayers S db acc
     in (ok, acc, db))"

definition loadByID :: "int \<Rightarrow> 'db sql \<Rightarrow> 'db \<Rightarrow> u32 \<Rightarrow> account_info \<Rightarrow> bool \<times> account_info \<times> 'db" where
  "loadByID now S db i acc = repo_load now S db (ById i) acc"

definition loadByEmailOrName :: "int \<Rightarrow> 'db sql \<Rightarrow> 'db \<Rightarrow> bool \<Rightarrow> string \<Rightarrow> account_info \<Rightarrow> bool \<times> account_info \<times> 'db" where
  "loadByEmailOrName now S db oldProtocol emailOrName acc =
     repo_load now S db (ByIdentifier (if oldProtocol then ''name'' else ''email'') emailOrName) acc"

definition loadBySession :: "(string \<Rightarrow> string) \<Rightarrow> int \<Rightarrow> 'db sql \<Rightarrow> 'db \<Rightarrow> string \<Rightarrow> account_info \<Rightarrow> bool \<times> account_info \<times> 'db" where
  "loadBySession sha1 now S db sessionKey acc = repo_load now S db (BySession (sha1 sessionKey)) acc"

subsection \<open>Premium time\<close>

definition setPremiumDays :: "int \<Rightarrow> int \<Rightarrow> account_info \<Rightarrow> account_info" where
  "setPremiumDays now days acc =
     (let acc = acc\<lparr>ai_remaining := word_of_int days, ai_lastDay := now + s32 (days * 86400)\<rparr>
      in if days \<le> 0 then acc\<lparr>ai_lastDay := 0, ai_remaining := 0\<rparr> else acc)"

definition addPremiumDays :: "int \<Rightarrow> int \<Rightarrow> account_info \<Rightarrow> account_info" where
  "addPremiumDays now days acc =
     (let timeLeft = max 0 (s32 ((ai_lastDay acc - now) smod 86400));
          acc = setPremiumDays now (sint (ai_remaining acc + word_of_int days)) acc;
          acc = acc\<lparr>ai_purchased := ai_purchased acc + word_of_int days\<rparr>
      in if timeLeft > 0 then acc\<lparr>ai_lastDay := ai_lastDay acc + timeLeft\<rparr> else acc)"

definition getPremiumRemainingDays :: "int \<Rightarrow> account_info \<Rightarrow> u32" where
  "getPremiumRemainingDays now acc =
     (if ai_lastDay acc > now then word_of_int ((ai_lastDay acc - now) sdiv 86400) else 0)"

definition getAccountAgeInDays :: "int \<Rightarrow> account_info \<Rightarrow> u32" where
  "getAccountAgeInDays now acc = word_of_int ((now - uint (ai_creation acc)) sdiv 86400)"

subsection \<open>Class Account\<close>

definition new_account_info :: account_info where
  "new_account_info = \<lparr>ai_id = 0, ai_remaining = 0, ai_lastDay = 0, ai_type = 1, ai_players = Map.empty,
     ai_oldProtocol = False, ai_expires = 0, ai_purchased = 0, ai_creation = 0\<rparr>"

definition Account_id :: "u32 \<Rightarrow> account" where
  "Account_id i = \<lparr>ac_descriptor = '''', ac_info = new_account_info\<lparr>ai_id := i\<rparr>, ac_loaded = False\<rparr>"

definition Account_descriptor :: "string \<Rightarrow> account" where
  "Account_descriptor d = \<lparr>ac_descriptor = d, ac_info = new_account_info, ac_loaded = False\<rparr>"

definition account_save :: "'db sql \<Rightarrow> account \<Rightarrow> 'db \<Rightarrow> account_error \<times> 'db" where
  "account_save S a db = (if \<not> ac_loaded a then (NotInitialized, db)
     else case repo_save S db (ac_info a) of (False, db) \<Rightarrow> (Storage, db) | (True, db) \<Rightarrow> (AccOk, db))"

definition updatePremiumTime :: "int \<Rightarrow> 'db sql \<Rightarrow> account \<Rightarrow> 'db \<Rightarrow> account \<times> 'db" where
  "updatePremiumTime now S a db =
     (let acc = ac_info a; lastDay = ai_lastDay acc; remainingDays = ai_remaining acc;
          daysLeft = s32 ((lastDay - now) sdiv 86400); timeLeft = s32 ((lastDay - now) smod 86400);
          acc = acc\<lparr>ai_remaining := (if daysLeft > 0 then word_of_int daysLeft else 0)\<rparr>;
          acc = (if daysLeft = 0 \<and> timeLeft = 0 then setPremiumDays now 0 acc else acc);
          acc = (if lastDay < now \<or> lastDay = 0 then setPremiumDays now 0 acc else acc);
          a = a\<lparr>ac_info := acc\<rparr>
      in if remainingDays = ai_remaining acc then (a, db) else (a, snd (account_save S a db)))"

text \<open>\<open>load\<close> tries the identifier, then the e-mail or name, then the session; a failed attempt may already have changed the record.\<close>

definition account_load :: "(string \<Rightarrow> string) \<Rightarrow> int \<Rightarrow> 'db sql \<Rightarrow> account \<Rightarrow> 'db \<Rightarrow> account_error \<times> account \<times> 'db" where
  "account_load sha1 now S a db =
    (let (ok, acc, db) = (if ai_id (ac_info a) \<noteq> 0 then loadByID now S db (ai_id (ac_info a)) (ac_info a)
                          else (False, ac_info a, db));
         a = a\<lparr>ac_info := acc\<rparr>
     in if ok then (AccOk, a\<lparr>ac_loaded := True\<rparr>, db) else
     let (ok, acc, db) = (if ac_descriptor a \<noteq> [] then
                            loadByEmailOrName now S db (ai_oldProtocol acc) (ac_descriptor a) acc
                          else (False, acc, db));
         a = a\<lparr>ac_info := acc\<rparr>
     in if ok then (AccOk, a\<lparr>ac_loaded := True\<rparr>, db) else
     let (ok, acc, db) = (if ac_descriptor a \<noteq> [] then loadBySession sha1 now S db (ac_descriptor a) acc
                          else (False, acc, db));
         a = a\<lparr>ac_info := acc\<rparr>
     in if ok then (AccOk, a\<lparr>ac_loaded := True\<rparr>, db) else
     let (a, db) = updatePremiumTime now S a db in (LoadingAccount, a, db))"

definition account_reload :: "(string \<Rightarrow> string) \<Rightarrow> int \<Rightarrow> 'db sql \<Rightarrow> account \<Rightarrow> 'db \<Rightarrow> account_error \<times> account \<times> 'db" where
  "account_reload sha1 now S a db = (if \<not> ac_loaded a then (NotInitialized, a, db) else account_load sha1 now S a db)"

definition account_getCoins :: "'db sql \<Rightarrow> account \<Rightarrow> 'db \<Rightarrow> u8 \<Rightarrow> u32 \<times> account_error" where
  "account_getCoins S a db t = (if \<not> ac_loaded a then (0, NotInitialized)
     else case repo_getCoins S db (ai_id (ac_info a)) t of None \<Rightarrow> (0, Storage) | Some c \<Rightarrow> (c, AccOk))"

definition registerCoinTransaction :: "'db sql \<Rightarrow> account \<Rightarrow> 'db \<Rightarrow> u8 \<Rightarrow> u8 \<Rightarrow> u32 \<Rightarrow> string \<Rightarrow> 'db" where
  "registerCoinTransaction S a db ttype t amount detail =
     (if \<not> ac_loaded a then db else if detail = [] then db
      else snd (repo_registerCoinsTransaction S db (ai_id (ac_info a)) ttype amount t detail))"

definition addCoins :: "'db sql \<Rightarrow> account \<Rightarrow> u8 \<Rightarrow> u32 \<Rightarrow> string \<Rightarrow> 'db \<Rightarrow> account_error \<times> 'db" where
  "addCoins S a t amount detail db =
     (if \<not> ac_loaded a then (NotInitialized, db) else if amount = 0 then (AccOk, db)
      else case account_getCoins S a db t of (coins, result) \<Rightarrow>
        if result \<noteq> AccOk then (result, db)
        else case repo_setCoins S db (ai_id (ac_info a)) t (coins + amount) of
            (False, db) \<Rightarrow> (Storage, db)
          | (True, db) \<Rightarrow> (AccOk, registerCoinTransaction S a db 1 t amount detail))"

definition removeCoins :: "'db sql \<Rightarrow> account \<Rightarrow> u8 \<Rightarrow> u32 \<Rightarrow> string \<Rightarrow> 'db \<Rightarrow> account_error \<times> 'db" where
  "removeCoins S a t amount detail db =
     (if \<not> ac_loaded a then (NotInitialized, db) else if amount = 0 then (AccOk, db)
      else case account_getCoins S a db t of (coins, result) \<Rightarrow>
        if result \<noteq> AccOk then (result, db)
        else if coins < amount then (RemoveCoins, db)
        else case repo_setCoins S db (ai_id (ac_info a)) t (coins - amount) of
            (False, db) \<Rightarrow> (Storage, db)
          | (True, db) \<Rightarrow> (AccOk, registerCoinTransaction S a db 2 t amount detail))"

definition account_getPassword :: "'db sql \<Rightarrow> account \<Rightarrow> 'db \<Rightarrow> string" where
  "account_getPassword S a db = (if \<not> ac_loaded a then []
     else case repo_getPassword S db (ai_id (ac_info a)) of None \<Rightarrow> [] | Some p \<Rightarrow> p)"

definition authenticateSession :: "int \<Rightarrow> account \<Rightarrow> bool" where
  "authenticateSession now a \<longleftrightarrow> \<not> ai_expires (ac_info a) < now"

definition authenticatePassword :: "(string \<Rightarrow> string \<Rightarrow> bool) \<Rightarrow> (string \<Rightarrow> string) \<Rightarrow> 'db sql \<Rightarrow> account \<Rightarrow> 'db \<Rightarrow> string \<Rightarrow> bool" where
  "authenticatePassword argon sha1 S a db password \<longleftrightarrow>
     argon password (account_getPassword S a db) \<or> sha1 password = account_getPassword S a db"

subsection \<open>The coin ledger\<close>

text \<open>A request of the store or of a script: \<open>AddC\<close> and \<open>RemC\<close> carry type, amount and description.\<close>

datatype coin_request = AddC u8 u32 string | RemC u8 u32 string

fun serve_coins :: "'db sql \<Rightarrow> account \<Rightarrow> coin_request \<Rightarrow> 'db \<Rightarrow> account_error \<times> 'db" where
  "serve_coins S a (AddC t n d) db = addCoins S a t n d db"
| "serve_coins S a (RemC t n d) db = removeCoins S a t n d db"

fun coin_requests :: "'db sql \<Rightarrow> account \<Rightarrow> coin_request list \<Rightarrow> 'db \<Rightarrow> account_error list \<times> 'db" where
  "coin_requests S a [] db = ([], db)"
| "coin_requests S a (r # rs) db = (let (e, db) = serve_coins S a r db; (es, db) = coin_requests S a rs db in (e # es, db))"

fun ledger :: "u8 \<Rightarrow> coin_request list \<Rightarrow> account_error list \<Rightarrow> int" where
  "ledger t (AddC t' n d # rs) (e # es) = (if t' = t \<and> e = AccOk then int (unat n) else 0) + ledger t rs es"
| "ledger t (RemC t' n d # rs) (e # es) = (if t' = t \<and> e = AccOk then - int (unat n) else 0) + ledger t rs es"
| "ledger t _ _ = 0"

fun demand :: "u8 \<Rightarrow> coin_request list \<Rightarrow> nat" where
  "demand t [] = 0"
| "demand t (AddC t' n d # rs) = (if t' = t then unat n else 0) + demand t rs"
| "demand t (RemC t' n d # rs) = demand t rs"

abbreviation coins_of :: "'db sql \<Rightarrow> account \<Rightarrow> 'db \<Rightarrow> u8 \<Rightarrow> u32 option" where
  "coins_of S a db t \<equiv> repo_getCoins S db (ai_id (ac_info a)) t"

lemma coinTypeToColumn_inj:
  "coinTypeToColumn t = Some c \<Longrightarrow> coinTypeToColumn t' = Some c \<longleftrightarrow> t' = t"
  by (auto simp: coinTypeToColumn_def split: if_splits)

lemma repo_getCoins_after_set:
  assumes "sql_laws S" "repo_setCoins S db i t v = (ok, db')"
  shows "repo_getCoins S db' i' t' =
    (if ok \<and> i' = i \<and> t' = t \<and> repo_getCoins S db i t \<noteq> None then Some v else repo_getCoins S db i' t')"
proof (cases "coinTypeToColumn t")
  case None
  then show ?thesis using assms(2) by (auto simp: repo_setCoins_def repo_getCoins_def)
next
  case (Some c)
  then have "ok = fst (sql_set_coins S db c i v)" "db' = snd (sql_set_coins S db c i v)"
    using assms(2) by (auto simp: repo_setCoins_def)
  moreover have "coinTypeToColumn t' = Some c \<longleftrightarrow> t' = t" using Some by (rule coinTypeToColumn_inj)
  ultimately show ?thesis
    using assms(1) Some
    by (cases "coinTypeToColumn t'") (simp_all add: repo_getCoins_def sql_laws_def, auto)
qed

lemma repo_getCoins_registered:
  "sql_laws S \<Longrightarrow> repo_getCoins S (registerCoinTransaction S a db k t n d) i' t' = repo_getCoins S db i' t'"
  by (cases "coinTypeToColumn t'")
    (auto simp: registerCoinTransaction_def repo_registerCoinsTransaction_def repo_getCoins_def sql_laws_def)

lemma addCoins_coins:
  assumes S: "sql_laws S" and c: "coins_of S a db t' = Some c"
    and r: "addCoins S a t n d db = (e, db')"
  shows "coins_of S a db' t' = Some (if t = t' \<and> e = AccOk then c + n else c)"
proof (cases "ac_loaded a \<and> n \<noteq> 0 \<and> coins_of S a db t \<noteq> None")
  case True
  then obtain k where k: "coins_of S a db t = Some k" by auto
  obtain ok db1 where s: "repo_setCoins S db (ai_id (ac_info a)) t (k + n) = (ok, db1)" by fastforce
  show ?thesis
    using True k s r c repo_getCoins_after_set [OF S s, of "ai_id (ac_info a)" t']
    by (cases ok) (auto simp: addCoins_def account_getCoins_def repo_getCoins_registered [OF S])
next
  case False
  then show ?thesis using r c by (auto simp: addCoins_def account_getCoins_def split: if_splits)
qed

lemma removeCoins_coins:
  assumes S: "sql_laws S" and c: "coins_of S a db t' = Some c"
    and r: "removeCoins S a t n d db = (e, db')"
  shows "coins_of S a db' t' = Some (if t = t' \<and> e = AccOk then c - n else c)
    \<and> (t = t' \<and> e = AccOk \<longrightarrow> n \<le> c)"
proof (cases "ac_loaded a \<and> n \<noteq> 0 \<and> coins_of S a db t \<noteq> None")
  case True
  then obtain k where k: "coins_of S a db t = Some k" by auto
  obtain ok db1 where s: "repo_setCoins S db (ai_id (ac_info a)) t (k - n) = (ok, db1)" by fastforce
  show ?thesis
    using True k s r c repo_getCoins_after_set [OF S s, of "ai_id (ac_info a)" t']
    by (cases ok) (auto simp: removeCoins_def account_getCoins_def repo_getCoins_registered [OF S] split: if_splits)
next
  case False
  then show ?thesis using r c by (auto simp: removeCoins_def account_getCoins_def split: if_splits)
qed

lemma unat_add_nowrap: "unat (c :: u32) + unat n < 2 ^ 32 \<Longrightarrow> unat (c + n) = unat c + unat n"
  by (simp add: unat_word_ariths)

lemma unat_sub_le: "(n :: u32) \<le> c \<Longrightarrow> int (unat (c - n)) = int (unat c) - int (unat n) \<and> unat (c - n) \<le> unat c"
  by (simp add: unat_sub word_le_nat_alt of_nat_diff)

text \<open>
  Whatever sequence of additions and removals the account receives, the stored number of
  coins of a type is the initial number plus what was added minus what was removed by the
  requests that answered \<open>Ok\<close>; refused and failed requests leave no trace, and no removal drives
  it below zero.  The side condition is that the additions together do not overflow 32 bits.
\<close>

theorem coin_ledger:
  assumes "sql_laws S" and "coins_of S a db t = Some c" and "unat c + demand t rs < 2 ^ 32"
    and "coin_requests S a rs db = (es, db')"
  shows "\<exists>c'. coins_of S a db' t = Some c' \<and> int (unat c') = int (unat c) + ledger t rs es"
  using assms(2-4)
proof (induction rs arbitrary: db c es)
  case (Cons r rs)
  obtain e db1 where r: "serve_coins S a r db = (e, db1)" by fastforce
  obtain es' where es: "coin_requests S a rs db1 = (es', db')" "es = e # es'"
    using Cons.prems(3) r by (auto simp: Let_def split: prod.splits)
  show ?case
  proof (cases r)
    case (AddC t' n d)
    have "coins_of S a db1 t = Some (if t' = t \<and> e = AccOk then c + n else c)"
      using addCoins_coins [OF assms(1) Cons.prems(1)] r AddC by simp
    moreover have "unat (if t' = t \<and> e = AccOk then c + n else c) = unat c + (if t' = t \<and> e = AccOk then unat n else 0)"
      using Cons.prems(2) AddC by (auto intro!: unat_add_nowrap)
    ultimately show ?thesis
      using Cons.IH [of db1 "if t' = t \<and> e = AccOk then c + n else c" es'] es Cons.prems(2) AddC
      by (auto split: if_splits)
  next
    case (RemC t' n d)
    have c1: "coins_of S a db1 t = Some (if t' = t \<and> e = AccOk then c - n else c)"
      "t' = t \<and> e = AccOk \<longrightarrow> n \<le> c"
      using removeCoins_coins [OF assms(1) Cons.prems(1)] r RemC by simp_all
    moreover have "int (unat (if t' = t \<and> e = AccOk then c - n else c)) = int (unat c) - (if t' = t \<and> e = AccOk then int (unat n) else 0)"
      "unat (if t' = t \<and> e = AccOk then c - n else c) \<le> unat c"
      using c1(2) unat_sub_le by auto
    ultimately show ?thesis
      using Cons.IH [of db1 "if t' = t \<and> e = AccOk then c - n else c" es'] es Cons.prems(2) RemC
      by (auto split: if_splits)
  qed
qed simp

definition table_sql :: "(string \<Rightarrow> u32 \<Rightarrow> u32 option) sql" where
  "table_sql = \<lparr>sql_account = (\<lambda>_ _. None), sql_players = (\<lambda>_ _. []), sql_coins = (\<lambda>db. db),
     sql_password = (\<lambda>_ _. None), sql_save = (\<lambda>db _. (True, db)),
     sql_set_coins = (\<lambda>db c i v. if db c i = None then (True, db) else (True, \<lambda>c' i'. if c' = c \<and> i' = i then Some v else db c' i')),
     sql_transaction = (\<lambda>db _ _ _ _ _. (True, db))\<rparr>"

lemma sql_laws_table: "sql_laws table_sql"
  by (simp add: sql_laws_def table_sql_def)

theorem coin_ledger_witness:
  "\<exists>c'. coins_of table_sql ((Account_id 7)\<lparr>ac_loaded := True\<rparr>)
     (snd (coin_requests table_sql ((Account_id 7)\<lparr>ac_loaded := True\<rparr>)
       [AddC 1 250 ''gift'', RemC 1 100 ''buy'', RemC 1 1000 ''buy'', AddC 3 9 ''gift''] (\<lambda>c i. Some 30))) 1 = Some c'
   \<and> int (unat c') = 180"
proof -
  let ?a = "(Account_id 7)\<lparr>ac_loaded := True\<rparr>"
  let ?rs = "[AddC 1 250 ''gift'', RemC 1 100 ''buy'', RemC 1 1000 ''buy'', AddC 3 9 ''gift'']"
  note run = addCoins_def removeCoins_def account_getCoins_def repo_getCoins_def repo_setCoins_def
    coinTypeToColumn_def table_sql_def registerCoinTransaction_def repo_registerCoinsTransaction_def Account_id_def
  have r: "fst (coin_requests table_sql ?a ?rs (\<lambda>c i. Some 30)) = [AccOk, AccOk, RemoveCoins, AccOk]"
    by (simp add: run new_account_info_def)
  have c: "coins_of table_sql ?a (\<lambda>c i. Some 30) 1 = Some 30"
    by (simp add: repo_getCoins_def coinTypeToColumn_def table_sql_def)
  have "unat (30 :: u32) + demand 1 ?rs < 2 ^ 32" by simp
  with r show ?thesis
    using coin_ledger [OF sql_laws_table c, of ?rs "[AccOk, AccOk, RemoveCoins, AccOk]"
        "snd (coin_requests table_sql ?a ?rs (\<lambda>c i. Some 30))"]
    by (simp add: prod_eq_iff)
qed

text \<open>Without the side condition an addition can lose coins: the sum is taken on 32 bits.\<close>

lemma addCoins_wraps:
  "\<exists>e db'. addCoins table_sql ((Account_id 7)\<lparr>ac_loaded := True\<rparr>) 1 1 ''x'' (\<lambda>c i. Some 0xFFFFFFFF) = (e, db')
    \<and> e = AccOk \<and> coins_of table_sql ((Account_id 7)\<lparr>ac_loaded := True\<rparr>) db' 1 = Some 0"
  by (simp add: addCoins_def account_getCoins_def repo_getCoins_def repo_setCoins_def
      coinTypeToColumn_def table_sql_def registerCoinTransaction_def repo_registerCoinsTransaction_def
      Account_id_def new_account_info_def)

subsection \<open>Premium time is conserved\<close>

lemma s32_id: "- 2147483648 \<le> i \<Longrightarrow> i < 2147483648 \<Longrightarrow> s32 i = i"
  by (simp add: s32_def int_word_sint)

lemma s32_0 [simp]: "s32 0 = 0"
  by (simp add: s32_def)

lemma sdiv_pos: "0 \<le> x \<Longrightarrow> x sdiv 86400 = x div (86400 :: int)"
  by (cases "x = 0") (simp_all add: signed_divide_int_def)

lemma smod_pos: "0 \<le> x \<Longrightarrow> x smod 86400 = x mod (86400 :: int)"
  by (cases "x = 0") (simp_all add: signed_modulo_int_def signed_divide_int_def minus_mult_div_eq_mod)

lemma sdiv_neg: "x < 0 \<Longrightarrow> x sdiv 86400 = - (- x div (86400 :: int))"
  by (simp add: signed_divide_int_def)

lemma smod_neg: "x < 0 \<Longrightarrow> x smod 86400 = - (- x mod (86400 :: int))"
  by (simp add: signed_modulo_int_def signed_divide_int_def minus_div_mult_eq_mod [symmetric])

lemma unat_remaining:
  "now < ai_lastDay acc \<Longrightarrow> ai_lastDay acc - now < 2147483648 \<Longrightarrow>
    uint (getPremiumRemainingDays now acc) = (ai_lastDay acc - now) div 86400"
  by (simp add: getPremiumRemainingDays_def sdiv_pos uint_word_of_int)

lemma sint_add_days:
  assumes "0 < d" "uint r + d \<le> 24855"
  shows "sint ((r :: u32) + word_of_int d) = uint r + d"
proof -
  have "r + word_of_int d = word_of_int (uint r + d)" by simp
  then have "sint (r + word_of_int d) = s32 (uint r + d)" unfolding s32_def by (rule arg_cong)
  moreover have "s32 (uint r + d) = uint r + d"
    using assms uint_ge_0 [of r] by (intro s32_id) linarith+
  ultimately show ?thesis by simp
qed

lemma addPremiumDays_lastDay:
  assumes "0 < d" "uint (ai_remaining acc) + d \<le> 24855"
  shows "ai_lastDay (addPremiumDays now d acc) =
    now + (uint (ai_remaining acc) + d) * 86400 + max 0 (s32 ((ai_lastDay acc - now) smod 86400))"
proof -
  have "s32 ((uint (ai_remaining acc) + d) * 86400) = (uint (ai_remaining acc) + d) * 86400"
    using assms uint_ge_0 [of "ai_remaining acc"] unfolding distrib_right by (intro s32_id) linarith+
  moreover have "\<not> uint (ai_remaining acc) + d \<le> 0"
    using assms(1) uint_ge_0 [of "ai_remaining acc"] by linarith
  ultimately show ?thesis
    using sint_add_days [OF assms] by (auto simp: addPremiumDays_def setPremiumDays_def Let_def)
qed

text \<open>
  Adding premium days to an account whose day counter is up to date extends the premium
  period by exactly that many days: from now on if it had expired, from its end otherwise, so the
  hours left of the current day are not lost; the counter reported afterwards has grown by the
  days added.
\<close>

theorem addPremiumDays_exact:
  assumes "ai_remaining acc = getPremiumRemainingDays now acc" and "0 < d"
    and "uint (ai_remaining acc) + d \<le> 24854" and "ai_lastDay acc - now < 2147483648"
    and "- 2147483648 < ai_lastDay acc - now"
  shows "ai_lastDay (addPremiumDays now d acc) = max now (ai_lastDay acc) + d * 86400
    \<and> uint (getPremiumRemainingDays now (addPremiumDays now d acc)) = uint (ai_remaining acc) + d"
proof -
  let ?x = "ai_lastDay acc - now"
  have l: "ai_lastDay (addPremiumDays now d acc) = now + (uint (ai_remaining acc) + d) * 86400 + max 0 (s32 (?x smod 86400))"
    using addPremiumDays_lastDay [of d acc now] assms(2,3) by linarith
  show ?thesis
  proof (cases "0 < ?x")
    case True
    have r: "uint (ai_remaining acc) = ?x div 86400" using unat_remaining [of now acc] True assms(1,4) by simp
    have "s32 (?x smod 86400) = ?x mod 86400"
      using True pos_mod_bound [of 86400 ?x] pos_mod_sign [of 86400 ?x]
      by (subst smod_pos, linarith, intro s32_id) linarith+
    then have e: "ai_lastDay (addPremiumDays now d acc) = ai_lastDay acc + d * 86400"
      using l r div_mult_mod_eq [of ?x 86400] pos_mod_sign [of 86400 ?x] by (simp add: algebra_simps)
    moreover have "uint (getPremiumRemainingDays now (addPremiumDays now d acc)) = (?x + d * 86400) div 86400"
      using e True assms(2,3) r unat_remaining [of now "addPremiumDays now d acc"] by simp
    ultimately show ?thesis using True r by simp
  next
    case False
    then have r: "ai_remaining acc = 0" using assms(1) by (simp add: getPremiumRemainingDays_def)
    have "s32 (?x smod 86400) \<le> 0"
    proof (cases "?x = 0")
      case n: False
      have "s32 (- (- ?x mod 86400)) = - (- ?x mod 86400)"
        using pos_mod_bound [of 86400 "- ?x"] pos_mod_sign [of 86400 "- ?x"] by (intro s32_id) linarith+
      then show ?thesis using n False by (simp add: smod_neg)
    qed (simp add: smod_pos)
    then have e: "ai_lastDay (addPremiumDays now d acc) = now + d * 86400" using l r by simp
    moreover have "uint (getPremiumRemainingDays now (addPremiumDays now d acc)) = d"
      using e r assms(2,3) unat_remaining [of now "addPremiumDays now d acc"] by simp
    ultimately show ?thesis using False r by simp
  qed
qed

theorem addPremiumDays_exact_witness:
  "ai_lastDay (addPremiumDays 1000000 30 (new_account_info\<lparr>ai_remaining := 1, ai_lastDay := 1090000\<rparr>)) = 3682000"
  using addPremiumDays_exact [of "new_account_info\<lparr>ai_remaining := 1, ai_lastDay := 1090000\<rparr>" 1000000 30]
  by (simp add: getPremiumRemainingDays_def sdiv_pos)

text \<open>Removing as many days as are left does not end the period at once: what was left of the current day survives as an absolute time.\<close>

lemma addPremiumDays_remove_all:
  "ai_lastDay (addPremiumDays 1000000 (- 1) (new_account_info\<lparr>ai_remaining := 1, ai_lastDay := 1090000\<rparr>)) = 3600"
  by (simp add: addPremiumDays_def setPremiumDays_def smod_pos s32_id)

text \<open>
  Refreshing the premium time leaves the stored counter equal to the days that the end date
  really leaves, clears the end date of an expired period, and writes to the database only when
  the counter changed.
\<close>

theorem updatePremiumTime_in_sync:
  assumes "updatePremiumTime now S a db = (a', db')"
    and "0 \<le> now" and "- 185542587187200 < ai_lastDay (ac_info a) - now"
    and "ai_lastDay (ac_info a) - now < 185542587187200"
  shows "ai_remaining (ac_info a') = getPremiumRemainingDays now (ac_info a')
    \<and> (ai_lastDay (ac_info a) \<le> now \<longrightarrow> ai_lastDay (ac_info a') = 0 \<and> ai_remaining (ac_info a') = 0)
    \<and> (now < ai_lastDay (ac_info a) \<longrightarrow> ai_lastDay (ac_info a') = ai_lastDay (ac_info a))
    \<and> (ai_remaining (ac_info a') = ai_remaining (ac_info a) \<longrightarrow> db' = db)"
proof -
  let ?acc = "ac_info a"
  let ?x = "ai_lastDay ?acc - now"
  consider "?x < 0" | "?x = 0" | "0 < ?x" by linarith
  then show ?thesis
  proof cases
    case 3
    have d: "0 \<le> ?x div 86400" "?x div 86400 < 2147483648" using 3 assms(4) by (simp_all add: pos_imp_zdiv_nonneg_iff)
    have m: "0 \<le> ?x mod 86400" "?x mod 86400 < 86400" by simp_all
    have e: "s32 (?x sdiv 86400) = ?x div 86400" "s32 (?x smod 86400) = ?x mod 86400"
      using 3 d m by (simp_all add: sdiv_pos smod_pos s32_id)
    have "?x div 86400 = 0 \<Longrightarrow> ?x mod 86400 \<noteq> 0"
      using 3 div_mult_mod_eq [of ?x 86400] by linarith
    then show ?thesis
      using 3 d e assms(1,2)
      by (auto simp: updatePremiumTime_def Let_def getPremiumRemainingDays_def sdiv_pos split: if_splits)
  qed (use assms in \<open>auto simp: updatePremiumTime_def Let_def setPremiumDays_def getPremiumRemainingDays_def
        split: if_splits\<close>)
qed

theorem updatePremiumTime_in_sync_witness:
  "ai_remaining (ac_info (fst (updatePremiumTime 1000000 table_sql
      ((Account_id 7)\<lparr>ac_info := new_account_info\<lparr>ai_remaining := 9, ai_lastDay := 1090000\<rparr>\<rparr>) (\<lambda>c i. Some 30)))) = 1"
  using updatePremiumTime_in_sync [of 1000000 table_sql
      "(Account_id 7)\<lparr>ac_info := new_account_info\<lparr>ai_remaining := 9, ai_lastDay := 1090000\<rparr>\<rparr>" "\<lambda>c i. Some 30"
      "fst (updatePremiumTime 1000000 table_sql ((Account_id 7)\<lparr>ac_info := new_account_info\<lparr>ai_remaining := 9, ai_lastDay := 1090000\<rparr>\<rparr>) (\<lambda>c i. Some 30))"
      "snd (updatePremiumTime 1000000 table_sql ((Account_id 7)\<lparr>ac_info := new_account_info\<lparr>ai_remaining := 9, ai_lastDay := 1090000\<rparr>\<rparr>) (\<lambda>c i. Some 30))"]
  by (simp add: getPremiumRemainingDays_def sdiv_pos)

end
