(* ===== verification/Vip.thy ===== *)
theory Vip
  imports Prelude
begin

text \<open>
  The buddy list of a player: \<open>creatures/players/vip/player_vip.cpp\<close>.  The class reads a few facts
  of its player (group limit, premium, account, client) and calls the login-data module and the
  client; those calls are recorded in order in \<open>vp_log\<close>.  Two operations dereference pointers
  they have not checked: their result is \<open>None\<close> there.
\<close>

datatype vip_status = Vip_Offline | Vip_Online | Vip_Pending | Vip_Training

record vip_group =
  vg_id :: u8
  vg_name :: string
  vg_customizable :: bool
  vg_guids :: "u32 set"

datatype vip_event =
    RemoveVIPEntry u32 u32 | AddVIPEntry u32 u32 | EditVIPEntry u32 u32 string u32 bool
  | RemoveGuidVIPGroupEntry u32 u32 | AddGuidVIPGroupEntry u8 u32 u32
  | RemoveVIPGroupEntry u8 u32 | AddVIPGroupEntry u8 u32 string bool | EditVIPGroupEntry u8 u32 string bool
  | SendVIP u32 string vip_status | SendVIPGroups | SendUpdatedVIPStatus u32 vip_status
  | TextMessage string | CancelMessage string

record player_vip =
  vp_groupMax :: "nat option"   \<comment> \<open>\<open>m_player.group->maxVipEntries\<close>, if there is a group\<close>
  vp_premium :: bool
  vp_account :: "u32 option"
  vp_client :: bool
  vp_groups :: "vip_group list"
  vp_guids :: "u32 set"
  vp_log :: "vip_event list"

definition emit :: "vip_event \<Rightarrow> player_vip \<Rightarrow> player_vip" where
  "emit e s = s\<lparr>vp_log := vp_log s @ [e]\<rparr>"

definition to_account :: "(u32 \<Rightarrow> vip_event) \<Rightarrow> player_vip \<Rightarrow> player_vip" where
  "to_account f s = (case vp_account s of None \<Rightarrow> s | Some a \<Rightarrow> emit (f a) s)"

definition to_client :: "vip_event \<Rightarrow> player_vip \<Rightarrow> player_vip" where
  "to_client e s = (if vp_client s then emit e s else s)"

abbreviation firstID :: u8 where "firstID \<equiv> 1"
abbreviation lastID :: u8 where "lastID \<equiv> 8"

definition getMaxEntries :: "player_vip \<Rightarrow> nat" where
  "getMaxEntries s = (case vp_groupMax s of Some m \<Rightarrow> if m \<noteq> 0 then m else if vp_premium s then 100 else 20
     | None \<Rightarrow> if vp_premium s then 100 else 20)"

definition getMaxGroupEntries :: "player_vip \<Rightarrow> u8" where
  "getMaxGroupEntries s = (if vp_premium s then 8 else 0)"

definition notifyStatusChange :: "u32 \<Rightarrow> string \<Rightarrow> vip_status \<Rightarrow> bool \<Rightarrow> player_vip \<Rightarrow> player_vip" where
  "notifyStatusChange guid name status message s =
     (if \<not> vp_client s then s else if guid \<notin> vp_guids s then s
      else let s = emit (SendUpdatedVIPStatus guid status) s
           in if \<not> message then s
              else if status = Vip_Online then emit (TextMessage (name @ '' has logged in.'')) s
              else if status = Vip_Offline then emit (TextMessage (name @ '' has logged out.'')) s
              else s)"

definition vip_remove :: "u32 \<Rightarrow> player_vip \<Rightarrow> bool \<times> player_vip" where
  "vip_remove guid s = (if guid \<notin> vp_guids s then (False, s)
     else (True, to_account (\<lambda>a. RemoveVIPEntry a guid) (s\<lparr>vp_guids := vp_guids s - {guid}\<rparr>)))"

definition vip_add :: "u32 \<Rightarrow> string \<Rightarrow> vip_status \<Rightarrow> player_vip \<Rightarrow> bool \<times> player_vip" where
  "vip_add guid name status s =
     (if card (vp_guids s) \<ge> getMaxEntries s \<or> card (vp_guids s) = 200
      then (False, emit (TextMessage ''You cannot add more buddies.'') s)
      else if guid \<in> vp_guids s then (False, emit (TextMessage ''This player is already in your list.'') s)
      else let s = s\<lparr>vp_guids := insert guid (vp_guids s)\<rparr>;
               s = to_account (\<lambda>a. AddVIPEntry a guid) s
           in (True, to_client (SendVIP guid name status) s))"

definition vip_addInternal :: "u32 \<Rightarrow> player_vip \<Rightarrow> bool \<times> player_vip" where
  "vip_addInternal guid s = (if card (vp_guids s) \<ge> getMaxEntries s \<or> card (vp_guids s) = 200 then (False, s)
     else (guid \<notin> vp_guids s, s\<lparr>vp_guids := insert guid (vp_guids s)\<rparr>))"

definition getGroupByID :: "player_vip \<Rightarrow> u8 \<Rightarrow> vip_group option" where
  "getGroupByID s i = find (\<lambda>g. vg_id g = i) (vp_groups s)"

text \<open>Names are compared with \<open>strcmp\<close>, which stops at the first zero byte.\<close>

definition c_str :: "string \<Rightarrow> string" where
  "c_str s = takeWhile (\<lambda>c. c \<noteq> CHR 0x00) s"

definition getGroupByName :: "player_vip \<Rightarrow> string \<Rightarrow> vip_group option" where
  "getGroupByName s name = find (\<lambda>g. c_str name = c_str (vg_name g)) (vp_groups s)"

definition getFreeId :: "player_vip \<Rightarrow> u8" where
  "getFreeId s = (case find (\<lambda>i. getGroupByID s i = None) [1, 2, 3, 4, 5, 6, 7, 8] of None \<Rightarrow> 0 | Some i \<Rightarrow> i)"

text \<open>Writing through the pointer that \<open>getGroupByID\<close> found: the first group with that id.\<close>

fun update_group :: "u8 \<Rightarrow> (vip_group \<Rightarrow> vip_group) \<Rightarrow> vip_group list \<Rightarrow> vip_group list" where
  "update_group i f [] = []"
| "update_group i f (g # gs) = (if vg_id g = i then f g # gs else g # update_group i f gs)"

fun erase_group :: "u8 \<Rightarrow> vip_group list \<Rightarrow> vip_group list" where
  "erase_group i [] = []"
| "erase_group i (g # gs) = (if vg_id g = i then gs else g # erase_group i gs)"

fun edit_groups :: "u32 \<Rightarrow> u32 \<Rightarrow> u8 list \<Rightarrow> player_vip \<Rightarrow> player_vip" where
  "edit_groups acc guid [] s = s"
| "edit_groups acc guid (i # is) s = (case getGroupByID s i of
      None \<Rightarrow> edit_groups acc guid is s
    | Some g \<Rightarrow> edit_groups acc guid is
        (emit (AddGuidVIPGroupEntry (vg_id g) acc guid)
          (s\<lparr>vp_groups := update_group i (\<lambda>g. g\<lparr>vg_guids := insert guid (vg_guids g)\<rparr>) (vp_groups s)\<rparr>)))"

definition vip_edit :: "u32 \<Rightarrow> string \<Rightarrow> u32 \<Rightarrow> bool \<Rightarrow> u8 list \<Rightarrow> player_vip \<Rightarrow> (bool \<times> player_vip) option" where
  "vip_edit guid description icon notify groupsId s =
     (if guid \<notin> vp_guids s then Some (False, s)
      else let s = to_account (\<lambda>a. EditVIPEntry a guid description icon notify) s
           in case vp_account s of None \<Rightarrow> None
              | Some acc \<Rightarrow> Some (True, edit_groups acc guid groupsId (emit (RemoveGuidVIPGroupEntry acc guid) s)))"

definition new_group :: "u8 \<Rightarrow> string \<Rightarrow> bool \<Rightarrow> vip_group" where
  "new_group i name customizable = \<lparr>vg_id = i, vg_name = name, vg_customizable = customizable, vg_guids = {}\<rparr>"

definition addGroupInternal :: "u8 \<Rightarrow> string \<Rightarrow> bool \<Rightarrow> player_vip \<Rightarrow> player_vip" where
  "addGroupInternal groupId name customizable s =
     (if getGroupByName s name \<noteq> None then s
      else let freeId = getFreeId s in if freeId = 0 then s
      else s\<lparr>vp_groups := vp_groups s @ [new_group freeId name customizable]\<rparr>)"

definition removeGroup :: "u8 \<Rightarrow> player_vip \<Rightarrow> player_vip" where
  "removeGroup groupId s = (if getGroupByID s groupId = None then s
     else let s = s\<lparr>vp_groups := erase_group groupId (vp_groups s)\<rparr>;
              s = to_account (\<lambda>a. RemoveVIPGroupEntry groupId a) s
          in to_client SendVIPGroups s)"

definition addGroup :: "string \<Rightarrow> bool \<Rightarrow> player_vip \<Rightarrow> player_vip" where
  "addGroup name customizable s =
     (if getGroupByName s name \<noteq> None
      then emit (CancelMessage ''A group with this name already exists. Please choose another name.'') s
      else let freeId = getFreeId s in if freeId = 0 then s
      else let s = s\<lparr>vp_groups := vp_groups s @ [new_group freeId name customizable]\<rparr>;
               s = to_account (\<lambda>a. AddVIPGroupEntry freeId a name customizable) s
           in to_client SendVIPGroups s)"

definition editGroup :: "u8 \<Rightarrow> string \<Rightarrow> bool \<Rightarrow> player_vip \<Rightarrow> player_vip option" where
  "editGroup groupId newName customizable s =
     (if getGroupByName s newName \<noteq> None
      then Some (emit (CancelMessage ''A group with this name already exists. Please choose another name.'') s)
      else case getGroupByID s groupId of None \<Rightarrow> None
      | Some g \<Rightarrow>
          let s = s\<lparr>vp_groups := update_group groupId (\<lambda>g. g\<lparr>vg_name := newName, vg_customizable := customizable\<rparr>) (vp_groups s)\<rparr>;
              s = to_account (\<lambda>a. EditVIPGroupEntry groupId a newName customizable) s
          in Some (to_client SendVIPGroups s))"

definition getGroupsIdGuidBelongs :: "u32 \<Rightarrow> player_vip \<Rightarrow> u8 list" where
  "getGroupsIdGuidBelongs guid s = map vg_id (filter (\<lambda>g. guid \<in> vg_guids g) (vp_groups s))"

definition addGuidToGroupInternal :: "u8 \<Rightarrow> u32 \<Rightarrow> player_vip \<Rightarrow> player_vip" where
  "addGuidToGroupInternal groupId guid s = (case getGroupByID s groupId of None \<Rightarrow> s
     | Some g \<Rightarrow> s\<lparr>vp_groups := update_group groupId (\<lambda>g. g\<lparr>vg_guids := insert guid (vg_guids g)\<rparr>) (vp_groups s)\<rparr>)"

subsection \<open>Every operation keeps the lists well formed\<close>

text \<open>
  Groups carry distinct numbers between 1 and 8 and distinct names, and no more than 200 buddies
  are listed.
\<close>

definition vip_inv :: "player_vip \<Rightarrow> bool" where
  "vip_inv s \<longleftrightarrow> distinct (map vg_id (vp_groups s)) \<and> (\<forall>i \<in> set (map vg_id (vp_groups s)). 1 \<le> i \<and> i \<le> 8)
     \<and> distinct (map (c_str \<circ> vg_name) (vp_groups s)) \<and> finite (vp_guids s) \<and> card (vp_guids s) \<le> 200"

lemma emit_simps [simp]:
  "vp_groups (emit e s) = vp_groups s" "vp_guids (emit e s) = vp_guids s" "vp_account (emit e s) = vp_account s"
  "vp_client (emit e s) = vp_client s" "vp_premium (emit e s) = vp_premium s" "vp_groupMax (emit e s) = vp_groupMax s"
  by (simp_all add: emit_def)

lemma to_account_simps [simp]:
  "vp_groups (to_account f s) = vp_groups s" "vp_guids (to_account f s) = vp_guids s"
  "vp_account (to_account f s) = vp_account s" "vp_client (to_account f s) = vp_client s"
  by (simp_all add: to_account_def split: option.splits)

lemma to_client_simps [simp]:
  "vp_groups (to_client e s) = vp_groups s" "vp_guids (to_client e s) = vp_guids s"
  "vp_account (to_client e s) = vp_account s"
  by (simp_all add: to_client_def)

lemma vip_inv_quiet [simp]:
  "vip_inv (emit e s) = vip_inv s" "vip_inv (to_account f s) = vip_inv s" "vip_inv (to_client e s) = vip_inv s"
  by (simp_all add: vip_inv_def)

lemma vip_inv_transfer:
  "vip_inv s \<Longrightarrow> map vg_id gs = map vg_id (vp_groups s) \<Longrightarrow> distinct (map (c_str \<circ> vg_name) gs)
    \<Longrightarrow> vip_inv (s\<lparr>vp_groups := gs\<rparr>)"
  unfolding vip_inv_def by (simp del: list.set_map)

lemma find_None_iff': "find P xs = None \<longleftrightarrow> (\<forall>x \<in> set xs. \<not> P x)"
  by (auto simp: find_None_iff)

lemma getGroupByID_None: "getGroupByID s i = None \<longleftrightarrow> i \<notin> vg_id ` set (vp_groups s)"
  by (auto simp: getGroupByID_def find_None_iff')

lemma getGroupByName_None: "getGroupByName s n = None \<longleftrightarrow> c_str n \<notin> (c_str \<circ> vg_name) ` set (vp_groups s)"
  by (auto simp: getGroupByName_def find_None_iff')

lemma getFreeId_range: "getFreeId s \<noteq> 0 \<Longrightarrow> 1 \<le> getFreeId s \<and> getFreeId s \<le> 8"
  by (auto simp: getFreeId_def split: option.splits if_splits)

lemma getFreeId_free: "getFreeId s \<noteq> 0 \<Longrightarrow> getFreeId s \<notin> vg_id ` set (vp_groups s)"
  by (auto simp: getFreeId_def getGroupByID_None split: option.splits if_splits)

lemma getFreeId_zero:
  "getFreeId s = 0 \<longleftrightarrow> (\<forall>i. 1 \<le> i \<and> i \<le> 8 \<longrightarrow> i \<in> vg_id ` set (vp_groups s))"
proof -
  have "getFreeId s = 0 \<longleftrightarrow> (\<forall>i \<in> {1, 2, 3, 4, 5, 6, 7, 8}. getGroupByID s i \<noteq> None)"
    by (auto simp: getFreeId_def split: option.splits if_splits)
  moreover have "1 \<le> i \<and> i \<le> 8 \<longleftrightarrow> i \<in> {1, 2, 3, 4, 5, 6, 7, 8}" for i :: u8
  proof -
    have "1 \<le> i \<and> i \<le> 8 \<longleftrightarrow> unat i \<in> {1, 2, 3, 4, 5, 6, 7, 8}"
      by (auto simp: word_le_nat_alt)
    also have "\<dots> \<longleftrightarrow> i \<in> {1, 2, 3, 4, 5, 6, 7, 8}"
      by (auto simp: word_unat_eq_iff)
    finally show ?thesis .
  qed
  ultimately show ?thesis by (simp add: getGroupByID_None) blast
qed

lemma update_group_ids: "(\<And>g. vg_id (f g) = vg_id g) \<Longrightarrow> map vg_id (update_group i f gs) = map vg_id gs"
  by (induction gs) simp_all

lemma update_group_names:
  "(\<And>g. vg_name (f g) = vg_name g) \<Longrightarrow> map (c_str \<circ> vg_name) (update_group i f gs) = map (c_str \<circ> vg_name) gs"
  by (induction gs) simp_all

lemma update_group_rename_set:
  "set (map (c_str \<circ> vg_name) (update_group i (\<lambda>g. g\<lparr>vg_name := n, vg_customizable := c\<rparr>) gs))
    \<subseteq> insert (c_str n) (set (map (c_str \<circ> vg_name) gs))"
  by (induction gs) auto

lemma update_group_rename:
  "c_str n \<notin> set (map (c_str \<circ> vg_name) gs) \<Longrightarrow> distinct (map (c_str \<circ> vg_name) gs) \<Longrightarrow>
    distinct (map (c_str \<circ> vg_name) (update_group i (\<lambda>g. g\<lparr>vg_name := n, vg_customizable := c\<rparr>) gs))"
proof (induction gs)
  case (Cons g gs)
  have "set (map (c_str \<circ> vg_name) (update_group i (\<lambda>g. g\<lparr>vg_name := n, vg_customizable := c\<rparr>) gs))
    \<subseteq> insert (c_str n) (set (map (c_str \<circ> vg_name) gs))"
    by (rule update_group_rename_set)
  with Cons show ?case by auto
qed simp

lemma set_erase_group: "set (erase_group i gs) \<subseteq> set gs"
  by (induction gs) auto

lemma distinct_erase_group: "distinct (map h gs) \<Longrightarrow> distinct (map h (erase_group i gs))"
proof (induction gs)
  case (Cons g gs)
  then show ?case using set_erase_group [of i gs] by auto
qed simp

lemma vip_inv_update:
  assumes "vip_inv s" "\<And>g. vg_id (f g) = vg_id g" "\<And>g. vg_name (f g) = vg_name g"
  shows "vip_inv (s\<lparr>vp_groups := update_group i f (vp_groups s)\<rparr>)"
  using assms(1) by (rule vip_inv_transfer)
    (simp_all only: update_group_ids [OF assms(2)] update_group_names [OF assms(3)] vip_inv_def assms(1) [unfolded vip_inv_def])

lemma vip_inv_new_group:
  assumes "vip_inv s" "getGroupByName s n = None" "getFreeId s \<noteq> 0"
  shows "vip_inv (s\<lparr>vp_groups := vp_groups s @ [new_group (getFreeId s) n c]\<rparr>)"
  using assms getFreeId_range [OF assms(3)] getFreeId_free [OF assms(3)]
  by (auto simp: vip_inv_def getGroupByName_None new_group_def)

lemma vip_inv_insert:
  "vip_inv s \<Longrightarrow> card (vp_guids s) \<noteq> 200 \<Longrightarrow> vip_inv (s\<lparr>vp_guids := insert g (vp_guids s)\<rparr>)"
  by (auto simp: vip_inv_def card_insert_if)

lemma vip_inv_edit_groups: "vip_inv s \<Longrightarrow> vip_inv (edit_groups acc guid is s)"
proof (induction "is" arbitrary: s)
  case (Cons i "is")
  have "vip_inv (s\<lparr>vp_groups := update_group i (\<lambda>g. g\<lparr>vg_guids := insert guid (vg_guids g)\<rparr>) (vp_groups s)\<rparr>)"
    using Cons.prems by (intro vip_inv_update) simp_all
  then show ?case using Cons by (cases "getGroupByID s i") simp_all
qed simp

datatype vip_op = VAdd u32 string vip_status | VAddInternal u32 | VRemove u32
  | VEdit u32 string u32 bool "u8 list" | VNotify u32 string vip_status bool
  | VAddGroup string bool | VAddGroupInternal u8 string bool | VRemoveGroup u8
  | VEditGroup u8 string bool | VAddGuid u8 u32

fun vip_step :: "vip_op \<Rightarrow> player_vip \<Rightarrow> player_vip option" where
  "vip_step (VAdd g n st) s = Some (snd (vip_add g n st s))"
| "vip_step (VAddInternal g) s = Some (snd (vip_addInternal g s))"
| "vip_step (VRemove g) s = Some (snd (vip_remove g s))"
| "vip_step (VEdit g d i no gs) s = map_option snd (vip_edit g d i no gs s)"
| "vip_step (VNotify g n st m) s = Some (notifyStatusChange g n st m s)"
| "vip_step (VAddGroup n c) s = Some (addGroup n c s)"
| "vip_step (VAddGroupInternal i n c) s = Some (addGroupInternal i n c s)"
| "vip_step (VRemoveGroup i) s = Some (removeGroup i s)"
| "vip_step (VEditGroup i n c) s = editGroup i n c s"
| "vip_step (VAddGuid i g) s = Some (addGuidToGroupInternal i g s)"

fun vip_steps :: "vip_op list \<Rightarrow> player_vip \<Rightarrow> player_vip option" where
  "vip_steps [] s = Some s"
| "vip_steps (p # ps) s = (case vip_step p s of None \<Rightarrow> None | Some s \<Rightarrow> vip_steps ps s)"

lemma vip_inv_addGroup: "vip_inv s \<Longrightarrow> vip_inv (addGroup n c s)"
  using vip_inv_new_group [of s n c]
  by (auto simp: addGroup_def Let_def)

lemma vip_inv_addGroupInternal: "vip_inv s \<Longrightarrow> vip_inv (addGroupInternal i n c s)"
  using vip_inv_new_group [of s n c]
  by (auto simp: addGroupInternal_def Let_def)

lemma vip_inv_removeGroup: "vip_inv s \<Longrightarrow> vip_inv (removeGroup i s)"
  using set_erase_group [of i "vp_groups s"]
  by (auto simp: removeGroup_def Let_def vip_inv_def distinct_erase_group)

lemma vip_inv_rename:
  assumes "vip_inv s" "getGroupByName s n = None"
  shows "vip_inv (s\<lparr>vp_groups := update_group i (\<lambda>g. g\<lparr>vg_name := n, vg_customizable := c\<rparr>) (vp_groups s)\<rparr>)"
proof (rule vip_inv_transfer [OF assms(1)])
  show "distinct (map (c_str \<circ> vg_name) (update_group i (\<lambda>g. g\<lparr>vg_name := n, vg_customizable := c\<rparr>) (vp_groups s)))"
    using assms by (intro update_group_rename) (auto simp: getGroupByName_None vip_inv_def)
qed (simp add: update_group_ids)

lemma vip_inv_editGroup: "vip_inv s \<Longrightarrow> editGroup i n c s = Some s' \<Longrightarrow> vip_inv s'"
  using vip_inv_rename [of s n i c]
  by (auto simp: editGroup_def Let_def split: if_splits option.splits)

lemma vip_inv_add: "vip_inv s \<Longrightarrow> vip_inv (snd (vip_add g n st s))"
  using vip_inv_insert [of s g]
  by (auto simp: vip_add_def Let_def)

lemma vip_inv_addInternal: "vip_inv s \<Longrightarrow> vip_inv (snd (vip_addInternal g s))"
  using vip_inv_insert [of s g] by (auto simp: vip_addInternal_def)

lemma vip_inv_remove: "vip_inv s \<Longrightarrow> vip_inv (snd (vip_remove g s))"
  by (auto simp: vip_remove_def vip_inv_def)

lemma vip_inv_edit: "vip_inv s \<Longrightarrow> vip_edit g d i no gs s = Some (b, s') \<Longrightarrow> vip_inv s'"
  by (auto simp: vip_edit_def Let_def split: if_splits option.splits intro!: vip_inv_edit_groups)

lemma vip_inv_notify: "vip_inv s \<Longrightarrow> vip_inv (notifyStatusChange g n st m s)"
  by (auto simp: notifyStatusChange_def Let_def)

lemma vip_inv_addGuid: "vip_inv s \<Longrightarrow> vip_inv (addGuidToGroupInternal i g s)"
  by (auto simp: addGuidToGroupInternal_def split: option.splits intro!: vip_inv_update)

lemmas vip_invs = vip_inv_add vip_inv_addInternal vip_inv_remove vip_inv_edit vip_inv_notify
  vip_inv_addGroup vip_inv_addGroupInternal vip_inv_removeGroup vip_inv_editGroup vip_inv_addGuid

lemma vip_step_inv: "vip_inv s \<Longrightarrow> vip_step p s = Some s' \<Longrightarrow> vip_inv s'"
  by (cases p) (auto dest: vip_invs)

text \<open>
  C10: Whatever a player does to the buddy list, the groups keep distinct numbers between 1 and 8
  and distinct names, so there are never more than eight, and at most 200 buddies are listed.
\<close>

theorem vip_lists_well_formed:
  assumes "vip_inv s" "vip_steps ps s = Some s'"
  shows "vip_inv s' \<and> length (vp_groups s') \<le> 8"
proof -
  have inv: "vip_inv s'"
    using assms by (induction ps arbitrary: s) (auto split: option.splits dest: vip_step_inv)
  let ?ids = "map vg_id (vp_groups s')"
  have "set (map unat ?ids) \<subseteq> {1..8}" "distinct ?ids"
    using inv by (auto simp: vip_inv_def word_le_nat_alt)
  then have "set (map unat ?ids) \<subseteq> {1..8}" "distinct (map unat ?ids)"
    by (simp_all only: distinct_map [of unat] inj_on_def word_unat_eq_iff) simp
  then have "length (map unat ?ids) \<le> card {1..8::nat}"
    by (metis card_mono distinct_card finite_atLeastAtMost)
  with inv show ?thesis by simp
qed

definition empty_vip :: player_vip where
  "empty_vip = \<lparr>vp_groupMax = Some 0, vp_premium = True, vp_account = Some 9, vp_client = True,
     vp_groups = [], vp_guids = {}, vp_log = []\<rparr>"

definition example_ops :: "vip_op list" where
  "example_ops = [VAddGroup ''Friends'' True, VAddGroup ''Friends'' True, VAddGroup ''Enemies'' True,
     VAdd 5 ''Bob'' Vip_Online, VEdit 5 ''a friend'' 1 False [2, 7], VRemoveGroup 1]"

theorem vip_lists_well_formed_witness:
  "vip_inv (the (vip_steps example_ops empty_vip)) \<and> map vg_id (vp_groups (the (vip_steps example_ops empty_vip))) = [2]"
proof -
  have e: "vip_inv empty_vip" by (simp add: vip_inv_def empty_vip_def)
  have r: "vip_steps example_ops empty_vip \<noteq> None"
    "map vg_id (vp_groups (the (vip_steps example_ops empty_vip))) = [2]"
    by code_simp+
  show ?thesis using vip_lists_well_formed [OF e, of example_ops "the (vip_steps example_ops empty_vip)"] r by simp
qed

subsection \<open>Editing the groups of a buddy\<close>

text \<open>
  Moving a buddy to another group removes the old membership from the database, but the
  groups in memory only ever gain members: after the edit the buddy is still reported in the old
  group, contrary to what was written to the database.
\<close>

theorem vip_edit_keeps_old_groups:
  "\<exists>s'. vip_steps [VAddGroup ''A'' True, VAddGroup ''B'' True, VAdd 5 ''Bob'' Vip_Online,
      VEdit 5 '''' 0 False [1], VEdit 5 '''' 0 False [2]] empty_vip = Some s'
    \<and> getGroupsIdGuidBelongs 5 s' = [1, 2]
    \<and> drop (length (vp_log s') - 2) (vp_log s') = [RemoveGuidVIPGroupEntry 9 5, AddGuidVIPGroupEntry 2 9 5]"
  by (simp add: addGroup_def vip_add_def vip_edit_def getGroupByName_def getGroupByID_def getFreeId_def
      new_group_def c_str_def empty_vip_def to_account_def to_client_def emit_def getMaxEntries_def
      getGroupsIdGuidBelongs_def Let_def)

end
