(* ===== verification/Waitlist.thy ===== *)
theory Waitlist
  imports Prelude "HOL-Library.Sublist"
begin

text \<open>
  The login queue: \<open>creatures/players/management/waitlist.cpp\<close>, and the connection throttle of
  \<open>creatures/players/management/ban.cpp\<close>.  The two queues are \<open>std::list\<close>s, whose iterators stay
  valid until their element is erased; \<open>playerReferences\<close> stores for every waiting player an
  iterator and the last slot.  An iterator is modelled by the list it belongs to and the player
  it points at.  Using it with the other list is undefined in C++: those results are \<open>None\<close>.
\<close>

datatype wait_queue = Priority | Ordinary

record wait =
  w_timeout :: int
  w_guid :: u32

record waiting_list =
  wl_priority :: "wait list"
  wl_ordinary :: "wait list"
  wl_refs :: "u32 \<rightharpoonup> wait_queue \<times> nat"

text \<open>What the queue asks the player object and the game.\<close>

record login_player =
  lp_guid :: u32
  lp_canAlwaysLogin :: bool
  lp_accountType :: nat
  lp_premium :: bool

definition getTime :: "nat \<Rightarrow> nat" where
  "getTime slot = (if slot < 5 then 5 else if slot < 10 then 10 else if slot < 20 then 20
     else if slot < 50 then 60 else 120)"

definition getTimeout :: "nat \<Rightarrow> nat" where
  "getTimeout slot = getTime slot + 15"

definition queue_of :: "wait_queue \<Rightarrow> waiting_list \<Rightarrow> wait list" where
  "queue_of q s = (case q of Priority \<Rightarrow> wl_priority s | Ordinary \<Rightarrow> wl_ordinary s)"

definition set_queue :: "wait_queue \<Rightarrow> wait list \<Rightarrow> waiting_list \<Rightarrow> waiting_list" where
  "set_queue q xs s = (case q of Priority \<Rightarrow> s\<lparr>wl_priority := xs\<rparr> | Ordinary \<Rightarrow> s\<lparr>wl_ordinary := xs\<rparr>)"

text \<open>One pass over a list: the elements whose time has come are erased with their reference.\<close>

fun cleanup :: "int \<Rightarrow> wait list \<Rightarrow> (u32 \<rightharpoonup> wait_queue \<times> nat) \<Rightarrow> wait list \<times> (u32 \<rightharpoonup> wait_queue \<times> nat)" where
  "cleanup time [] refs = ([], refs)"
| "cleanup time (w # ws) refs =
     (if w_timeout w - time \<le> 0 then cleanup time ws (refs(w_guid w := None))
      else case cleanup time ws refs of (ws, refs) \<Rightarrow> (w # ws, refs))"

definition cleanupList :: "wait_queue \<Rightarrow> int \<Rightarrow> waiting_list \<Rightarrow> waiting_list" where
  "cleanupList q time s = (case cleanup time (queue_of q s) (wl_refs s) of
     (ws, refs) \<Rightarrow> (set_queue q ws s)\<lparr>wl_refs := refs\<rparr>)"

text \<open>\<open>std::distance(list.begin(), it)\<close>, defined when the iterator belongs to the list.\<close>

fun distance_to :: "u32 \<Rightarrow> wait list \<Rightarrow> nat option" where
  "distance_to g [] = None"
| "distance_to g (w # ws) = (if w_guid w = g then Some 0 else map_option Suc (distance_to g ws))"

definition ref_distance :: "wait_queue \<Rightarrow> wait_queue \<Rightarrow> u32 \<Rightarrow> waiting_list \<Rightarrow> nat option" where
  "ref_distance q q' g s = (if q = q' then distance_to g (queue_of q s) else None)"

definition player_slot :: "login_player \<Rightarrow> wait_queue \<Rightarrow> waiting_list \<Rightarrow> nat option" where
  "player_slot p q s = (if lp_premium p then map_option (\<lambda>d. d + 1) (ref_distance Priority q (lp_guid p) s)
     else map_option (\<lambda>d. length (wl_priority s) + d + 1) (ref_distance Ordinary q (lp_guid p) s))"

definition addPlayerToList :: "int \<Rightarrow> login_player \<Rightarrow> waiting_list \<Rightarrow> waiting_list option" where
  "addPlayerToList time p s = (let g = lp_guid p in case wl_refs s g of
     Some (q, old) \<Rightarrow> (case player_slot p q s of None \<Rightarrow> None
       | Some slot \<Rightarrow> Some ((set_queue q (map (\<lambda>w. if w_guid w = g then w\<lparr>w_timeout := time + int (getTimeout slot) * 1000\<rparr> else w)
             (queue_of q s)) s)\<lparr>wl_refs := (wl_refs s)(g \<mapsto> (q, slot))\<rparr>))
   | None \<Rightarrow>
      let q = (if lp_premium p then Priority else Ordinary);
          slot = length (wl_priority s) + (if lp_premium p then 0 else length (wl_ordinary s));
          w = \<lparr>w_timeout = time + int (getTimeout (slot + 1)) * 1000, w_guid = g\<rparr>
      in Some ((set_queue q (queue_of q s @ [w]) s)\<lparr>wl_refs := (wl_refs s)(g \<mapsto> (q, slot + 1))\<rparr>))"

text \<open>\<open>info->waitList.erase(it)\<close>: always the ordinary list.\<close>

definition clientLogin :: "nat \<Rightarrow> nat \<Rightarrow> int \<Rightarrow> login_player \<Rightarrow> waiting_list \<Rightarrow> (bool \<times> waiting_list) option" where
  "clientLogin maxPlayers online time p s =
     (if lp_canAlwaysLogin p \<or> lp_accountType p \<ge> 4 then Some (True, s)
      else if maxPlayers = 0 \<or> (wl_priority s = [] \<and> wl_ordinary s = [] \<and> online < maxPlayers) then Some (True, s)
      else let s = cleanupList Priority time s; s = cleanupList Ordinary time s in
        case addPlayerToList time p s of None \<Rightarrow> None | Some s \<Rightarrow>
        case wl_refs s (lp_guid p) of None \<Rightarrow> None | Some (q, slot) \<Rightarrow>
          if online + slot \<le> maxPlayers
          then if q = Ordinary
               then Some (True, s\<lparr>wl_ordinary := filter (\<lambda>w. w_guid w \<noteq> lp_guid p) (wl_ordinary s),
                                  wl_refs := (wl_refs s)(lp_guid p := None)\<rparr>)
               else None
          else Some (False, s))"

definition getClientSlot :: "login_player \<Rightarrow> waiting_list \<Rightarrow> nat option" where
  "getClientSlot p s = (case wl_refs s (lp_guid p) of None \<Rightarrow> Some 0 | Some (q, old) \<Rightarrow> player_slot p q s)"

subsection \<open>The references describe the lists\<close>

definition wl_inv :: "waiting_list \<Rightarrow> bool" where
  "wl_inv s \<longleftrightarrow> distinct (map w_guid (wl_priority s @ wl_ordinary s)) \<and>
     (\<forall>g. (\<exists>n. wl_refs s g = Some (Priority, n)) \<longleftrightarrow> g \<in> w_guid ` set (wl_priority s)) \<and>
     (\<forall>g. (\<exists>n. wl_refs s g = Some (Ordinary, n)) \<longleftrightarrow> g \<in> w_guid ` set (wl_ordinary s))"

lemma wl_inv_distinct: "wl_inv s \<Longrightarrow> distinct (map w_guid (wl_priority s @ wl_ordinary s))"
  by (simp add: wl_inv_def)

lemma wl_inv_queue: "wl_inv s \<Longrightarrow> (\<exists>n. wl_refs s g = Some (q, n)) \<longleftrightarrow> g \<in> w_guid ` set (queue_of q s)"
  by (cases q) (simp_all only: wl_inv_def queue_of_def wait_queue.case)

lemma wl_invI:
  assumes "distinct (map w_guid (wl_priority s @ wl_ordinary s))"
    and "\<And>q g. (\<exists>n. wl_refs s g = Some (q, n)) \<longleftrightarrow> g \<in> w_guid ` set (queue_of q s)"
  shows "wl_inv s"
  using assms(1) assms(2) [of _ Priority] assms(2) [of _ Ordinary]
  by (simp only: wl_inv_def queue_of_def wait_queue.case) simp

lemma queue_of_set_queue [simp]: "queue_of q' (set_queue q xs s) = (if q' = q then xs else queue_of q' s)"
  by (cases q; cases q') (simp_all add: queue_of_def set_queue_def)

lemma queue_of_refs [simp]: "queue_of q (s\<lparr>wl_refs := r\<rparr>) = queue_of q s"
  by (cases q) (simp_all add: queue_of_def)

lemma refs_set_queue [simp]: "wl_refs (set_queue q xs s) = wl_refs s"
  by (cases q) (simp_all add: set_queue_def)

lemma image_filter_split:
  "distinct (map f xs) \<Longrightarrow> f ` {x \<in> set xs. P x} = f ` set xs - f ` {x \<in> set xs. \<not> P x}"
  by (auto simp: distinct_map inj_on_def)

lemma cleanup_eq:
  "cleanup time ws refs = (filter (\<lambda>w. time < w_timeout w) ws,
     \<lambda>g. if g \<in> w_guid ` {w \<in> set ws. \<not> time < w_timeout w} then None else refs g)"
  by (induction ws arbitrary: refs) (auto simp: fun_eq_iff)

lemma wl_inv_disjoint:
  "wl_inv s \<Longrightarrow> g \<in> w_guid ` set (queue_of q s) \<Longrightarrow> g \<in> w_guid ` set (queue_of q' s) \<Longrightarrow> q = q'"
proof -
  assume "wl_inv s"
  then have "w_guid ` set (wl_priority s) \<inter> w_guid ` set (wl_ordinary s) = {}"
    using wl_inv_distinct by fastforce
  then show "g \<in> w_guid ` set (queue_of q s) \<Longrightarrow> g \<in> w_guid ` set (queue_of q' s) \<Longrightarrow> q = q'"
    by (cases q; cases q') (simp_all add: queue_of_def disjoint_iff)
qed

lemma wl_inv_queue_distinct: "wl_inv s \<Longrightarrow> distinct (map w_guid (queue_of q s))"
  by (cases q) (auto simp: queue_of_def dest: wl_inv_distinct)

lemma cleanupList_eq:
  "cleanupList q time s = (set_queue q (filter (\<lambda>w. time < w_timeout w) (queue_of q s)) s)\<lparr>wl_refs :=
     (\<lambda>g. if g \<in> w_guid ` {w \<in> set (queue_of q s). \<not> time < w_timeout w} then None else wl_refs s g)\<rparr>"
  by (simp add: cleanupList_def cleanup_eq)

lemma cleanup_inv:
  assumes "wl_inv s"
  shows "wl_inv (cleanupList q time s)"
proof (rule wl_invI)
  show "distinct (map w_guid (wl_priority (cleanupList q time s) @ wl_ordinary (cleanupList q time s)))"
    using wl_inv_distinct [OF assms]
    by (cases q) (auto simp: cleanupList_eq set_queue_def queue_of_def distinct_map_filter)
next
  fix q' g
  let ?gone = "w_guid ` {w \<in> set (queue_of q s). \<not> time < w_timeout w}"
  show "(\<exists>n. wl_refs (cleanupList q time s) g = Some (q', n)) \<longleftrightarrow> g \<in> w_guid ` set (queue_of q' (cleanupList q time s))"
  proof (cases "q' = q")
    case True
    then show ?thesis
      using wl_inv_queue [OF assms, of g q]
        image_filter_split [OF wl_inv_queue_distinct [OF assms, of q], of "\<lambda>w. time < w_timeout w"]
      by (simp add: cleanupList_eq)
  next
    case False
    then have "g \<in> ?gone \<Longrightarrow> g \<notin> w_guid ` set (queue_of q' s)"
      using wl_inv_disjoint [OF assms, of g q q'] by blast
    then show ?thesis using False wl_inv_queue [OF assms, of g q'] by (simp add: cleanupList_eq)
  qed
qed

lemma wl_inv_update_ref:
  assumes "wl_inv s" "wl_refs s g = Some (q, n)" "map w_guid ws = map w_guid (queue_of q s)"
  shows "wl_inv ((set_queue q ws s)\<lparr>wl_refs := (wl_refs s)(g \<mapsto> (q, m))\<rparr>)"
proof (rule wl_invI)
  show "distinct (map w_guid (wl_priority ((set_queue q ws s)\<lparr>wl_refs := (wl_refs s)(g \<mapsto> (q, m))\<rparr>)
      @ wl_ordinary ((set_queue q ws s)\<lparr>wl_refs := (wl_refs s)(g \<mapsto> (q, m))\<rparr>)))"
    using wl_inv_distinct [OF assms(1)] assms(3)
    by (cases q) (simp_all add: set_queue_def queue_of_def del: distinct_append)
next
  fix q' h
  have "w_guid ` set ws = w_guid ` set (queue_of q s)" using assms(3) by (metis list.set_map)
  then have "w_guid ` set (queue_of q' ((set_queue q ws s)\<lparr>wl_refs := (wl_refs s)(g \<mapsto> (q, m))\<rparr>)) = w_guid ` set (queue_of q' s)"
    by simp
  moreover have "(\<exists>k. ((wl_refs s)(g \<mapsto> (q, m))) h = Some (q', k)) \<longleftrightarrow> (\<exists>k. wl_refs s h = Some (q', k))"
    using assms(2) by auto
  ultimately show "(\<exists>k. wl_refs ((set_queue q ws s)\<lparr>wl_refs := (wl_refs s)(g \<mapsto> (q, m))\<rparr>) h = Some (q', k))
      \<longleftrightarrow> h \<in> w_guid ` set (queue_of q' ((set_queue q ws s)\<lparr>wl_refs := (wl_refs s)(g \<mapsto> (q, m))\<rparr>))"
    using wl_inv_queue [OF assms(1), of h q'] by simp
qed

lemma wl_inv_new_ref:
  assumes "wl_inv s" "wl_refs s g = None" "w_guid w = g"
  shows "wl_inv ((set_queue q (queue_of q s @ [w]) s)\<lparr>wl_refs := (wl_refs s)(g \<mapsto> (q, m))\<rparr>)"
proof -
  have n: "g \<notin> w_guid ` set (queue_of q' s)" for q' using wl_inv_queue [OF assms(1), of g q'] assms(2) by simp
  show ?thesis
  proof (rule wl_invI)
    show "distinct (map w_guid (wl_priority ((set_queue q (queue_of q s @ [w]) s)\<lparr>wl_refs := (wl_refs s)(g \<mapsto> (q, m))\<rparr>)
        @ wl_ordinary ((set_queue q (queue_of q s @ [w]) s)\<lparr>wl_refs := (wl_refs s)(g \<mapsto> (q, m))\<rparr>)))"
      using wl_inv_distinct [OF assms(1)] n [of Priority] n [of Ordinary] assms(3)
      by (cases q) (auto simp: set_queue_def queue_of_def)
  next
    fix q' h
    show "(\<exists>k. wl_refs ((set_queue q (queue_of q s @ [w]) s)\<lparr>wl_refs := (wl_refs s)(g \<mapsto> (q, m))\<rparr>) h = Some (q', k))
        \<longleftrightarrow> h \<in> w_guid ` set (queue_of q' ((set_queue q (queue_of q s @ [w]) s)\<lparr>wl_refs := (wl_refs s)(g \<mapsto> (q, m))\<rparr>))"
      using wl_inv_queue [OF assms(1), of h q'] n [of q'] assms(3) by (cases "h = g") auto
  qed
qed

lemma addPlayerToList_inv:
  assumes "wl_inv s" "addPlayerToList time p s = Some s'"
  shows "wl_inv s'"
  using assms(2) wl_inv_update_ref [OF assms(1)] wl_inv_new_ref [OF assms(1)]
  by (auto simp: addPlayerToList_def Let_def split: option.splits)

lemma wl_inv_remove:
  assumes "wl_inv s" and that: "wl_refs s g = Some (Ordinary, n)"
  shows "wl_inv (s\<lparr>wl_ordinary := filter (\<lambda>w. w_guid w \<noteq> g) (wl_ordinary s), wl_refs := (wl_refs s)(g := None)\<rparr>)"
proof (rule wl_invI)
  let ?s = "s\<lparr>wl_ordinary := filter (\<lambda>w. w_guid w \<noteq> g) (wl_ordinary s), wl_refs := (wl_refs s)(g := None)\<rparr>"
  show "distinct (map w_guid (wl_priority ?s @ wl_ordinary ?s))"
    using wl_inv_distinct [OF assms(1)] by (auto simp: distinct_map_filter)
next
  let ?s = "s\<lparr>wl_ordinary := filter (\<lambda>w. w_guid w \<noteq> g) (wl_ordinary s), wl_refs := (wl_refs s)(g := None)\<rparr>"
  fix q h
  have "g \<notin> w_guid ` set (wl_priority s)"
    using wl_inv_queue [OF assms(1), of g Priority] that by (auto simp: queue_of_def)
  then show "(\<exists>n. wl_refs ?s h = Some (q, n)) \<longleftrightarrow> h \<in> w_guid ` set (queue_of q ?s)"
    using wl_inv_queue [OF assms(1), of h q] by (cases q) (auto simp: queue_of_def)
qed

lemma clientLogin_inv:
  assumes "wl_inv s" "clientLogin maxPlayers online time p s = Some (b, s')"
  shows "wl_inv s'"
proof -
  have c: "wl_inv (cleanupList Ordinary time (cleanupList Priority time s))"
    using assms(1) by (intro cleanup_inv)
  show ?thesis
    using assms addPlayerToList_inv [OF c] wl_inv_remove
    by (auto simp: clientLogin_def Let_def split: if_splits option.splits prod.splits)
qed

subsection \<open>Order and admission\<close>

definition home_queue :: "login_player \<Rightarrow> wait_queue" where
  "home_queue p = (if lp_premium p then Priority else Ordinary)"

text \<open>The premium status did not change since the player queued up.\<close>

definition status_kept :: "login_player \<Rightarrow> waiting_list \<Rightarrow> bool" where
  "status_kept p s \<longleftrightarrow> (case wl_refs s (lp_guid p) of None \<Rightarrow> True | Some (q, n) \<Rightarrow> q = home_queue p)"

lemma distance_to_Some: "g \<in> w_guid ` set ws \<Longrightarrow> \<exists>d. distance_to g ws = Some d \<and> d < length ws"
  by (induction ws) auto

lemma player_slot_Some:
  assumes "wl_inv s" "wl_refs s (lp_guid p) = Some (home_queue p, n)"
  shows "\<exists>k. player_slot p (home_queue p) s = Some k \<and> k \<ge> 1"
  using distance_to_Some [of "lp_guid p" "queue_of (home_queue p) s"] wl_inv_queue [OF assms(1), of "lp_guid p" "home_queue p"] assms(2)
  by (auto simp: player_slot_def ref_distance_def home_queue_def split: if_splits)

lemma cleanupList_refs: "wl_refs (cleanupList q time s) g = Some r \<Longrightarrow> wl_refs s g = Some r"
  by (simp add: cleanupList_eq split: if_splits)

lemma status_kept_cleanup: "status_kept p s \<Longrightarrow> status_kept p (cleanupList q time s)"
  by (auto simp: status_kept_def split: option.splits dest!: cleanupList_refs)

lemma cleanup_subseq: "subseq (map w_guid (queue_of q' (cleanupList q time s))) (map w_guid (queue_of q' s))"
  by (auto simp: cleanupList_eq intro!: subseq_map subseq_filter_left)

lemma addPlayerToList_total:
  assumes "wl_inv s" "status_kept p s"
  shows "\<exists>s' slot. addPlayerToList time p s = Some s' \<and> wl_refs s' (lp_guid p) = Some (home_queue p, slot)
    \<and> map w_guid (queue_of q s') = map w_guid (queue_of q s) @
        (if q = home_queue p \<and> wl_refs s (lp_guid p) = None then [lp_guid p] else [])"
proof (cases "wl_refs s (lp_guid p)")
  case None
  then show ?thesis by (auto simp: addPlayerToList_def Let_def home_queue_def)
next
  case (Some r)
  then obtain n where r: "wl_refs s (lp_guid p) = Some (home_queue p, n)"
    using assms(2) by (cases r) (simp add: status_kept_def)
  obtain k where "player_slot p (home_queue p) s = Some k" using player_slot_Some [OF assms(1) r] by blast
  then show ?thesis using r by (auto simp: addPlayerToList_def Let_def)
qed

text \<open>
  The login of an ordinary player is always answered, keeps the references and the two queues
  in agreement, and never lets anybody overtake: each queue afterwards is a part of the old one in
  the old order, with the player at the end if new.  A player who is not let in is in the queue.
\<close>

theorem waitlist_login:
  assumes "wl_inv s" "status_kept p s" "\<not> lp_premium p"
  shows "\<exists>b s'. clientLogin maxPlayers online time p s = Some (b, s') \<and> wl_inv s'
    \<and> subseq (map w_guid (wl_priority s')) (map w_guid (wl_priority s))
    \<and> subseq (map w_guid (wl_ordinary s')) (map w_guid (wl_ordinary s) @ [lp_guid p])
    \<and> (\<not> b \<longrightarrow> lp_guid p \<in> w_guid ` set (wl_ordinary s'))"
proof -
  let ?c = "cleanupList Ordinary time (cleanupList Priority time s)"
  have h: "home_queue p = Ordinary" using assms(3) by (simp add: home_queue_def)
  have c: "wl_inv ?c" "status_kept p ?c" using assms by (simp_all add: cleanup_inv status_kept_cleanup)
  have sub: "subseq (map w_guid (queue_of q ?c)) (map w_guid (queue_of q s))" for q
    using cleanup_subseq by (rule subseq_order.order_trans) (rule cleanup_subseq)
  obtain s1 slot where a: "addPlayerToList time p ?c = Some s1" "wl_refs s1 (lp_guid p) = Some (Ordinary, slot)"
    using addPlayerToList_total [OF c, of time Ordinary] h by auto
  have m: "map w_guid (queue_of q s1) = map w_guid (queue_of q ?c) @
      (if q = Ordinary \<and> wl_refs ?c (lp_guid p) = None then [lp_guid p] else [])" for q
    using addPlayerToList_total [OF c, of time q] a h by auto
  have p1: "subseq (map w_guid (wl_priority s1)) (map w_guid (wl_priority s))"
    using m [of Priority] sub [of Priority] by (simp add: queue_of_def)
  have o1: "subseq (map w_guid (wl_ordinary s1)) (map w_guid (wl_ordinary s) @ [lp_guid p])"
    using m [of Ordinary] sub [of Ordinary] by (auto simp: queue_of_def)
  have f: "subseq (map w_guid (filter P (wl_ordinary s1))) (map w_guid (wl_ordinary s) @ [lp_guid p])" for P
    using subseq_map [OF subseq_filter_left [of P "wl_ordinary s1"], of w_guid] o1 by (rule subseq_order.order_trans)
  have i: "lp_guid p \<in> w_guid ` set (wl_ordinary s1)"
    using wl_inv_queue [OF addPlayerToList_inv [OF c(1) a(1)], of "lp_guid p" Ordinary] a(2) by (simp add: queue_of_def)
  have "clientLogin maxPlayers online time p s \<noteq> None" using a by (auto simp: clientLogin_def Let_def)
  then obtain b s' where r: "clientLogin maxPlayers online time p s = Some (b, s')" by auto
  have "wl_inv s'" using clientLogin_inv [OF assms(1) r] .
  moreover have "s' = s \<and> b \<or> s' = s1 \<and> \<not> b \<or> b \<and> wl_priority s' = wl_priority s1 \<and>
      wl_ordinary s' = filter (\<lambda>w. w_guid w \<noteq> lp_guid p) (wl_ordinary s1)"
    using r a by (auto simp: clientLogin_def Let_def split: if_splits)
  ultimately show ?thesis using r p1 o1 f i by auto
qed

definition example_wait :: waiting_list where
  "example_wait = \<lparr>wl_priority = [], wl_ordinary = [\<lparr>w_timeout = 90000, w_guid = 1\<rparr>, \<lparr>w_timeout = 99000, w_guid = 2\<rparr>],
     wl_refs = [1 \<mapsto> (Ordinary, 1), 2 \<mapsto> (Ordinary, 2)]\<rparr>"

definition example_login :: "u32 \<Rightarrow> bool \<Rightarrow> login_player" where
  "example_login g premium = \<lparr>lp_guid = g, lp_canAlwaysLogin = False, lp_accountType = 1, lp_premium = premium\<rparr>"

lemma example_wait_inv: "wl_inv example_wait"
  by (auto simp: wl_inv_def example_wait_def)

theorem waitlist_login_witness:
  "\<exists>s'. clientLogin 100 98 50000 (example_login 3 False) example_wait = Some (False, s')
    \<and> wl_inv s' \<and> map w_guid (wl_ordinary s') = [1, 2, 3]"
proof -
  have r: "\<exists>s'. clientLogin 100 98 50000 (example_login 3 False) example_wait = Some (False, s') \<and> map w_guid (wl_ordinary s') = [1, 2, 3]"
    by (simp add: clientLogin_def Let_def cleanupList_def example_wait_def example_login_def queue_of_def
        set_queue_def addPlayerToList_def getTimeout_def getTime_def)
  have k: "status_kept (example_login 3 False) example_wait" "\<not> lp_premium (example_login 3 False)"
    by (simp_all add: status_kept_def example_wait_def example_login_def)
  show ?thesis using waitlist_login [OF example_wait_inv k, of 100 98 50000] r by auto
qed

text \<open>
  A premium player who reaches the head of the priority queue makes the server erase an
  iterator of the priority list from the ordinary list, which is undefined: with one free place
  and one ordinary player waiting, the login of a premium player already has no defined result.
\<close>

theorem priority_login_undefined:
  "clientLogin 100 99 50000 (example_login 3 True) example_wait = None"
  by (simp add: clientLogin_def Let_def cleanupList_def example_wait_def example_login_def queue_of_def
      set_queue_def addPlayerToList_def getTimeout_def getTime_def)

text \<open>Waiting times grow with the place in the queue.\<close>

lemma getTimeout_mono: "a \<le> b \<Longrightarrow> getTimeout a \<le> getTimeout b"
  by (simp add: getTimeout_def getTime_def)

subsection \<open>Connection throttle\<close>

text \<open>\<open>Ban::acceptConnection\<close>: times are 64-bit milliseconds, the count a 32-bit number.\<close>

record connect_block =
  cb_lastAttempt :: "64 word"
  cb_blockTime :: "64 word"
  cb_count :: u32

type_synonym ip_connect_map = "u32 \<rightharpoonup> connect_block"

definition acceptConnection :: "64 word \<Rightarrow> u32 \<Rightarrow> ip_connect_map \<Rightarrow> bool \<times> ip_connect_map" where
  "acceptConnection currentTime ip m = (case m ip of
     None \<Rightarrow> (True, m(ip \<mapsto> \<lparr>cb_lastAttempt = currentTime, cb_blockTime = 0, cb_count = 1\<rparr>))
   | Some b \<Rightarrow>
      if cb_blockTime b > currentTime then (False, m(ip \<mapsto> b\<lparr>cb_blockTime := cb_blockTime b + 250\<rparr>))
      else let timeDiff = sint (currentTime - cb_lastAttempt b); b = b\<lparr>cb_lastAttempt := currentTime\<rparr>
        in if timeDiff \<le> 5000 then
             let b = b\<lparr>cb_count := cb_count b + 1\<rparr>
             in if cb_count b > 5 then
                  let b = b\<lparr>cb_count := 0\<rparr>
                  in if timeDiff \<le> 500 then (False, m(ip \<mapsto> b\<lparr>cb_blockTime := currentTime + 3000\<rparr>))
                     else (True, m(ip \<mapsto> b))
                else (True, m(ip \<mapsto> b))
           else (True, m(ip \<mapsto> b\<lparr>cb_count := 1\<rparr>)))"

fun accept_run :: "u32 \<Rightarrow> 64 word list \<Rightarrow> ip_connect_map \<Rightarrow> bool list \<times> ip_connect_map" where
  "accept_run ip [] m = ([], m)"
| "accept_run ip (t # ts) m = (case acceptConnection t ip m of (b, m) \<Rightarrow>
     case accept_run ip ts m of (bs, m) \<Rightarrow> (b # bs, m))"

text \<open>Consecutive attempts of one address, each at most half a second after the one before.\<close>

fun burst :: "64 word list \<Rightarrow> bool" where
  "burst (t # u # ts) \<longleftrightarrow> 0 \<le> sint (u - t) \<and> sint (u - t) \<le> 500 \<and> burst (u # ts)"
| "burst _ \<longleftrightarrow> True"

lemma accept_in_burst:
  assumes "m ip = Some \<lparr>cb_lastAttempt = t, cb_blockTime = 0, cb_count = n\<rparr>" "sint (u - t) \<le> 500" "n < 5"
  shows "acceptConnection u ip m = (True, m(ip \<mapsto> \<lparr>cb_lastAttempt = u, cb_blockTime = 0, cb_count = n + 1\<rparr>))"
proof -
  have "\<not> 5 < n + 1" using assms(3) by (simp add: word_less_nat_alt unat_word_ariths)
  then show ?thesis using assms(1,2) by (simp add: acceptConnection_def)
qed

text \<open>
  Of a burst of six connections from a new address, each within half a second of the last,
  five are accepted and the sixth is refused, and the address is then blocked for three seconds:
  any attempt in that time is refused and makes the block longer.
\<close>

theorem sixth_connection_blocked:
  assumes "burst [t1, t2, t3, t4, t5, t6]" and "m ip = None" and "u < t6 + 3000"
  shows "fst (accept_run ip [t1, t2, t3, t4, t5, t6, u] m) = [True, True, True, True, True, False, False]
    \<and> map_option cb_blockTime (snd (accept_run ip [t1, t2, t3, t4, t5, t6, u] m) ip) = Some (t6 + 3250)"
  using assms by (simp add: accept_in_burst acceptConnection_def)

theorem sixth_connection_blocked_witness:
  "fst (accept_run 7 [1000, 1100, 1200, 1300, 1400, 1500, 4000] Map.empty) = [True, True, True, True, True, False, False]"
  using sixth_connection_blocked [of 1000 1100 1200 1300 1400 1500 Map.empty 7 4000] by simp

text \<open>Attempts more than five seconds apart are never refused.\<close>

lemma slow_attempt_accepted:
  "m ip = Some b \<Longrightarrow> cb_blockTime b \<le> t \<Longrightarrow> 5000 < sint (t - cb_lastAttempt b) \<Longrightarrow> fst (acceptConnection t ip m)"
  by (simp add: acceptConnection_def Let_def)

end
