(* ===== verification/KvStore.thy ===== *)
theory KvStore
  imports Prelude "HOL-Library.Sublist" "HOL-Library.Multiset"
begin

text \<open>
  The key-value store: \<open>kv/kv.cpp\<close> (a least-recently-used cache), \<open>kv/value_wrapper.hpp\<close> and
  \<open>kv/value_wrapper_proto.cpp\<close> (values and their message form), \<open>kv/kv_sql.cpp\<close> (the backend).
  The virtual functions \<open>load\<close> and \<open>save\<close> are the interface between the cache and a backend:
  the locale \<open>kv_backend\<close> states what the cache relies on, and it is interpreted on the SQL
  backend.  The table \<open>kv_store\<close> is a map from keys to a timestamp and a stored message; a
  statement succeeds while the connection is up.  Doubles are carried as their 64 bits.
\<close>

subsection \<open>Values and messages\<close>

datatype kv_variant = VString string | VBool bool | VInt u32 | VDouble "64 word"
    | VArray "kv_value list" | VMap "(string \<times> kv_value) list"
  and kv_value = KV (kv_data: kv_variant) (kv_timestamp: nat) (kv_deleted: bool)

datatype kv_proto = PUnset | PString string | PBool bool | PInt u32 | PDouble "64 word"
    | PArray "kv_proto list" | PMap "(string \<times> kv_proto) list"

definition ValueWrapper :: "nat \<Rightarrow> kv_variant \<Rightarrow> nat \<Rightarrow> kv_value" where
  "ValueWrapper now d timestamp = KV d (if timestamp = 0 then now else timestamp) False"

definition kv_remove_marker :: "nat \<Rightarrow> kv_value" where
  "kv_remove_marker now = KV (VString []) now True"

lemma size_map_entry [termination_simp]: "(k, v) \<in> set kvs \<Longrightarrow> size v < Suc (size_list (size_prod (\<lambda>_. 0) size) kvs)"
proof (induction kvs)
  case (Cons a kvs)
  then show ?case by (cases a) auto
qed simp

fun toProto :: "kv_value \<Rightarrow> kv_proto" where
  "toProto (KV (VString s) t d) = PString s"
| "toProto (KV (VBool b) t d) = PBool b"
| "toProto (KV (VInt i) t d) = PInt i"
| "toProto (KV (VDouble x) t d) = PDouble x"
| "toProto (KV (VArray vs) t d) = PArray (map toProto vs)"
| "toProto (KV (VMap kvs) t d) = PMap (map (\<lambda>(k, v). (k, toProto v)) kvs)"

text \<open>\<open>map[key] = value\<close> on a hash map, kept as an association list in the order of first insertion.\<close>

fun assoc_put :: "'k \<Rightarrow> 'v \<Rightarrow> ('k \<times> 'v) list \<Rightarrow> ('k \<times> 'v) list" where
  "assoc_put k v [] = [(k, v)]"
| "assoc_put k v ((k', v') # m) = (if k = k' then (k, v) # m else (k', v') # assoc_put k v m)"

fun fromProto :: "nat \<Rightarrow> nat \<Rightarrow> kv_proto \<Rightarrow> kv_value" where
  "fromProto now t PUnset = ValueWrapper now (VString []) t"
| "fromProto now t (PString s) = ValueWrapper now (VString s) t"
| "fromProto now t (PBool b) = ValueWrapper now (VBool b) t"
| "fromProto now t (PInt i) = ValueWrapper now (VInt i) t"
| "fromProto now t (PDouble x) = ValueWrapper now (VDouble x) t"
| "fromProto now t (PArray ps) = ValueWrapper now (VArray (map (fromProto now t) ps)) t"
| "fromProto now t (PMap items) = ValueWrapper now
     (VMap (foldl (\<lambda>m (k, v). assoc_put k v m) [] (map (\<lambda>(k, p). (k, fromProto now t p)) items))) t"

text \<open>The maps inside a value have each key once, as a hash map does; the same for messages.\<close>

fun wf_value :: "kv_value \<Rightarrow> bool" where
  "wf_value (KV (VArray vs) t d) \<longleftrightarrow> (\<forall>v \<in> set vs. wf_value v)"
| "wf_value (KV (VMap kvs) t d) \<longleftrightarrow> distinct (map fst kvs) \<and> (\<forall>(k, v) \<in> set kvs. wf_value v)"
| "wf_value _ \<longleftrightarrow> True"

lemma assoc_put_new: "k \<notin> fst ` set m \<Longrightarrow> assoc_put k v m = m @ [(k, v)]"
  by (induction m) auto

lemma foldl_assoc_put:
  "distinct (map fst m @ map fst kvs) \<Longrightarrow> foldl (\<lambda>m (k, v). assoc_put k v m) m kvs = m @ kvs"
proof (induction kvs arbitrary: m)
  case (Cons a kvs)
  obtain k v where a: "a = (k, v)" by fastforce
  then have "assoc_put k v m = m @ [(k, v)]" using Cons.prems by (intro assoc_put_new) simp
  then show ?case using Cons.IH [of "m @ [(k, v)]"] Cons.prems a by simp
qed simp

lemma toProto_ValueWrapper [simp]: "toProto (ValueWrapper now d t) = toProto (KV d 0 False)"
  by (cases d) (simp_all add: ValueWrapper_def)

lemma proto_roundtrip: "wf_value v \<Longrightarrow> toProto (fromProto now t (toProto v)) = toProto v"
proof (induction v rule: toProto.induct)
  case (5 vs t' d)
  then show ?case by simp
next
  case (6 kvs t' d)
  let ?items = "map (\<lambda>(k, p). (k, fromProto now t p)) (map (\<lambda>(k, v). (k, toProto v)) kvs)"
  have m: "map fst ?items = map fst kvs" by (simp add: case_prod_beta)
  have "foldl (\<lambda>m (k, v). assoc_put k v m) [] ?items = [] @ ?items"
  proof (rule foldl_assoc_put)
    show "distinct (map fst [] @ map fst ?items)" unfolding m using 6(2) by simp
  qed
  moreover have "toProto (fromProto now t (toProto v)) = toProto v" if "(k, v) \<in> set kvs" for k v
    using 6 that by (auto simp: case_prod_beta)
  ultimately show ?case by (auto simp: case_prod_beta)
qed simp_all

subsection \<open>The cache\<close>

text \<open>
  \<open>store_\<close> maps a key to its value and to an iterator into \<open>lruQueue_\<close>; the nodes of that list
  carry a number, so that an iterator keeps naming its own node.  \<open>mx\<close> is \<open>MAX_SIZE\<close>.
\<close>

abbreviation MAX_SIZE :: nat where "MAX_SIZE \<equiv> 1000000"

record 'db kv_store =
  kv_map :: "string \<rightharpoonup> kv_value \<times> nat"
  kv_lru :: "(nat \<times> string) list"
  kv_next :: nat
  kv_db :: 'db

definition lru_front :: "nat \<Rightarrow> (nat \<times> string) list \<Rightarrow> (nat \<times> string) list" where
  "lru_front i q = filter (\<lambda>e. fst e = i) q @ filter (\<lambda>e. fst e \<noteq> i) q"

definition lru_back :: "nat \<Rightarrow> (nat \<times> string) list \<Rightarrow> (nat \<times> string) list" where
  "lru_back i q = filter (\<lambda>e. fst e \<noteq> i) q @ filter (\<lambda>e. fst e = i) q"

text \<open>\<open>store_[*last].first\<close> is a fresh default value when the key is not in the map; decrementing the end of an empty list is undefined.\<close>

definition kv_evict :: "nat \<Rightarrow> ('db \<Rightarrow> string \<Rightarrow> kv_value \<Rightarrow> bool \<times> 'db) \<Rightarrow> 'db kv_store \<Rightarrow> 'db kv_store option" where
  "kv_evict now save s = (if kv_lru s = [] then None else
     let last_key = snd (last (kv_lru s));
         old = (case kv_map s last_key of Some (v, _) \<Rightarrow> v | None \<Rightarrow> KV (VString []) now False)
     in Some (s\<lparr>kv_db := snd (save (kv_db s) last_key old), kv_map := (kv_map s)(last_key := None),
                kv_lru := butlast (kv_lru s)\<rparr>))"

definition setLocked :: "nat \<Rightarrow> ('db \<Rightarrow> string \<Rightarrow> kv_value \<Rightarrow> bool \<times> 'db) \<Rightarrow> nat \<Rightarrow> string \<Rightarrow> kv_value
    \<Rightarrow> 'db kv_store \<Rightarrow> 'db kv_store option" where
  "setLocked now save mx key v s = (case kv_map s key of
     Some (_, i) \<Rightarrow> Some (s\<lparr>kv_map := (kv_map s)(key \<mapsto> (v, i)), kv_lru := lru_front i (kv_lru s)\<rparr>)
   | None \<Rightarrow>
      map_option (\<lambda>s. s\<lparr>kv_lru := (kv_next s, key) # kv_lru s,
          kv_map := (kv_map s)(key \<mapsto> (v, kv_next s)), kv_next := kv_next s + 1\<rparr>)
        (if card (dom (kv_map s)) \<ge> mx then kv_evict now save s else Some s))"

definition kv_get :: "nat \<Rightarrow> ('db \<Rightarrow> string \<Rightarrow> kv_value option) \<Rightarrow> ('db \<Rightarrow> string \<Rightarrow> kv_value \<Rightarrow> bool \<times> 'db) \<Rightarrow> nat
    \<Rightarrow> string \<Rightarrow> bool \<Rightarrow> 'db kv_store \<Rightarrow> (kv_value option \<times> 'db kv_store) option" where
  "kv_get now load save mx key forceLoad s =
     (if forceLoad \<or> kv_map s key = None then
        (case load (kv_db s) key of None \<Rightarrow> Some (None, s)
         | Some v \<Rightarrow> map_option (\<lambda>s. (Some v, s)) (setLocked now save mx key v s))
      else case kv_map s key of None \<Rightarrow> None | Some (v, i) \<Rightarrow>
        if kv_deleted v then Some (None, s\<lparr>kv_lru := lru_back i (kv_lru s)\<rparr>)
        else Some (Some v, s\<lparr>kv_lru := lru_front i (kv_lru s)\<rparr>))"

definition kv_remove :: "nat \<Rightarrow> ('db \<Rightarrow> string \<Rightarrow> kv_value \<Rightarrow> bool \<times> 'db) \<Rightarrow> nat \<Rightarrow> string \<Rightarrow> 'db kv_store \<Rightarrow> 'db kv_store option" where
  "kv_remove now save mx key s = setLocked now save mx key (kv_remove_marker now) s"

text \<open>\<open>flush\<close> saves everything and clears the map.\<close>

definition kv_flush :: "('db \<Rightarrow> (string \<rightharpoonup> kv_value) \<Rightarrow> 'db) \<Rightarrow> 'db kv_store \<Rightarrow> 'db kv_store" where
  "kv_flush saveAll s = s\<lparr>kv_db := saveAll (kv_db s) (\<lambda>k. map_option fst (kv_map s k)), kv_map := Map.empty\<rparr>"

definition kv_keys :: "string \<Rightarrow> string set \<Rightarrow> 'db kv_store \<Rightarrow> string set" where
  "kv_keys prefx loaded s = {drop (length prefx) k |k. k \<in> dom (kv_map s) \<and> prefix prefx k} \<union> loaded"

text \<open>A scoped store prefixes the keys.\<close>

definition buildKey :: "string \<Rightarrow> string \<Rightarrow> string" where
  "buildKey scope key = scope @ ''.'' @ key"

subsection \<open>The contract of a backend\<close>

definition kv_inv :: "('db \<Rightarrow> bool) \<Rightarrow> nat \<Rightarrow> 'db kv_store \<Rightarrow> bool" where
  "kv_inv ok mx s \<longleftrightarrow> ok (kv_db s) \<and> finite (dom (kv_map s)) \<and> card (dom (kv_map s)) \<le> mx
     \<and> distinct (map fst (kv_lru s)) \<and> distinct (map snd (kv_lru s)) \<and> (\<forall>(i, k) \<in> set (kv_lru s). i < kv_next s)
     \<and> (\<forall>k i. (i, k) \<in> set (kv_lru s) \<longleftrightarrow> (\<exists>v. kv_map s k = Some (v, i)))
     \<and> (\<forall>k v i. kv_map s k = Some (v, i) \<longrightarrow> wf_value v)"

lemma kv_inv_lru: "kv_inv ok mx s \<Longrightarrow> (i, k) \<in> set (kv_lru s) \<longleftrightarrow> (\<exists>v. kv_map s k = Some (v, i))"
  unfolding kv_inv_def by blast

lemma kv_invD:
  assumes "kv_inv ok mx s"
  shows "ok (kv_db s)" "finite (dom (kv_map s))" "card (dom (kv_map s)) \<le> mx"
    "distinct (map fst (kv_lru s))" "distinct (map snd (kv_lru s))"
    "(i, k) \<in> set (kv_lru s) \<Longrightarrow> i < kv_next s" "kv_map s k = Some (v, i) \<Longrightarrow> wf_value v"
  using assms unfolding kv_inv_def by blast+

lemma kv_invI:
  assumes "ok (kv_db s)" "finite (dom (kv_map s))" "card (dom (kv_map s)) \<le> mx"
    "distinct (map fst (kv_lru s))" "distinct (map snd (kv_lru s))"
    "\<And>i k. (i, k) \<in> set (kv_lru s) \<Longrightarrow> i < kv_next s"
    "\<And>i k. (i, k) \<in> set (kv_lru s) \<longleftrightarrow> (\<exists>v. kv_map s k = Some (v, i))"
    "\<And>k v i. kv_map s k = Some (v, i) \<Longrightarrow> wf_value v"
  shows "kv_inv ok mx s"
  unfolding kv_inv_def using assms by blast

lemma set_lru_front [simp]: "set (lru_front i q) = set q"
  by (auto simp: lru_front_def)

lemma set_lru_back [simp]: "set (lru_back i q) = set q"
  by (auto simp: lru_back_def)

lemma distinct_lru_move:
  "distinct (map f q) \<Longrightarrow> distinct (map f (filter P q @ filter (\<lambda>e. \<not> P e) q))"
proof -
  have "mset (map f (filter P q @ filter (\<lambda>e. \<not> P e) q)) = mset (map f q)"
    by (induction q) simp_all
  from mset_eq_imp_distinct_iff [OF this] show "distinct (map f q) \<Longrightarrow> ?thesis" by blast
qed

lemma kv_inv_touch:
  assumes "kv_inv ok mx s" "q = lru_front i (kv_lru s) \<or> q = lru_back i (kv_lru s)"
  shows "kv_inv ok mx (s\<lparr>kv_lru := q\<rparr>)"
proof -
  have d: "distinct (map fst (kv_lru s))" "distinct (map snd (kv_lru s))" using assms(1) by (simp_all add: kv_inv_def)
  have "distinct (map fst q)" "distinct (map snd q)"
    using assms(2) distinct_lru_move [OF d(1), of "\<lambda>e. fst e = i"] distinct_lru_move [OF d(2), of "\<lambda>e. fst e = i"]
      distinct_lru_move [OF d(1), of "\<lambda>e. fst e \<noteq> i"] distinct_lru_move [OF d(2), of "\<lambda>e. fst e \<noteq> i"]
    by (auto simp: lru_front_def lru_back_def)
  moreover have "set q = set (kv_lru s)" using assms(2) by auto
  ultimately show ?thesis using assms(1) by (simp add: kv_inv_def)
qed

lemma kv_inv_set_value:
  assumes "kv_inv ok mx s" "kv_map s k = Some (w, i)" "wf_value v"
  shows "kv_inv ok mx (s\<lparr>kv_map := (kv_map s)(k \<mapsto> (v, i))\<rparr>)"
proof (rule kv_invI)
  have dm: "dom ((kv_map s)(k \<mapsto> (v, i))) = dom (kv_map s)" using assms(2) by auto
  show "finite (dom (kv_map (s\<lparr>kv_map := (kv_map s)(k \<mapsto> (v, i))\<rparr>)))"
    "card (dom (kv_map (s\<lparr>kv_map := (kv_map s)(k \<mapsto> (v, i))\<rparr>))) \<le> mx"
    using kv_invD(2,3) [OF assms(1)] dm by simp_all
  fix j k'
  show "(j, k') \<in> set (kv_lru (s\<lparr>kv_map := (kv_map s)(k \<mapsto> (v, i))\<rparr>)) \<longleftrightarrow>
      (\<exists>u. kv_map (s\<lparr>kv_map := (kv_map s)(k \<mapsto> (v, i))\<rparr>) k' = Some (u, j))"
    using kv_inv_lru [OF assms(1), of j k'] assms(2) by (cases "k' = k") auto
qed (use kv_invD [OF assms(1)] assms(3) in \<open>auto split: if_splits\<close>)

lemma kv_inv_push:
  assumes "kv_inv ok mx s" "kv_map s k = None" "card (dom (kv_map s)) < mx" "wf_value v"
  shows "kv_inv ok mx (s\<lparr>kv_lru := (kv_next s, k) # kv_lru s, kv_map := (kv_map s)(k \<mapsto> (v, kv_next s)), kv_next := kv_next s + 1\<rparr>)"
    (is "kv_inv ok mx ?s")
proof (rule kv_invI)
  show "card (dom (kv_map ?s)) \<le> mx"
    using assms(2,3) kv_invD(2) [OF assms(1)] by (simp add: card_insert_if)
  show "distinct (map fst (kv_lru ?s))"
    using kv_invD(4) [OF assms(1)] kv_invD(6) [OF assms(1), of "kv_next s"] by auto
  have "k \<notin> snd ` set (kv_lru s)" using kv_inv_lru [OF assms(1), of _ k] assms(2) by auto
  then show "distinct (map snd (kv_lru ?s))" using kv_invD(5) [OF assms(1)] by simp
  fix j k'
  show "(j, k') \<in> set (kv_lru ?s) \<longleftrightarrow> (\<exists>u. kv_map ?s k' = Some (u, j))"
    using kv_inv_lru [OF assms(1), of j k'] assms(2) by (cases "k' = k") auto
  show "(j, k') \<in> set (kv_lru ?s) \<Longrightarrow> j < kv_next ?s" using kv_invD(6) [OF assms(1)] by fastforce
qed (use kv_invD [OF assms(1)] assms(4) in \<open>auto split: if_splits\<close>)

lemma kv_inv_drop_last:
  assumes "kv_inv ok mx s" "kv_lru s = q @ [(i, k)]" "ok db"
  shows "kv_inv ok mx (s\<lparr>kv_db := db, kv_map := (kv_map s)(k := None), kv_lru := q\<rparr>)" (is "kv_inv ok mx ?s")
    and "card (dom ((kv_map s)(k := None))) < card (dom (kv_map s))"
proof -
  have k: "k \<in> dom (kv_map s)" using kv_inv_lru [OF assms(1), of i k] assms(2) by auto
  then show c: "card (dom ((kv_map s)(k := None))) < card (dom (kv_map s))"
    using kv_invD(2) [OF assms(1)] by (intro psubset_card_mono) auto
  show "kv_inv ok mx ?s"
  proof (rule kv_invI)
    show "card (dom (kv_map ?s)) \<le> mx" using c kv_invD(3) [OF assms(1)] by simp
    fix j k'
    have "k \<notin> snd ` set q" using kv_invD(5) [OF assms(1)] assms(2) by simp
    then show "(j, k') \<in> set (kv_lru ?s) \<longleftrightarrow> (\<exists>u. kv_map ?s k' = Some (u, j))"
      using kv_inv_lru [OF assms(1), of j k'] assms(2) by (cases "k' = k") (auto simp: image_iff)
    show "(j, k') \<in> set (kv_lru ?s) \<Longrightarrow> j < kv_next ?s" using kv_invD(6) [OF assms(1), of j k'] assms(2) by simp
  qed (use kv_invD [OF assms(1)] assms in \<open>auto split: if_splits\<close>)
qed

text \<open>
  A backend keeps working, answers a load with the data last saved under the key (or nothing, if
  that was a deletion marker), and never answers with a marker.
\<close>

locale kv_backend =
  fixes load :: "'db \<Rightarrow> string \<Rightarrow> kv_value option"
    and save :: "'db \<Rightarrow> string \<Rightarrow> kv_value \<Rightarrow> bool \<times> 'db"
    and ok :: "'db \<Rightarrow> bool"
  assumes save_ok: "ok db \<Longrightarrow> wf_value v \<Longrightarrow> ok (snd (save db k v))"
    and load_save: "ok db \<Longrightarrow> wf_value v \<Longrightarrow> map_option toProto (load (snd (save db k v)) k') =
        (if k' = k then if kv_deleted v then None else Some (toProto v) else map_option toProto (load db k'))"
    and load_wf: "ok db \<Longrightarrow> load db k = Some v \<Longrightarrow> wf_value v \<and> \<not> kv_deleted v"
begin

text \<open>What a reader of the store sees under a key.\<close>

definition view :: "'db kv_store \<Rightarrow> string \<Rightarrow> kv_proto option" where
  "view s k = (case kv_map s k of Some (v, _) \<Rightarrow> if kv_deleted v then None else Some (toProto v)
     | None \<Rightarrow> map_option toProto (load (kv_db s) k))"

lemma view_put:
  "view (s\<lparr>kv_lru := q, kv_map := (kv_map s)(k \<mapsto> (v, i)), kv_next := n\<rparr>) =
    (view s)(k := if kv_deleted v then None else Some (toProto v))"
  by (auto simp: view_def fun_eq_iff split: option.split)

lemma evict:
  assumes "kv_inv ok mx s" "kv_map s \<noteq> Map.empty"
  shows "\<exists>s'. kv_evict now save s = Some s' \<and> kv_inv ok mx s' \<and> view s' = view s
    \<and> card (dom (kv_map s')) < card (dom (kv_map s)) \<and> (\<forall>k. kv_map s k = None \<longrightarrow> kv_map s' k = None)"
proof -
  obtain k0 v0 i0 where "kv_map s k0 = Some (v0, i0)" using assms(2) by (auto simp: fun_eq_iff)
  then have "(i0, k0) \<in> set (kv_lru s)" using kv_inv_lru [OF assms(1), of i0 k0] by simp
  then have "kv_lru s \<noteq> []" by auto
  then obtain q i k where q: "kv_lru s = q @ [(i, k)]" by (metis append_butlast_last_id prod.exhaust)
  then obtain v where v: "kv_map s k = Some (v, i)" using kv_inv_lru [OF assms(1), of i k] by auto
  note d = kv_invD [OF assms(1)]
  have w: "wf_value v" "ok (kv_db s)" using d(7) [OF v] d(1) by auto
  have e: "kv_evict now save s = Some (s\<lparr>kv_db := snd (save (kv_db s) k v), kv_map := (kv_map s)(k := None), kv_lru := q\<rparr>)"
    using q v by (simp add: kv_evict_def Let_def)
  have "view (s\<lparr>kv_db := snd (save (kv_db s) k v), kv_map := (kv_map s)(k := None), kv_lru := q\<rparr>) = view s"
    using v load_save [OF w(2,1)] by (auto simp: view_def fun_eq_iff split: option.splits)
  then show ?thesis using e kv_inv_drop_last [OF assms(1) q save_ok [OF w(2,1), of k]] by auto
qed

lemma set_locked:
  assumes "kv_inv ok mx s" "0 < mx" "wf_value v"
  shows "\<exists>s'. setLocked now save mx k v s = Some s' \<and> kv_inv ok mx s'
    \<and> view s' = (view s)(k := if kv_deleted v then None else Some (toProto v))"
proof (cases "kv_map s k")
  case (Some p)
  then obtain w i where p: "kv_map s k = Some (w, i)" by (cases p) simp
  have "kv_inv ok mx (s\<lparr>kv_map := (kv_map s)(k \<mapsto> (v, i)), kv_lru := lru_front i (kv_lru s)\<rparr>)"
    using kv_inv_touch [OF kv_inv_set_value [OF assms(1) p assms(3)], of "lru_front i (kv_lru s)" i] by simp
  then show ?thesis using p by (auto simp: setLocked_def view_def fun_eq_iff split: option.split)
next
  case None
  have push: "\<exists>s'. Some (s1\<lparr>kv_lru := (kv_next s1, k) # kv_lru s1, kv_map := (kv_map s1)(k \<mapsto> (v, kv_next s1)), kv_next := kv_next s1 + 1\<rparr>) = Some s'
      \<and> kv_inv ok mx s' \<and> view s' = (view s)(k := if kv_deleted v then None else Some (toProto v))"
    if "kv_inv ok mx s1" "kv_map s1 k = None" "card (dom (kv_map s1)) < mx" "view s1 = view s" for s1
    using kv_inv_push [OF that(1-3) assms(3)] that(4) by (simp add: view_put)
  show ?thesis
  proof (cases "card (dom (kv_map s)) \<ge> mx")
    case True
    then have "kv_map s \<noteq> Map.empty" using assms(2) by auto
    then show ?thesis using evict [OF assms(1), of now] push None True kv_invD(3) [OF assms(1)]
      by (fastforce simp: setLocked_def)
  next
    case False
    then show ?thesis using push [OF assms(1) None] None by (simp add: setLocked_def)
  qed
qed

lemma get_cached:
  assumes "kv_inv ok mx s" "0 < mx"
  shows "\<exists>r s'. kv_get now load save mx k False s = Some (r, s') \<and> kv_inv ok mx s' \<and> view s' = view s
    \<and> map_option toProto r = view s k"
proof (cases "kv_map s k")
  case None
  then show ?thesis
  proof (cases "load (kv_db s) k")
    case (Some v)
    note w = load_wf [OF kv_invD(1) [OF assms(1)] Some]
    obtain s' where "setLocked now save mx k v s = Some s'" "kv_inv ok mx s'" "view s' = (view s)(k \<mapsto> toProto v)"
      using set_locked [OF assms, of v now k] w by auto
    then show ?thesis using None Some by (auto simp: kv_get_def view_def fun_eq_iff split: option.split)
  qed (use assms None in \<open>auto simp: kv_get_def view_def\<close>)
next
  case (Some p)
  then show ?thesis using kv_inv_touch [OF assms(1)]
    by (cases p) (auto simp: kv_get_def view_def fun_eq_iff split: option.split)
qed

end

subsection \<open>The SQL backend\<close>

record kv_table =
  kt_up :: bool
  kt_rows :: "string \<rightharpoonup> nat \<times> kv_proto"

definition kvsql_load :: "nat \<Rightarrow> kv_table \<Rightarrow> string \<Rightarrow> kv_value option" where
  "kvsql_load now t key = (if \<not> kt_up t then None
     else case kt_rows t key of None \<Rightarrow> None | Some (timestamp, p) \<Rightarrow> Some (fromProto now timestamp p))"

text \<open>\<open>prepareSave\<close> deletes the row of a marker at once, and otherwise adds a row to the pending insert.\<close>

definition prepareSave :: "string \<Rightarrow> kv_value \<Rightarrow> kv_table \<Rightarrow> (string \<times> nat \<times> kv_proto) list
    \<Rightarrow> bool \<times> kv_table \<times> (string \<times> nat \<times> kv_proto) list" where
  "prepareSave key v t update =
     (if kv_deleted v then (kt_up t, if kt_up t then t\<lparr>kt_rows := (kt_rows t)(key := None)\<rparr> else t, update)
      else (True, t, update @ [(key, kv_timestamp v, toProto v)]))"

definition execute_update :: "kv_table \<Rightarrow> (string \<times> nat \<times> kv_proto) list \<Rightarrow> bool \<times> kv_table" where
  "execute_update t update = (if update = [] then (True, t) else if \<not> kt_up t then (False, t)
     else (True, t\<lparr>kt_rows := foldl (\<lambda>m (k, r). m(k \<mapsto> r)) (kt_rows t) update\<rparr>))"

definition kvsql_save :: "kv_table \<Rightarrow> string \<Rightarrow> kv_value \<Rightarrow> bool \<times> kv_table" where
  "kvsql_save t key v = (case prepareSave key v t [] of (_, t, update) \<Rightarrow> execute_update t update)"

text \<open>\<open>saveAll\<close> walks over the cached entries in one transaction: a failure rolls everything back.\<close>

fun prepareAll :: "(string \<times> kv_value) list \<Rightarrow> kv_table \<Rightarrow> (string \<times> nat \<times> kv_proto) list
    \<Rightarrow> bool \<times> kv_table \<times> (string \<times> nat \<times> kv_proto) list" where
  "prepareAll [] t update = (True, t, update)"
| "prepareAll ((k, v) # kvs) t update = (case prepareSave k v t update of
     (False, t, update) \<Rightarrow> (False, t, update) | (True, t, update) \<Rightarrow> prepareAll kvs t update)"

definition kvsql_saveAll :: "kv_table \<Rightarrow> (string \<times> kv_value) list \<Rightarrow> bool \<times> kv_table" where
  "kvsql_saveAll t kvs = (case prepareAll kvs t [] of
      (False, _, _) \<Rightarrow> (False, t)
    | (True, t', update) \<Rightarrow> (case execute_update t' update of (ok, t'') \<Rightarrow> if ok then (True, t'') else (False, t)))"

lemma assoc_put_keys: "set (map fst (assoc_put k v m)) = insert k (set (map fst m))"
proof (induction m)
  case (Cons a m)
  then show ?case by (cases a) (simp add: insert_commute)
qed simp

lemma assoc_put_set: "p \<in> set (assoc_put k v m) \<Longrightarrow> p = (k, v) \<or> p \<in> set m"
  by (induction m) (auto split: if_splits)

lemma assoc_put_distinct: "distinct (map fst m) \<Longrightarrow> distinct (map fst (assoc_put k v m))"
proof (induction m)
  case (Cons a m)
  then show ?case using assoc_put_keys [of k v m] by (cases a) auto
qed simp

lemma assoc_put_wf:
  "distinct (map fst m) \<and> (\<forall>(k, v) \<in> set m. wf_value v) \<Longrightarrow> wf_value v \<Longrightarrow>
    distinct (map fst (assoc_put k v m)) \<and> (\<forall>(k, v) \<in> set (assoc_put k v m). wf_value v)"
  using assoc_put_distinct [of m k v] assoc_put_set [of _ k v m] by fast

lemma foldl_assoc_put_wf:
  "distinct (map fst m) \<and> (\<forall>(k, v) \<in> set m. wf_value v) \<Longrightarrow> (\<forall>(k, v) \<in> set kvs. wf_value v) \<Longrightarrow>
    distinct (map fst (foldl (\<lambda>m (k, v). assoc_put k v m) m kvs))
    \<and> (\<forall>(k, v) \<in> set (foldl (\<lambda>m (k, v). assoc_put k v m) m kvs). wf_value v)"
proof (induction kvs arbitrary: m)
  case (Cons a kvs)
  then show ?case using assoc_put_wf [of m "snd a" "fst a"] by (cases a) simp
qed simp

lemma fromProto_wf: "wf_value (fromProto now t p) \<and> \<not> kv_deleted (fromProto now t p)"
proof (induction now t p rule: fromProto.induct)
  case (7 now t items)
  then show ?case
    using foldl_assoc_put_wf [of "[]" "map (\<lambda>(k, p). (k, fromProto now t p)) items"]
    by (fastforce simp: ValueWrapper_def)
qed (simp_all add: ValueWrapper_def)

lemma kvsql_save_eq:
  "kt_up t \<Longrightarrow> kvsql_save t k v = (True, t\<lparr>kt_rows := (kt_rows t)
     (k := if kv_deleted v then None else Some (kv_timestamp v, toProto v))\<rparr>)"
  by (simp add: kvsql_save_def prepareSave_def execute_update_def)

interpretation kvsql: kv_backend "kvsql_load clock" kvsql_save kt_up for clock
  by unfold_locales
    (auto simp: kvsql_save_eq kvsql_load_def proto_roundtrip fromProto_wf split: option.splits)

subsection \<open>The cache is a map\<close>

datatype kv_request = KSet string kv_value | KRemove string | KGet string

fun kv_serve :: "nat \<Rightarrow> nat \<Rightarrow> kv_request \<Rightarrow> kv_table kv_store \<Rightarrow> (kv_value option \<times> kv_table kv_store) option" where
  "kv_serve now mx (KSet k v) s = map_option (\<lambda>s. (None, s)) (setLocked now kvsql_save mx k v s)"
| "kv_serve now mx (KRemove k) s = map_option (\<lambda>s. (None, s)) (kv_remove now kvsql_save mx k s)"
| "kv_serve now mx (KGet k) s = kv_get now (kvsql_load now) kvsql_save mx k False s"

fun kv_run :: "nat \<Rightarrow> nat \<Rightarrow> kv_request list \<Rightarrow> kv_table kv_store \<Rightarrow> (kv_value option list \<times> kv_table kv_store) option" where
  "kv_run now mx [] s = Some ([], s)"
| "kv_run now mx (r # rs) s = (case kv_serve now mx r s of None \<Rightarrow> None | Some (a, s) \<Rightarrow>
     map_option (\<lambda>(as, s). (a # as, s)) (kv_run now mx rs s))"

fun map_serve :: "kv_request \<Rightarrow> (string \<Rightarrow> kv_proto option) \<Rightarrow> kv_proto option \<times> (string \<Rightarrow> kv_proto option)" where
  "map_serve (KSet k v) m = (None, m(k := if kv_deleted v then None else Some (toProto v)))"
| "map_serve (KRemove k) m = (None, m(k := None))"
| "map_serve (KGet k) m = (m k, m)"

fun map_run :: "kv_request list \<Rightarrow> (string \<Rightarrow> kv_proto option) \<Rightarrow> kv_proto option list \<times> (string \<Rightarrow> kv_proto option)" where
  "map_run [] m = ([], m)"
| "map_run (r # rs) m = (case map_serve r m of (a, m) \<Rightarrow> case map_run rs m of (as, m) \<Rightarrow> (a # as, m))"

fun request_wf :: "kv_request \<Rightarrow> bool" where
  "request_wf (KSet k v) \<longleftrightarrow> wf_value v"
| "request_wf _ \<longleftrightarrow> True"

lemma kv_serve_refines:
  assumes "kv_inv kt_up mx s" "0 < mx" "request_wf r"
  shows "\<exists>a s'. kv_serve now mx r s = Some (a, s') \<and> kv_inv kt_up mx s'
    \<and> map_serve r (kvsql.view now s) = (map_option toProto a, kvsql.view now s')"
proof (cases r)
  case (KSet k v)
  then show ?thesis using kvsql.set_locked [OF assms(1,2), where v = v and k = k and now = now and clock = now] assms(3) by auto
next
  case (KRemove k)
  then show ?thesis using kvsql.set_locked [OF assms(1,2), where v = "kv_remove_marker now" and k = k and now = now and clock = now]
    by (auto simp: kv_remove_def kv_remove_marker_def)
next
  case (KGet k)
  then show ?thesis using kvsql.get_cached [OF assms(1,2), where k = k and now = now and clock = now] by auto
qed

text \<open>
  C11: As long as the database is up, the cache with its limited size, its eviction and its
  deletion markers is indistinguishable from a plain map: every sequence of writes, removals and
  reads has a result, the reads return what the map would, and the bound on the size holds
  throughout.
\<close>

theorem kv_store_is_map:
  assumes "kv_inv kt_up mx s" "0 < mx" "\<forall>r \<in> set rs. request_wf r"
  shows "\<exists>as s'. kv_run now mx rs s = Some (as, s') \<and> kv_inv kt_up mx s'
    \<and> map_run rs (kvsql.view now s) = (map (map_option toProto) as, kvsql.view now s')"
  using assms(1,3)
proof (induction rs arbitrary: s)
  case (Cons r rs)
  obtain a s1 where 1: "kv_serve now mx r s = Some (a, s1)" "kv_inv kt_up mx s1"
    "map_serve r (kvsql.view now s) = (map_option toProto a, kvsql.view now s1)"
    using kv_serve_refines [OF Cons.prems(1) assms(2), of r now] Cons.prems(2) by auto
  obtain as s2 where "kv_run now mx rs s1 = Some (as, s2)" "kv_inv kt_up mx s2"
    "map_run rs (kvsql.view now s1) = (map (map_option toProto) as, kvsql.view now s2)"
    using Cons.IH [OF 1(2)] Cons.prems(2) by auto
  then show ?case using 1 by auto
qed simp

definition empty_kv :: "kv_table \<Rightarrow> kv_table kv_store" where
  "empty_kv t = \<lparr>kv_map = Map.empty, kv_lru = [], kv_next = 0, kv_db = t\<rparr>"

lemma empty_kv_inv: "kt_up t \<Longrightarrow> kv_inv kt_up mx (empty_kv t)"
  by (rule kv_invI) (simp_all add: empty_kv_def)

definition example_requests :: "kv_request list" where
  "example_requests = [KSet ''a'' (KV (VInt 1) 5 False), KSet ''b'' (KV (VArray [KV (VBool True) 5 False]) 5 False),
     KSet ''c'' (KV (VInt 3) 6 False), KRemove ''b'', KGet ''a'', KGet ''b'', KGet ''old'']"

definition example_table :: kv_table where
  "example_table = \<lparr>kt_up = True, kt_rows = [''old'' \<mapsto> (3, PString ''x'')]\<rparr>"

theorem kv_store_is_map_witness:
  "\<exists>as s'. kv_run 9 2 example_requests (empty_kv example_table) = Some (as, s')
    \<and> map (map_option toProto) as = [None, None, None, None, Some (PInt 1), None, Some (PString ''x'')]"
proof -
  have "\<forall>r \<in> set example_requests. request_wf r" by (simp add: example_requests_def)
  then obtain as s' where "kv_run 9 2 example_requests (empty_kv example_table) = Some (as, s')"
    "map_run example_requests (kvsql.view 9 (empty_kv example_table)) = (map (map_option toProto) as, kvsql.view 9 s')"
    using kv_store_is_map [OF empty_kv_inv, of example_table 2 example_requests 9] by (auto simp: example_table_def)
  then show ?thesis
    by (auto simp: example_requests_def kvsql.view_def empty_kv_def example_table_def kvsql_load_def ValueWrapper_def)
qed

subsection \<open>Flushing\<close>

definition flush :: "kv_table kv_store \<Rightarrow> kv_table kv_store" where
  "flush s = kv_flush (\<lambda>db m. snd (kvsql_saveAll db (map (\<lambda>(i, k). (k, fst (the (kv_map s k)))) (kv_lru s)))) s"

text \<open>
  \<open>flush\<close> empties the map but not the queue of keys.  When the cache later fills up, the
  eviction takes a stale key from that queue and saves a fresh default value under it: the value
  that was in the database is overwritten, although nobody wrote that key.
\<close>

theorem flush_loses_data:
  "case kv_run 9 2 [KSet ''a'' (KV (VInt 1) 5 False)] (empty_kv example_table) of None \<Rightarrow> False | Some (_, s) \<Rightarrow>
     kvsql.view 9 (flush s) ''a'' = Some (PInt 1) \<and>
     (case kv_run 9 2 [KSet ''b'' (KV (VInt 2) 5 False), KSet ''c'' (KV (VInt 3) 5 False), KSet ''d'' (KV (VInt 4) 5 False)] (flush s) of
        None \<Rightarrow> False | Some (_, s) \<Rightarrow> kvsql.view 9 s ''a'' = Some (PString ''''))"
  by (simp add: setLocked_def kv_evict_def empty_kv_def example_table_def flush_def kv_flush_def kvsql_saveAll_def
      prepareSave_def execute_update_def kvsql.view_def kvsql_load_def ValueWrapper_def kvsql_save_def Let_def)

subsection \<open>Listing keys\<close>

text \<open>\<open>replaceString\<close> of \<open>utils/tools.cpp\<close>: the loop need not end, so its result is an option.\<close>

definition str_find :: "string \<Rightarrow> string \<Rightarrow> nat \<Rightarrow> nat option" where
  "str_find str sought start = find (\<lambda>i. start \<le> i \<and> prefix sought (drop i str)) [0 ..< Suc (length str)]"

partial_function (option) replace_loop :: "string \<Rightarrow> string \<Rightarrow> string \<Rightarrow> nat \<Rightarrow> string option" where
  "replace_loop str sought replacement start = (case str_find str sought start of None \<Rightarrow> Some str
   | Some p \<Rightarrow> replace_loop (take p str @ replacement @ drop (p + length sought) str) sought replacement
       (p + length replacement))"

definition replaceString :: "string \<Rightarrow> string \<Rightarrow> string \<Rightarrow> string option" where
  "replaceString str sought replacement = (if str = [] then Some [] else replace_loop str sought replacement 0)"

text \<open>\<open>KVSQL::loadPrefix\<close> on the rows the query returned.\<close>

fun loadPrefix :: "string \<Rightarrow> string list \<Rightarrow> string list option" where
  "loadPrefix prefx [] = Some []"
| "loadPrefix prefx (key # rows) = (case replaceString key prefx '''' of None \<Rightarrow> None
     | Some k \<Rightarrow> map_option ((#) k) (loadPrefix prefx rows))"

lemma find_append_None: "(\<forall>x \<in> set xs. \<not> P x) \<Longrightarrow> find P (xs @ ys) = find P ys"
  by (induction xs) auto

lemma str_find_empty: "start \<le> length str \<Longrightarrow> str_find str [] start = Some start"
proof -
  assume s: "start \<le> length str"
  have "[0 ..< Suc (length str)] = [0 ..< start] @ [start ..< Suc (length str)]"
    using s by (metis le_SucI upt_add_eq_append le_add_diff_inverse zero_le)
  also have "[start ..< Suc (length str)] = start # [Suc start ..< Suc (length str)]"
    using s by (intro upt_conv_Cons) simp
  finally show ?thesis by (simp add: str_find_def find_append_None del: upt_Suc)
qed

lemma replace_loop_empty: "replace_loop str [] [] start = Some y \<Longrightarrow> \<not> start \<le> length str"
proof -
  have "sought = [] \<longrightarrow> rep = [] \<longrightarrow> \<not> start \<le> length str" if "replace_loop str sought rep start = Some y" for sought rep
    using that
  proof (rule replace_loop.raw_induct [of "\<lambda>str sought rep start y. sought = [] \<longrightarrow> rep = [] \<longrightarrow> \<not> start \<le> length str", rotated])
    fix f :: "string \<Rightarrow> string \<Rightarrow> string \<Rightarrow> nat \<Rightarrow> string option" and str sought rep :: string and start y
    assume ih: "\<And>str sought rep start y. f str sought rep start = Some y \<Longrightarrow> sought = [] \<longrightarrow> rep = [] \<longrightarrow> \<not> start \<le> length str"
      and b: "(case str_find str sought start of None \<Rightarrow> Some str
         | Some p \<Rightarrow> f (take p str @ rep @ drop (p + length sought) str) sought rep (p + length rep)) = Some y"
    show "sought = [] \<longrightarrow> rep = [] \<longrightarrow> \<not> start \<le> length str"
    proof (intro impI notI)
      assume e: "sought = []" "rep = []" "start \<le> length str"
      then have "f str [] [] start = Some y" using b by (simp add: str_find_empty)
      then show False using ih e(3) by blast
    qed
  qed
  then show "replace_loop str [] [] start = Some y \<Longrightarrow> \<not> start \<le> length str" by blast
qed

text \<open>
  Listing the keys under the empty prefix, the default of \<open>keys\<close>, never returns once the
  table holds a row with a non-empty key: the loop that strips the prefix replaces the empty
  string by itself forever.
\<close>

theorem loadPrefix_empty_diverges:
  assumes "\<exists>key \<in> set rows. key \<noteq> []"
  shows "loadPrefix [] rows = None"
  using assms
proof (induction rows)
  case (Cons key rows)
  have "replace_loop key [] [] 0 = None"
    using replace_loop_empty [of key 0] by (cases "replace_loop key [] [] 0") auto
  then show ?case using Cons by (cases "key = []") (auto simp: replaceString_def)
qed simp

theorem loadPrefix_empty_diverges_witness: "loadPrefix [] [[], ''raids.last''] = None"
  using loadPrefix_empty_diverges [of "[[], ''raids.last'']"] by simp

text \<open>With a proper prefix the loop strips every occurrence, not only the one in front.\<close>

lemma loadPrefix_strips_all: "loadPrefix ''a.'' [''a.b.a.c''] = Some [''b.c'']"
  by (simp add: replaceString_def replace_loop.simps str_find_def upt_rec)

end
