(* ===== verification/WildcardTree.thy ===== *)
theory WildcardTree
  imports Main "HOL-Library.AList" "HOL-Library.Sublist"
begin

text \<open>
  Completion of player names: \<open>utils/wildcardtree.cpp\<close>.  A node has a breakpoint flag and a map
  from characters to children, here an association list with distinct keys.  \<open>has_word\<close> abstracts
  a tree to the set of names it stores; insertion, removal and completion are proved against
  that set.
\<close>

datatype wtree = Node (breakpoint: bool) (children: "(char \<times> wtree) list")

datatype find_result = NoError string | PlayerNotOnline | NameTooAmbiguous

definition getChild :: "char \<Rightarrow> wtree \<Rightarrow> wtree option" where
  "getChild ch t = map_of (children t) ch"

definition set_child :: "char \<Rightarrow> wtree \<Rightarrow> wtree \<Rightarrow> wtree" where
  "set_child ch u t = Node (breakpoint t) (AList.update ch u (children t))"

definition addChild :: "char \<Rightarrow> bool \<Rightarrow> wtree \<Rightarrow> wtree" where
  "addChild ch breakp t = (case getChild ch t of
     Some child \<Rightarrow> if breakp \<and> \<not> breakpoint child then set_child ch (Node True (children child)) t else t
   | None \<Rightarrow> set_child ch (Node breakp []) t)"

text \<open>\<open>wt_walk\<close> is the loop of \<open>insert\<close>; on an empty name \<open>str.length() - 1\<close> underflows and the loop runs out of the string.\<close>

fun wt_walk :: "string \<Rightarrow> wtree \<Rightarrow> wtree" where
  "wt_walk [] t = t"
| "wt_walk [c] t = addChild c True t"
| "wt_walk (c # d # s) t = (let t = addChild c False t in case getChild c t of None \<Rightarrow> t
     | Some cur \<Rightarrow> set_child c (wt_walk (d # s) cur) t)"

definition wt_insert :: "string \<Rightarrow> wtree \<Rightarrow> wtree option" where
  "wt_insert str t = (if str = [] then None else Some (wt_walk str t))"

text \<open>
  \<open>remove\<close> walks down, clears the flag and walks back up along the stack of visited nodes, erasing
  a node from its parent while it has neither children nor flag.  \<open>None\<close>: the path does not exist.
\<close>

fun wt_prune :: "string \<Rightarrow> wtree \<Rightarrow> wtree option" where
  "wt_prune [] t = Some (Node False (children t))"
| "wt_prune (c # s) t = (case getChild c t of None \<Rightarrow> None | Some cur \<Rightarrow>
     (case wt_prune s cur of None \<Rightarrow> None
      | Some cur \<Rightarrow> Some (if children cur \<noteq> [] \<or> breakpoint cur then set_child c cur t
                      else Node (breakpoint t) (AList.delete c (children t)))))"

definition wt_remove :: "string \<Rightarrow> wtree \<Rightarrow> wtree" where
  "wt_remove str t = (case wt_prune str t of None \<Rightarrow> t | Some t \<Rightarrow> t)"

fun wt_descend :: "string \<Rightarrow> wtree \<Rightarrow> wtree option" where
  "wt_descend [] t = Some t"
| "wt_descend (c # s) t = (case getChild c t of None \<Rightarrow> None | Some cur \<Rightarrow> wt_descend s cur)"

fun wt_extend :: "string \<Rightarrow> wtree \<Rightarrow> find_result" where
  "wt_extend result (Node b []) = NoError result"
| "wt_extend result (Node b [(c, u)]) = (if b then NameTooAmbiguous else wt_extend (result @ [c]) u)"
| "wt_extend result (Node b (_ # _ # _)) = NameTooAmbiguous"

definition findOne :: "string \<Rightarrow> wtree \<Rightarrow> find_result" where
  "findOne query t = (case wt_descend query t of None \<Rightarrow> PlayerNotOnline | Some cur \<Rightarrow> wt_extend query cur)"

subsection \<open>The set of names\<close>

fun has_word :: "string \<Rightarrow> wtree \<Rightarrow> bool" where
  "has_word [] t = breakpoint t"
| "has_word (c # s) t = (case getChild c t of None \<Rightarrow> False | Some u \<Rightarrow> has_word s u)"

text \<open>Every node below the root leads to a name.\<close>

fun wt_ok :: "wtree \<Rightarrow> bool" where
  "wt_ok (Node b cs) \<longleftrightarrow> distinct (map fst cs) \<and>
     (\<forall>(c, u) \<in> set cs. wt_ok u \<and> (breakpoint u \<or> children u \<noteq> []))"

lemma getChild_set_child [simp]: "getChild c (set_child d u t) = (if c = d then Some u else getChild c t)"
  by (simp add: getChild_def set_child_def update_conv')

lemma breakpoint_set_child [simp]: "breakpoint (set_child d u t) = breakpoint t"
  by (simp add: set_child_def)

lemma getChild_delete: "getChild c (Node b (AList.delete d cs)) = (if c = d then None else map_of cs c)"
  by (simp add: getChild_def delete_conv')

lemma getChild_delete_children:
  "getChild d (Node b (AList.delete c (children t))) = (if d = c then None else getChild d t)"
  by (simp add: getChild_def delete_conv')

lemma has_word_children: "has_word (c # s) (Node b cs) = has_word (c # s) (Node b' cs)"
  by (simp add: getChild_def)

lemma breakpoint_addChild [simp]: "breakpoint (addChild c b t) = breakpoint t"
  by (simp add: addChild_def split: option.split)

lemma getChild_addChild:
  "getChild c (addChild d b t) = (if c = d then
     Some (case getChild d t of None \<Rightarrow> Node b [] | Some u \<Rightarrow> Node (breakpoint u \<or> b) (children u)) else getChild c t)"
  by (auto simp: addChild_def split: option.split) (metis wtree.collapse)+

lemma has_word_walk:
  "str \<noteq> [] \<Longrightarrow> has_word w (wt_walk str t) \<longleftrightarrow> w = str \<or> has_word w t"
proof (induction str t arbitrary: w rule: wt_walk.induct)
  case (2 c t)
  then show ?case
  proof (cases w)
    case (Cons d s)
    then show ?thesis
      by (cases s) (auto simp: getChild_addChild split: option.splits, auto simp: getChild_def)
  qed simp
next
  case (3 c d s t)
  show ?case
  proof (cases w)
    case (Cons e v)
    then show ?thesis
      using "3.IH" [OF refl, of _ v]
      by (cases v) (auto simp: getChild_addChild Let_def split: option.splits, auto simp: getChild_def)
  qed (simp add: Let_def split: option.split)
qed simp

lemma wt_ok_child: "wt_ok t \<Longrightarrow> getChild c t = Some u \<Longrightarrow> wt_ok u \<and> (breakpoint u \<or> children u \<noteq> [])"
  by (cases t) (auto simp: getChild_def dest: map_of_SomeD)

lemma wt_ok_set_child:
  assumes "wt_ok t" "wt_ok u" "breakpoint u \<or> children u \<noteq> []"
  shows "wt_ok (set_child c u t)"
proof -
  have dis: "distinct (map fst (AList.update c u (children t)))" using assms(1) by (cases t) (simp add: distinct_update)
  have "wt_ok v \<and> (breakpoint v \<or> children v \<noteq> [])" if "(d, v) \<in> set (AList.update c u (children t))" for d v
  proof -
    have "map_of (AList.update c u (children t)) d = Some v" using that dis by simp
    then show ?thesis using assms wt_ok_child [OF assms(1), of d v]
      by (auto simp: update_conv' getChild_def split: if_splits)
  qed
  with dis show ?thesis by (auto simp: set_child_def)
qed

lemma wt_ok_delete: "wt_ok t \<Longrightarrow> wt_ok (Node b (AList.delete c (children t)))"
  by (cases t) (auto simp: AList.delete_eq distinct_map_filter)

lemma wt_ok_flag: "wt_ok (Node b (children u)) = wt_ok u"
  by (cases u) simp

lemma wt_ok_addChild: "wt_ok t \<Longrightarrow> wt_ok (addChild c True t)"
  using wt_ok_child [of t c] wt_ok_flag
  by (auto simp: addChild_def split: option.split intro!: wt_ok_set_child)

lemma walk_nonempty: "s \<noteq> [] \<Longrightarrow> children (wt_walk s t) \<noteq> []"
proof (induction s t rule: wt_walk.induct)
  case (2 c t)
  have "getChild c (wt_walk [c] t) \<noteq> None" by (simp add: getChild_addChild)
  then show ?case by (auto simp: getChild_def)
next
  case (3 c d s t)
  have "getChild c (wt_walk (c # d # s) t) \<noteq> None"
    by (simp add: getChild_addChild Let_def split: option.split)
  then show ?case by (auto simp: getChild_def)
qed simp

lemma set_child_twice: "set_child c u (set_child c v t) = set_child c u t"
proof -
  have "AList.update c u (AList.update c v cs) = AList.update c u cs" for cs :: "(char \<times> wtree) list"
    by (induction cs) auto
  then show ?thesis by (simp add: set_child_def)
qed

lemma wt_ok_walk: "wt_ok t \<Longrightarrow> wt_ok (wt_walk s t)"
proof (induction s t rule: wt_walk.induct)
  case (2 c t)
  then show ?case by (simp add: wt_ok_addChild)
next
  case (3 c d s t)
  let ?u = "case getChild c t of None \<Rightarrow> Node False [] | Some u \<Rightarrow> u"
  have u: "wt_ok ?u" using wt_ok_child [OF "3.prems"] by (auto split: option.split)
  have g: "getChild c (addChild c False t) = Some ?u"
    by (simp add: getChild_addChild split: option.split)
  have w: "wt_ok (wt_walk (d # s) ?u)" using "3.IH" [OF refl g] u by simp
  have e: "wt_walk (c # d # s) t = set_child c (wt_walk (d # s) ?u) (addChild c False t)"
    using g by (simp add: Let_def)
  have "wt_walk (c # d # s) t = set_child c (wt_walk (d # s) ?u) t"
    unfolding e by (auto simp: addChild_def set_child_twice split: option.split)
  then show ?case using wt_ok_set_child [OF "3.prems" w, of c] walk_nonempty [of "d # s" ?u] by simp
qed simp

lemma has_word_prune:
  "wt_ok t \<Longrightarrow> wt_prune s t = Some t' \<Longrightarrow> has_word w t' \<longleftrightarrow> w \<noteq> s \<and> has_word w t"
proof (induction s t arbitrary: w t' rule: wt_prune.induct)
  case (1 t)
  then show ?case by (cases w; cases t) (auto simp: getChild_def)
next
  case (2 c s t)
  obtain u v where u: "getChild c t = Some u" and v: "wt_prune s u = Some v"
    using "2.prems"(2) by (auto split: option.splits)
  note ih = "2.IH" [OF u _ v]
  have ih': "has_word x v \<longleftrightarrow> x \<noteq> s \<and> has_word x u" for x
    using ih wt_ok_child [OF "2.prems"(1) u] by blast
  show ?case
  proof (cases w)
    case Nil
    then show ?thesis using "2.prems"(2) u v by (auto split: if_splits)
  next
    case (Cons d x)
    have none: "\<not> has_word y v" if "children v = []" "\<not> breakpoint v" for y
      using that by (cases y) (auto simp: getChild_def)
    show ?thesis
    proof (cases "d = c")
      case True
      show ?thesis
      proof (cases "children v \<noteq> [] \<or> breakpoint v")
        case keep: True
        then have "t' = set_child c v t" using "2.prems"(2) u v by simp
        then show ?thesis using True Cons u ih' [of x] by simp
      next
        case drop: False
        then have "t' = Node (breakpoint t) (AList.delete c (children t))" using "2.prems"(2) u v by simp
        then show ?thesis using True Cons u ih' [of x] none [of x] drop by (simp add: getChild_delete_children)
      qed
    next
      case False
      then show ?thesis using "2.prems"(2) u v Cons
        by (auto simp: getChild_delete_children split: if_splits)
    qed
  qed
qed

lemma wt_ok_prune: "wt_ok t \<Longrightarrow> wt_prune s t = Some t' \<Longrightarrow> wt_ok t'"
proof (induction s t arbitrary: t' rule: wt_prune.induct)
  case (1 t)
  then show ?case by (cases t) auto
next
  case (2 c s t)
  obtain u v where u: "getChild c t = Some u" and v: "wt_prune s u = Some v"
    using "2.prems"(2) by (auto split: option.splits)
  have "wt_ok v" using "2.IH" [OF u _ v] wt_ok_child [OF "2.prems"(1) u] by blast
  then show ?case
    using "2.prems" u v wt_ok_set_child [OF "2.prems"(1), of v c] wt_ok_delete [OF "2.prems"(1), of _ c]
    by (auto split: if_splits)
qed

lemma prune_None: "wt_prune s t = None \<Longrightarrow> \<not> has_word s t"
  by (induction s t rule: wt_prune.induct) (auto split: option.splits)

subsection \<open>Completion\<close>

lemma has_some_word: "wt_ok t \<Longrightarrow> breakpoint t \<or> children t \<noteq> [] \<Longrightarrow> \<exists>w. has_word w t"
proof (induction t)
  case (Node b cs)
  show ?case
  proof (cases cs)
    case Nil
    then show ?thesis using Node.prems by (intro exI [of _ "[]"]) simp
  next
    case (Cons p cs')
    then obtain c u where p: "cs = (c, u) # cs'" by (cases p) auto
    then obtain w where "has_word w u" using Node.IH [of "(c, u)" u] Node.prems by auto
    then show ?thesis using p by (intro exI [of _ "c # w"]) (simp add: getChild_def)
  qed
qed

lemma has_word_descend: "has_word (q @ w) t \<longleftrightarrow> (\<exists>u. wt_descend q t = Some u \<and> has_word w u)"
  by (induction q t rule: wt_descend.induct) (auto split: option.split)

lemma wt_ok_descend: "wt_ok t \<Longrightarrow> wt_descend q t = Some u \<Longrightarrow> wt_ok u \<and> (q \<noteq> [] \<longrightarrow> breakpoint u \<or> children u \<noteq> [])"
proof (induction q t rule: wt_descend.induct)
  case (2 c s t)
  then obtain v where v: "getChild c t = Some v" "wt_descend s v = Some u" by (auto split: option.splits)
  then show ?case using 2 wt_ok_child [OF "2.prems"(1) v(1)] by (cases s) auto
qed simp

lemma extend_spec:
  assumes "wt_ok t" "breakpoint t \<or> children t \<noteq> []"
  shows "case wt_extend r t of NoError n \<Rightarrow> (\<exists>w. n = r @ w \<and> (\<forall>v. has_word v t \<longleftrightarrow> v = w))
    | NameTooAmbiguous \<Rightarrow> (\<exists>v w. v \<noteq> w \<and> has_word v t \<and> has_word w t) | PlayerNotOnline \<Rightarrow> False"
  using assms
proof (induction r t rule: wt_extend.induct)
  case (1 r b)
  have "has_word v (Node b []) \<longleftrightarrow> v = []" for v using 1 by (cases v) (simp_all add: getChild_def)
  then show ?case by simp
next
  case (2 r b c u)
  have u: "wt_ok u" "breakpoint u \<or> children u \<noteq> []" using 2 by auto
  have hw: "has_word (d # s) (Node b [(c, u)]) \<longleftrightarrow> d = c \<and> has_word s u" for d s
    by (simp add: getChild_def)
  show ?case
  proof (cases b)
    case True
    obtain w where "has_word w u" using has_some_word [OF u] by blast
    then have "has_word (c # w) (Node b [(c, u)])" by (simp only: hw simp_thms)
    moreover have "has_word [] (Node b [(c, u)])" using True by simp
    moreover have "[] \<noteq> c # w" by simp
    ultimately show ?thesis using True by (simp only: wt_extend.simps if_True find_result.case) blast
  next
    case False
    have n: "\<not> has_word [] (Node b [(c, u)])" using False by simp
    show ?thesis
    proof (cases "wt_extend (r @ [c]) u")
      case (NoError m)
      then obtain w where w: "m = (r @ [c]) @ w" "\<forall>v. has_word v u \<longleftrightarrow> v = w" using 2 u False by auto
      have "has_word v (Node b [(c, u)]) \<longleftrightarrow> v = c # w" for v
        using n w(2) by (cases v) (auto simp only: hw)
      then show ?thesis using NoError w False by auto
    next
      case NameTooAmbiguous
      then obtain v w where "v \<noteq> w" "has_word v u" "has_word w u" using 2 u False by auto
      then have "c # v \<noteq> c # w \<and> has_word (c # v) (Node b [(c, u)]) \<and> has_word (c # w) (Node b [(c, u)])"
        by (simp only: hw) simp
      then show ?thesis using NameTooAmbiguous False by (simp only: wt_extend.simps if_False find_result.case) blast
    next
      case PlayerNotOnline
      then show ?thesis using 2 u False by auto
    qed
  qed
next
  case (3 r b p q cs)
  obtain c u d v where pq: "p = (c, u)" "q = (d, v)" by fastforce
  have ok: "c \<noteq> d" "wt_ok u" "wt_ok v" "breakpoint u \<or> children u \<noteq> []" "breakpoint v \<or> children v \<noteq> []"
    using 3 pq by auto
  obtain x y where "has_word x u" "has_word y v" using has_some_word ok by metis
  then have "c # x \<noteq> d # y \<and> has_word (c # x) (Node b (p # q # cs)) \<and> has_word (d # y) (Node b (p # q # cs))"
    using ok(1) pq by (simp add: getChild_def)
  then show ?case by (simp only: wt_extend.simps find_result.case) blast
qed

text \<open>
  Completing a query answers exactly according to the stored names: a full name when it is
  the only one that starts with the query, "too ambiguous" when there are several, "not online"
  when there is none.
\<close>

theorem findOne_correct:
  assumes "wt_ok t" "q \<noteq> []"
  shows "(findOne q t = NoError n \<longleftrightarrow> {w. has_word w t \<and> prefix q w} = {n})
    \<and> (findOne q t = PlayerNotOnline \<longleftrightarrow> {w. has_word w t \<and> prefix q w} = {})"
proof -
  define S where "S = {w. has_word w t \<and> prefix q w}"
  have "(case findOne q t of NoError m \<Rightarrow> S = {m} | NameTooAmbiguous \<Rightarrow> \<exists>v w. v \<noteq> w \<and> v \<in> S \<and> w \<in> S
    | PlayerNotOnline \<Rightarrow> S = {})"
  proof (cases "wt_descend q t")
    case None
    then show ?thesis by (auto simp: S_def findOne_def prefix_def has_word_descend)
  next
    case (Some u)
    have u: "wt_ok u" "breakpoint u \<or> children u \<noteq> []" using wt_ok_descend [OF assms(1) Some] assms(2) by auto
    have "w \<in> S \<longleftrightarrow> (\<exists>v. w = q @ v \<and> has_word v u)" for w
      using Some by (auto simp: S_def prefix_def has_word_descend)
    then show ?thesis
      using extend_spec [OF u, of q] Some by (cases "wt_extend q u") (auto simp: findOne_def, metis same_append_eq)
  qed
  then show ?thesis
    unfolding S_def [symmetric] by (auto split: find_result.splits)
qed

theorem findOne_correct_witness:
  "findOne ''Ga'' (wt_walk ''Gandalf'' (wt_walk ''Gimli'' (Node False []))) = NoError ''Gandalf''"
proof -
  let ?t = "wt_walk ''Gandalf'' (wt_walk ''Gimli'' (Node False []))"
  have "wt_ok ?t" by (intro wt_ok_walk) simp
  moreover have "{w. has_word w ?t \<and> prefix ''Ga'' w} = {''Gandalf''}"
  proof -
    have "\<not> has_word w (Node False [])" for w by (cases w) (simp_all add: getChild_def)
    then have "has_word w ?t \<longleftrightarrow> w = ''Gandalf'' \<or> w = ''Gimli''" for w by (simp add: has_word_walk del: wt_walk.simps)
    then have "{w. has_word w ?t \<and> prefix ''Ga'' w} = {w. (w = ''Gandalf'' \<or> w = ''Gimli'') \<and> prefix ''Ga'' w}"
      by blast
    also have "\<dots> = {''Gandalf''}" by auto
    finally show ?thesis .
  qed
  ultimately show ?thesis using findOne_correct [of ?t "''Ga''" "''Gandalf''"] by blast
qed

text \<open>
  Inserting a name adds exactly that name, removing one removes exactly that one, whatever
  names share its letters, and both keep the tree free of dead branches.
\<close>

theorem wildcard_tree_is_set:
  assumes "wt_ok t" "str \<noteq> []"
  shows "\<exists>t'. wt_insert str t = Some t' \<and> wt_ok t' \<and> (\<forall>w. has_word w t' \<longleftrightarrow> w = str \<or> has_word w t)
    \<and> wt_ok (wt_remove str t) \<and> (\<forall>w. has_word w (wt_remove str t) \<longleftrightarrow> w \<noteq> str \<and> has_word w t)"
proof -
  have "wt_ok (wt_remove str t) \<and> (\<forall>w. has_word w (wt_remove str t) \<longleftrightarrow> w \<noteq> str \<and> has_word w t)"
  proof (cases "wt_prune str t")
    case None
    then show ?thesis using assms prune_None [OF None] by (auto simp: wt_remove_def)
  next
    case (Some u)
    then show ?thesis using wt_ok_prune [OF assms(1)] has_word_prune [OF assms(1)] by (simp add: wt_remove_def)
  qed
  then show ?thesis using assms wt_ok_walk has_word_walk by (simp add: wt_insert_def)
qed

theorem wildcard_tree_is_set_witness:
  "has_word ''Ann'' (wt_remove ''Anna'' (wt_walk ''Anna'' (wt_walk ''Ann'' (Node False []))))
    \<and> \<not> has_word ''Anna'' (wt_remove ''Anna'' (wt_walk ''Anna'' (wt_walk ''Ann'' (Node False []))))"
proof -
  have "wt_ok (wt_walk ''Anna'' (wt_walk ''Ann'' (Node False [])))" by (intro wt_ok_walk) simp
  from wildcard_tree_is_set [OF this, of "''Anna''"]
  have "has_word w (wt_remove ''Anna'' (wt_walk ''Anna'' (wt_walk ''Ann'' (Node False [])))) \<longleftrightarrow>
      w \<noteq> ''Anna'' \<and> has_word w (wt_walk ''Anna'' (wt_walk ''Ann'' (Node False [])))" for w
    by blast
  then show ?thesis by (simp add: has_word_walk del: wt_walk.simps has_word.simps)
qed

end
