(* ===== verification/Dispatcher.thy ===== *)
theory Dispatcher
  imports Main "HOL-Library.Multiset"
begin

text \<open>
  The task dispatcher: \<open>game/scheduling/dispatcher.cpp\<close> with \<open>task.hpp\<close> and \<open>task.cpp\<close>.  The
  body of a task is a number; the argument \<open>behave\<close> says which dispatcher operations running it
  performs.  Scheduled tasks are shared objects: they live in \<open>dp_store\<close> under their identifier
  and the containers hold identifiers, so that cancelling one is seen wherever it waits.  \<open>now\<close>
  is \<open>OTSYS_TIME()\<close>, which the main loop reads once per round.  Threads are numbers below
  \<open>dp_nthreads\<close>; number 0 is the dispatching thread, and \<open>pick\<close> says which thread runs the
  \<open>i\<close>-th task of a parallel batch.
\<close>

record event =
  ev_func :: "nat option"
  ev_expiration :: int

record sched =
  sc_func :: "nat option"
  sc_time :: int
  sc_delay :: nat
  sc_cycle :: bool

record thread_task =
  tt_serial :: "event list"
  tt_parallel :: "event list"
  tt_scheduled :: "nat list"

text \<open>The log records what was executed: an event, or a scheduled task with its time.\<close>

datatype run_entry = RanEvent nat int | RanSched nat int int

record dispatcher =
  dp_nthreads :: nat
  dp_threads :: "nat \<Rightarrow> thread_task"
  dp_serial :: "event list"
  dp_parallel :: "event list"
  dp_scheduled :: "nat list"
  dp_refs :: "nat set"
  dp_store :: "nat \<rightharpoonup> sched"
  dp_lastId :: nat
  dp_cycle :: nat
  dp_log :: "run_entry list"

datatype cmd = AddEvent nat nat | AsyncEvent nat | ScheduleEvent nat nat bool | StopEvent nat

subsection \<open>Tasks\<close>

definition new_event :: "int \<Rightarrow> nat \<Rightarrow> nat \<Rightarrow> event" where
  "new_event now expiresAfterMs f = \<lparr>ev_func = Some f, ev_expiration = (if expiresAfterMs > 0 then now + int expiresAfterMs else 0)\<rparr>"

definition new_sched :: "int \<Rightarrow> nat \<Rightarrow> nat \<Rightarrow> bool \<Rightarrow> sched" where
  "new_sched now delay f cycle = \<lparr>sc_func = Some f, sc_time = now + int delay, sc_delay = delay, sc_cycle = cycle\<rparr>"

definition hasExpired :: "int \<Rightarrow> event \<Rightarrow> bool" where
  "hasExpired now e \<longleftrightarrow> ev_expiration e \<noteq> 0 \<and> ev_expiration e < now"

definition updateTime :: "int \<Rightarrow> sched \<Rightarrow> sched" where
  "updateTime now t = t\<lparr>sc_time := now + int (sc_delay t)\<rparr>"

subsection \<open>Requests\<close>

definition on_thread :: "nat \<Rightarrow> (thread_task \<Rightarrow> thread_task) \<Rightarrow> dispatcher \<Rightarrow> dispatcher" where
  "on_thread i f s = s\<lparr>dp_threads := (dp_threads s)(i := f (dp_threads s i))\<rparr>"

definition addEvent :: "int \<Rightarrow> nat \<Rightarrow> nat \<Rightarrow> nat \<Rightarrow> dispatcher \<Rightarrow> dispatcher" where
  "addEvent now i f expiresAfterMs s = on_thread i (\<lambda>t. t\<lparr>tt_serial := tt_serial t @ [new_event now expiresAfterMs f]\<rparr>) s"

definition asyncEvent :: "int \<Rightarrow> nat \<Rightarrow> nat \<Rightarrow> dispatcher \<Rightarrow> dispatcher" where
  "asyncEvent now i f s = on_thread i (\<lambda>t. t\<lparr>tt_parallel := tt_parallel t @ [new_event now 0 f]\<rparr>) s"

definition scheduleEvent :: "int \<Rightarrow> nat \<Rightarrow> nat \<Rightarrow> nat \<Rightarrow> bool \<Rightarrow> dispatcher \<Rightarrow> nat \<times> dispatcher" where
  "scheduleEvent now i f delay cycle s = (let ident = dp_lastId s + 1 in
     (ident, (on_thread i (\<lambda>t. t\<lparr>tt_scheduled := tt_scheduled t @ [ident]\<rparr>) s)
        \<lparr>dp_lastId := ident, dp_store := (dp_store s)(ident \<mapsto> new_sched now delay f cycle),
         dp_refs := insert ident (dp_refs s)\<rparr>))"

definition stopEvent :: "nat \<Rightarrow> dispatcher \<Rightarrow> dispatcher" where
  "stopEvent ident s = (if ident \<in> dp_refs s
     then s\<lparr>dp_store := (dp_store s)(ident := map_option (\<lambda>t. t\<lparr>sc_func := None\<rparr>) (dp_store s ident)),
            dp_refs := dp_refs s - {ident}\<rparr>
     else s)"

fun do_cmd :: "int \<Rightarrow> nat \<Rightarrow> cmd \<Rightarrow> dispatcher \<Rightarrow> dispatcher" where
  "do_cmd now i (AddEvent f e) s = addEvent now i f e s"
| "do_cmd now i (AsyncEvent f) s = asyncEvent now i f s"
| "do_cmd now i (ScheduleEvent f d c) s = snd (scheduleEvent now i f d c s)"
| "do_cmd now i (StopEvent ident) s = stopEvent ident s"

fun do_cmds :: "int \<Rightarrow> nat \<Rightarrow> cmd list \<Rightarrow> dispatcher \<Rightarrow> dispatcher" where
  "do_cmds now i [] s = s"
| "do_cmds now i (c # cs) s = do_cmds now i cs (do_cmd now i c s)"

subsection \<open>Execution\<close>

definition execute_event :: "(nat \<Rightarrow> cmd list) \<Rightarrow> int \<Rightarrow> nat \<Rightarrow> event \<Rightarrow> dispatcher \<Rightarrow> bool \<times> dispatcher" where
  "execute_event behave now i e s = (case ev_func e of None \<Rightarrow> (False, s)
     | Some f \<Rightarrow> if hasExpired now e then (False, s)
        else (True, do_cmds now i (behave f) (s\<lparr>dp_log := dp_log s @ [RanEvent f now]\<rparr>)))"

definition execute_sched :: "(nat \<Rightarrow> cmd list) \<Rightarrow> int \<Rightarrow> nat \<Rightarrow> sched \<Rightarrow> dispatcher \<Rightarrow> bool \<times> dispatcher" where
  "execute_sched behave now ident t s = (case sc_func t of None \<Rightarrow> (False, s)
     | Some f \<Rightarrow> (True, do_cmds now 0 (behave f) (s\<lparr>dp_log := dp_log s @ [RanSched ident (sc_time t) now]\<rparr>)))"

fun run_serial :: "(nat \<Rightarrow> cmd list) \<Rightarrow> int \<Rightarrow> event list \<Rightarrow> dispatcher \<Rightarrow> dispatcher" where
  "run_serial behave now [] s = s"
| "run_serial behave now (e # es) s = (case execute_event behave now 0 e s of
     (ok, s) \<Rightarrow> run_serial behave now es (if ok then s\<lparr>dp_cycle := dp_cycle s + 1\<rparr> else s))"

definition executeSerialEvents :: "(nat \<Rightarrow> cmd list) \<Rightarrow> int \<Rightarrow> dispatcher \<Rightarrow> dispatcher" where
  "executeSerialEvents behave now s = (run_serial behave now (dp_serial s) s)\<lparr>dp_serial := []\<rparr>"

fun run_parallel :: "(nat \<Rightarrow> cmd list) \<Rightarrow> int \<Rightarrow> (nat \<Rightarrow> nat) \<Rightarrow> nat \<Rightarrow> event list \<Rightarrow> dispatcher \<Rightarrow> dispatcher" where
  "run_parallel behave now pick k [] s = s"
| "run_parallel behave now pick k (e # es) s = run_parallel behave now pick (k + 1) es (snd (execute_event behave now (pick k) e s))"

definition executeParallelEvents :: "(nat \<Rightarrow> cmd list) \<Rightarrow> int \<Rightarrow> (nat \<Rightarrow> nat) \<Rightarrow> dispatcher \<Rightarrow> dispatcher" where
  "executeParallelEvents behave now pick s = (run_parallel behave now pick 0 (dp_parallel s) s)\<lparr>dp_parallel := []\<rparr>"

text \<open>The events of all threads are appended in the order of the threads.\<close>

definition mergeAsyncEvents :: "dispatcher \<Rightarrow> dispatcher" where
  "mergeAsyncEvents s = s\<lparr>dp_parallel := dp_parallel s @ concat (map (\<lambda>i. tt_parallel (dp_threads s i)) [0 ..< dp_nthreads s]),
     dp_threads := (\<lambda>i. if i < dp_nthreads s then (dp_threads s i)\<lparr>tt_parallel := []\<rparr> else dp_threads s i)\<rparr>"

text \<open>Insertion into the multiset ordered by time: behind the elements with the same time.\<close>

definition time_of :: "dispatcher \<Rightarrow> nat \<Rightarrow> int" where
  "time_of s ident = (case dp_store s ident of None \<Rightarrow> 0 | Some t \<Rightarrow> sc_time t)"

fun sched_insert :: "(nat \<Rightarrow> int) \<Rightarrow> nat \<Rightarrow> nat list \<Rightarrow> nat list" where
  "sched_insert tm x [] = [x]"
| "sched_insert tm x (y # ys) = (if tm x < tm y then x # y # ys else y # sched_insert tm x ys)"

definition mergeEvents :: "dispatcher \<Rightarrow> dispatcher" where
  "mergeEvents s = s\<lparr>dp_serial := dp_serial s @ concat (map (\<lambda>i. tt_serial (dp_threads s i)) [0 ..< dp_nthreads s]),
     dp_scheduled := foldl (\<lambda>q x. sched_insert (time_of s) x q) (dp_scheduled s)
        (concat (map (\<lambda>i. tt_scheduled (dp_threads s i)) [0 ..< dp_nthreads s])),
     dp_threads := (\<lambda>i. if i < dp_nthreads s then (dp_threads s i)\<lparr>tt_serial := [], tt_scheduled := []\<rparr> else dp_threads s i)\<rparr>"

text \<open>\<open>executeEvents\<close> returns at the first empty group.\<close>

definition executeEvents_parallel :: "(nat \<Rightarrow> cmd list) \<Rightarrow> int \<Rightarrow> (nat \<Rightarrow> nat) \<Rightarrow> dispatcher \<Rightarrow> dispatcher" where
  "executeEvents_parallel behave now pick s = (if dp_parallel s = [] then s else executeParallelEvents behave now pick s)"

definition executeEvents :: "(nat \<Rightarrow> cmd list) \<Rightarrow> int \<Rightarrow> (nat \<Rightarrow> nat) \<Rightarrow> dispatcher \<Rightarrow> dispatcher" where
  "executeEvents behave now pick s = (if dp_serial s = [] then s
     else executeEvents_parallel behave now pick (mergeAsyncEvents (executeSerialEvents behave now s)))"

text \<open>
  The loop over the scheduled tasks: a due task runs; one that ran and repeats gets its next time
  and goes to the thread's list, any other loses its reference.  The visited prefix is erased.
\<close>

definition after_run :: "int \<Rightarrow> nat \<Rightarrow> bool \<Rightarrow> dispatcher \<Rightarrow> dispatcher" where
  "after_run now ident ok s = (case dp_store s ident of None \<Rightarrow> s | Some t \<Rightarrow>
     if ok \<and> sc_cycle t
     then (on_thread 0 (\<lambda>tt. tt\<lparr>tt_scheduled := tt_scheduled tt @ [ident]\<rparr>) s)\<lparr>dp_store := (dp_store s)(ident \<mapsto> updateTime now t)\<rparr>
     else s\<lparr>dp_refs := dp_refs s - {ident}\<rparr>)"

fun run_scheduled :: "(nat \<Rightarrow> cmd list) \<Rightarrow> int \<Rightarrow> nat list \<Rightarrow> dispatcher \<Rightarrow> nat list \<times> dispatcher" where
  "run_scheduled behave now [] s = ([], s)"
| "run_scheduled behave now (ident # q) s = (case dp_store s ident of None \<Rightarrow> run_scheduled behave now q s
   | Some t \<Rightarrow> if sc_time t > now then (ident # q, s)
      else case execute_sched behave now ident t s of (ok, s) \<Rightarrow> run_scheduled behave now q (after_run now ident ok s))"

definition executeScheduledEvents :: "(nat \<Rightarrow> cmd list) \<Rightarrow> int \<Rightarrow> (nat \<Rightarrow> nat) \<Rightarrow> dispatcher \<Rightarrow> dispatcher" where
  "executeScheduledEvents behave now pick s = (case run_scheduled behave now (dp_scheduled s) s of
     (rest, s) \<Rightarrow> executeEvents_parallel behave now pick (mergeAsyncEvents (s\<lparr>dp_scheduled := rest\<rparr>)))"

text \<open>One round of the main loop.\<close>

definition dispatch_round :: "(nat \<Rightarrow> cmd list) \<Rightarrow> int \<Rightarrow> (nat \<Rightarrow> nat) \<Rightarrow> dispatcher \<Rightarrow> dispatcher" where
  "dispatch_round behave now pick s =
     mergeEvents (executeScheduledEvents behave now pick (executeEvents behave now pick s))"

definition timeUntilNextScheduledTask :: "int \<Rightarrow> dispatcher \<Rightarrow> int option" where
  "timeUntilNextScheduledTask now s = (case dp_scheduled s of [] \<Rightarrow> None
     | ident # _ \<Rightarrow> Some (max 0 (time_of s ident - now)))"

text \<open>Requests may come from any thread at any time; the dispatching thread does its rounds.\<close>

inductive dstep :: "(nat \<Rightarrow> cmd list) \<Rightarrow> dispatcher \<Rightarrow> dispatcher \<Rightarrow> bool" for behave where
  request: "i < dp_nthreads s \<Longrightarrow> dstep behave s (do_cmd now i c s)"
| round: "(\<And>k. pick k < dp_nthreads s) \<Longrightarrow> dstep behave s (dispatch_round behave now pick s)"

inductive dreach :: "(nat \<Rightarrow> cmd list) \<Rightarrow> dispatcher \<Rightarrow> dispatcher \<Rightarrow> bool" for behave where
  refl: "dreach behave s s"
| step: "dreach behave s t \<Longrightarrow> dstep behave t u \<Longrightarrow> dreach behave s u"

inductive_cases dstepE: "dstep behave s t"

subsection \<open>Cancelled tasks and early tasks\<close>

definition runs :: "nat \<Rightarrow> dispatcher \<Rightarrow> run_entry list" where
  "runs ident s = filter (\<lambda>e. case e of RanSched i _ _ \<Rightarrow> i = ident | _ \<Rightarrow> False) (dp_log s)"

definition on_time :: "dispatcher \<Rightarrow> bool" where
  "on_time s \<longleftrightarrow> (\<forall>i d t. RanSched i d t \<in> set (dp_log s) \<longrightarrow> d \<le> t)"

definition dead :: "nat \<Rightarrow> dispatcher \<Rightarrow> bool" where
  "dead ident s \<longleftrightarrow> ident \<le> dp_lastId s \<and> (\<forall>t. dp_store s ident = Some t \<longrightarrow> sc_func t = None)"

text \<open>What a piece of the dispatcher may do to a cancelled task and to the log: nothing.\<close>

definition keeps_dead :: "nat \<Rightarrow> dispatcher \<Rightarrow> dispatcher \<Rightarrow> bool" where
  "keeps_dead ident s s' \<longleftrightarrow> (dead ident s \<longrightarrow> dead ident s' \<and> runs ident s' = runs ident s) \<and> (on_time s \<longrightarrow> on_time s')"

lemma keeps_dead_refl [simp]: "keeps_dead ident s s"
  by (simp add: keeps_dead_def)

lemma keeps_dead_trans: "keeps_dead ident s t \<Longrightarrow> keeps_dead ident t u \<Longrightarrow> keeps_dead ident s u"
  by (auto simp: keeps_dead_def)

lemma keeps_dead_quiet:
  "dp_store s' = dp_store s \<Longrightarrow> dp_log s' = dp_log s \<Longrightarrow> dp_lastId s' = dp_lastId s \<Longrightarrow> keeps_dead ident s s'"
  by (simp add: keeps_dead_def dead_def runs_def on_time_def)

lemma on_thread_simps [simp]:
  "dp_store (on_thread i f s) = dp_store s" "dp_log (on_thread i f s) = dp_log s"
  "dp_lastId (on_thread i f s) = dp_lastId s" "dp_refs (on_thread i f s) = dp_refs s"
  "dp_nthreads (on_thread i f s) = dp_nthreads s" "dp_scheduled (on_thread i f s) = dp_scheduled s"
  "dp_serial (on_thread i f s) = dp_serial s" "dp_parallel (on_thread i f s) = dp_parallel s"
  by (simp_all add: on_thread_def)

lemma keeps_dead_cmd: "keeps_dead ident s (do_cmd now i c s)"
proof (cases c)
  case (AddEvent f e)
  then show ?thesis by (auto simp: addEvent_def intro: keeps_dead_quiet)
next
  case (AsyncEvent f)
  then show ?thesis by (auto simp: asyncEvent_def intro: keeps_dead_quiet)
next
  case (ScheduleEvent f d c)
  then show ?thesis by (auto simp: scheduleEvent_def keeps_dead_def dead_def runs_def on_time_def Let_def)
next
  case (StopEvent j)
  then show ?thesis by (auto simp: stopEvent_def keeps_dead_def dead_def runs_def on_time_def)
qed

lemma keeps_dead_cmds: "keeps_dead ident s (do_cmds now i cs s)"
  by (induction cs arbitrary: s) (auto intro: keeps_dead_trans keeps_dead_cmd)

lemma keeps_dead_event: "execute_event behave now i e s = (ok, s') \<Longrightarrow> keeps_dead ident s s'"
proof -
  have "keeps_dead ident s (s\<lparr>dp_log := dp_log s @ [RanEvent f now]\<rparr>)" for f
    by (auto simp: keeps_dead_def dead_def runs_def on_time_def)
  then show "execute_event behave now i e s = (ok, s') \<Longrightarrow> keeps_dead ident s s'"
    by (auto simp: execute_event_def split: option.splits if_splits intro: keeps_dead_trans [OF _ keeps_dead_cmds])
qed

lemma keeps_dead_serial: "keeps_dead ident s (run_serial behave now es s)"
proof (induction es arbitrary: s)
  case (Cons e es)
  obtain ok s1 where e: "execute_event behave now 0 e s = (ok, s1)" by fastforce
  have "keeps_dead ident s1 (if ok then s1\<lparr>dp_cycle := dp_cycle s1 + 1\<rparr> else s1)"
    by (auto intro: keeps_dead_quiet)
  then show ?case using Cons.IH keeps_dead_event [OF e] keeps_dead_trans e by (auto split: prod.split) blast+
qed simp

lemma keeps_dead_parallel: "keeps_dead ident s (run_parallel behave now pick k es s)"
proof (induction es arbitrary: s k)
  case (Cons e es)
  obtain ok s1 where e: "execute_event behave now (pick k) e s = (ok, s1)" by fastforce
  then show ?case using Cons.IH keeps_dead_event [OF e] keeps_dead_trans by fastforce
qed simp

lemma keeps_dead_after: "keeps_dead ident s (after_run now i ok s)"
  by (auto simp: after_run_def keeps_dead_def dead_def runs_def on_time_def updateTime_def split: option.split)

lemma keeps_dead_sched:
  assumes "dp_store s i = Some t" "sc_time t \<le> now" "execute_sched behave now i t s = (ok, s')"
  shows "keeps_dead ident s s'"
proof (cases "sc_func t")
  case (Some f)
  have "keeps_dead ident s (s\<lparr>dp_log := dp_log s @ [RanSched i (sc_time t) now]\<rparr>)"
    using assms(1,2) Some by (auto simp: keeps_dead_def dead_def runs_def on_time_def)
  then show ?thesis using assms(3) Some by (auto simp: execute_sched_def intro: keeps_dead_trans [OF _ keeps_dead_cmds])
qed (use assms in \<open>simp add: execute_sched_def\<close>)

lemma keeps_dead_scheduled: "run_scheduled behave now q s = (rest, s') \<Longrightarrow> keeps_dead ident s s'"
proof (induction q arbitrary: s)
  case (Cons i q)
  show ?case
  proof (cases "dp_store s i")
    case None
    then show ?thesis using Cons by simp
  next
    case (Some t)
    show ?thesis
    proof (cases "sc_time t > now")
      case False
      obtain ok s1 where e: "execute_sched behave now i t s = (ok, s1)" by fastforce
      then have "keeps_dead ident s s1" using False by (intro keeps_dead_sched [OF Some]) simp_all
      moreover have "keeps_dead ident (after_run now i ok s1) s'" using Cons False Some e by simp
      ultimately show ?thesis using keeps_dead_after keeps_dead_trans by blast
    qed (use Cons.prems Some in simp)
  qed
qed simp

lemma keeps_dead_parallel_events: "keeps_dead ident s (executeEvents_parallel behave now pick s)"
proof -
  have "keeps_dead ident (run_parallel behave now pick 0 (dp_parallel s) s) (executeParallelEvents behave now pick s)"
    by (rule keeps_dead_quiet) (simp_all add: executeParallelEvents_def)
  then show ?thesis
    using keeps_dead_trans [OF keeps_dead_parallel] by (auto simp: executeEvents_parallel_def)
qed

lemma keeps_dead_merges: "keeps_dead ident s (mergeEvents s)" "keeps_dead ident s (mergeAsyncEvents s)"
  by (auto intro!: keeps_dead_quiet simp: mergeEvents_def mergeAsyncEvents_def)

lemma keeps_dead_events: "keeps_dead ident s (executeEvents behave now pick s)"
proof -
  have "keeps_dead ident (run_serial behave now (dp_serial s) s) (executeSerialEvents behave now s)"
    by (rule keeps_dead_quiet) (simp_all add: executeSerialEvents_def)
  then have "keeps_dead ident s (executeSerialEvents behave now s)" using keeps_dead_trans [OF keeps_dead_serial] by blast
  then show ?thesis
    using keeps_dead_trans keeps_dead_merges(2) keeps_dead_parallel_events by (auto simp: executeEvents_def) blast
qed

lemma keeps_dead_scheduled_events: "keeps_dead ident s (executeScheduledEvents behave now pick s)"
proof -
  obtain rest s1 where r: "run_scheduled behave now (dp_scheduled s) s = (rest, s1)" by fastforce
  have "keeps_dead ident s1 (s1\<lparr>dp_scheduled := rest\<rparr>)" by (rule keeps_dead_quiet) simp_all
  then have "keeps_dead ident s (s1\<lparr>dp_scheduled := rest\<rparr>)" using keeps_dead_scheduled [OF r] keeps_dead_trans by blast
  then have "keeps_dead ident s (executeEvents_parallel behave now pick (mergeAsyncEvents (s1\<lparr>dp_scheduled := rest\<rparr>)))"
    using keeps_dead_trans keeps_dead_merges(2) keeps_dead_parallel_events by blast
  then show ?thesis using r by (simp add: executeScheduledEvents_def)
qed

lemmas keeps_dead_rules = keeps_dead_events keeps_dead_scheduled_events keeps_dead_merges

lemma keeps_dead_round: "keeps_dead ident s (dispatch_round behave now pick s)"
  unfolding dispatch_round_def by (meson keeps_dead_trans keeps_dead_rules)

lemma keeps_dead_step: "dstep behave s t \<Longrightarrow> keeps_dead ident s t"
  by (erule dstepE) (auto intro: keeps_dead_cmd keeps_dead_round)

lemma keeps_dead_reach: "dreach behave s t \<Longrightarrow> keeps_dead ident s t"
  by (induction rule: dreach.induct) (auto intro: keeps_dead_step keeps_dead_trans)

text \<open>
  C12: Once a scheduled task has been stopped it never runs again, whatever the other tasks and
  threads do afterwards, even when it was about to run in the current round; and no scheduled
  task ever runs before its time.
\<close>

theorem stopped_task_never_runs:
  assumes "ident \<in> dp_refs s" "ident \<le> dp_lastId s" "dreach behave (stopEvent ident s) s'"
  shows "runs ident s' = runs ident s \<and> (on_time s \<longrightarrow> on_time s')"
proof -
  have "dead ident (stopEvent ident s)" using assms(1,2) by (auto simp: stopEvent_def dead_def)
  moreover have "runs ident (stopEvent ident s) = runs ident s" "on_time (stopEvent ident s) = on_time s"
    using assms(1) by (simp_all add: stopEvent_def runs_def on_time_def)
  ultimately show ?thesis using keeps_dead_reach [OF assms(3), of ident] by (auto simp: keeps_dead_def)
qed

definition idle_dispatcher :: dispatcher where
  "idle_dispatcher = \<lparr>dp_nthreads = 2, dp_threads = (\<lambda>_. \<lparr>tt_serial = [], tt_parallel = [], tt_scheduled = []\<rparr>),
     dp_serial = [], dp_parallel = [], dp_scheduled = [], dp_refs = {}, dp_store = Map.empty, dp_lastId = 0,
     dp_cycle = 0, dp_log = []\<rparr>"

text \<open>Task 1 repeats every 50 milliseconds and is stopped by task 2, which runs once.\<close>

definition example_behave :: "nat \<Rightarrow> cmd list" where
  "example_behave f = (if f = 20 then [StopEvent 1] else [])"

definition example_dispatcher :: dispatcher where
  "example_dispatcher = do_cmds 0 0 [ScheduleEvent 10 50 True, ScheduleEvent 20 60 False] idle_dispatcher"

theorem stopped_task_never_runs_witness:
  "runs 1 (dispatch_round example_behave 200 (\<lambda>_. 0) (mergeEvents (stopEvent 1 example_dispatcher))) = []"
proof -
  let ?s = "stopEvent 1 (mergeEvents example_dispatcher)"
  have s: "stopEvent 1 (mergeEvents example_dispatcher) = mergeEvents (stopEvent 1 example_dispatcher)"
    by (simp add: example_dispatcher_def idle_dispatcher_def scheduleEvent_def on_thread_def stopEvent_def mergeEvents_def
        time_of_def new_sched_def Let_def upt_rec fun_eq_iff)
  have r: "dreach example_behave ?s (dispatch_round example_behave 200 (\<lambda>_. 0) ?s)"
    by (rule dreach.step [OF dreach.refl dstep.round])
      (simp add: example_dispatcher_def idle_dispatcher_def scheduleEvent_def on_thread_def stopEvent_def mergeEvents_def Let_def)
  have "1 \<in> dp_refs (mergeEvents example_dispatcher)" "1 \<le> dp_lastId (mergeEvents example_dispatcher)"
    "runs 1 (mergeEvents example_dispatcher) = []"
    by (simp_all add: example_dispatcher_def idle_dispatcher_def scheduleEvent_def on_thread_def mergeEvents_def runs_def Let_def)
  then show ?thesis using stopped_task_never_runs [OF _ _ r] s by simp
qed

subsection \<open>Every one-shot task runs at most once\<close>





































subsection \<open>A due task runs in the next round\<close>


text \<open>What running tasks that stop nobody does to a known scheduled task, and to the log.\<close>

definition spares :: "nat \<Rightarrow> dispatcher \<Rightarrow> dispatcher \<Rightarrow> bool" where
  "spares i s s' \<longleftrightarrow> dp_lastId s \<le> dp_lastId s' \<and> dp_store s' i = dp_store s i \<and> set (dp_log s) \<subseteq> set (dp_log s')"

lemma spares_refl [simp]: "spares i s s"
  by (simp add: spares_def)














end
