(* ===== verification/Connection.thy ===== *)
theory Connection
  imports Protocol "HOL-Library.Sublist" "HOL-Library.Multiset"
begin

text \<open>
  One TCP connection: \<open>server/network/connection/connection.cpp\<close>, and the autosend pool of
  \<open>server/network/message/outputmessage.cpp\<close>.  Every handler is a function on the state; the
  asynchronous operations it starts are recorded as pending and complete later, in any order, as
  steps of the relation \<open>conn_step\<close>.  The flag \<open>thr\<close> of a handler says whether its call into the
  network library throws.  What the protocol object does with a message is a parameter.
\<close>

datatype conn_state = CONNECTION_STATE_OPEN | CONNECTION_STATE_IDENTIFYING | CONNECTION_STATE_READINGS
  | CONNECTION_STATE_CLOSED

text \<open>What an asynchronous read was started for, and how many bytes it asked for.\<close>

datatype read_op = ReadProxy nat | ReadHeader nat | ReadPacket nat

datatype conn_event = OnConnect | Release

record conn =
  cn_state :: conn_state
  cn_protocol :: bool
  cn_open :: bool
  cn_registered :: bool
  cn_queue :: "nat list"
  cn_msg :: netmsg
  cn_timeConnected :: int
  cn_packetsSent :: u32
  cn_receivedFirst :: bool
  cn_reads :: "read_op list"
  cn_posted :: nat
  cn_writing :: nat
  cn_events :: "conn_event list"
  cn_accepted :: "nat list"
  cn_encoded :: "nat list"
  cn_written :: "nat list"
  cn_dropped :: "nat list"

text \<open>What the connection asks of the protocol object and its factory.\<close>

record proto_env =
  pe_make :: "bool \<Rightarrow> netmsg \<Rightarrow> bool \<times> netmsg"
  pe_first :: "netmsg \<Rightarrow> netmsg"
  pe_recv :: "netmsg \<Rightarrow> bool \<times> netmsg"

subsection \<open>Closing\<close>

definition closeSocket :: "conn \<Rightarrow> conn" where
  "closeSocket c = (if \<not> cn_open c then c else c\<lparr>cn_open := False\<rparr>)"

definition conn_close :: "bool \<Rightarrow> conn \<Rightarrow> conn" where
  "conn_close force c = (let c = c\<lparr>cn_registered := False\<rparr> in
     if cn_state c = CONNECTION_STATE_CLOSED then c
     else let c = c\<lparr>cn_state := CONNECTION_STATE_CLOSED\<rparr>;
              c = (if cn_protocol c then c\<lparr>cn_events := cn_events c @ [Release]\<rparr> else c)
          in if cn_queue c = [] \<or> force then closeSocket c else c)"

definition handleTimeout :: "bool \<Rightarrow> conn \<Rightarrow> conn" where
  "handleTimeout aborted c = (if aborted then c else conn_close True c)"

subsection \<open>Reading\<close>

definition start_read :: "bool \<Rightarrow> read_op \<Rightarrow> conn \<Rightarrow> conn" where
  "start_read thr r c = (if thr then conn_close True c else c\<lparr>cn_reads := cn_reads c @ [r]\<rparr>)"

definition acceptInternal :: "bool \<Rightarrow> bool \<Rightarrow> conn \<Rightarrow> conn" where
  "acceptInternal thr toggleParseHeader c =
     start_read thr (if toggleParseHeader then ReadHeader HEADER_LENGTH else ReadProxy HEADER_LENGTH) c"

definition conn_accept :: "bool \<Rightarrow> conn \<Rightarrow> conn" where
  "conn_accept thr c = acceptInternal thr False (c\<lparr>cn_state := CONNECTION_STATE_IDENTIFYING, cn_protocol := True,
     cn_events := cn_events c @ [OnConnect]\<rparr>)"

text \<open>\<open>strncasecmp(a, b, n) == 0\<close>; both strings are taken to be followed by a zero byte.\<close>

definition lower_byte :: "u8 \<Rightarrow> u8" where
  "lower_byte b = (if 65 \<le> b \<and> b \<le> 90 then b + 32 else b)"

fun strncasecmp_eq :: "nat \<Rightarrow> u8 list \<Rightarrow> u8 list \<Rightarrow> bool" where
  "strncasecmp_eq 0 a b \<longleftrightarrow> True"
| "strncasecmp_eq (Suc n) [] [] \<longleftrightarrow> True"
| "strncasecmp_eq (Suc n) [] (y # b) \<longleftrightarrow> y = 0"
| "strncasecmp_eq (Suc n) (x # a) [] \<longleftrightarrow> x = 0"
| "strncasecmp_eq (Suc n) (x # a) (y # b) \<longleftrightarrow> lower_byte x = lower_byte y \<and> (x = 0 \<or> strncasecmp_eq n a b)"

definition parseHeader :: "nat \<Rightarrow> int \<Rightarrow> bool \<Rightarrow> bool \<Rightarrow> conn \<Rightarrow> conn" where
  "parseHeader maxPackets now err thr c =
     (if err then conn_close True c else if cn_state c = CONNECTION_STATE_CLOSED then c
      else let timePassed = max 1 (word_of_int ((now - cn_timeConnected c) + 1) :: u32);
               c = c\<lparr>cn_packetsSent := cn_packetsSent c + 1\<rparr>
        in if unat (cn_packetsSent c div timePassed) > maxPackets then conn_close False c
        else let c = (if timePassed > 2 then c\<lparr>cn_timeConnected := now, cn_packetsSent := 0\<rparr> else c)
        in (case header_size (cn_msg c) of None \<Rightarrow> conn_close True c
            | Some (n, m) \<Rightarrow> start_read thr (ReadPacket n) (c\<lparr>cn_msg := m\<rparr>)))"

text \<open>\<open>serverName\<close> is the configured name followed by a line break; the branch with nothing left to read needs a one-letter name.\<close>

definition parseProxyIdentification :: "u8 list \<Rightarrow> nat \<Rightarrow> int \<Rightarrow> bool \<Rightarrow> bool \<Rightarrow> conn \<Rightarrow> conn" where
  "parseProxyIdentification serverName maxPackets now err thr c =
    (if err \<or> cn_state c = CONNECTION_STATE_CLOSED then conn_close True c
     else let buf = nm_buffer (cn_msg c); remainder = length serverName - 2 in
      if cn_state c = CONNECTION_STATE_IDENTIFYING then
        (if buf 1 = 0 \<or> \<not> strncasecmp_eq 2 (mem_read buf 0 2) serverName
         then parseHeader maxPackets now err thr (c\<lparr>cn_state := CONNECTION_STATE_OPEN\<rparr>)
         else if remainder > 0 then start_read thr (ReadProxy remainder) (c\<lparr>cn_state := CONNECTION_STATE_READINGS\<rparr>)
         else acceptInternal thr True (c\<lparr>cn_state := CONNECTION_STATE_OPEN\<rparr>))
      else if cn_state c = CONNECTION_STATE_READINGS then
        (if strncasecmp_eq remainder (mem_read buf 0 remainder) (drop 2 serverName)
         then acceptInternal thr True (c\<lparr>cn_state := CONNECTION_STATE_OPEN\<rparr>)
         else conn_close True c)
      else acceptInternal thr True c)"

text \<open>The checksum of the first packet decides which protocol is made; it is stepped over when it matches.\<close>

definition first_checksum :: "netmsg \<Rightarrow> nat" where
  "first_checksum m = (let len = int (nm_length m) - int (nm_position m) - 4 in
     if len > 0 then unat (adlerChecksum (mem_read (nm_buffer m) (nm_position m + 4) (nat len))) else 0)"

definition parsePacket :: "proto_env \<Rightarrow> bool \<Rightarrow> bool \<Rightarrow> conn \<Rightarrow> conn" where
  "parsePacket env err thr c =
    (if err \<or> cn_state c = CONNECTION_STATE_CLOSED then conn_close True c
     else if \<not> cn_receivedFirst c then
       (let c = c\<lparr>cn_receivedFirst := True\<rparr> in
        if \<not> cn_protocol c then
          (let checksum = first_checksum (cn_msg c); (recvChecksum, m) = get_u32 (cn_msg c);
               m = (if recvChecksum \<noteq> checksum then skipBytes (- 4) m else m);
               (made, m) = pe_make env (recvChecksum = checksum) m;
               c = c\<lparr>cn_msg := m, cn_protocol := made\<rparr>
           in if \<not> made then conn_close True c
              else start_read thr (ReadHeader HEADER_LENGTH) (c\<lparr>cn_msg := pe_first env m\<rparr>))
        else (let (_, m) = get_u32 (cn_msg c); m = skipBytes 1 m
              in start_read thr (ReadHeader HEADER_LENGTH) (c\<lparr>cn_msg := pe_first env m\<rparr>)))
     else (case pe_recv env (cn_msg c) of (skipReadingNextPacket, m) \<Rightarrow>
        if skipReadingNextPacket then c\<lparr>cn_msg := m\<rparr>
        else start_read thr (ReadHeader HEADER_LENGTH) (c\<lparr>cn_msg := m\<rparr>)))"

definition resumeWork :: "bool \<Rightarrow> conn \<Rightarrow> conn" where
  "resumeWork thr c = start_read thr (ReadHeader HEADER_LENGTH) c"

subsection \<open>Writing\<close>

definition conn_send :: "bool \<Rightarrow> nat \<Rightarrow> conn \<Rightarrow> conn" where
  "conn_send thr m c = (if cn_state c = CONNECTION_STATE_CLOSED then c
     else let noPendingWrite = (cn_queue c = []);
              c = c\<lparr>cn_queue := cn_queue c @ [m], cn_accepted := cn_accepted c @ [m]\<rparr>
          in if noPendingWrite
             then if cn_open c then if thr then conn_close True c else c\<lparr>cn_posted := cn_posted c + 1\<rparr>
                  else conn_close True c
             else c)"

definition internalSend :: "bool \<Rightarrow> conn \<Rightarrow> conn" where
  "internalSend thr c = (if thr then conn_close True c else c\<lparr>cn_writing := cn_writing c + 1\<rparr>)"

definition onSend_front :: "conn \<Rightarrow> conn" where
  "onSend_front c = c\<lparr>cn_encoded := cn_encoded c @ [hd (cn_queue c)]\<rparr>"

definition internalWorker :: "bool \<Rightarrow> conn \<Rightarrow> conn" where
  "internalWorker thr c = (if cn_queue c = []
     then (if cn_state c = CONNECTION_STATE_CLOSED then closeSocket c else c)
     else internalSend thr (onSend_front c))"

definition onWriteOperation :: "bool \<Rightarrow> bool \<Rightarrow> conn \<Rightarrow> conn" where
  "onWriteOperation err thr c =
    (if err then conn_close True (c\<lparr>cn_queue := [], cn_dropped := cn_dropped c @ cn_queue c\<rparr>)
     else let c = c\<lparr>cn_queue := tl (cn_queue c), cn_written := cn_written c @ [hd (cn_queue c)]\<rparr>
      in if cn_queue c \<noteq> [] then internalSend thr (onSend_front c)
         else if cn_state c = CONNECTION_STATE_CLOSED then closeSocket c else c)"

subsection \<open>The life of a connection\<close>

definition new_conn :: "int \<Rightarrow> conn" where
  "new_conn now = \<lparr>cn_state = CONNECTION_STATE_OPEN, cn_protocol = False, cn_open = True, cn_registered = True,
     cn_queue = [], cn_msg = new_netmsg, cn_timeConnected = now, cn_packetsSent = 0, cn_receivedFirst = False,
     cn_reads = [], cn_posted = 0, cn_writing = 0, cn_events = [], cn_accepted = [], cn_encoded = [], cn_written = [],
     cn_dropped = []\<rparr>"

text \<open>The read that completes delivers its bytes into the buffer at its place.\<close>

definition deliver :: "read_op \<Rightarrow> u8 list \<Rightarrow> conn \<Rightarrow> conn" where
  "deliver r bs c = c\<lparr>cn_reads := remove1 r (cn_reads c), cn_msg := (cn_msg c)\<lparr>nm_buffer :=
     mem_write (nm_buffer (cn_msg c)) (case r of ReadPacket _ \<Rightarrow> HEADER_LENGTH | _ \<Rightarrow> 0) bs\<rparr>\<rparr>"

definition read_size :: "read_op \<Rightarrow> nat" where
  "read_size r = (case r of ReadProxy n \<Rightarrow> n | ReadHeader n \<Rightarrow> n | ReadPacket n \<Rightarrow> n)"

definition conn_read :: "u8 list \<Rightarrow> nat \<Rightarrow> proto_env \<Rightarrow> int \<Rightarrow> bool \<Rightarrow> bool \<Rightarrow> read_op \<Rightarrow> u8 list \<Rightarrow> conn \<Rightarrow> conn" where
  "conn_read serverName maxPackets env now err thr r bs c = (let c = deliver r bs c in
     case r of ReadProxy _ \<Rightarrow> parseProxyIdentification serverName maxPackets now err thr c
     | ReadHeader _ \<Rightarrow> parseHeader maxPackets now err thr c
     | ReadPacket _ \<Rightarrow> parsePacket env err thr c)"

inductive conn_step :: "u8 list \<Rightarrow> nat \<Rightarrow> proto_env \<Rightarrow> conn \<Rightarrow> conn \<Rightarrow> bool" for serverName maxPackets env where
  send: "conn_step serverName maxPackets env c (conn_send thr m c)"
| worker: "cn_posted c = Suc k \<Longrightarrow> conn_step serverName maxPackets env c (internalWorker thr (c\<lparr>cn_posted := k\<rparr>))"
| written: "cn_writing c = Suc k \<Longrightarrow> conn_step serverName maxPackets env c (onWriteOperation err thr (c\<lparr>cn_writing := k\<rparr>))"
| read: "r \<in> set (cn_reads c) \<Longrightarrow> err \<or> length bs = read_size r \<Longrightarrow>
    conn_step serverName maxPackets env c (conn_read serverName maxPackets env now err thr r bs c)"
| timeout: "conn_step serverName maxPackets env c (handleTimeout aborted c)"
| close: "conn_step serverName maxPackets env c (conn_close force c)"
| resume: "conn_step serverName maxPackets env c (resumeWork thr c)"

inductive conn_reach :: "u8 list \<Rightarrow> nat \<Rightarrow> proto_env \<Rightarrow> conn \<Rightarrow> bool" for serverName maxPackets env where
  accepted: "conn_reach serverName maxPackets env (conn_accept thr (new_conn now))"
| waiting: "conn_reach serverName maxPackets env (acceptInternal thr True (new_conn now))"
| step: "conn_reach serverName maxPackets env c \<Longrightarrow> conn_step serverName maxPackets env c c' \<Longrightarrow>
    conn_reach serverName maxPackets env c'"

inductive_cases conn_stepE: "conn_step serverName maxPackets env c c'"

subsection \<open>Messages leave in order, each encoded once\<close>

definition write_inv :: "conn \<Rightarrow> bool" where
  "write_inv c \<longleftrightarrow> cn_accepted c = cn_written c @ cn_dropped c @ cn_queue c
     \<and> cn_posted c + cn_writing c \<le> 1
     \<and> (cn_posted c = 1 \<longrightarrow> cn_queue c \<noteq> [] \<and> cn_dropped c = [] \<and> cn_encoded c = cn_written c)
     \<and> (cn_writing c = 1 \<longrightarrow> cn_queue c \<noteq> [] \<and> cn_dropped c = [] \<and> cn_encoded c = cn_written c @ [hd (cn_queue c)])
     \<and> (cn_encoded c = cn_written c \<or> (\<exists>m ms. cn_dropped c @ cn_queue c = m # ms \<and> cn_encoded c = cn_written c @ [m]))
     \<and> (cn_dropped c \<noteq> [] \<longrightarrow> cn_state c = CONNECTION_STATE_CLOSED)
     \<and> (cn_state c \<noteq> CONNECTION_STATE_CLOSED \<longrightarrow> cn_queue c \<noteq> [] \<longrightarrow> cn_posted c + cn_writing c = 1)"

definition life_inv :: "conn \<Rightarrow> bool" where
  "life_inv c \<longleftrightarrow> length (filter (\<lambda>e. e = Release) (cn_events c)) \<le> 1
     \<and> (Release \<in> set (cn_events c) \<longrightarrow> cn_state c = CONNECTION_STATE_CLOSED)
     \<and> (cn_state c = CONNECTION_STATE_CLOSED \<longrightarrow> \<not> cn_registered c)
     \<and> (\<not> cn_open c \<longrightarrow> cn_state c = CONNECTION_STATE_CLOSED)"

text \<open>Handlers that only read or close leave the writing side alone, and closing is final.\<close>

definition quiet :: "conn \<Rightarrow> conn \<Rightarrow> bool" where
  "quiet c c' \<longleftrightarrow> cn_queue c' = cn_queue c \<and> cn_posted c' = cn_posted c \<and> cn_writing c' = cn_writing c
     \<and> cn_accepted c' = cn_accepted c \<and> cn_encoded c' = cn_encoded c \<and> cn_written c' = cn_written c
     \<and> cn_dropped c' = cn_dropped c \<and> (cn_state c = CONNECTION_STATE_CLOSED \<longrightarrow> cn_state c' = CONNECTION_STATE_CLOSED)
     \<and> (life_inv c \<longrightarrow> life_inv c')"

lemma quiet_refl [simp]: "quiet c c"
  by (simp add: quiet_def)

lemma quiet_trans: "quiet c d \<Longrightarrow> quiet d e \<Longrightarrow> quiet c e"
  by (simp add: quiet_def)

lemma quiet_write_inv: "quiet c c' \<Longrightarrow> write_inv c \<Longrightarrow> write_inv c'"
  by (auto simp: quiet_def write_inv_def)

lemma quiet_close: "quiet c (conn_close force c)"
  by (auto simp: quiet_def conn_close_def closeSocket_def life_inv_def Let_def filter_empty_conv)

lemma quiet_closeSocket: "cn_state c = CONNECTION_STATE_CLOSED \<Longrightarrow> quiet c (closeSocket c)"
  by (auto simp: quiet_def closeSocket_def life_inv_def)

definition same_side :: "conn \<Rightarrow> conn \<Rightarrow> bool" where
  "same_side c d \<longleftrightarrow> cn_queue d = cn_queue c \<and> cn_posted d = cn_posted c \<and> cn_writing d = cn_writing c
     \<and> cn_accepted d = cn_accepted c \<and> cn_encoded d = cn_encoded c \<and> cn_written d = cn_written c
     \<and> cn_dropped d = cn_dropped c \<and> cn_events d = cn_events c \<and> cn_registered d = cn_registered c \<and> cn_open d = cn_open c
     \<and> (cn_state c = CONNECTION_STATE_CLOSED \<longleftrightarrow> cn_state d = CONNECTION_STATE_CLOSED)"

lemma same_side_updates [simp]:
  "same_side d (c\<lparr>cn_msg := m\<rparr>) = same_side d c" "same_side d (c\<lparr>cn_reads := rs\<rparr>) = same_side d c"
  "same_side d (c\<lparr>cn_packetsSent := p\<rparr>) = same_side d c" "same_side d (c\<lparr>cn_timeConnected := t\<rparr>) = same_side d c"
  "same_side d (c\<lparr>cn_receivedFirst := b\<rparr>) = same_side d c" "same_side d (c\<lparr>cn_protocol := b\<rparr>) = same_side d c"
  by (simp_all add: same_side_def)

lemma same_side_state:
  "cn_state c \<noteq> CONNECTION_STATE_CLOSED \<Longrightarrow> st \<noteq> CONNECTION_STATE_CLOSED \<Longrightarrow>
    same_side d (c\<lparr>cn_state := st\<rparr>) = same_side d c"
  by (simp add: same_side_def)

lemma same_side_refl [simp]: "same_side c c"
  by (simp add: same_side_def)

lemma same_side_quiet: "same_side c d \<Longrightarrow> quiet c d"
  by (auto simp: quiet_def life_inv_def same_side_def)

lemma quiet_close_via: "same_side c d \<Longrightarrow> quiet c (conn_close force d)"
  by (rule quiet_trans [OF same_side_quiet quiet_close])

lemma quiet_read_via: "same_side c d \<Longrightarrow> quiet c (start_read thr r d)"
  by (simp add: start_read_def quiet_close_via) (auto simp: same_side_def intro!: same_side_quiet)

lemmas quiet_via = quiet_close_via quiet_read_via

lemma quiet_parseHeader: "same_side d c \<Longrightarrow> quiet d (parseHeader maxPackets now err thr c)"
  unfolding parseHeader_def Let_def
  by (simp add: quiet_via same_side_quiet split: option.split prod.split)

lemma quiet_proxy: "same_side d c \<Longrightarrow> quiet d (parseProxyIdentification serverName maxPackets now err thr c)"
  unfolding parseProxyIdentification_def acceptInternal_def Let_def
  by (simp add: quiet_via quiet_parseHeader same_side_state)

lemma quiet_parsePacket: "same_side d c \<Longrightarrow> quiet d (parsePacket env err thr c)"
  unfolding parsePacket_def Let_def
  by (simp add: quiet_via same_side_quiet split: prod.split)

lemma quiet_conn_read: "quiet c (conn_read serverName maxPackets env now err thr r bs c)"
proof -
  have "same_side c (deliver r bs c)" for r by (simp add: deliver_def)
  then show ?thesis
    by (simp add: conn_read_def Let_def quiet_parseHeader quiet_proxy quiet_parsePacket split: read_op.split)
qed

lemma quiet_timeout: "quiet c (handleTimeout aborted c)"
  by (simp add: handleTimeout_def quiet_close)

lemma quiet_resume: "quiet c (resumeWork thr c)"
  by (simp add: resumeWork_def quiet_via)

text \<open>The handlers of the writing side.\<close>

lemma write_inv_close: "write_inv c \<Longrightarrow> write_inv (conn_close force c)"
  using quiet_write_inv quiet_close by blast

lemma life_inv_close: "life_inv c \<Longrightarrow> life_inv (conn_close force c)"
  using quiet_close [of c force] by (simp add: quiet_def)

lemma close_closed: "cn_state (conn_close force c) = CONNECTION_STATE_CLOSED"
  by (simp add: conn_close_def Let_def closeSocket_def)

lemma close_frame:
  "cn_queue (conn_close force c) = cn_queue c" "cn_posted (conn_close force c) = cn_posted c"
  "cn_writing (conn_close force c) = cn_writing c" "cn_accepted (conn_close force c) = cn_accepted c"
  "cn_encoded (conn_close force c) = cn_encoded c" "cn_written (conn_close force c) = cn_written c"
  "cn_dropped (conn_close force c) = cn_dropped c"
  by (simp_all add: conn_close_def Let_def closeSocket_def)

lemma closeSocket_frame:
  "cn_queue (closeSocket c) = cn_queue c" "cn_posted (closeSocket c) = cn_posted c" "cn_state (closeSocket c) = cn_state c"
  "cn_writing (closeSocket c) = cn_writing c" "cn_accepted (closeSocket c) = cn_accepted c"
  "cn_encoded (closeSocket c) = cn_encoded c" "cn_written (closeSocket c) = cn_written c"
  "cn_dropped (closeSocket c) = cn_dropped c"
  by (simp_all add: closeSocket_def)

lemmas write_frames = close_frame closeSocket_frame close_closed

lemma write_inv_send:
  assumes "write_inv c"
  shows "write_inv (conn_send thr m c)"
proof (cases "cn_state c = CONNECTION_STATE_CLOSED")
  case False
  then have d: "cn_dropped c = []" using assms by (auto simp: write_inv_def)
  show ?thesis
  proof (cases "cn_queue c = []")
    case True
    then have "cn_posted c = 0" "cn_writing c = 0" "cn_encoded c = cn_written c" "cn_accepted c = cn_written c"
      using assms d by (auto simp: write_inv_def)
    then show ?thesis using False True d by (auto simp: write_inv_def conn_send_def Let_def write_frames)
  next
    case nonempty: False
    then show ?thesis using assms False d by (auto simp: write_inv_def conn_send_def Let_def hd_append neq_Nil_conv)
  qed
qed (use assms in \<open>simp add: conn_send_def\<close>)

lemma write_inv_worker:
  assumes "write_inv c" "cn_posted c = Suc k"
  shows "write_inv (internalWorker thr (c\<lparr>cn_posted := k\<rparr>))"
proof -
  have "k = 0" "cn_writing c = 0" "cn_queue c \<noteq> []" "cn_dropped c = []" "cn_encoded c = cn_written c"
    "cn_accepted c = cn_written c @ cn_queue c"
    using assms by (auto simp: write_inv_def)
  then show ?thesis
    by (cases "cn_queue c") (auto simp: write_inv_def internalWorker_def internalSend_def onSend_front_def write_frames)
qed

lemma write_inv_written:
  assumes "write_inv c" "cn_writing c = Suc k"
  shows "write_inv (onWriteOperation err thr (c\<lparr>cn_writing := k\<rparr>))"
proof -
  have w: "k = 0" "cn_posted c = 0" "cn_queue c \<noteq> []" "cn_dropped c = []"
    "cn_encoded c = cn_written c @ [hd (cn_queue c)]" "cn_accepted c = cn_written c @ cn_queue c"
    using assms by (auto simp: write_inv_def)
  then obtain m ms where q: "cn_queue c = m # ms" by (cases "cn_queue c") auto
  show ?thesis
  proof (cases err)
    case True
    then show ?thesis using w q by (auto simp: write_inv_def onWriteOperation_def write_frames)
  next
    case False
    then show ?thesis using w q
      by (cases ms) (auto simp: write_inv_def onWriteOperation_def internalSend_def onSend_front_def write_frames Let_def)
  qed
qed

lemma life_inv_frame:
  "cn_events d = cn_events c \<Longrightarrow> cn_state d = cn_state c \<Longrightarrow> cn_registered d = cn_registered c \<Longrightarrow> cn_open d = cn_open c
    \<Longrightarrow> life_inv c \<Longrightarrow> life_inv d"
  by (simp add: life_inv_def)

lemma life_inv_closeSocket: "life_inv c \<Longrightarrow> cn_state c = CONNECTION_STATE_CLOSED \<Longrightarrow> life_inv (closeSocket c)"
  using quiet_closeSocket [of c] by (simp add: quiet_def)

lemma life_inv_writers:
  assumes "life_inv c"
  shows "life_inv (conn_send thr m c)" "life_inv (internalWorker thr (c\<lparr>cn_posted := k\<rparr>))"
    "life_inv (onWriteOperation err thr (c\<lparr>cn_writing := k\<rparr>))"
  using assms
  by (auto simp: conn_send_def internalWorker_def onWriteOperation_def internalSend_def onSend_front_def Let_def
      intro!: life_inv_close life_inv_closeSocket intro: life_inv_frame)

lemma closed_writers:
  assumes "cn_state c = CONNECTION_STATE_CLOSED"
  shows "cn_state (conn_send thr m c) = CONNECTION_STATE_CLOSED"
    "cn_state (internalWorker thr (c\<lparr>cn_posted := k\<rparr>)) = CONNECTION_STATE_CLOSED"
    "cn_state (onWriteOperation err thr (c\<lparr>cn_writing := k\<rparr>)) = CONNECTION_STATE_CLOSED"
  using assms
  by (auto simp: conn_send_def internalWorker_def onWriteOperation_def internalSend_def onSend_front_def Let_def write_frames)

lemma conn_step_inv:
  assumes "conn_step serverName maxPackets env c c'" "write_inv c" "life_inv c"
  shows "write_inv c' \<and> life_inv c' \<and> (cn_state c = CONNECTION_STATE_CLOSED \<longrightarrow> cn_state c' = CONNECTION_STATE_CLOSED)"
proof -
  have q: "write_inv c' \<and> life_inv c' \<and> (cn_state c = CONNECTION_STATE_CLOSED \<longrightarrow> cn_state c' = CONNECTION_STATE_CLOSED)"
    if "quiet c c'"
    using that quiet_write_inv [OF that] assms(2,3) by (simp add: quiet_def)
  show ?thesis using assms(1)
  proof (rule conn_stepE)
    fix thr m assume "c' = conn_send thr m c"
    then show ?thesis using assms write_inv_send life_inv_writers(1) closed_writers(1) by simp
  next
    fix k thr assume "c' = internalWorker thr (c\<lparr>cn_posted := k\<rparr>)" "cn_posted c = Suc k"
    then show ?thesis using assms write_inv_worker life_inv_writers(2) closed_writers(2) by simp
  next
    fix k err thr assume "c' = onWriteOperation err thr (c\<lparr>cn_writing := k\<rparr>)" "cn_writing c = Suc k"
    then show ?thesis using assms write_inv_written life_inv_writers(3) closed_writers(3) by simp
  qed (use q quiet_conn_read quiet_timeout quiet_close quiet_resume in simp)+
qed

lemma new_conn_inv: "write_inv (new_conn now)" "life_inv (new_conn now)"
  by (simp_all add: write_inv_def life_inv_def new_conn_def)

lemma conn_reach_inv: "conn_reach serverName maxPackets env c \<Longrightarrow> write_inv c \<and> life_inv c"
proof (induction rule: conn_reach.induct)
  case (accepted thr now)
  let ?c = "(new_conn now)\<lparr>cn_state := CONNECTION_STATE_IDENTIFYING, cn_protocol := True, cn_events := cn_events (new_conn now) @ [OnConnect]\<rparr>"
  have i: "write_inv ?c" "life_inv ?c" by (simp_all add: write_inv_def life_inv_def new_conn_def)
  have q: "quiet ?c (conn_accept thr (new_conn now))" by (simp add: conn_accept_def acceptInternal_def quiet_via)
  show ?case using quiet_write_inv [OF q i(1)] q i(2) by (simp add: quiet_def)
next
  case (waiting thr now)
  have q: "quiet (new_conn now) (acceptInternal thr True (new_conn now))"
    by (simp add: acceptInternal_def quiet_via)
  show ?case using quiet_write_inv [OF q new_conn_inv(1)] q new_conn_inv(2) by (simp add: quiet_def)
next
  case (step c c')
  then show ?case using conn_step_inv by blast
qed

text \<open>
  C15: Whatever the peer, the timers and the game do, the bytes written to the socket are the
  accepted messages in the order of their acceptance, each passed to the protocol (which
  encrypts it in place) exactly once and before it is written; what is neither written nor
  waiting was dropped by an error, and then the connection is closed.  The protocol object is
  released at most once and only when the connection is closed.
\<close>

theorem messages_in_order:
  assumes "conn_reach serverName maxPackets env c"
  shows "cn_accepted c = cn_written c @ cn_dropped c @ cn_queue c
    \<and> prefix (cn_written c) (cn_encoded c) \<and> prefix (cn_encoded c) (cn_accepted c)
    \<and> length (cn_encoded c) \<le> length (cn_written c) + 1
    \<and> (cn_dropped c \<noteq> [] \<longrightarrow> cn_state c = CONNECTION_STATE_CLOSED)
    \<and> length (filter (\<lambda>e. e = Release) (cn_events c)) \<le> 1
    \<and> (Release \<in> set (cn_events c) \<longrightarrow> cn_state c = CONNECTION_STATE_CLOSED)"
proof -
  note i = conn_reach_inv [OF assms]
  have "cn_encoded c = cn_written c \<or> (\<exists>m ms. cn_dropped c @ cn_queue c = m # ms \<and> cn_encoded c = cn_written c @ [m])"
    "cn_accepted c = cn_written c @ cn_dropped c @ cn_queue c"
    using i by (auto simp: write_inv_def)
  then have "prefix (cn_written c) (cn_encoded c) \<and> prefix (cn_encoded c) (cn_accepted c)
      \<and> length (cn_encoded c) \<le> length (cn_written c) + 1" by (auto simp: prefix_def)
  then show ?thesis using i by (auto simp: write_inv_def life_inv_def)
qed

definition example_env :: proto_env where
  "example_env = \<lparr>pe_make = (\<lambda>_ m. (True, m)), pe_first = (\<lambda>m. m), pe_recv = (\<lambda>m. (False, m))\<rparr>"

text \<open>Two messages are accepted; the second write fails, so the third message is dropped.\<close>

definition example_conn :: conn where
  "example_conn = (let c = acceptInternal False True (new_conn 100);
     c = conn_send False 1 c; c = conn_send False 2 c; c = internalWorker False (c\<lparr>cn_posted := 0\<rparr>);
     c = conn_send False 3 c; c = onWriteOperation False False (c\<lparr>cn_writing := 0\<rparr>)
     in onWriteOperation True False (c\<lparr>cn_writing := 0\<rparr>))"

theorem messages_in_order_witness:
  "prefix (cn_written example_conn) (cn_encoded example_conn) \<and> cn_accepted example_conn = [1, 2, 3]
    \<and> cn_written example_conn = [1] \<and> cn_encoded example_conn = [1, 2] \<and> cn_dropped example_conn = [2, 3]"
proof -
  let ?r = "conn_reach [] 100 example_env"
  define c0 where "c0 = acceptInternal False True (new_conn 100)"
  define c1 where "c1 = conn_send False 2 (conn_send False 1 c0)"
  define c2 where "c2 = conn_send False 3 (internalWorker False (c1\<lparr>cn_posted := 0\<rparr>))"
  define c3 where "c3 = onWriteOperation False False (c2\<lparr>cn_writing := 0\<rparr>)"
  note defs = c0_def c1_def c2_def c3_def conn_send_def internalWorker_def internalSend_def onSend_front_def
    onWriteOperation_def acceptInternal_def start_read_def new_conn_def
  have e: "example_conn = onWriteOperation True False (c3\<lparr>cn_writing := 0\<rparr>)"
    by (simp add: example_conn_def c0_def c1_def c2_def c3_def Let_def)
  have "?r c0" unfolding c0_def by (rule conn_reach.waiting)
  then have "?r c1" unfolding c1_def by (rule conn_reach.step [OF conn_reach.step [OF _ conn_step.send] conn_step.send])
  moreover have "cn_posted c1 = Suc 0" by (simp add: defs)
  ultimately have "?r (internalWorker False (c1\<lparr>cn_posted := 0\<rparr>))"
    using conn_reach.step conn_step.worker by blast
  then have "?r c2" unfolding c2_def by (rule conn_reach.step [OF _ conn_step.send])
  moreover have "cn_writing c2 = Suc 0" by (simp add: defs)
  ultimately have "?r c3" unfolding c3_def using conn_reach.step conn_step.written by blast
  moreover have "cn_writing c3 = Suc 0" by (simp add: defs)
  ultimately have "?r example_conn" unfolding e using conn_reach.step conn_step.written by blast
  moreover have "cn_accepted example_conn = [1, 2, 3] \<and> cn_written example_conn = [1] \<and> cn_encoded example_conn = [1, 2]
      \<and> cn_dropped example_conn = [2, 3]"
    by code_simp
  ultimately show ?thesis using messages_in_order by blast
qed

text \<open>
  A connection that was closed gracefully while a message was on its way is not closed by the
  write timer any more: \<open>close\<close> returns at once on a closed connection, even when forced, so with a
  peer that stops reading the socket stays open after any number of timeouts.
\<close>

theorem stalled_close_keeps_socket:
  assumes "cn_state c \<noteq> CONNECTION_STATE_CLOSED" "cn_queue c \<noteq> []" "cn_open c"
  shows "cn_open ((handleTimeout False ^^ n) (conn_close False c))"
proof -
  let ?d = "conn_close False c"
  have "cn_state ?d = CONNECTION_STATE_CLOSED" "cn_open ?d"
    using assms by (simp_all add: conn_close_def Let_def)
  then have "cn_state ((handleTimeout False ^^ n) ?d) = CONNECTION_STATE_CLOSED \<and> cn_open ((handleTimeout False ^^ n) ?d)"
    by (induction n) (simp_all add: handleTimeout_def conn_close_def)
  then show ?thesis by blast
qed

theorem stalled_close_keeps_socket_witness:
  "cn_open ((handleTimeout False ^^ 5) (conn_close False (conn_send False 1 (new_conn 100))))"
  using stalled_close_keeps_socket [of "conn_send False 1 (new_conn 100)" 5]
  by (simp add: conn_send_def new_conn_def Let_def)

subsection \<open>The autosend pool\<close>

text \<open>The protocols with buffered output; \<open>current\<close> gives the buffer of each, which sending moves out.\<close>

record autosend_pool =
  as_protocols :: "nat list"
  as_current :: "nat \<Rightarrow> nat option"
  as_sent :: "(nat \<times> nat) list"
  as_scheduled :: nat

definition scheduleSendAll :: "autosend_pool \<Rightarrow> autosend_pool" where
  "scheduleSendAll p = p\<lparr>as_scheduled := as_scheduled p + 1\<rparr>"

fun send_buffers :: "nat list \<Rightarrow> autosend_pool \<Rightarrow> autosend_pool" where
  "send_buffers [] p = p"
| "send_buffers (i # is) p = (case as_current p i of None \<Rightarrow> send_buffers is p
     | Some m \<Rightarrow> send_buffers is (p\<lparr>as_current := (as_current p)(i := None), as_sent := as_sent p @ [(i, m)]\<rparr>))"

definition sendAll :: "autosend_pool \<Rightarrow> autosend_pool" where
  "sendAll p = (let p = send_buffers (as_protocols p) p in
     if as_protocols p \<noteq> [] then scheduleSendAll p else p)"

definition addProtocolToAutosend :: "nat \<Rightarrow> autosend_pool \<Rightarrow> autosend_pool" where
  "addProtocolToAutosend i p = (let p = (if as_protocols p = [] then scheduleSendAll p else p)
     in p\<lparr>as_protocols := as_protocols p @ [i]\<rparr>)"

fun replace_first :: "nat \<Rightarrow> nat \<Rightarrow> nat list \<Rightarrow> nat list" where
  "replace_first i x [] = []"
| "replace_first i x (j # js) = (if j = i then x # js else j # replace_first i x js)"

definition removeProtocolFromAutosend :: "nat \<Rightarrow> autosend_pool \<Rightarrow> autosend_pool" where
  "removeProtocolFromAutosend i p = (if i \<in> set (as_protocols p)
     then p\<lparr>as_protocols := butlast (replace_first i (last (as_protocols p)) (as_protocols p))\<rparr> else p)"

lemma mset_replace_first: "i \<in> set js \<Longrightarrow> mset (replace_first i x js) = mset js - {#i#} + {#x#}"
proof (induction js)
  case (Cons j js)
  then show ?case by (cases "i = j") auto
qed simp

lemma replace_first_Nil [simp]: "replace_first i x js = [] \<longleftrightarrow> js = []"
  by (cases js) auto

lemma last_replace_first: "js \<noteq> [] \<Longrightarrow> last (replace_first i (last js) js) = last js"
  by (induction js) auto

lemma removeProtocol_mset:
  "i \<in> set (as_protocols p) \<Longrightarrow> mset (as_protocols (removeProtocolFromAutosend i p)) = mset (as_protocols p) - {#i#}"
proof -
  assume i: "i \<in> set (as_protocols p)"
  let ?l = "last (as_protocols p)" and ?r = "replace_first i (last (as_protocols p)) (as_protocols p)"
  have n: "as_protocols p \<noteq> []" using i by auto
  have "mset ?r = add_mset ?l (mset (butlast ?r))"
    using append_butlast_last_id [of ?r] last_replace_first [OF n, of i] n
    by (metis add_mset_add_single mset.simps(1) mset.simps(2) mset_append replace_first_Nil)
  moreover have "mset ?r = add_mset ?l (mset (as_protocols p) - {#i#})" using mset_replace_first [OF i] by simp
  ultimately show ?thesis using i by (simp add: removeProtocolFromAutosend_def)
qed

end
