(* ===== verification/Otb.thy ===== *)
theory Otb
  imports Prelude
begin

text \<open>
  Binary node files: \<open>io/fileloader.hpp\<close> and \<open>io/fileloader.cpp\<close>.  A node is written as a start byte,
  a type byte, its properties and its children, and an end byte; a byte that looks like one of the
  three control bytes is preceded by an escape byte.  The loader keeps offsets into the file, the
  property stream reads what lies between them after the escapes are taken out.  Offsets are
  natural numbers; an exception is the left summand.
\<close>

abbreviation ESCAPE :: u8 where "ESCAPE \<equiv> 0xFD"
abbreviation START :: u8 where "START \<equiv> 0xFE"
abbreviation END :: u8 where "END \<equiv> 0xFF"

datatype load_error = InvalidOTBFormat

datatype otb_node = OtbNode (nd_type: u8) (nd_propsBegin: nat) (nd_propsEnd: nat) (nd_children: "otb_node list")

subsection \<open>The loader\<close>

definition loader_open :: "u8 list \<Rightarrow> u8 list \<Rightarrow> load_error + unit" where
  "loader_open acceptedIdentifier file =
    (if length file \<le> 7 then Inl InvalidOTBFormat
     else let fileIdentifier = take 4 file in
       if fileIdentifier \<noteq> acceptedIdentifier \<and> fileIdentifier \<noteq> [0, 0, 0, 0] then Inl InvalidOTBFormat
       else Inr ())"

text \<open>Before the first child starts, and at the end of a node without children, the properties end.\<close>

definition end_props :: "nat \<Rightarrow> otb_node \<Rightarrow> otb_node" where
  "end_props it n = (if nd_children n = [] then OtbNode (nd_type n) (nd_propsBegin n) it [] else n)"

definition add_child :: "otb_node \<Rightarrow> otb_node \<Rightarrow> otb_node" where
  "add_child c n = OtbNode (nd_type n) (nd_propsBegin n) (nd_propsEnd n) (nd_children n @ [c])"

text \<open>
  The loop of \<open>parseTree\<close> at offset \<open>it\<close>, with the bytes that are left.  The stack holds the open
  nodes, innermost first; a node joins the children of its parent when it is closed (in the code it
  is already there and is completed in place, but it is looked at only through the stack).
\<close>

fun parse_loop :: "nat \<Rightarrow> u8 list \<Rightarrow> otb_node list \<Rightarrow> otb_node \<Rightarrow> load_error + otb_node" where
  "parse_loop it [] stack root = (if stack \<noteq> [] then Inl InvalidOTBFormat else Inr root)"
| "parse_loop it (b # bs) stack root =
    (if b = START then
       (case stack of [] \<Rightarrow> Inl InvalidOTBFormat
        | cur # stack \<Rightarrow> (case bs of [] \<Rightarrow> Inl InvalidOTBFormat
            | ty # bs \<Rightarrow> parse_loop (it + 2) bs (OtbNode ty (it + 2) 0 [] # end_props it cur # stack) root))
     else if b = END then
       (case stack of [] \<Rightarrow> Inl InvalidOTBFormat
        | [cur] \<Rightarrow> parse_loop (it + 1) bs [] (end_props it cur)
        | cur # par # stack \<Rightarrow> parse_loop (it + 1) bs (add_child (end_props it cur) par # stack) root)
     else if b = ESCAPE then
       (case bs of [] \<Rightarrow> Inl InvalidOTBFormat | _ # bs \<Rightarrow> parse_loop (it + 2) bs stack root)
     else parse_loop (it + 1) bs stack root)"

definition parseTree :: "u8 list \<Rightarrow> load_error + otb_node" where
  "parseTree file = (if file ! 4 \<noteq> START then Inl InvalidOTBFormat
     else let root = OtbNode (file ! 5) 6 0 [] in parse_loop 6 (drop 6 file) [root] root)"

definition load_tree :: "u8 list \<Rightarrow> u8 list \<Rightarrow> load_error + otb_node" where
  "load_tree acceptedIdentifier file = (case loader_open acceptedIdentifier file of Inl e \<Rightarrow> Inl e | Inr _ \<Rightarrow> parseTree file)"

text \<open>The copy that leaves the escapes out.\<close>

fun unescape :: "bool \<Rightarrow> u8 list \<Rightarrow> u8 list" where
  "unescape lastEscaped [] = []"
| "unescape lastEscaped (b # bs) = (let lastEscaped = (b = ESCAPE \<and> \<not> lastEscaped) in
     if lastEscaped then unescape True bs else b # unescape False bs)"

definition getProps :: "u8 list \<Rightarrow> otb_node \<Rightarrow> u8 list option" where
  "getProps file n = (if nd_propsEnd n - nd_propsBegin n = 0 then None
     else Some (unescape False (take (nd_propsEnd n - nd_propsBegin n) (drop (nd_propsBegin n) file))))"

subsection \<open>Property streams\<close>

text \<open>The stream is what lies between its two pointers; \<open>None\<close> is the answer false, which leaves it as it is.\<close>

definition ps_read :: "nat \<Rightarrow> u8 list \<Rightarrow> (nat \<times> u8 list) option" where
  "ps_read w p = (if length p < w then None else Some (le_to_nat (take w p), drop w p))"

definition ps_readString :: "u8 list \<Rightarrow> (u8 list \<times> u8 list) option" where
  "ps_readString p = (case ps_read 2 p of None \<Rightarrow> None
     | Some (strLen, p) \<Rightarrow> if length p < strLen then None else Some (take strLen p, drop strLen p))"

definition ps_skip :: "nat \<Rightarrow> u8 list \<Rightarrow> u8 list option" where
  "ps_skip n p = (if length p < n then None else Some (drop n p))"

definition ps_write :: "nat \<Rightarrow> nat \<Rightarrow> u8 list \<Rightarrow> u8 list" where
  "ps_write w x buffer = buffer @ nat_to_le w x"

definition ps_writeString :: "u8 list \<Rightarrow> u8 list \<Rightarrow> u8 list" where
  "ps_writeString str buffer = (if length str > 65535 then ps_write 2 0 buffer
     else ps_write 2 (length str) buffer @ str)"

lemma ps_read_append [simp]: "ps_read w (nat_to_le w x @ p) = Some (x mod 256 ^ w, p)"
  by (simp add: ps_read_def le_to_nat_nat_to_le)

lemma ps_readString_append: "length str \<le> 65535 \<Longrightarrow> ps_readString (nat_to_le 2 (length str) @ str @ p) = Some (str, p)"
  by (simp add: ps_readString_def)

subsection \<open>The format\<close>

datatype tree = Tree u8 "u8 list" "tree list"

definition is_control :: "u8 \<Rightarrow> bool" where
  "is_control b \<longleftrightarrow> b = ESCAPE \<or> b = START \<or> b = END"

fun escape :: "u8 list \<Rightarrow> u8 list" where
  "escape [] = []"
| "escape (b # bs) = (if is_control b then ESCAPE # b # escape bs else b # escape bs)"

fun serialise :: "tree \<Rightarrow> u8 list" where
  "serialise (Tree ty ps cs) = START # ty # escape ps @ concat (map serialise cs) @ [END]"

text \<open>The node the loader makes of a tree that begins at offset \<open>p\<close>, and of a list of them.\<close>

fun node_at :: "nat \<Rightarrow> tree \<Rightarrow> otb_node" and nodes_at :: "nat \<Rightarrow> tree list \<Rightarrow> otb_node list" where
  "node_at p (Tree ty ps cs) =
     (let e = p + 2 + length (escape ps) in OtbNode ty (p + 2) e (nodes_at e cs))"
| "nodes_at p [] = []"
| "nodes_at p (t # ts) = node_at p t # nodes_at (p + length (serialise t)) ts"

lemma unescape_escape [simp]: "unescape False (escape bs) = bs"
  by (induction bs) (auto simp: is_control_def)

lemma parse_escape:
  "parse_loop it (escape ps @ bs) st root = parse_loop (it + length (escape ps)) bs st root"
  by (induction ps arbitrary: it) (auto simp: is_control_def)

lemma end_props_again [simp]: "nd_children n \<noteq> [] \<Longrightarrow> end_props it n = n"
  by (simp add: end_props_def)

lemma add_child_sel [simp]:
  "nd_children (add_child c n) = nd_children n @ [c]" "nd_type (add_child c n) = nd_type n"
  "nd_propsBegin (add_child c n) = nd_propsBegin n" "nd_propsEnd (add_child c n) = nd_propsEnd n"
  by (simp_all add: add_child_def)

text \<open>Adding the children of a node one after the other.\<close>

fun add_children :: "otb_node list \<Rightarrow> otb_node \<Rightarrow> otb_node" where
  "add_children [] n = n"
| "add_children (c # cs) n = add_children cs (add_child c n)"

lemma add_children_eq: "add_children cs n = OtbNode (nd_type n) (nd_propsBegin n) (nd_propsEnd n) (nd_children n @ cs)"
  by (induction cs arbitrary: n) simp_all

definition closed_list :: "nat \<Rightarrow> otb_node list \<Rightarrow> otb_node \<Rightarrow> otb_node" where
  "closed_list it cs par = (if cs = [] then par else add_children cs (end_props it par))"

lemma nodes_at_eq_Nil [simp]: "nodes_at p ts = [] \<longleftrightarrow> ts = []"
  by (cases ts) auto

lemma parse_serialise_both:
  "parse_loop it (serialise t @ bs) (par # st) root =
     parse_loop (it + length (serialise t)) bs (add_child (node_at it t) (end_props it par) # st) root"
  "parse_loop it (concat (map serialise ts) @ bs) (par # st) root =
     parse_loop (it + length (concat (map serialise ts))) bs (closed_list it (nodes_at it ts) par # st) root"
proof (induction it t and it ts arbitrary: bs par st root and bs par st root rule: node_at_nodes_at.induct)
  case (1 p ty ps cs)
  let ?e = "p + 2 + length (escape ps)"
  let ?m = "OtbNode ty (p + 2) 0 []"
  have c: "parse_loop ?e (concat (map serialise cs) @ END # bs) (?m # end_props p par # st) root =
      parse_loop (?e + length (concat (map serialise cs))) (END # bs) (closed_list ?e (nodes_at ?e cs) ?m # end_props p par # st) root"
    by (rule 1) simp
  have e: "end_props (?e + length (concat (map serialise cs))) (closed_list ?e (nodes_at ?e cs) ?m) = node_at p (Tree ty ps cs)"
    by (cases "cs = []") (simp_all add: closed_list_def end_props_def add_children_eq Let_def)
  have "parse_loop p (serialise (Tree ty ps cs) @ bs) (par # st) root =
      parse_loop ?e (concat (map serialise cs) @ END # bs) (?m # end_props p par # st) root"
    by (simp add: parse_escape)
  also have "\<dots> = parse_loop (?e + length (concat (map serialise cs)) + 1) bs
      (add_child (end_props (?e + length (concat (map serialise cs))) (closed_list ?e (nodes_at ?e cs) ?m)) (end_props p par) # st) root"
    unfolding c by simp
  also note e
  also have "?e + length (concat (map serialise cs)) + 1 = p + length (serialise (Tree ty ps cs))" by simp
  finally show ?case .
next
  case (2 p)
  then show ?case by (simp add: closed_list_def)
next
  case (3 p t ts)
  let ?q = "p + length (serialise t)"
  let ?n = "add_child (node_at p t) (end_props p par)"
  have "closed_list ?q (nodes_at ?q ts) ?n = closed_list p (nodes_at p (t # ts)) par"
    by (simp add: closed_list_def)
  then show ?case using 3 by (simp add: add.assoc del: serialise.simps)
qed


text \<open>The root is read by \<open>parseTree\<close> itself, the rest by the loop.\<close>

lemma parse_root:
  "parse_loop 6 (escape ps @ concat (map serialise cs) @ [END]) [OtbNode ty 6 0 []] root = Inr (node_at 4 (Tree ty ps cs))"
proof -
  let ?e = "6 + length (escape ps)" and ?m = "OtbNode ty 6 0 []"
  have "parse_loop ?e (concat (map serialise cs) @ [END]) [?m] root =
      parse_loop (?e + length (concat (map serialise cs))) [END] [closed_list ?e (nodes_at ?e cs) ?m] root"
    by (rule parse_serialise_both)
  then show ?thesis
    by (cases "cs = []") (simp_all add: parse_escape closed_list_def end_props_def add_children_eq Let_def)
qed

lemma parse_file: "length iden = 4 \<Longrightarrow> parseTree (iden @ serialise t) = Inr (node_at 4 t)"
proof (cases t)
  case (Tree ty ps cs)
  assume i: "length iden = 4"
  have d: "drop 6 (iden @ serialise t) = escape ps @ concat (map serialise cs) @ [END]"
    using i Tree by simp
  have n: "(iden @ serialise t) ! 4 = START" "(iden @ serialise t) ! 5 = ty"
    using i Tree by (simp_all add: nth_append)
  show ?thesis unfolding parseTree_def d n using Tree by (simp add: Let_def parse_root del: node_at.simps)
qed

subsection \<open>What a tree means\<close>

text \<open>Reading a loaded tree back: the type, what \<open>getProps\<close> gives for it, and the children.\<close>

fun read_tree :: "u8 list \<Rightarrow> otb_node \<Rightarrow> tree" where
  "read_tree file (OtbNode ty pb pe cs) =
     Tree ty (case getProps file (OtbNode ty pb pe cs) of None \<Rightarrow> [] | Some ps \<Rightarrow> ps) (map (read_tree file) cs)"

lemma escape_Nil [simp]: "escape ps = [] \<longleftrightarrow> ps = []"
  by (cases ps) auto

lemma read_tree_at:
  "length pre = p \<Longrightarrow> read_tree (pre @ serialise t @ post) (node_at p t) = t"
  "length pre = p \<Longrightarrow> map (read_tree (pre @ concat (map serialise ts) @ post)) (nodes_at p ts) = ts"
proof (induction p t and p ts arbitrary: pre post and pre post rule: node_at_nodes_at.induct)
  case (1 p ty ps cs)
  let ?f = "pre @ serialise (Tree ty ps cs) @ post" and ?e = "p + 2 + length (escape ps)"
  have f: "?f = (pre @ [START, ty] @ escape ps) @ concat (map serialise cs) @ ([END] @ post)" by simp
  have "map (read_tree ?f) (nodes_at ?e cs) = cs"
    unfolding f by (rule 1) (use 1 in simp_all)
  moreover have "take (length (escape ps)) (drop (p + 2) ?f) = escape ps" using 1 by simp
  ultimately show ?case by (simp del: serialise.simps add: getProps_def Let_def)
next
  case (3 p t ts)
  let ?f = "pre @ concat (map serialise (t # ts)) @ post"
  have a: "?f = pre @ serialise t @ (concat (map serialise ts) @ post)" by simp
  have b: "?f = (pre @ serialise t) @ concat (map serialise ts) @ post" by simp
  have "read_tree ?f (node_at p t) = t" unfolding a by (rule 3) (rule 3)
  moreover have "map (read_tree ?f) (nodes_at (p + length (serialise t)) ts) = ts"
    unfolding b by (rule 3) (use 3 in simp)
  ultimately show ?case by simp
qed simp

text \<open>
  C16: A file written in the node format under the expected identifier (or the wild card) is
  accepted, and the tree the loader builds has the types, the properties and the children that were
  written, whatever bytes the properties hold.
\<close>

theorem otb_roundtrip:
  assumes "length iden = 4" "iden = accepted \<or> iden = [0, 0, 0, 0]" "t = Tree ty ps cs" "ps \<noteq> [] \<or> cs \<noteq> []"
  shows "\<exists>n. load_tree accepted (iden @ serialise t) = Inr n \<and> read_tree (iden @ serialise t) n = t"
proof -
  have "0 < length (escape ps @ concat (map serialise cs))"
    using assms(4) by (cases cs) (auto elim: serialise.elims)
  then have l: "7 < length (iden @ serialise t)" using assms by simp
  have "loader_open accepted (iden @ serialise t) = Inr ()"
    using l assms(1,2) by (auto simp: loader_open_def Let_def simp del: serialise.simps)
  then have "load_tree accepted (iden @ serialise t) = Inr (node_at 4 t)"
    using assms(1) by (simp add: load_tree_def parse_file)
  moreover have "read_tree (iden @ serialise t @ []) (node_at 4 t) = t"
    by (rule read_tree_at) (rule assms(1))
  ultimately show ?thesis by simp
qed

definition example_tree :: tree where
  "example_tree = Tree 0 [1, 0xFE] [Tree 2 [0xFD, 0xFF] [], Tree 3 [] [Tree 0xFE [7] []]]"

theorem otb_roundtrip_witness:
  "\<exists>n. load_tree [79, 84, 66, 77] ([79, 84, 66, 77] @ serialise example_tree) = Inr n
    \<and> read_tree ([79, 84, 66, 77] @ serialise example_tree) n = example_tree"
  by (rule otb_roundtrip [OF _ _ example_tree_def]) simp_all


subsection \<open>Offsets stay inside the file\<close>

text \<open>
  A closed node: its properties begin before they end, they end at a byte of the file, and every
  child begins after them.
\<close>

fun placed :: "nat \<Rightarrow> otb_node \<Rightarrow> bool" where
  "placed lim (OtbNode ty pb pe cs) \<longleftrightarrow> pb \<le> pe \<and> pe < lim \<and> (\<forall>c\<in>set cs. placed lim c \<and> pe < nd_propsBegin c)"

definition open_ok :: "nat \<Rightarrow> otb_node \<Rightarrow> bool" where
  "open_ok it n \<longleftrightarrow> nd_propsBegin n \<le> it \<and> (if nd_children n = [] then True else placed it n)"

lemma placed_mono: "placed a n \<Longrightarrow> a \<le> b \<Longrightarrow> placed b n"
  by (induction a n rule: placed.induct) auto

lemma placed_Suc: "placed a n \<Longrightarrow> placed (Suc a) n"
  by (rule placed_mono) auto

lemma open_ok_mono: "open_ok a n \<Longrightarrow> a \<le> b \<Longrightarrow> open_ok b n"
  by (auto simp: open_ok_def placed_mono)

lemma placed_end: "open_ok it n \<Longrightarrow> placed (Suc it) (end_props it n)"
  by (cases n) (auto simp: open_ok_def end_props_def intro!: placed_Suc)

lemma open_ok_end: "open_ok it n \<Longrightarrow> open_ok (it + 2) (end_props it n)"
  by (cases n) (auto simp: open_ok_def end_props_def intro!: placed_Suc)

lemma propsBegin_end_props [simp]: "nd_propsBegin (end_props it n) = nd_propsBegin n"
  by (simp add: end_props_def)

text \<open>
  On the stack, every node but the innermost has had its properties ended before the node above it
  began: the stack is ordered.
\<close>

fun stack_ok :: "nat \<Rightarrow> otb_node list \<Rightarrow> bool" where
  "stack_ok it [] \<longleftrightarrow> True"
| "stack_ok it [n] \<longleftrightarrow> open_ok it n"
| "stack_ok it (n # p # st) \<longleftrightarrow> open_ok it n \<and> stack_ok it (p # st)
    \<and> nd_propsBegin p \<le> nd_propsEnd p \<and> nd_propsEnd p < nd_propsBegin n"

lemma stack_ok_mono: "stack_ok a st \<Longrightarrow> a \<le> b \<Longrightarrow> stack_ok b st"
  by (induction a st rule: stack_ok.induct) (auto intro: open_ok_mono)

lemma stack_ok_tl: "stack_ok it (n # st) \<Longrightarrow> stack_ok it st"
  by (cases st) auto

lemma stack_ok_hd: "stack_ok it (n # st) \<Longrightarrow> open_ok it n"
  by (cases st) auto

lemma end_props_ends: "open_ok it n \<Longrightarrow> nd_propsBegin n \<le> nd_propsEnd (end_props it n) \<and> nd_propsEnd (end_props it n) \<le> it"
  by (cases n) (auto simp: open_ok_def end_props_def)

lemma stack_ok_push:
  assumes "stack_ok it (cur # st)"
  shows "stack_ok (it + 2) (OtbNode ty (it + 2) 0 [] # end_props it cur # st)"
proof -
  have o: "open_ok it cur" using assms by (rule stack_ok_hd)
  have "stack_ok (it + 2) (end_props it cur # st)"
    using assms open_ok_end [OF o] by (cases st) (auto intro: stack_ok_mono)
  moreover have "open_ok (it + 2) (OtbNode ty (it + 2) 0 [])" by (simp add: open_ok_def)
  ultimately show ?thesis using end_props_ends [OF o] by simp
qed

lemma open_ok_add:
  assumes "open_ok it p" "placed (Suc it) c" "nd_propsBegin p \<le> nd_propsEnd p" "nd_propsEnd p < nd_propsBegin c"
  shows "open_ok (Suc it) (add_child c p)"
proof (cases p)
  case (OtbNode ty pb pe cs)
  have "nd_propsBegin c \<le> it" using assms(2) by (cases c) auto
  then show ?thesis using assms OtbNode
    by (auto simp: open_ok_def add_child_def split: if_splits intro: placed_mono)
qed

lemma stack_ok_pop:
  assumes "stack_ok it (cur # p # st)"
  shows "stack_ok (it + 1) (add_child (end_props it cur) p # st)"
proof -
  have p: "stack_ok it (p # st)" "nd_propsBegin p \<le> nd_propsEnd p" "nd_propsEnd p < nd_propsBegin cur"
    using assms by auto
  have "open_ok (it + 1) (add_child (end_props it cur) p)"
    using open_ok_add [OF stack_ok_hd [OF p(1)] placed_end [OF stack_ok_hd [OF assms]]] p by simp
  then show ?thesis using p(1) by (cases st) (auto intro: stack_ok_mono)
qed

lemma parse_loop_placed:
  "parse_loop it bs st root = Inr n \<Longrightarrow> stack_ok it st \<Longrightarrow> (st = [] \<Longrightarrow> placed it root) \<Longrightarrow> placed (it + length bs) n"
proof (induction it bs st root rule: parse_loop.induct)
  case (1 it stack root)
  then show ?case by (simp split: if_splits)
next
  case (2 it b bs stack root)
  consider "b = START" | "b = END" | "b = ESCAPE" | "b \<noteq> START" "b \<noteq> END" "b \<noteq> ESCAPE" by blast
  then show ?case
  proof cases
    case 1
    then obtain cur st' ty bs' where s: "stack = cur # st'" "bs = ty # bs'"
      using "2.prems"(1) by (auto split: list.splits)
    from 2(1) [OF 1 s] show ?thesis
      using 1 s "2.prems" stack_ok_push [of it cur st' ty] by simp
  next
    case e: 2
    then obtain cur st' where s: "stack = cur # st'"
      using "2.prems"(1) by (auto split: list.splits)
    show ?thesis
    proof (cases st')
      case Nil
      then show ?thesis using 2(2) e s "2.prems" placed_end [of it cur] by simp
    next
      case (Cons p st'')
      then show ?thesis using 2(3) [of cur st' p st''] e s "2.prems" stack_ok_pop [of it cur p st''] by simp
    qed
  next
    case 3
    then obtain x bs' where s: "bs = x # bs'"
      using "2.prems"(1) by (auto split: list.splits)
    show ?thesis using 2(4) [of x bs'] 3 s "2.prems" stack_ok_mono [of it stack "it + 2"] placed_mono [of it root "it + 2"] by simp
  next
    case 4
    show ?thesis using 2(5) 4 "2.prems" stack_ok_mono [of it stack "it + 1"] placed_mono [of it root "it + 1"] by simp
  qed
qed

text \<open>
  C17: Whatever the file holds, a tree that is accepted is well formed: at every node the
  properties are a range of the file that ends before the file does, and the children lie after it.
\<close>

theorem accepted_tree_well_formed:
  assumes "load_tree accepted file = Inr n"
  shows "placed (length file) n"
proof -
  have l: "7 < length file" and p: "parse_loop 6 (drop 6 file) [OtbNode (file ! 5) 6 0 []] (OtbNode (file ! 5) 6 0 []) = Inr n"
    using assms by (auto simp: load_tree_def loader_open_def parseTree_def Let_def split: if_splits sum.splits)
  have "placed (6 + length (drop 6 file)) n"
    by (rule parse_loop_placed [OF p]) (simp_all add: open_ok_def)
  then show ?thesis using l by simp
qed

theorem accepted_tree_well_formed_witness: "\<exists>n. load_tree [79, 84, 66, 77] [0, 0, 0, 0, START, 1, 5, START, 2, 6, END, 9, END] = Inr n
    \<and> placed 13 n"
proof -
  have r: "load_tree [79, 84, 66, 77] [0, 0, 0, 0, START, 1, 5, START, 2, 6, END, 9, END] = Inr (OtbNode 1 6 7 [OtbNode 2 9 10 []])"
    by code_simp
  show ?thesis using accepted_tree_well_formed [OF r] r by simp
qed

end
