(* ===== verification/FileStream.thy ===== *)
theory FileStream
  imports Otb
begin

text \<open>
  The stream the map loader reads: \<open>io/filestream.hpp\<close> and \<open>io/filestream.cpp\<close>.  It holds the bytes
  of the file, a 32-bit position and the number of open nodes; inside a node a byte that follows an
  escape byte is taken literally.  A reader is a function from the state to an error or a value and
  the new state; the errors are the exceptions of the code and \<open>Out_of_bounds\<close> for an access behind
  the end of the vector, which the code does not check.  The state type is left open so that the map
  loader can extend it.
\<close>

datatype fs_error = Seek_failed | Read_failed | Failed_to_getU8 | String_read_failed | String_too_big
  | Size_overflow | Out_of_bounds | IOMapException | Out_of_fuel

record filestream =
  fs_data :: "u8 list"
  fs_pos :: u32
  fs_nodes :: u32

type_synonym ('s, 'a) reader = "'s \<Rightarrow> fs_error + ('a \<times> 's)"

subsection \<open>Sequencing\<close>

definition fs_return :: "'a \<Rightarrow> ('s, 'a) reader" where
  "fs_return a s = Inr (a, s)"

definition fs_throw :: "fs_error \<Rightarrow> ('s, 'a) reader" where
  "fs_throw e s = Inl e"

definition fs_bind :: "('s, 'a) reader \<Rightarrow> ('a \<Rightarrow> ('s, 'b) reader) \<Rightarrow> ('s, 'b) reader" where
  "fs_bind m f s = (case m s of Inl e \<Rightarrow> Inl e | Inr (a, s) \<Rightarrow> f a s)"

definition fs_modify :: "('s \<Rightarrow> 's) \<Rightarrow> ('s, unit) reader" where
  "fs_modify f s = Inr ((), f s)"

text \<open>\<open>while (c()) body\<close>, with a bound on the number of rounds.\<close>

fun fs_while :: "nat \<Rightarrow> ('s, bool) reader \<Rightarrow> ('a \<Rightarrow> ('s, 'a) reader) \<Rightarrow> 'a \<Rightarrow> ('s, 'a) reader" where
  "fs_while 0 c body a = fs_throw Out_of_fuel"
| "fs_while (Suc n) c body a = fs_bind c (\<lambda>go. if go then fs_bind (body a) (fs_while n c body) else fs_return a)"

subsection \<open>Positions\<close>

definition fs_advance :: "nat \<Rightarrow> 'r filestream_scheme \<Rightarrow> 'r filestream_scheme" where
  "fs_advance n s = s\<lparr>fs_pos := fs_pos s + word_of_nat n\<rparr>"

definition fs_seek :: "u32 \<Rightarrow> ('r filestream_scheme, unit) reader" where
  "fs_seek pos s = (if unat pos > length (fs_data s) then Inl Seek_failed else Inr ((), s\<lparr>fs_pos := pos\<rparr>))"

definition fs_skip :: "u32 \<Rightarrow> ('r filestream_scheme, unit) reader" where
  "fs_skip len s = fs_seek (fs_pos s + len) s"

definition fs_size :: "'r filestream_scheme \<Rightarrow> fs_error + u32" where
  "fs_size s = (if length (fs_data s) > 4294967295 then Inl Size_overflow else Inr (word_of_nat (length (fs_data s))))"

definition fs_back :: "u32 \<Rightarrow> ('r filestream_scheme, unit) reader" where
  "fs_back pos = fs_modify (\<lambda>s. s\<lparr>fs_pos := fs_pos s - pos\<rparr>)"

subsection \<open>Numbers and strings\<close>

definition fs_peek :: "('r filestream_scheme, u8) reader" where
  "fs_peek s = (if unat (fs_pos s) < length (fs_data s) then Inr (fs_data s ! unat (fs_pos s), s) else Inl Out_of_bounds)"

text \<open>One byte, after an escape byte when there is one.\<close>

definition escaped_byte :: "('r filestream_scheme, u8) reader" where
  "escaped_byte = fs_bind fs_peek (\<lambda>b. fs_bind (if b = ESCAPE then fs_modify (fs_advance 1) else fs_return ())
     (\<lambda>_. fs_bind fs_peek (\<lambda>b. fs_bind (fs_modify (fs_advance 1)) (\<lambda>_. fs_return b))))"

fun escaped_bytes :: "nat \<Rightarrow> ('r filestream_scheme, u8 list) reader" where
  "escaped_bytes 0 = fs_return []"
| "escaped_bytes (Suc n) = fs_bind escaped_byte (\<lambda>b. fs_bind (escaped_bytes n) (\<lambda>bs. fs_return (b # bs)))"

definition fs_read :: "nat \<Rightarrow> bool \<Rightarrow> ('r filestream_scheme, u8 list) reader" where
  "fs_read w esc s =
    (if unat (fs_pos s) + w > length (fs_data s) then Inl Read_failed
     else if esc then escaped_bytes w s
     else Inr (take w (drop (unat (fs_pos s)) (fs_data s)), fs_advance w s))"

definition getU8 :: "('r filestream_scheme, u8) reader" where
  "getU8 s = (if unat (fs_pos s + 1) > length (fs_data s) then Inl Failed_to_getU8
     else if fs_nodes s > 0 then escaped_byte s
     else fs_bind fs_peek (\<lambda>b. fs_bind (fs_modify (fs_advance 1)) (\<lambda>_. fs_return b)) s)"

definition getU16 :: "('r filestream_scheme, 16 word) reader" where
  "getU16 s = fs_bind (fs_read 2 (fs_nodes s > 0)) (\<lambda>bs. fs_return (word_of_nat (le_to_nat bs))) s"

definition getU32 :: "('r filestream_scheme, u32) reader" where
  "getU32 s = fs_bind (fs_read 4 (fs_nodes s > 0)) (\<lambda>bs. fs_return (word_of_nat (le_to_nat bs))) s"

definition getU64 :: "('r filestream_scheme, 64 word) reader" where
  "getU64 s = fs_bind (fs_read 8 (fs_nodes s > 0)) (\<lambda>bs. fs_return (word_of_nat (le_to_nat bs))) s"

text \<open>The characters of a string are copied as they stand in the file.\<close>

definition fs_getString :: "('r filestream_scheme, u8 list) reader" where
  "fs_getString = fs_bind getU16 (\<lambda>len s. let n = unat len in
     if n > 0 \<and> n < 8192 then
       (if unat (fs_pos s + word_of_nat n) > length (fs_data s) then Inl String_read_failed
        else Inr (take n (drop (unat (fs_pos s)) (fs_data s)), fs_advance n s))
     else if n \<noteq> 0 then Inl String_too_big else Inr ([], s))"

subsection \<open>Nodes\<close>

definition isProp :: "u8 \<Rightarrow> bool \<Rightarrow> ('r filestream_scheme, bool) reader" where
  "isProp prop toNext = fs_bind getU8 (\<lambda>b. if b = prop
     then fs_bind (if \<not> toNext then fs_back 1 else fs_return ()) (\<lambda>_. fs_return True)
     else fs_bind (fs_back 1) (\<lambda>_. fs_return False))"

definition startNode :: "u8 \<Rightarrow> ('r filestream_scheme, bool) reader" where
  "startNode type = fs_bind getU8 (\<lambda>b. if b = START
     then fs_bind (if type = 0 then fs_return True else fs_bind getU8 (\<lambda>t. fs_return (t = type)))
       (\<lambda>match. if match then fs_bind (fs_modify (\<lambda>s. s\<lparr>fs_nodes := fs_nodes s + 1\<rparr>)) (\<lambda>_. fs_return True)
         else fs_bind (fs_back 1) (\<lambda>_. fs_bind (fs_back 1) (\<lambda>_. fs_return False)))
     else fs_bind (fs_back 1) (\<lambda>_. fs_return False))"

definition endNode :: "('r filestream_scheme, bool) reader" where
  "endNode = fs_bind getU8 (\<lambda>b. if b = END
     then fs_bind (fs_modify (\<lambda>s. s\<lparr>fs_nodes := fs_nodes s - 1\<rparr>)) (\<lambda>_. fs_return True)
     else fs_bind (fs_back 1) (\<lambda>_. fs_return False))"

subsection \<open>What lies ahead\<close>

text \<open>
  A state with its position inside a file of less than four gigabytes (with room for a string); \<open>fs_rest\<close> is what is still to
  be read.  Every reader below is described by how it consumes the rest.
\<close>

definition fs_valid :: "'r filestream_scheme \<Rightarrow> bool" where
  "fs_valid s \<longleftrightarrow> length (fs_data s) < 4294959104 \<and> unat (fs_pos s) \<le> length (fs_data s)"

definition fs_rest :: "'r filestream_scheme \<Rightarrow> u8 list" where
  "fs_rest s = drop (unat (fs_pos s)) (fs_data s)"

named_theorems reader_simps "running a reader"

lemmas [reader_simps] = fs_bind_def fs_return_def fs_modify_def fs_throw_def

lemma unat_advance:
  "fs_valid s \<Longrightarrow> n \<le> length (fs_rest s) \<Longrightarrow> unat (fs_pos s + word_of_nat n) = unat (fs_pos s) + n"
proof -
  assume "fs_valid s" "n \<le> length (fs_rest s)"
  then have "unat (fs_pos s) + n < 4294967296" "n < 4294967296" by (auto simp: fs_valid_def fs_rest_def)
  then show ?thesis by (simp add: unat_word_ariths(1) unat_of_nat)
qed

lemma fs_advance_simps [simp]:
  "fs_data (fs_advance n s) = fs_data s" "fs_nodes (fs_advance n s) = fs_nodes s"
  "fs_pos (fs_advance n s) = fs_pos s + word_of_nat n"
  by (simp_all add: fs_advance_def)

lemma fs_advance_advance: "fs_advance m (fs_advance n s) = fs_advance (n + m) s"
  by (simp add: fs_advance_def add.assoc)

lemma fs_advance_0 [simp]: "fs_advance 0 s = s"
  by (simp add: fs_advance_def)

lemma fs_rest_advance [simp]:
  "fs_valid s \<Longrightarrow> n \<le> length (fs_rest s) \<Longrightarrow> fs_rest (fs_advance n s) = drop n (fs_rest s)"
  by (simp add: fs_rest_def unat_advance add.commute)

lemma fs_valid_advance [simp]: "fs_valid s \<Longrightarrow> n \<le> length (fs_rest s) \<Longrightarrow> fs_valid (fs_advance n s)"
  using unat_advance [of s n] by (auto simp: fs_valid_def fs_rest_def)

lemma length_rest: "fs_valid s \<Longrightarrow> length (fs_rest s) = length (fs_data s) - unat (fs_pos s)"
  by (simp add: fs_rest_def)

lemma fs_peek_rest: "fs_rest s = b # r \<Longrightarrow> fs_peek s = Inr (b, s)"
  by (auto simp: fs_peek_def fs_rest_def nth_via_drop drop_eq_Nil2 not_le [symmetric])

lemma escape_single: "escape [b] = (if is_control b then [ESCAPE, b] else [b])"
  by simp

lemma escaped_byte_rest:
  assumes "fs_valid s" "fs_rest s = escape [b] @ r"
  shows "escaped_byte s = Inr (b, fs_advance (length (escape [b])) s)"
proof (cases "is_control b")
  case True
  then have r: "fs_rest s = ESCAPE # b # r" using assms(2) by simp
  then have r1: "fs_rest (fs_advance 1 s) = b # r" using assms(1) by simp
  show ?thesis using True fs_peek_rest [OF r] fs_peek_rest [OF r1]
    by (simp add: escaped_byte_def fs_advance_advance reader_simps)
next
  case False
  then have r: "fs_rest s = b # r" "b \<noteq> ESCAPE" using assms(2) by (auto simp: is_control_def)
  show ?thesis using False r(2) fs_peek_rest [OF r(1)]
    by (simp add: escaped_byte_def reader_simps)
qed

lemma getU8_guard: "fs_valid s \<Longrightarrow> fs_rest s \<noteq> [] \<Longrightarrow> \<not> unat (fs_pos s + 1) > length (fs_data s)"
  using unat_advance [of s 1] by (cases "fs_rest s") (auto simp: fs_rest_def)

text \<open>Inside a node.\<close>

lemma getU8_rest:
  assumes "fs_valid s" "fs_nodes s > 0" "fs_rest s = escape [b] @ r"
  shows "getU8 s = Inr (b, fs_advance (length (escape [b])) s)"
proof -
  have "fs_rest s \<noteq> []" using assms(3) by simp
  then show ?thesis
    using getU8_guard [OF assms(1)] escaped_byte_rest [OF assms(1,3)] assms(2) by (auto simp: getU8_def)
qed


lemma escaped_bytes_rest:
  assumes "fs_valid s" "fs_rest s = escape bs @ r"
  shows "escaped_bytes (length bs) s = Inr (bs, fs_advance (length (escape bs)) s)"
  using assms
proof (induction bs arbitrary: s)
  case Nil
  then show ?case by (simp add: reader_simps)
next
  case (Cons b bs)
  have e: "escape (b # bs) = escape [b] @ escape bs" by simp
  have r: "fs_rest s = escape [b] @ escape bs @ r" using Cons.prems(2) by (simp only: e append_assoc)
  let ?s = "fs_advance (length (escape [b])) s"
  have l: "length (escape [b]) \<le> length (fs_rest s)" by (simp only: r length_append)
  have "escaped_bytes (length bs) ?s = Inr (bs, fs_advance (length (escape bs)) ?s)"
    by (rule Cons.IH) (use Cons.prems(1) l r in \<open>simp_all del: escape.simps\<close>)
  then show ?case
    unfolding e using escaped_byte_rest [OF Cons.prems(1) r]
    by (simp del: escape.simps add: reader_simps fs_advance_advance)
qed

lemma length_escape: "length bs \<le> length (escape bs)"
  by (induction bs) auto

lemma fs_read_rest:
  assumes "fs_valid s" "fs_rest s = escape bs @ r" "w = length bs"
  shows "fs_read w True s = Inr (bs, fs_advance (length (escape bs)) s)"
proof -
  have "length (fs_rest s) = length (escape bs) + length r" using assms by simp
  then have "\<not> unat (fs_pos s) + w > length (fs_data s)"
    using length_escape [of bs] assms(1,3) by (auto simp: length_rest [OF assms(1)] fs_valid_def)
  then show ?thesis using escaped_bytes_rest [OF assms(1,2)] assms(3) by (simp add: fs_read_def)
qed

lemma le_word [simp]:
  "word_of_nat (le_to_nat (nat_to_le 2 (unat x))) = (x :: 16 word)"
  "word_of_nat (le_to_nat (nat_to_le 4 (unat y))) = (y :: u32)"
  by (simp_all add: le_to_nat_nat_to_le)

lemma getU16_rest:
  "fs_valid s \<Longrightarrow> fs_nodes s > 0 \<Longrightarrow> fs_rest s = escape (nat_to_le 2 (unat x)) @ r \<Longrightarrow>
    getU16 s = Inr (x, fs_advance (length (escape (nat_to_le 2 (unat x)))) s)"
  using fs_read_rest [of s "nat_to_le 2 (unat x)" r 2]
  by (simp del: escape.simps nat_to_le.simps add: getU16_def reader_simps)

lemma getU32_rest:
  "fs_valid s \<Longrightarrow> fs_nodes s > 0 \<Longrightarrow> fs_rest s = escape (nat_to_le 4 (unat x)) @ r \<Longrightarrow>
    getU32 s = Inr (x, fs_advance (length (escape (nat_to_le 4 (unat x)))) s)"
  using fs_read_rest [of s "nat_to_le 4 (unat x)" r 4]
  by (simp del: escape.simps nat_to_le.simps add: getU32_def reader_simps)

lemma fs_getString_rest:
  assumes "fs_valid s" "fs_nodes s > 0" "fs_rest s = escape (nat_to_le 2 (length str)) @ str @ r" "length str < 8192"
  shows "fs_getString s = Inr (str, fs_advance (length (escape (nat_to_le 2 (length str))) + length str) s)"
proof -
  let ?x = "word_of_nat (length str) :: 16 word" and ?k = "length (escape (nat_to_le 2 (length str)))"
  let ?s = "fs_advance ?k s"
  have u: "unat ?x = length str" using assms(4) by (simp add: unat_of_nat)
  have k: "?k \<le> length (fs_rest s)" by (simp only: assms(3) length_append)
  have r: "fs_rest ?s = str @ r" using assms(1,3) k by simp
  have v: "fs_valid ?s" using assms(1) k by simp
  have "getU16 s = Inr (?x, ?s)" using getU16_rest [OF assms(1,2), of ?x "str @ r"] assms(3) u by simp
  moreover have "\<not> unat (fs_pos ?s + word_of_nat (length str)) > length (fs_data ?s)"
    using fs_valid_advance [OF v, of "length str"] r by (simp add: fs_valid_def)
  ultimately show ?thesis
    using r u assms(4) by (auto simp: fs_getString_def fs_rest_def fs_advance_advance reader_simps Let_def)
qed

text \<open>The first byte of a node or of a list of nodes is a control byte, never an escape.\<close>

lemma peek_plain:
  assumes "fs_valid s" "fs_rest s = b # r" "b \<noteq> ESCAPE"
  shows "getU8 s = Inr (b, fs_advance 1 s)"
proof -
  have "escaped_byte s = Inr (b, fs_advance 1 s)"
    using fs_peek_rest [OF assms(2)] assms(3) by (simp add: escaped_byte_def reader_simps)
  then show ?thesis
    using getU8_guard [OF assms(1)] assms(2) fs_peek_rest [OF assms(2)] by (simp add: getU8_def reader_simps)
qed

lemma back_advance: "0 < k \<Longrightarrow> fs_back 1 (fs_advance k s) = Inr ((), fs_advance (k - 1) s)"
  by (simp add: fs_back_def fs_advance_def reader_simps)

lemma startNode_yes:
  assumes "fs_valid s" "fs_rest s = START # t # r" "t \<noteq> ESCAPE" "t \<noteq> 0"
  shows "startNode t s = Inr (True, (fs_advance 2 s)\<lparr>fs_nodes := fs_nodes s + 1\<rparr>)"
proof -
  have "getU8 (fs_advance 1 s) = Inr (t, fs_advance 1 (fs_advance 1 s))"
    by (rule peek_plain) (use assms in simp_all)
  then show ?thesis using peek_plain [OF assms(1,2)] assms(4)
    by (simp add: startNode_def reader_simps fs_advance_advance numeral_2_eq_2)
qed

lemma startNode_any:
  "fs_valid s \<Longrightarrow> fs_rest s = START # r \<Longrightarrow> startNode 0 s = Inr (True, (fs_advance 1 s)\<lparr>fs_nodes := fs_nodes s + 1\<rparr>)"
  using peek_plain [of s START r] by (simp add: startNode_def reader_simps)

lemma startNode_no: "fs_valid s \<Longrightarrow> fs_rest s = END # r \<Longrightarrow> startNode t s = Inr (False, s)"
  using peek_plain [of s END r] by (simp add: startNode_def reader_simps fs_back_def fs_advance_def)

lemma endNode_yes:
  "fs_valid s \<Longrightarrow> fs_rest s = END # r \<Longrightarrow> endNode s = Inr (True, (fs_advance 1 s)\<lparr>fs_nodes := fs_nodes s - 1\<rparr>)"
  using peek_plain [of s END r] by (simp add: endNode_def reader_simps)

lemma isProp_no:
  "fs_valid s \<Longrightarrow> fs_rest s = b # r \<Longrightarrow> b \<noteq> ESCAPE \<Longrightarrow> b \<noteq> p \<Longrightarrow> isProp p toNext s = Inr (False, s)"
  using peek_plain [of s b r] by (simp add: isProp_def reader_simps fs_back_def fs_advance_def)

lemma isProp_yes:
  "fs_valid s \<Longrightarrow> fs_rest s = p # r \<Longrightarrow> p \<noteq> ESCAPE \<Longrightarrow> isProp p True s = Inr (True, fs_advance 1 s)"
  using peek_plain [of s p r] by (simp add: isProp_def reader_simps)

subsection \<open>Readers move forward\<close>

text \<open>
  \<open>fs_le s s'\<close>: the same file, at a later position.  A reader that moves forward never answers
  that the fuel is out, and the bytes left bound the rounds of a loop whose condition consumes some.
\<close>

definition fs_le :: "'r filestream_scheme \<Rightarrow> 'r filestream_scheme \<Rightarrow> bool" where
  "fs_le s s' \<longleftrightarrow> fs_valid s' \<and> fs_data s' = fs_data s \<and> unat (fs_pos s) \<le> unat (fs_pos s')"

definition fs_left :: "'r filestream_scheme \<Rightarrow> nat" where
  "fs_left s = length (fs_data s) - unat (fs_pos s)"

definition forward :: "('r filestream_scheme, 'a) reader \<Rightarrow> 'r filestream_scheme \<Rightarrow> bool" where
  "forward m s \<longleftrightarrow> (case m s of Inl e \<Rightarrow> e \<noteq> Out_of_fuel | Inr (a, s') \<Rightarrow> fs_le s s')"

lemma fs_le_trans: "fs_le s t \<Longrightarrow> fs_le t u \<Longrightarrow> fs_le s u"
  by (auto simp: fs_le_def)

lemma fs_le_refl: "fs_valid s \<Longrightarrow> fs_le s s"
  by (simp add: fs_le_def)

lemma fs_le_valid: "fs_le s t \<Longrightarrow> fs_valid t"
  by (simp add: fs_le_def)

lemma fs_le_left: "fs_le s t \<Longrightarrow> fs_left t \<le> fs_left s"
  by (auto simp: fs_le_def fs_left_def)

lemma forward_return: "fs_valid s \<Longrightarrow> forward (fs_return a) s"
  by (simp add: forward_def fs_return_def fs_le_def)

lemma forward_throw: "e \<noteq> Out_of_fuel \<Longrightarrow> forward (fs_throw e) s"
  by (simp add: forward_def fs_throw_def)

lemma forward_bind:
  assumes "forward m s" "\<And>a s'. m s = Inr (a, s') \<Longrightarrow> fs_le s s' \<Longrightarrow> forward (f a) s'"
  shows "forward (fs_bind m f) s"
proof (cases "m s")
  case (Inl e)
  then show ?thesis using assms(1) by (simp add: forward_def fs_bind_def)
next
  case (Inr p)
  then obtain a s' where p: "m s = Inr (a, s')" by (cases p) auto
  then have le: "fs_le s s'" using assms(1) by (simp add: forward_def)
  have "forward (f a) s'" by (rule assms(2) [OF p le])
  then show ?thesis using p le fs_le_trans [OF le]
    by (auto simp: forward_def fs_bind_def split: sum.splits)
qed

lemma forward_modify:
  "fs_valid s \<Longrightarrow> fs_data (f s) = fs_data s \<Longrightarrow> fs_pos (f s) = fs_pos s \<Longrightarrow> forward (fs_modify f) s"
  by (simp add: forward_def fs_modify_def fs_le_def fs_valid_def)

lemma fs_le_advance: "fs_valid s \<Longrightarrow> k \<le> length (fs_rest s) \<Longrightarrow> fs_le s (fs_advance k s)"
  using unat_advance [of s k] fs_valid_advance [of s k] by (simp add: fs_le_def)

lemma fs_left_advance: "fs_valid s \<Longrightarrow> k \<le> length (fs_rest s) \<Longrightarrow> fs_left (fs_advance k s) = fs_left s - k"
  using unat_advance [of s k] by (simp add: fs_left_def)

text \<open>What one byte costs: one position, or two when it is escaped.\<close>

lemma fs_peek_cases:
  assumes "fs_valid s"
  obtains "fs_peek s = Inl Out_of_bounds" "fs_rest s = []"
  | b r where "fs_peek s = Inr (b, s)" "fs_rest s = b # r"
proof (cases "fs_rest s")
  case Nil
  then show ?thesis using that(1) by (simp add: fs_peek_def fs_rest_def)
next
  case (Cons b r)
  then show ?thesis using that(2) fs_peek_rest by blast
qed

lemma escaped_byte_cases:
  assumes "fs_valid s"
  obtains "escaped_byte s = Inl Out_of_bounds"
  | b k where "escaped_byte s = Inr (b, fs_advance k s)" "0 < k" "k \<le> length (fs_rest s)"
  using assms
proof (cases rule: fs_peek_cases)
  case 1
  then show ?thesis using that(1) by (simp add: escaped_byte_def reader_simps)
next
  case (2 b r)
  show ?thesis
  proof (cases "b = ESCAPE")
    case True
    have "fs_valid (fs_advance 1 s)" "fs_rest (fs_advance 1 s) = r" using assms 2 by simp_all
    then show ?thesis using True 2 that
      by (cases rule: fs_peek_cases [of "fs_advance 1 s"]) (auto simp: escaped_byte_def reader_simps fs_advance_advance)
  next
    case False
    then show ?thesis using 2 that(2) [of b 1] by (simp add: escaped_byte_def reader_simps)
  qed
qed

lemma getU8_cases:
  assumes "fs_valid s"
  obtains e where "getU8 s = Inl e" "e \<noteq> Out_of_fuel"
  | b k where "getU8 s = Inr (b, fs_advance k s)" "0 < k" "k \<le> length (fs_rest s)"
proof (cases "unat (fs_pos s + 1) > length (fs_data s)")
  case True
  then show ?thesis using that(1) by (simp add: getU8_def)
next
  case g: False
  show ?thesis
  proof (cases "fs_nodes s > 0")
    case True
    from assms show ?thesis by (cases rule: escaped_byte_cases) (use g True that in \<open>auto simp: getU8_def\<close>)
  next
    case False
    from assms show ?thesis
      by (cases rule: fs_peek_cases) (use g False that(1) that(2) [of _ 1] in \<open>auto simp: getU8_def reader_simps\<close>)
  qed
qed


lemma forward_getU8: "fs_valid s \<Longrightarrow> forward getU8 s"
  by (rule getU8_cases [of s]) (simp_all add: forward_def fs_le_advance)

lemma forward_escaped_byte: "fs_valid s \<Longrightarrow> forward escaped_byte s"
  by (rule escaped_byte_cases [of s]) (simp_all add: forward_def fs_le_advance)

lemma forward_escaped_bytes: "fs_valid s \<Longrightarrow> forward (escaped_bytes n) s"
proof (induction n arbitrary: s)
  case 0
  then show ?case by (simp add: forward_return)
next
  case (Suc n)
  show ?case unfolding escaped_bytes.simps
    by (intro forward_bind forward_escaped_byte Suc forward_return) (auto dest: fs_le_valid)
qed

lemma forward_read: "fs_valid s \<Longrightarrow> forward (fs_read w esc) s"
proof -
  assume v: "fs_valid s"
  consider "unat (fs_pos s) + w > length (fs_data s)" | "unat (fs_pos s) + w \<le> length (fs_data s)" "esc"
    | "unat (fs_pos s) + w \<le> length (fs_data s)" "\<not> esc" by linarith
  then show ?thesis
  proof cases
    case 2
    then have "fs_read w esc s = escaped_bytes w s" by (simp add: fs_read_def)
    then show ?thesis using forward_escaped_bytes [OF v, of w] by (simp add: forward_def)
  next
    case 3
    then have "w \<le> length (fs_rest s)" using length_rest [OF v] by simp
    then show ?thesis using 3 v by (simp add: forward_def fs_read_def fs_le_advance)
  qed (simp add: forward_def fs_read_def)
qed

lemma forward_number:
  assumes "fs_valid s"
  shows "forward getU16 s" "forward getU32 s" "forward getU64 s"
proof -
  have "forward (fs_bind (fs_read w b) (\<lambda>bs. fs_return (f bs))) s" for w b and f :: "u8 list \<Rightarrow> 'x"
    by (intro forward_bind forward_read forward_return assms) (auto dest: fs_le_valid)
  then show "forward getU16 s" "forward getU32 s" "forward getU64 s"
    by (simp_all add: forward_def getU16_def getU32_def getU64_def)
qed

lemma forward_getString: "fs_valid s \<Longrightarrow> forward fs_getString s"
  unfolding fs_getString_def
proof (rule forward_bind)
  fix a :: "16 word" and s' :: "'a filestream_scheme" assume "fs_le s s'"
  then have v: "fs_valid s'" by (rule fs_le_valid)
  let ?n = "unat a"
  have "?n \<le> length (fs_rest s')" if "?n < 8192" "\<not> unat (fs_pos s' + word_of_nat ?n) > length (fs_data s')"
  proof (rule ccontr)
    assume n: "\<not> ?n \<le> length (fs_rest s')"
    have u: "unat (word_of_nat n :: u32) = n" if "n < 8192" for n using that by (simp add: unat_of_nat)
    have "unat (fs_pos s') + ?n < 4294967296" using v that(1) by (simp add: fs_valid_def)
    then have "unat (fs_pos s' + word_of_nat ?n) = unat (fs_pos s') + ?n"
      using u [OF that(1)] by (simp add: unat_word_ariths(1))
    then show False using that(2) n length_rest [OF v] v by (simp add: fs_valid_def)
  qed
  then show "forward (\<lambda>s. let n = unat a in if n > 0 \<and> n < 8192 then
       (if unat (fs_pos s + word_of_nat n) > length (fs_data s) then Inl String_read_failed
        else Inr (take n (drop (unat (fs_pos s)) (fs_data s)), fs_advance n s))
     else if n \<noteq> 0 then Inl String_too_big else Inr ([], s)) s'"
    using v by (auto simp: forward_def Let_def fs_le_advance fs_le_refl)
qed (rule forward_number)


text \<open>Going back after a byte or two never passes the place where reading began.\<close>

lemma forward_isProp:
  assumes "fs_valid s"
  shows "forward (isProp p toNext) s"
  using assms
proof (cases rule: getU8_cases)
  case (1 e)
  then show ?thesis by (simp add: forward_def isProp_def reader_simps)
next
  case (2 b k)
  have "fs_le s (fs_advance (k - 1) s)" "fs_le s (fs_advance k s)" using assms 2 by (simp_all add: fs_le_advance)
  then show ?thesis using 2 back_advance [OF 2(2), of s]
    by (simp add: forward_def isProp_def reader_simps)
qed

lemma fs_le_nodes [simp]: "fs_le s (s'\<lparr>fs_nodes := n\<rparr>) = fs_le s s'"
  by (simp add: fs_le_def fs_valid_def)

lemma fs_rest_nodes [simp]: "fs_rest (s\<lparr>fs_nodes := n\<rparr>) = fs_rest s" "fs_valid (s\<lparr>fs_nodes := n\<rparr>) = fs_valid s"
  by (simp_all add: fs_rest_def fs_valid_def)

lemma fs_left_nodes [simp]: "fs_left (s\<lparr>fs_nodes := n\<rparr>) = fs_left s"
  by (simp add: fs_left_def)

lemma startNode_cases:
  assumes "fs_valid s"
  obtains e where "startNode t s = Inl e" "e \<noteq> Out_of_fuel"
  | k where "startNode t s = Inr (False, fs_advance k s)" "k \<le> length (fs_rest s)"
  | k n where "startNode t s = Inr (True, (fs_advance k s)\<lparr>fs_nodes := n\<rparr>)" "0 < k" "k \<le> length (fs_rest s)"
  using assms
proof (cases rule: getU8_cases)
  case (1 e)
  then show ?thesis using that(1) by (simp add: startNode_def reader_simps)
next
  case (2 b k)
  let ?s = "fs_advance k s"
  have v: "fs_valid ?s" using assms 2 by simp
  show ?thesis
  proof (cases "b = START \<and> t \<noteq> 0")
    case False
    then show ?thesis using 2 back_advance [OF 2(2), of s] that(2) [of "k - 1"] that(3) [where k = k]
      by (cases "b = START") (auto simp: startNode_def reader_simps)
  next
    case b: True
    from v show ?thesis
    proof (cases rule: getU8_cases)
      case (1 e)
      then show ?thesis using 2 b that(1) by (simp add: startNode_def reader_simps)
    next
      case i: (2 t' j)
      have l: "k + j \<le> length (fs_rest s)" using 2 i assms by simp
      have "fs_back 1 (fs_advance (k + j) s) = Inr ((), fs_advance (k + j - 1) s)"
        "fs_back 1 (fs_advance (k + j - 1) s) = Inr ((), fs_advance (k + j - 2) s)"
        using back_advance [of "k + j" s] back_advance [of "k + j - 1" s] 2 i by (simp_all add: numeral_2_eq_2)
      then show ?thesis using 2 i b l that(2) [of "k + j - 2"] that(3) [where k = "k + j"]
        by (cases "t' = t") (simp_all add: startNode_def reader_simps fs_advance_advance)
    qed
  qed
qed

lemma forward_startNode: "fs_valid s \<Longrightarrow> forward (startNode t) s"
  by (rule startNode_cases [of s t]) (simp_all add: forward_def fs_le_advance)

lemma left_rest: "fs_left s = length (fs_rest s)"
  by (simp add: fs_left_def fs_rest_def)

lemma startNode_consumes:
  "fs_valid s \<Longrightarrow> startNode t s = Inr (True, s') \<Longrightarrow> fs_left s' < fs_left s"
  by (rule startNode_cases [of s t]) (auto simp: fs_left_advance left_rest)

lemma forward_endNode: "fs_valid s \<Longrightarrow> forward endNode s"
proof -
  assume v: "fs_valid s"
  then show ?thesis
  proof (cases rule: getU8_cases)
    case (1 e)
    then show ?thesis by (simp add: forward_def endNode_def reader_simps)
  next
    case (2 b k)
    have "fs_le s (fs_advance (k - 1) s)" "fs_le s (fs_advance k s)" using v 2 by (simp_all add: fs_le_advance)
    then show ?thesis using 2 back_advance [OF 2(2), of s]
      by (simp add: forward_def endNode_def reader_simps)
  qed
qed

lemma forward_skip: "fs_valid s \<Longrightarrow> len < 8192 \<Longrightarrow> forward (fs_skip len) s"
proof -
  assume v: "fs_valid s" and l: "len < 8192"
  then have "unat len < 8192" by (simp add: word_less_nat_alt)
  then have "unat (fs_pos s + len) = unat (fs_pos s) + unat len"
    using v by (simp add: fs_valid_def unat_word_ariths(1))
  then show ?thesis using v by (auto simp: forward_def fs_skip_def fs_seek_def fs_le_def fs_valid_def)
qed

text \<open>
  The loop: with more fuel than bytes left it ends by itself.  Its body may rely on a round having
  consumed something.
\<close>

lemma forward_while:
  assumes "\<And>s. fs_valid s \<Longrightarrow> forward c s"
    and "\<And>s s'. fs_valid s \<Longrightarrow> c s = Inr (True, s') \<Longrightarrow> fs_left s' < fs_left s"
    and "\<And>a s. fs_valid s \<Longrightarrow> fs_left s < l \<Longrightarrow> forward (body a) s"
    and "fs_valid s" "fs_left s \<le> l" "fs_left s < n"
  shows "forward (fs_while n c body a) s"
  using assms(4-6)
proof (induction n arbitrary: a s)
  case 0
  then show ?case by simp
next
  case (Suc n)
  show ?case unfolding fs_while.simps
  proof (rule forward_bind)
    show "forward c s" by (rule assms(1)) (rule Suc.prems)
  next
    fix go s' assume c: "c s = Inr (go, s')" and le: "fs_le s s'"
    show "forward (if go then fs_bind (body a) (fs_while n c body) else fs_return a) s'"
    proof (cases go)
      case True
      then have l: "fs_left s' < fs_left s" using assms(2) [OF Suc.prems(1)] c by simp
      have "forward (fs_bind (body a) (fs_while n c body)) s'"
      proof (rule forward_bind)
        show "forward (body a) s'" using assms(3) le l Suc.prems(2) by (simp add: fs_le_valid)
        show "forward (fs_while n c body b) t" if "fs_le s' t" for b t
          using fs_le_left [OF that] fs_le_valid [OF that] l Suc.prems by (intro Suc.IH) simp_all
      qed
      then show ?thesis using True by simp
    qed (use le in \<open>simp add: forward_return fs_le_valid\<close>)
  qed
qed

lemma escape_append: "escape (xs @ ys) = escape xs @ escape ys"
  by (induction xs) auto

lemma escape_plain: "list_all (\<lambda>c. \<not> is_control c) str \<Longrightarrow> escape str = str"
  by (induction str) auto

text \<open>
  C18: The characters of a string are not unescaped.  A name whose last byte has to be escaped is
  read with the escape byte in its place, and the byte itself is left in the stream, to be taken for
  what follows; the property stream of the other loader reads the same bytes as they were meant.
\<close>

theorem strings_keep_escapes:
  assumes "fs_valid s" "fs_nodes s > 0" "prop = nat_to_le 2 (length (str @ [b])) @ str @ [b]"
    and "fs_rest s = escape prop @ r" "length str < 8191" "list_all (\<lambda>c. \<not> is_control c) str" "is_control b"
  shows "\<exists>s'. fs_getString s = Inr (str @ [ESCAPE], s') \<and> fs_rest s' = b # r
    \<and> ps_readString (unescape False (escape prop)) = Some (str @ [b], [])"
proof -
  let ?n = "nat_to_le 2 (length (str @ [b]))"
  have r: "fs_rest s = escape ?n @ (str @ [ESCAPE]) @ (b # r)"
    using assms(3,4,7) by (simp add: escape_append escape_plain [OF assms(6)])
  have "fs_getString s = Inr (str @ [ESCAPE], fs_advance (length (escape ?n) + length (str @ [ESCAPE])) s)"
    using fs_getString_rest [OF assms(1,2), of "str @ [ESCAPE]" "b # r"] r assms(5) by simp
  moreover have "fs_rest (fs_advance (length (escape ?n) + length (str @ [ESCAPE])) s) = b # r"
    using assms(1) r by simp
  moreover have "ps_readString (unescape False (escape prop)) = Some (str @ [b], [])"
    using ps_readString_append [of "str @ [b]" "[]"] assms(3,5) by simp
  ultimately show ?thesis by blast
qed

theorem strings_keep_escapes_witness:
  "\<exists>s'. fs_getString \<lparr>fs_data = [3, 0, 65, 66, ESCAPE, 0xFD, 7, 0], fs_pos = 0, fs_nodes = 1\<rparr> = Inr ([65, 66, ESCAPE], s')
    \<and> fs_rest s' = [0xFD, 7, 0] \<and> ps_readString (unescape False (escape [3, 0, 65, 66, 0xFD])) = Some ([65, 66, 0xFD], [])"
proof -
  let ?s = "\<lparr>fs_data = [3, 0, 65, 66, ESCAPE, 0xFD, 7, 0], fs_pos = 0, fs_nodes = 1\<rparr>"
  have "\<exists>s'. fs_getString ?s = Inr ([65, 66] @ [ESCAPE], s') \<and> fs_rest s' = 0xFD # [7, 0]
      \<and> ps_readString (unescape False (escape [3, 0, 65, 66, 0xFD])) = Some ([65, 66] @ [0xFD], [])"
  proof (rule strings_keep_escapes [where r = "[7, 0]"])
    show "fs_valid ?s" by (simp add: fs_valid_def)
    show "[3, 0, 65, 66, 0xFD] = nat_to_le 2 (length ([65, 66] @ [0xFD :: u8])) @ [65, 66] @ [0xFD]" by code_simp
    show "fs_rest ?s = escape [3, 0, 65, 66, 0xFD] @ [7, 0]" by code_simp
    show "length [65, 66 :: u8] < 8191" by simp
    show "list_all (\<lambda>c. \<not> is_control c) [65, 66]" "is_control 0xFD" by code_simp+
  qed simp
  then show ?thesis by (simp only: append.simps)
qed

end
