(* ===== verification/Sectors.thy ===== *)
theory Sectors
  imports Position "HOL-Library.Multiset"
begin

text \<open>
  The map as a grid of sectors: \<open>map/utils/mapsector.hpp\<close>, \<open>map/utils/mapsector.cpp\<close>, the sector
  part of \<open>map/mapcache.hpp\<close> and \<open>map/mapcache.cpp\<close>, and the tile accessors of \<open>map/map.cpp\<close>.  A
  sector covers 16 times 16 positions on all floors, lists the creatures on it, and points to the
  sectors south and east of it.  A pointer to a sector is its key in the table of sectors; creatures
  are numbers, and the two kinds of tile (made, and still in the map cache) are type parameters.
\<close>

unbundle bit_operations_syntax

abbreviation SECTOR_SIZE :: u32 where "SECTOR_SIZE \<equiv> 16"
abbreviation "MAP_MAX_LAYERS \<equiv> 16 :: nat"

record ('a, 'b) floor_map =
  fl_tile :: "nat \<times> nat \<Rightarrow> 'a option"
  fl_cache :: "nat \<times> nat \<Rightarrow> 'b option"

record ('a, 'b) sector =
  sc_S :: "u32 option"
  sc_E :: "u32 option"
  sc_creatures :: "nat list"
  sc_players :: "nat list"
  sc_floors :: "nat \<Rightarrow> ('a, 'b) floor_map option"

type_synonym ('a, 'b) sectors = "u32 \<Rightarrow> ('a, 'b) sector option"

subsection \<open>Floors\<close>

definition cell :: "16 word \<Rightarrow> 16 word \<Rightarrow> nat \<times> nat" where
  "cell x y = (unat (x AND 15), unat (y AND 15))"

definition new_floor :: "('a, 'b) floor_map" where
  "new_floor = \<lparr>fl_tile = \<lambda>_. None, fl_cache = \<lambda>_. None\<rparr>"

definition floor_getTile :: "16 word \<Rightarrow> 16 word \<Rightarrow> ('a, 'b) floor_map \<Rightarrow> 'a option" where
  "floor_getTile x y f = fl_tile f (cell x y)"

definition floor_setTile :: "16 word \<Rightarrow> 16 word \<Rightarrow> 'a option \<Rightarrow> ('a, 'b) floor_map \<Rightarrow> ('a, 'b) floor_map" where
  "floor_setTile x y t f = f\<lparr>fl_tile := (fl_tile f)(cell x y := t)\<rparr>"

definition getTileCache :: "16 word \<Rightarrow> 16 word \<Rightarrow> ('a, 'b) floor_map \<Rightarrow> 'b option" where
  "getTileCache x y f = fl_cache f (cell x y)"

definition setTileCache :: "16 word \<Rightarrow> 16 word \<Rightarrow> 'b option \<Rightarrow> ('a, 'b) floor_map \<Rightarrow> ('a, 'b) floor_map" where
  "setTileCache x y t f = f\<lparr>fl_cache := (fl_cache f)(cell x y := t)\<rparr>"

subsection \<open>Sectors\<close>

definition new_sector :: "('a, 'b) sector" where
  "new_sector = \<lparr>sc_S = None, sc_E = None, sc_creatures = [], sc_players = [], sc_floors = \<lambda>_. None\<rparr>"

definition createFloor :: "nat \<Rightarrow> ('a, 'b) sector \<Rightarrow> ('a, 'b) floor_map \<times> ('a, 'b) sector" where
  "createFloor z s = (case sc_floors s z of Some f \<Rightarrow> (f, s)
     | None \<Rightarrow> (new_floor, s\<lparr>sc_floors := (sc_floors s)(z \<mapsto> new_floor)\<rparr>))"

definition sector_addCreature :: "bool \<Rightarrow> nat \<Rightarrow> ('a, 'b) sector \<Rightarrow> ('a, 'b) sector" where
  "sector_addCreature is_player c s = (let s = s\<lparr>sc_creatures := sc_creatures s @ [c]\<rparr> in
     if is_player then s\<lparr>sc_players := sc_players s @ [c]\<rparr> else s)"

text \<open>The last entry takes the place of the one that leaves.\<close>

fun swap_out :: "nat \<Rightarrow> nat list \<Rightarrow> nat list" where
  "swap_out c [] = []"
| "swap_out c (d # ds) = (if d = c then (if ds = [] then [] else last ds # butlast ds) else d # swap_out c ds)"

definition sector_removeCreature :: "bool \<Rightarrow> nat \<Rightarrow> ('a, 'b) sector \<Rightarrow> ('a, 'b) sector" where
  "sector_removeCreature is_player c s =
    (if c \<notin> set (sc_creatures s) then s
     else let s = s\<lparr>sc_creatures := swap_out c (sc_creatures s)\<rparr> in
       if is_player then if c \<notin> set (sc_players s) then s else s\<lparr>sc_players := swap_out c (sc_players s)\<rparr>
       else s)"

subsection \<open>The table of sectors\<close>

definition sector_index :: "u32 \<Rightarrow> u32 \<Rightarrow> u32" where
  "sector_index x y = x div SECTOR_SIZE OR push_bit 16 (y div SECTOR_SIZE)"

definition getMapSector :: "u32 \<Rightarrow> u32 \<Rightarrow> ('a, 'b) sectors \<Rightarrow> u32 option" where
  "getMapSector x y m = (if m (sector_index x y) \<noteq> None then Some (sector_index x y) else None)"

text \<open>The flag is \<open>MapSector::newSector\<close>.\<close>

definition createMapSector :: "u32 \<Rightarrow> u32 \<Rightarrow> ('a, 'b) sectors \<Rightarrow> u32 \<times> bool \<times> ('a, 'b) sectors" where
  "createMapSector x y m = (let index = sector_index x y in
     if m index \<noteq> None then (index, False, m) else (index, True, m(index \<mapsto> new_sector)))"

definition update_sector :: "u32 \<Rightarrow> (('a, 'b) sector \<Rightarrow> ('a, 'b) sector) \<Rightarrow> ('a, 'b) sectors \<Rightarrow> ('a, 'b) sectors" where
  "update_sector i f m = m(i := map_option f (m i))"

text \<open>\<open>if (const auto p = r) step(p)\<close>.\<close>

definition if_sector :: "u32 option \<Rightarrow> (u32 \<Rightarrow> ('a, 'b) sectors \<Rightarrow> ('a, 'b) sectors) \<Rightarrow> ('a, 'b) sectors \<Rightarrow> ('a, 'b) sectors" where
  "if_sector r step m = (case r of None \<Rightarrow> m | Some p \<Rightarrow> step p m)"

definition getBestMapSector :: "u32 \<Rightarrow> u32 \<Rightarrow> ('a, 'b) sectors \<Rightarrow> u32 \<times> ('a, 'b) sectors" where
  "getBestMapSector x y m = (let (sector, isNew, m) = createMapSector x y m in
     if \<not> isNew then (sector, m)
     else let
       m = if_sector (getMapSector x (y - SECTOR_SIZE) m) (\<lambda>north. update_sector north (\<lambda>s. s\<lparr>sc_S := Some sector\<rparr>)) m;
       m = if_sector (getMapSector (x - SECTOR_SIZE) y m) (\<lambda>west. update_sector west (\<lambda>s. s\<lparr>sc_E := Some sector\<rparr>)) m;
       m = if_sector (getMapSector x (y + SECTOR_SIZE) m) (\<lambda>south. update_sector sector (\<lambda>s. s\<lparr>sc_S := Some south\<rparr>)) m;
       m = if_sector (getMapSector (x + SECTOR_SIZE) y m) (\<lambda>east. update_sector sector (\<lambda>s. s\<lparr>sc_E := Some east\<rparr>)) m
     in (sector, m))"

text \<open>Coordinates of positions widen from sixteen to 32 bits.\<close>

abbreviation coord :: "16 word \<Rightarrow> u32" where "coord x \<equiv> ucast x"

definition ensure_sector :: "16 word \<Rightarrow> 16 word \<Rightarrow> ('a, 'b) sectors \<Rightarrow> u32 \<times> ('a, 'b) sectors" where
  "ensure_sector x y m = (case getMapSector (coord x) (coord y) m of Some i \<Rightarrow> (i, m)
     | None \<Rightarrow> getBestMapSector (coord x) (coord y) m)"

definition on_floor :: "nat \<Rightarrow> (('a, 'b) floor_map \<Rightarrow> ('a, 'b) floor_map) \<Rightarrow> ('a, 'b) sector \<Rightarrow> ('a, 'b) sector" where
  "on_floor z f s = (let (fl, s) = createFloor z s in s\<lparr>sc_floors := (sc_floors s)(z \<mapsto> f fl)\<rparr>)"

definition setBasicTile :: "16 word \<Rightarrow> 16 word \<Rightarrow> u8 \<Rightarrow> 'b option \<Rightarrow> ('a, 'b) sectors \<Rightarrow> ('a, 'b) sectors" where
  "setBasicTile x y z t m = (if unat z \<ge> MAP_MAX_LAYERS then m
     else let (i, m) = ensure_sector x y m in update_sector i (on_floor (unat z) (setTileCache x y t)) m)"

definition map_setTile :: "16 word \<Rightarrow> 16 word \<Rightarrow> u8 \<Rightarrow> 'a option \<Rightarrow> ('a, 'b) sectors \<Rightarrow> ('a, 'b) sectors" where
  "map_setTile x y z t m = (if unat z \<ge> MAP_MAX_LAYERS then m
     else let (i, m) = ensure_sector x y m in update_sector i (on_floor (unat z) (floor_setTile x y t)) m)"

definition find_floor :: "16 word \<Rightarrow> 16 word \<Rightarrow> u8 \<Rightarrow> ('a, 'b) sectors \<Rightarrow> ('a, 'b) floor_map option" where
  "find_floor x y z m = (if unat z \<ge> MAP_MAX_LAYERS then None
     else case getMapSector (coord x) (coord y) m of None \<Rightarrow> None
       | Some i \<Rightarrow> sc_floors (the (m i)) (unat z))"

definition getLoadedTile :: "16 word \<Rightarrow> 16 word \<Rightarrow> u8 \<Rightarrow> ('a, 'b) sectors \<Rightarrow> 'a option" where
  "getLoadedTile x y z m = (case find_floor x y z m of None \<Rightarrow> None | Some f \<Rightarrow> floor_getTile x y f)"

definition cachedTile :: "16 word \<Rightarrow> 16 word \<Rightarrow> u8 \<Rightarrow> ('a, 'b) sectors \<Rightarrow> 'b option" where
  "cachedTile x y z m = (case find_floor x y z m of None \<Rightarrow> None | Some f \<Rightarrow> getTileCache x y f)"

text \<open>
  \<open>Map::getTile\<close> makes the tile on its first use: \<open>mk\<close> stands for the construction of a tile from
  its cached description, which is then removed from the cache.
\<close>

definition map_getTile :: "('b \<Rightarrow> 'a) \<Rightarrow> 16 word \<Rightarrow> 16 word \<Rightarrow> u8 \<Rightarrow> ('a, 'b) sectors \<Rightarrow> 'a option \<times> ('a, 'b) sectors" where
  "map_getTile mk x y z m = (case find_floor x y z m of None \<Rightarrow> (None, m)
     | Some f \<Rightarrow> (case floor_getTile x y f of Some t \<Rightarrow> (Some t, m)
       | None \<Rightarrow> (case getTileCache x y f of None \<Rightarrow> (floor_getTile x y f, m)
         | Some b \<Rightarrow> (Some (mk b), update_sector (sector_index (coord x) (coord y))
             (on_floor (unat z) (\<lambda>f. setTileCache x y None (floor_setTile x y (Some (mk b)) f))) m))))"

subsection \<open>Keys\<close>

text \<open>The key of a position, as a number: the column in the lower half, the row in the upper half.\<close>

lemma unat_index:
  assumes "unat x < 1048576" "unat y < 1048576"
  shows "unat (sector_index x y) = unat x div 16 + 65536 * (unat y div 16)"
proof -
  have b: "unat x div 16 < 65536" "unat y div 16 < 65536" using assms by auto
  have p: "unat (push_bit 16 (y div 16)) = 65536 * (unat y div 16)"
    using b iffD1 [OF unat_mult_lem, of "y div 16" "65536 :: u32"] by (simp add: push_bit_eq_mult unat_div mult.commute)
  have t: "take_bit 16 (x div 16) = x div 16"
    by (rule word_unat_eq_iff [THEN iffD2]) (use b(1) in \<open>simp add: unsigned_take_bit_eq unat_div take_bit_nat_def\<close>)
  have "take_bit 16 (x div 16) AND push_bit 16 (y div 16) = 0" by (auto simp: bit_eq_iff bit_simps)
  then have "x div 16 OR push_bit 16 (y div 16) = x div 16 + push_bit 16 (y div 16)"
    unfolding t by (rule disjunctive_add_eq_or [symmetric])
  then show ?thesis using b p
    by (simp add: sector_index_def unat_word_ariths(1) unat_div)
qed


text \<open>Columns and rows of a position are below 4096; a wrapped neighbour has the column or row 65535.\<close>

definition valid_key :: "u32 \<Rightarrow> bool" where
  "valid_key i \<longleftrightarrow> unat i mod 65536 < 4096 \<and> unat i div 65536 < 4096"

definition key :: "nat \<Rightarrow> nat \<Rightarrow> u32" where
  "key a b = word_of_nat (a + 65536 * b)"

lemma unat_key: "a < 65536 \<Longrightarrow> b < 65536 \<Longrightarrow> unat (key a b) = a + 65536 * b"
  by (simp only: key_def unat_of_nat) simp

lemma valid_key_iff: "a < 65536 \<Longrightarrow> b < 65536 \<Longrightarrow> valid_key (key a b) \<longleftrightarrow> a < 4096 \<and> b < 4096"
  by (simp add: valid_key_def unat_key)

lemma key_inj: "a < 65536 \<Longrightarrow> b < 65536 \<Longrightarrow> a' < 65536 \<Longrightarrow> b' < 65536 \<Longrightarrow> key a b = key a' b' \<longleftrightarrow> a = a' \<and> b = b'"
proof -
  assume l: "a < 65536" "b < 65536" "a' < 65536" "b' < 65536"
  then have "key a b = key a' b' \<Longrightarrow> a + 65536 * b = a' + 65536 * b'"
    using unat_key [of a b] unat_key [of a' b'] by simp
  moreover have "(a + 65536 * b) mod 65536 = a" "(a' + 65536 * b') mod 65536 = a'"
    "(a + 65536 * b) div 65536 = b" "(a' + 65536 * b') div 65536 = b'" using l by simp_all
  ultimately have "key a b = key a' b' \<Longrightarrow> a = a' \<and> b = b'" by metis
  then show ?thesis by blast
qed

lemma index_key: "unat x < 1048576 \<Longrightarrow> unat y < 1048576 \<Longrightarrow> sector_index x y = key (unat x div 16) (unat y div 16)"
  by (rule word_unat_eq_iff [THEN iffD2]) (simp add: unat_index unat_key)

lemma valid_keyE:
  assumes "valid_key i"
  obtains a b where "i = key a b" "a < 4096" "b < 4096"
proof
  show "i = key (unat i mod 65536) (unat i div 65536)" by (simp add: key_def)
qed (use assms in \<open>auto simp: valid_key_def\<close>)

lemma unat_coord [simp]: "unat (coord x) = unat x"
proof -
  have "unat x < 2 ^ 32" by (rule less_trans [OF unat_u16_less]) simp
  then have "take_bit 32 (unat x) = unat x" by (rule take_bit_nat_eq_self)
  then show ?thesis by (simp add: unsigned_ucast_eq)
qed

lemma coord_index: "sector_index (coord x) (coord y) = key (unat x div 16) (unat y div 16)"
  using unat_u16_less [of x] unat_u16_less [of y] by (subst index_key) (simp_all del: unat_u16_less)

lemma coord_add: "unat (coord x + SECTOR_SIZE) = unat x + 16"
  using unat_u16_less [of x] by (simp add: unat_word_ariths(1) del: unat_u16_less)

lemma coord_sub: "16 \<le> unat x \<Longrightarrow> unat (coord x - SECTOR_SIZE) = unat x - 16"
  by (simp add: unat_sub word_le_nat_alt)

lemma low_index: "unat (sector_index x y) mod 65536 = unat (x div 16) mod 65536"
proof -
  have "take_bit 16 (sector_index x y) = take_bit 16 (x div 16)"
    by (simp add: sector_index_def take_bit_or take_bit_push_bit)
  then have "unat (take_bit 16 (sector_index x y)) = unat (take_bit 16 (x div 16))" by simp
  then show ?thesis by (simp add: unsigned_take_bit_eq take_bit_nat_def)
qed

lemma high_index: "unat (sector_index x y) div 65536 = unat (drop_bit 16 (x div 16) OR take_bit 16 (y div 16))"
proof -
  have "drop_bit 16 (sector_index x y) = drop_bit 16 (x div 16) OR take_bit 16 (y div 16)"
    by (simp add: sector_index_def drop_bit_or drop_bit_push_bit bit_eq_iff bit_simps)
  then have "unat (drop_bit 16 (sector_index x y)) = unat (drop_bit 16 (x div 16) OR take_bit 16 (y div 16))" by simp
  then show ?thesis by (simp add: unat_drop_bit_eq drop_bit_nat_def)
qed


subsection \<open>Links between sectors\<close>

definition link :: "('a, 'b) sectors \<Rightarrow> nat \<Rightarrow> nat \<Rightarrow> u32 option" where
  "link m a b = (if m (key a b) \<noteq> None then Some (key a b) else None)"

definition valid_keys :: "('a, 'b) sectors \<Rightarrow> bool" where
  "valid_keys m \<longleftrightarrow> (\<forall>i. m i \<noteq> None \<longrightarrow> valid_key i)"

definition links_ok :: "('a, 'b) sectors \<Rightarrow> bool" where
  "links_ok m \<longleftrightarrow> valid_keys m \<and> (\<forall>a b s. a < 4096 \<longrightarrow> b < 4096 \<longrightarrow> m (key a b) = Some s \<longrightarrow>
     sc_E s = link m (a + 1) b \<and> sc_S s = link m a (b + 1))"

lemma links_okI:
  "valid_keys m \<Longrightarrow> (\<And>a b s. a < 4096 \<Longrightarrow> b < 4096 \<Longrightarrow> m (key a b) = Some s \<Longrightarrow>
     sc_E s = link m (a + 1) b \<and> sc_S s = link m a (b + 1)) \<Longrightarrow> links_ok m"
  by (simp add: links_ok_def)

lemma links_okD:
  "links_ok m \<Longrightarrow> a < 4096 \<Longrightarrow> b < 4096 \<Longrightarrow> m (key a b) = Some s \<Longrightarrow>
     sc_E s = link m (a + 1) b \<and> sc_S s = link m a (b + 1)"
  by (simp add: links_ok_def)

lemma links_ok_keys: "links_ok m \<Longrightarrow> valid_keys m"
  by (simp add: links_ok_def)

lemma valid_keysD: "valid_keys m \<Longrightarrow> \<not> valid_key i \<Longrightarrow> m i = None"
  by (auto simp: valid_keys_def)

lemma coord_lt: "unat (x :: 16 word) div 16 < 4096"
  using unat_u16_less [of x] by (simp del: unat_u16_less)

lemma sub_wraps: "unat x < 16 \<Longrightarrow> (coord x - SECTOR_SIZE) div SECTOR_SIZE = 268435455"
proof (rule word_unat_eq_iff [THEN iffD2])
  assume x: "unat x < 16"
  have "unat (coord x - 16) = 4294967296 - 16 + unat x"
    using x by (simp add: unat_sub_if_size word_size)
  then show "unat ((coord x - SECTOR_SIZE) div SECTOR_SIZE) = unat (268435455 :: u32)"
    using x by (simp add: unat_div)
qed

text \<open>The four neighbours of a position's sector.\<close>

lemma neighbours:
  fixes x y :: "16 word"
  assumes "valid_keys m"
  defines "a \<equiv> unat x div 16" and "b \<equiv> unat y div 16"
  shows "getMapSector (coord x) (coord y) m = link m a b"
    "getMapSector (coord x) (coord y + SECTOR_SIZE) m = link m a (b + 1)"
    "getMapSector (coord x + SECTOR_SIZE) (coord y) m = link m (a + 1) b"
    "getMapSector (coord x) (coord y - SECTOR_SIZE) m = (if b = 0 then None else link m a (b - 1))"
    "getMapSector (coord x - SECTOR_SIZE) (coord y) m = (if a = 0 then None else link m (a - 1) b)"
proof -
  have l: "unat (coord x) < 1048560" "unat (coord y) < 1048560"
    using unat_u16_less [of x] unat_u16_less [of y] by (simp_all del: unat_u16_less)
  have i: "sector_index (coord x) (coord y) = key a b" unfolding a_def b_def by (rule coord_index)
  then show "getMapSector (coord x) (coord y) m = link m a b" by (simp add: getMapSector_def link_def)
  have "sector_index (coord x) (coord y + SECTOR_SIZE) = key a (b + 1)"
    "sector_index (coord x + SECTOR_SIZE) (coord y) = key (a + 1) b"
    using l by (simp_all add: index_key coord_add a_def b_def div_add_self2)
  then show "getMapSector (coord x) (coord y + SECTOR_SIZE) m = link m a (b + 1)"
    "getMapSector (coord x + SECTOR_SIZE) (coord y) m = link m (a + 1) b"
    by (simp_all add: getMapSector_def link_def)
  show "getMapSector (coord x) (coord y - SECTOR_SIZE) m = (if b = 0 then None else link m a (b - 1))"
  proof (cases "b = 0")
    case True
    then have w: "(coord y - SECTOR_SIZE) div SECTOR_SIZE = 268435455" by (intro sub_wraps) (simp add: b_def)
    have "unat (coord x div 16) < 65536" using l by (simp add: unat_div)
    then have "drop_bit 16 (coord x div 16) = 0"
      by (intro word_unat_eq_iff [THEN iffD2]) (simp add: unat_drop_bit_eq drop_bit_nat_def)
    then have "unat (sector_index (coord x) (coord y - SECTOR_SIZE)) div 65536 = 65535"
      by (simp add: high_index w)
    then have "\<not> valid_key (sector_index (coord x) (coord y - SECTOR_SIZE))" by (simp add: valid_key_def)
    then show ?thesis using True valid_keysD [OF assms(1)] by (simp add: getMapSector_def)
  next
    case False
    then have "unat (coord y - SECTOR_SIZE) = unat y - 16" by (intro coord_sub) (simp add: b_def)
    moreover have "(unat y - 16) div 16 = b - 1" by (simp add: b_def)
    ultimately have "sector_index (coord x) (coord y - SECTOR_SIZE) = key a (b - 1)"
      using l by (simp add: index_key a_def)
    then show ?thesis using False by (simp add: getMapSector_def link_def)
  qed
  show "getMapSector (coord x - SECTOR_SIZE) (coord y) m = (if a = 0 then None else link m (a - 1) b)"
  proof (cases "a = 0")
    case True
    then have "(coord x - SECTOR_SIZE) div SECTOR_SIZE = 268435455" by (intro sub_wraps) (simp add: a_def)
    then have "unat (sector_index (coord x - SECTOR_SIZE) (coord y)) mod 65536 = 65535" by (simp add: low_index)
    then have "\<not> valid_key (sector_index (coord x - SECTOR_SIZE) (coord y))" by (simp add: valid_key_def)
    then show ?thesis using True valid_keysD [OF assms(1)] by (simp add: getMapSector_def)
  next
    case False
    then have "unat (coord x - SECTOR_SIZE) = unat x - 16" by (intro coord_sub) (simp add: a_def)
    moreover have "(unat x - 16) div 16 = a - 1" by (simp add: a_def)
    ultimately have "sector_index (coord x - SECTOR_SIZE) (coord y) = key (a - 1) b"
      using l by (simp add: index_key b_def)
    then show ?thesis using False by (simp add: getMapSector_def link_def)
  qed
qed


lemma link_upd: "a < 65536 \<Longrightarrow> b < 65536 \<Longrightarrow> a' < 65536 \<Longrightarrow> b' < 65536 \<Longrightarrow>
    link (m(key a b \<mapsto> s)) a' b' = (if a' = a \<and> b' = b then Some (key a b) else link m a' b')"
  by (auto simp: link_def key_inj)

lemma update_sector_None [simp]: "update_sector i f m j = None \<longleftrightarrow> m j = None"
  by (simp add: update_sector_def)

lemma if_sector_None [simp]:
  "if_sector r (\<lambda>p. update_sector (g p) (f p)) m j = None \<longleftrightarrow> m j = None"
  by (simp add: if_sector_def split: option.split)

lemma dom_frame:
  assumes "\<And>j. m' j = None \<longleftrightarrow> m j = None"
  shows "link m' a b = link m a b" "valid_keys m' = valid_keys m"
  using assms by (simp_all add: link_def valid_keys_def)

lemmas link_frame [simp] = dom_frame [where m' = "update_sector i f m" and m = m for i f m, OF update_sector_None]
  dom_frame [where m' = "if_sector r (\<lambda>p. update_sector (g p) (f p)) m" and m = m for r g f m, OF if_sector_None]

text \<open>What a new sector does to the table.\<close>

definition linked_in :: "nat \<Rightarrow> nat \<Rightarrow> ('a, 'b) sectors \<Rightarrow> ('a, 'b) sectors" where
  "linked_in a b m = (let k = key a b; m = m(k \<mapsto> new_sector);
     m = if_sector (if b = 0 then None else link m a (b - 1)) (\<lambda>north. update_sector north (\<lambda>s. s\<lparr>sc_S := Some k\<rparr>)) m;
     m = if_sector (if a = 0 then None else link m (a - 1) b) (\<lambda>west. update_sector west (\<lambda>s. s\<lparr>sc_E := Some k\<rparr>)) m;
     m = if_sector (link m a (b + 1)) (\<lambda>south. update_sector k (\<lambda>s. s\<lparr>sc_S := Some south\<rparr>)) m
   in if_sector (link m (a + 1) b) (\<lambda>east. update_sector k (\<lambda>s. s\<lparr>sc_E := Some east\<rparr>)) m)"

lemma best_new:
  fixes x y :: "16 word"
  assumes "valid_keys m" "getMapSector (coord x) (coord y) m = None"
  shows "getBestMapSector (coord x) (coord y) m = (key (unat x div 16) (unat y div 16), linked_in (unat x div 16) (unat y div 16) m)"
proof -
  let ?a = "unat x div 16" and ?b = "unat y div 16"
  have k: "sector_index (coord x) (coord y) = key ?a ?b" by (rule coord_index)
  have n: "m (key ?a ?b) = None" using assms(2) by (simp add: getMapSector_def k split: if_splits)
  have "valid_key (key ?a ?b)" using coord_lt [of x] coord_lt [of y] by (simp add: valid_key_iff)
  then have v: "valid_keys (m(key ?a ?b \<mapsto> new_sector))" using assms(1) by (auto simp: valid_keys_def)
  show ?thesis
    using n v by (simp add: getBestMapSector_def createMapSector_def linked_in_def k Let_def neighbours)
qed

lemma linked_in_None: "linked_in a b m j = None \<longleftrightarrow> j \<noteq> key a b \<and> m j = None"
  by (simp add: linked_in_def Let_def)

lemma link_linked_in:
  "a < 65536 \<Longrightarrow> b < 65536 \<Longrightarrow> a' < 65536 \<Longrightarrow> b' < 65536 \<Longrightarrow>
    link (linked_in a b m) a' b' = (if a' = a \<and> b' = b then Some (key a b) else link m a' b')"
  by (auto simp: link_def linked_in_None key_inj)

text \<open>The entry of a sector after one step of the linking, and after all of them.\<close>

lemma neighbour_entry:
  assumes "\<And>j. m' j = None \<longleftrightarrow> m j = None"
  shows "if_sector (if c then None else link m p q) (\<lambda>n. update_sector n f) m' i =
    (if \<not> c \<and> i = key p q then map_option f (m' i) else m' i)"
  using assms [of i] assms [of "key p q"] by (auto simp: if_sector_def link_def update_sector_def)

lemma own_entry:
  "if_sector r (\<lambda>n. update_sector k (f n)) m i =
    (if i = k then (case r of None \<Rightarrow> m k | Some n \<Rightarrow> map_option (f n) (m k)) else m i)"
  by (simp add: if_sector_def update_sector_def split: option.split)

lemma two_updates:
  "(if Q then map_option (\<lambda>s. s\<lparr>sc_E := x\<rparr>) (if P then map_option (\<lambda>s. s\<lparr>sc_S := x\<rparr>) r else r)
     else if P then map_option (\<lambda>s. s\<lparr>sc_S := x\<rparr>) r else r) =
   map_option (\<lambda>s. s\<lparr>sc_S := if P then x else sc_S s, sc_E := if Q then x else sc_E s\<rparr>) r"
  by (cases P; cases Q; cases r) simp_all

lemma linked_in_entry:
  assumes "a < 4096" "b < 4096"
  shows "linked_in a b m i = (if i = key a b then Some (new_sector\<lparr>sc_S := link m a (b + 1), sc_E := link m (a + 1) b\<rparr>)
    else map_option (\<lambda>s. s\<lparr>sc_S := if b \<noteq> 0 \<and> i = key a (b - 1) then Some (key a b) else sc_S s,
      sc_E := if a \<noteq> 0 \<and> i = key (a - 1) b then Some (key a b) else sc_E s\<rparr>) (m i))"
proof -
  define k where "k = key a b"
  define m1 where "m1 = m(k \<mapsto> new_sector)"
  define m2 where "m2 = if_sector (if b = 0 then None else link m1 a (b - 1)) (\<lambda>n. update_sector n (\<lambda>s. s\<lparr>sc_S := Some k\<rparr>)) m1"
  define m3 where "m3 = if_sector (if a = 0 then None else link m2 (a - 1) b) (\<lambda>n. update_sector n (\<lambda>s. s\<lparr>sc_E := Some k\<rparr>)) m2"
  define m4 where "m4 = if_sector (link m3 a (b + 1)) (\<lambda>n. update_sector k (\<lambda>s. s\<lparr>sc_S := Some n\<rparr>)) m3"
  have lin: "linked_in a b m = if_sector (link m4 (a + 1) b) (\<lambda>n. update_sector k (\<lambda>s. s\<lparr>sc_E := Some n\<rparr>)) m4"
    by (simp only: linked_in_def Let_def m1_def m2_def m3_def m4_def k_def)
  have e2: "m2 i = (if b \<noteq> 0 \<and> i = key a (b - 1) then map_option (\<lambda>s. s\<lparr>sc_S := Some k\<rparr>) (m1 i) else m1 i)" for i
    unfolding m2_def by (rule neighbour_entry) (rule refl)
  have e3: "m3 i = (if a \<noteq> 0 \<and> i = key (a - 1) b then map_option (\<lambda>s. s\<lparr>sc_E := Some k\<rparr>) (m2 i) else m2 i)" for i
    unfolding m3_def by (rule neighbour_entry) (rule refl)
  have ks: "b \<noteq> 0 \<Longrightarrow> k \<noteq> key a (b - 1)" "a \<noteq> 0 \<Longrightarrow> k \<noteq> key (a - 1) b" "k \<noteq> key a (b + 1)" "k \<noteq> key (a + 1) b"
    using assms by (simp_all add: key_inj k_def)
  have "link m3 p q = link m1 p q" "link m4 p q = link m1 p q" for p q
    unfolding m4_def m3_def m2_def by simp_all
  moreover have "link m1 a (b + 1) = link m a (b + 1)" "link m1 (a + 1) b = link m (a + 1) b"
    using ks by (simp_all add: link_def m1_def)
  ultimately have l: "link m3 a (b + 1) = link m a (b + 1)" "link m4 (a + 1) b = link m (a + 1) b" by simp_all
  have "m3 k = m2 k" "m2 k = m1 k" using ks(1,2) e2 [of k] e3 [of k] by argo+
  then have "m3 k = Some new_sector" by (simp add: m1_def)
  then have "m4 k = Some (new_sector\<lparr>sc_S := link m a (b + 1)\<rparr>)"
    using l(1) by (simp add: m4_def own_entry new_sector_def split: option.split)
  then have own: "linked_in a b m k = Some (new_sector\<lparr>sc_S := link m a (b + 1), sc_E := link m (a + 1) b\<rparr>)"
    using l(2) by (simp add: lin own_entry new_sector_def split: option.split)
  have rest: "linked_in a b m i = m3 i" if "i \<noteq> k"
    using that by (simp add: lin m4_def own_entry)
  show ?thesis
  proof (cases "i = k")
    case True
    then show ?thesis using own by (simp add: k_def)
  next
    case False
    then have m: "m1 i = m i" by (simp add: m1_def)
    show ?thesis unfolding rest [OF False] e3 e2 m k_def [symmetric] if_not_P [OF False] by (rule two_updates)
  qed
qed

lemma key_pred: "a < 4096 \<Longrightarrow> b < 4096 \<Longrightarrow> a' < 4096 \<Longrightarrow> b' < 4096 \<Longrightarrow>
    (b \<noteq> 0 \<and> key a' b' = key a (b - 1) \<longleftrightarrow> a' = a \<and> b' + 1 = b)
    \<and> (a \<noteq> 0 \<and> key a' b' = key (a - 1) b \<longleftrightarrow> a' + 1 = a \<and> b' = b)"
  by (cases b; cases a) (auto simp: key_inj)

lemma links_ok_linked_in:
  assumes "links_ok m" "a < 4096" "b < 4096"
  shows "links_ok (linked_in a b m)"
proof (rule links_okI)
  show "valid_keys (linked_in a b m)"
    using links_ok_keys [OF assms(1)] assms(2,3) by (auto simp: valid_keys_def linked_in_None valid_key_iff)
next
  fix a' b' s assume l: "a' < 4096" "b' < 4096" "linked_in a b m (key a' b') = Some s"
  note k = key_pred [OF assms(2,3) l(1,2)]
  show "sc_E s = link (linked_in a b m) (a' + 1) b' \<and> sc_S s = link (linked_in a b m) a' (b' + 1)"
  proof (cases "a' = a \<and> b' = b")
    case True
    then show ?thesis using l assms(2,3) by (auto simp: linked_in_entry link_linked_in)
  next
    case False
    then have ne: "key a' b' \<noteq> key a b" using l assms(2,3) by (simp add: key_inj)
    have "linked_in a b m (key a' b') = map_option (\<lambda>s. s\<lparr>sc_S := if a' = a \<and> b' + 1 = b then Some (key a b) else sc_S s,
         sc_E := if a' + 1 = a \<and> b' = b then Some (key a b) else sc_E s\<rparr>) (m (key a' b'))"
      unfolding linked_in_entry [OF assms(2,3)] using ne by (simp only: k if_False)
    then obtain t where t: "m (key a' b') = Some t"
      "s = t\<lparr>sc_S := if a' = a \<and> b' + 1 = b then Some (key a b) else sc_S t,
         sc_E := if a' + 1 = a \<and> b' = b then Some (key a b) else sc_E t\<rparr>"
      using l(3) by (cases "m (key a' b')") simp_all
    then show ?thesis using links_okD [OF assms(1) l(1,2) t(1)] l assms(2,3)
      by (auto simp: link_linked_in)
  qed
qed


subsection \<open>Creatures on the grid\<close>

text \<open>\<open>None\<close>: the code would go through a null pointer, the position having no sector.\<close>

definition key_of :: "position \<Rightarrow> u32" where
  "key_of p = sector_index (coord (pos_x p)) (coord (pos_y p))"

definition at_sector :: "position \<Rightarrow> (('a, 'b) sector \<Rightarrow> ('a, 'b) sector) \<Rightarrow> ('a, 'b) sectors \<Rightarrow> ('a, 'b) sectors option" where
  "at_sector p f m = (case getMapSector (coord (pos_x p)) (coord (pos_y p)) m of None \<Rightarrow> None
     | Some i \<Rightarrow> Some (update_sector i f m))"

definition grid_place :: "bool \<Rightarrow> nat \<Rightarrow> position \<Rightarrow> ('a, 'b) sectors \<Rightarrow> ('a, 'b) sectors option" where
  "grid_place is_player c p m = at_sector p (sector_addCreature is_player c) m"

definition grid_remove :: "bool \<Rightarrow> nat \<Rightarrow> position \<Rightarrow> ('a, 'b) sectors \<Rightarrow> ('a, 'b) sectors option" where
  "grid_remove is_player c p m = at_sector p (sector_removeCreature is_player c) m"

text \<open>\<open>Map::moveCreature\<close>: the creature changes its sector only when the sector changes.\<close>

definition grid_move :: "bool \<Rightarrow> nat \<Rightarrow> position \<Rightarrow> position \<Rightarrow> ('a, 'b) sectors \<Rightarrow> ('a, 'b) sectors option" where
  "grid_move is_player c oldPos newPos m =
    (if getMapSector (coord (pos_x oldPos)) (coord (pos_y oldPos)) m = getMapSector (coord (pos_x newPos)) (coord (pos_y newPos)) m
     then Some m
     else case grid_remove is_player c oldPos m of None \<Rightarrow> None | Some m \<Rightarrow> grid_place is_player c newPos m)"

text \<open>The tables the game can build, with the positions its creatures have.\<close>

inductive grid :: "(nat \<Rightarrow> bool) \<Rightarrow> ('b \<Rightarrow> 'a) \<Rightarrow> ('a, 'b) sectors \<Rightarrow> (nat \<Rightarrow> position option) \<Rightarrow> bool" for isp mk where
  empty: "grid isp mk (\<lambda>_. None) (\<lambda>_. None)"
| basic: "grid isp mk m loc \<Longrightarrow> grid isp mk (setBasicTile x y z b m) loc"
| tile: "grid isp mk m loc \<Longrightarrow> grid isp mk (map_setTile x y z t m) loc"
| fetch: "grid isp mk m loc \<Longrightarrow> grid isp mk (snd (map_getTile mk x y z m)) loc"
| place: "grid isp mk m loc \<Longrightarrow> loc c = None \<Longrightarrow> grid_place (isp c) c p m = Some m' \<Longrightarrow> grid isp mk m' (loc(c \<mapsto> p))"
| remove: "grid isp mk m loc \<Longrightarrow> loc c = Some p \<Longrightarrow> grid_remove (isp c) c p m = Some m' \<Longrightarrow> grid isp mk m' (loc(c := None))"
| move: "grid isp mk m loc \<Longrightarrow> loc c = Some p \<Longrightarrow> grid_move (isp c) c p q m = Some m' \<Longrightarrow> grid isp mk m' (loc(c \<mapsto> q))"

lemma mset_swap_out: "c \<in> set l \<Longrightarrow> mset (swap_out c l) = mset l - {#c#}"
proof (induction l)
  case (Cons d ds)
  show ?case
  proof (cases "d = c \<and> ds \<noteq> []")
    case True
    have "mset (last ds # butlast ds) = mset (butlast ds @ [last ds])" by simp
    also have "\<dots> = mset ds" using True by (subst append_butlast_last_id) simp_all
    finally have "mset (last ds # butlast ds) = mset ds" .
    then show ?thesis using True by simp
  qed (use Cons in auto)
qed simp

lemma distinct_swap_out: "distinct l \<Longrightarrow> c \<in> set l \<Longrightarrow> distinct (swap_out c l) \<and> set (swap_out c l) = set l - {c}"
  by (metis mset_swap_out distinct_remove1 mset_remove1 mset_eq_imp_distinct_iff set_mset_mset set_remove1_eq)

text \<open>Where creatures are listed, and where they ought to be.\<close>

definition listed :: "(nat \<Rightarrow> bool) \<Rightarrow> (nat \<Rightarrow> position option) \<Rightarrow> u32 \<Rightarrow> ('a, 'b) sector \<Rightarrow> bool" where
  "listed isp loc i s \<longleftrightarrow> distinct (sc_creatures s) \<and> distinct (sc_players s)
     \<and> set (sc_creatures s) = {c. \<exists>p. loc c = Some p \<and> key_of p = i}
     \<and> set (sc_players s) = {c. isp c \<and> (\<exists>p. loc c = Some p \<and> key_of p = i)}"

definition grid_inv :: "(nat \<Rightarrow> bool) \<Rightarrow> ('a, 'b) sectors \<Rightarrow> (nat \<Rightarrow> position option) \<Rightarrow> bool" where
  "grid_inv isp m loc \<longleftrightarrow> links_ok m \<and> (\<forall>i s. m i = Some s \<longrightarrow> listed isp loc i s)
     \<and> (\<forall>c p. loc c = Some p \<longrightarrow> m (key_of p) \<noteq> None)"

lemma grid_invI:
  "links_ok m \<Longrightarrow> (\<And>i s. m i = Some s \<Longrightarrow> listed isp loc i s) \<Longrightarrow> (\<And>c p. loc c = Some p \<Longrightarrow> m (key_of p) \<noteq> None)
    \<Longrightarrow> grid_inv isp m loc"
  by (simp add: grid_inv_def)

lemma grid_invD:
  assumes "grid_inv isp m loc"
  shows "links_ok m" "m i = Some s \<Longrightarrow> listed isp loc i s" "loc c = Some p \<Longrightarrow> m (key_of p) \<noteq> None"
  using assms by (simp_all add: grid_inv_def)

text \<open>Changing what is in a sector, but neither its links nor its lists.\<close>

definition keeps_links :: "(('a, 'b) sector \<Rightarrow> ('a, 'b) sector) \<Rightarrow> bool" where
  "keeps_links f \<longleftrightarrow> (\<forall>s. sc_S (f s) = sc_S s \<and> sc_E (f s) = sc_E s)"

lemma links_ok_update: "links_ok m \<Longrightarrow> keeps_links f \<Longrightarrow> links_ok (update_sector i f m)"
proof (rule links_okI)
  assume a: "links_ok m" "keeps_links f"
  then show "valid_keys (update_sector i f m)" using links_ok_keys by simp
  fix p q s assume l: "p < 4096" "q < 4096" "update_sector i f m (key p q) = Some s"
  then obtain t where t: "m (key p q) = Some t" "sc_E s = sc_E t" "sc_S s = sc_S t"
    using a(2) by (auto simp: update_sector_def keeps_links_def split: if_splits)
  then show "sc_E s = link (update_sector i f m) (p + 1) q \<and> sc_S s = link (update_sector i f m) p (q + 1)"
    using links_okD [OF a(1) l(1,2) t(1)] by simp
qed

lemma grid_inv_update:
  assumes "grid_inv isp m loc" "keeps_links f" "\<And>s. sc_creatures (f s) = sc_creatures s \<and> sc_players (f s) = sc_players s"
  shows "grid_inv isp (update_sector i f m) loc"
proof (rule grid_invI)
  show "links_ok (update_sector i f m)" using links_ok_update [OF grid_invD(1) [OF assms(1)] assms(2)] .
  show "listed isp loc j s" if "update_sector i f m j = Some s" for j s
    using that grid_invD(2) [OF assms(1)] assms(3) by (auto simp: update_sector_def listed_def split: if_splits)
  show "update_sector i f m (key_of p) \<noteq> None" if "loc c = Some p" for c p
    using grid_invD(3) [OF assms(1) that] by simp
qed


lemma key_of_key: "key_of p = key (unat (pos_x p) div 16) (unat (pos_y p) div 16)"
  by (simp add: key_of_def coord_index)

lemma linked_in_creatures:
  assumes "a < 4096" "b < 4096" "m (key a b) = None" "linked_in a b m i = Some s"
  shows "if i = key a b then sc_creatures s = [] \<and> sc_players s = []
    else \<exists>t. m i = Some t \<and> sc_creatures s = sc_creatures t \<and> sc_players s = sc_players t"
  using assms(4) unfolding linked_in_entry [OF assms(1,2)]
  by (cases "m i") (auto simp: new_sector_def split: if_splits)

lemma ensure_cases:
  assumes "valid_keys m"
  obtains (old) i where "ensure_sector x y m = (i, m)" "getMapSector (coord x) (coord y) m = Some i"
  | (new) "ensure_sector x y m = (key (unat x div 16) (unat y div 16), linked_in (unat x div 16) (unat y div 16) m)"
      "m (key (unat x div 16) (unat y div 16)) = None"
proof (cases "getMapSector (coord x) (coord y) m")
  case None
  then show ?thesis using that(2) best_new [OF assms None]
    by (simp add: ensure_sector_def getMapSector_def coord_index split: if_splits)
qed (use that(1) in \<open>simp add: ensure_sector_def\<close>)

lemma grid_inv_ensure:
  assumes "grid_inv isp m loc"
  shows "grid_inv isp (snd (ensure_sector x y m)) loc"
  using links_ok_keys [OF grid_invD(1) [OF assms]]
proof (cases rule: ensure_cases [where x = x and y = y])
  case (old i)
  then show ?thesis using assms by simp
next
  case new
  let ?a = "unat x div 16" and ?b = "unat y div 16"
  have l: "?a < 4096" "?b < 4096" by (rule coord_lt)+
  have nobody: "loc c = Some p \<Longrightarrow> key_of p \<noteq> key ?a ?b" for c p
    using grid_invD(3) [OF assms] new(2) by metis
  have "grid_inv isp (linked_in ?a ?b m) loc"
  proof (rule grid_invI)
    show "links_ok (linked_in ?a ?b m)" using links_ok_linked_in [OF grid_invD(1) [OF assms] l] .
    show "linked_in ?a ?b m (key_of p) \<noteq> None" if "loc c = Some p" for c p
      using grid_invD(3) [OF assms that] by (simp add: linked_in_None)
    show "listed isp loc i s" if e: "linked_in ?a ?b m i = Some s" for i s
    proof (cases "i = key ?a ?b")
      case True
      then have "sc_creatures s = [] \<and> sc_players s = []" using linked_in_creatures [OF l new(2) e] by simp
      then show ?thesis using nobody True by (auto simp: listed_def)
    next
      case False
      then obtain t where "m i = Some t" "sc_creatures s = sc_creatures t" "sc_players s = sc_players t"
        using linked_in_creatures [OF l new(2) e] by auto
      then show ?thesis using grid_invD(2) [OF assms] by (simp add: listed_def)
    qed
  qed
  then show ?thesis using new by simp
qed

lemma on_floor_frame:
  "keeps_links (on_floor z f)" "sc_creatures (on_floor z f s) = sc_creatures s" "sc_players (on_floor z f s) = sc_players s"
  by (simp_all add: keeps_links_def on_floor_def createFloor_def split: option.split prod.split)

lemma grid_inv_tiles:
  assumes "grid_inv isp m loc"
  shows "grid_inv isp (setBasicTile x y z b m) loc" "grid_inv isp (map_setTile x y z t m) loc"
    "grid_inv isp (snd (map_getTile mk x y z m)) loc"
  using grid_inv_ensure [OF assms, of x y] assms
  by (auto simp: setBasicTile_def map_setTile_def map_getTile_def on_floor_frame split: prod.split option.split
      intro!: grid_inv_update)

text \<open>Placing, removing and moving a creature.\<close>

lemma at_sector_Some:
  "at_sector p f m = Some m' \<longleftrightarrow> m (key_of p) \<noteq> None \<and> m' = update_sector (key_of p) f m"
  by (auto simp: at_sector_def getMapSector_def key_of_def)

lemma sector_links: "keeps_links (sector_addCreature b c)" "keeps_links (sector_removeCreature b c)"
  by (simp_all add: keeps_links_def sector_addCreature_def sector_removeCreature_def Let_def)

lemma listed_add:
  assumes "listed isp loc (key_of p) s" "loc c = None"
  shows "listed isp (loc(c \<mapsto> p)) (key_of p) (sector_addCreature (isp c) c s)"
  using assms by (auto simp: listed_def sector_addCreature_def Let_def)

lemma listed_remove:
  assumes "listed isp loc (key_of p) s" "loc c = Some p"
  shows "listed isp (loc(c := None)) (key_of p) (sector_removeCreature (isp c) c s)"
proof -
  have c: "c \<in> set (sc_creatures s)" "isp c \<Longrightarrow> c \<in> set (sc_players s)" "\<not> isp c \<Longrightarrow> c \<notin> set (sc_players s)"
    using assms by (auto simp: listed_def)
  have "distinct (sc_creatures s)" "distinct (sc_players s)" using assms by (auto simp: listed_def)
  note d = distinct_swap_out [OF this(1) c(1)] distinct_swap_out [OF this(2) c(2)]
  show ?thesis using assms c d by (cases "isp c") (auto simp: listed_def sector_removeCreature_def Let_def)
qed

lemma listed_other: "listed isp loc i s \<Longrightarrow> (\<And>p. loc c = Some p \<Longrightarrow> key_of p \<noteq> i) \<Longrightarrow>
    (\<And>p. r = Some p \<Longrightarrow> key_of p \<noteq> i) \<Longrightarrow> listed isp (loc(c := r)) i s"
  by (auto simp: listed_def)

lemma grid_inv_place:
  assumes "grid_inv isp m loc" "loc c = None" "grid_place (isp c) c p m = Some m'"
  shows "grid_inv isp m' (loc(c \<mapsto> p))"
proof -
  have k: "m (key_of p) \<noteq> None" "m' = update_sector (key_of p) (sector_addCreature (isp c) c) m"
    using assms(3) by (auto simp: grid_place_def at_sector_Some)
  show ?thesis
  proof (rule grid_invI)
    show "links_ok m'" unfolding k by (rule links_ok_update [OF grid_invD(1) [OF assms(1)] sector_links(1)])
    show "m' (key_of q) \<noteq> None" if "(loc(c \<mapsto> p)) d = Some q" for d q
      using that k grid_invD(3) [OF assms(1)] by (auto split: if_splits)
    show "listed isp (loc(c \<mapsto> p)) i s" if i: "m' i = Some s" for i s
    proof (cases "i = key_of p")
      case True
      then obtain t where "m i = Some t" "s = sector_addCreature (isp c) c t"
        using i k by (auto simp: update_sector_def)
      moreover from this have "listed isp loc (key_of p) t" using True grid_invD(2) [OF assms(1)] by simp
      ultimately show ?thesis using True listed_add assms(2) by simp
    next
      case False
      then have "m i = Some s" using i k by (simp add: update_sector_def)
      then have "listed isp loc i s" using grid_invD(2) [OF assms(1)] by simp
      then show ?thesis using False assms(2) by (intro listed_other) auto
    qed
  qed
qed

lemma grid_inv_remove:
  assumes "grid_inv isp m loc" "loc c = Some p" "grid_remove (isp c) c p m = Some m'"
  shows "grid_inv isp m' (loc(c := None))"
proof -
  have k: "m (key_of p) \<noteq> None" "m' = update_sector (key_of p) (sector_removeCreature (isp c) c) m"
    using assms(3) by (auto simp: grid_remove_def at_sector_Some)
  show ?thesis
  proof (rule grid_invI)
    show "links_ok m'" unfolding k by (rule links_ok_update [OF grid_invD(1) [OF assms(1)] sector_links(2)])
    show "m' (key_of q) \<noteq> None" if "(loc(c := None)) d = Some q" for d q
      using that k grid_invD(3) [OF assms(1)] by (auto split: if_splits)
    show "listed isp (loc(c := None)) i s" if i: "m' i = Some s" for i s
    proof (cases "i = key_of p")
      case True
      then obtain t where "m i = Some t" "s = sector_removeCreature (isp c) c t"
        using i k by (auto simp: update_sector_def)
      moreover from this have "listed isp loc (key_of p) t" using True grid_invD(2) [OF assms(1)] by simp
      ultimately show ?thesis using True listed_remove assms(2) by simp
    next
      case False
      then have "m i = Some s" using i k by (simp add: update_sector_def)
      then have "listed isp loc i s" using grid_invD(2) [OF assms(1)] by simp
      then show ?thesis using False assms(2) by (intro listed_other) auto
    qed
  qed
qed


lemma key_of_same_listed:
  "loc c = Some p \<Longrightarrow> key_of p = key_of q \<Longrightarrow> listed isp loc i s \<Longrightarrow> listed isp (loc(c \<mapsto> q)) i s"
  by (auto simp: listed_def)

lemma grid_inv_move:
  assumes "grid_inv isp m loc" "loc c = Some p" "grid_move (isp c) c p q m = Some m'"
  shows "grid_inv isp m' (loc(c \<mapsto> q))"
proof (cases "getMapSector (coord (pos_x p)) (coord (pos_y p)) m = getMapSector (coord (pos_x q)) (coord (pos_y q)) m")
  case True
  have "m (key_of p) \<noteq> None" using grid_invD(3) [OF assms(1,2)] .
  then have k: "key_of p = key_of q" "m' = m"
    using True assms(3) by (auto simp: getMapSector_def key_of_def grid_move_def split: if_splits)
  show ?thesis unfolding k(2)
  proof (rule grid_invI)
    show "links_ok m" using grid_invD(1) [OF assms(1)] .
    show "listed isp (loc(c \<mapsto> q)) i s" if "m i = Some s" for i s
      using assms(2) k(1) grid_invD(2) [OF assms(1) that] by (rule key_of_same_listed)
    show "m (key_of r) \<noteq> None" if "(loc(c \<mapsto> q)) d = Some r" for d r
      using that k(1) grid_invD(3) [OF assms(1)] assms(2) by (metis fun_upd_apply option.inject)
  qed
next
  case False
  then obtain m1 where m1: "grid_remove (isp c) c p m = Some m1" and m': "grid_place (isp c) c q m1 = Some m'"
    using assms(3) by (auto simp: grid_move_def split: option.splits)
  have "grid_inv isp m' ((loc(c := None))(c \<mapsto> q))"
    by (rule grid_inv_place [OF grid_inv_remove [OF assms(1,2) m1] _ m']) simp
  then show ?thesis by simp
qed

lemma grid_grid_inv: "grid isp mk m loc \<Longrightarrow> grid_inv isp m loc"
proof (induction rule: grid.induct)
  case empty
  show ?case by (simp add: grid_inv_def links_ok_def valid_keys_def)
next
  case (basic m loc x y z b)
  then show ?case using grid_inv_tiles(1) by blast
next
  case (tile m loc x y z t)
  then show ?case using grid_inv_tiles(2) by blast
next
  case (fetch m loc x y z)
  then show ?case using grid_inv_tiles(3) by blast
next
  case (place m loc c p m')
  then show ?case using grid_inv_place by blast
next
  case (remove m loc c p m')
  then show ?case using grid_inv_remove by blast
next
  case (move m loc c p q m')
  then show ?case using grid_inv_move by blast
qed

text \<open>
  C19: Whatever tiles are set and however creatures are placed, moved and removed, the table of
  sectors is consistent: every sector points to the sectors that exist south and east of it and to
  nothing else (so following the pointers is the same as looking the neighbours up), and it lists
  each creature that stands on it exactly once, the players also in the list of players.
\<close>

theorem grid_consistent:
  assumes "grid isp mk m loc" "m (key_of p) = Some s"
  shows "sc_S s = getMapSector (coord (pos_x p)) (coord (pos_y p) + SECTOR_SIZE) m
    \<and> sc_E s = getMapSector (coord (pos_x p) + SECTOR_SIZE) (coord (pos_y p)) m
    \<and> distinct (sc_creatures s) \<and> set (sc_creatures s) = {c. \<exists>q. loc c = Some q \<and> key_of q = key_of p}
    \<and> distinct (sc_players s) \<and> set (sc_players s) = {c \<in> set (sc_creatures s). isp c}"
proof -
  note i = grid_grid_inv [OF assms(1)]
  note v = links_ok_keys [OF grid_invD(1) [OF i]]
  have "sc_E s = link m (unat (pos_x p) div 16 + 1) (unat (pos_y p) div 16) \<and> sc_S s = link m (unat (pos_x p) div 16) (unat (pos_y p) div 16 + 1)"
    by (rule links_okD [OF grid_invD(1) [OF i] coord_lt coord_lt]) (use assms(2) in \<open>simp add: key_of_key\<close>)
  moreover have "listed isp loc (key_of p) s" using grid_invD(2) [OF i assms(2)] .
  ultimately show ?thesis by (auto simp: neighbours [OF v] listed_def)
qed

definition example_grid :: "(nat, nat) sectors" where
  "example_grid = setBasicTile 40 8 7 (Some 2) (setBasicTile 20 8 7 (Some 1) (\<lambda>_. None))"

lemma example_grid_reach: "grid (\<lambda>c. c = 7) (\<lambda>b. b) example_grid (\<lambda>_. None)"
  unfolding example_grid_def by (rule grid.basic [OF grid.basic [OF grid.empty]])

theorem grid_consistent_witness:
  "\<exists>s m. grid_place True 7 (Pos 21 9 7) example_grid = Some m \<and> m 1 = Some s
    \<and> sc_E s = getMapSector (21 + SECTOR_SIZE) 9 m \<and> sc_E s = Some 2 \<and> sc_players s = [7]"
proof -
  obtain m where m: "grid_place True 7 (Pos 21 9 7) example_grid = Some m" and l: "getMapSector (21 + SECTOR_SIZE) 9 m = Some 2"
    and s: "map_option sc_players (m 1) = Some [7]"
  proof -
    have "case grid_place True 7 (Pos 21 9 7) example_grid of None \<Rightarrow> False
        | Some m \<Rightarrow> getMapSector (21 + SECTOR_SIZE) 9 m = Some 2 \<and> map_option sc_players (m 1) = Some [7]"
      by code_simp
    then show thesis using that by (auto split: option.splits)
  qed
  obtain s where s: "m 1 = Some s" "sc_players s = [7]" using s by auto
  have g: "grid (\<lambda>c. c = 7) (\<lambda>b. b) m ((\<lambda>_. None)(7 \<mapsto> Pos 21 9 7))"
    by (rule grid.place [OF example_grid_reach]) (use m in simp_all)
  have "key_of (Pos 21 9 7) = 1" by code_simp
  then have "sc_E s = getMapSector (coord (pos_x (Pos 21 9 7)) + SECTOR_SIZE) (coord (pos_y (Pos 21 9 7))) m"
    using grid_consistent [OF g, of "Pos 21 9 7" s] s by simp
  then show ?thesis using m s l by simp
qed


subsection \<open>The tiles of the map\<close>

text \<open>A floor that does not exist yet is an empty one.\<close>

definition floor_at :: "16 word \<Rightarrow> 16 word \<Rightarrow> u8 \<Rightarrow> ('a, 'b) sectors \<Rightarrow> ('a, 'b) floor_map" where
  "floor_at x y z m = (case find_floor x y z m of None \<Rightarrow> new_floor | Some f \<Rightarrow> f)"

lemma lookup_floor_at:
  "getLoadedTile x y z m = floor_getTile x y (floor_at x y z m)" "cachedTile x y z m = getTileCache x y (floor_at x y z m)"
  by (simp_all add: getLoadedTile_def cachedTile_def floor_at_def floor_getTile_def getTileCache_def new_floor_def
      split: option.split)

lemma floor_at_key: "unat z < 16 \<Longrightarrow> floor_at x y z m =
    (case m (key (unat x div 16) (unat y div 16)) of None \<Rightarrow> new_floor
     | Some s \<Rightarrow> (case sc_floors s (unat z) of None \<Rightarrow> new_floor | Some f \<Rightarrow> f))"
  by (simp add: floor_at_def find_floor_def getMapSector_def coord_index split: option.split)

lemma floor_at_high: "\<not> unat z < 16 \<Longrightarrow> floor_at x y z m = new_floor"
  by (simp add: floor_at_def find_floor_def)

lemma linked_in_floors: "a < 4096 \<Longrightarrow> b < 4096 \<Longrightarrow> m (key a b) = None \<Longrightarrow>
    (case linked_in a b m i of None \<Rightarrow> new_floor | Some s \<Rightarrow> (case sc_floors s z of None \<Rightarrow> new_floor | Some f \<Rightarrow> f)) =
    (case m i of None \<Rightarrow> new_floor | Some s \<Rightarrow> (case sc_floors s z of None \<Rightarrow> new_floor | Some f \<Rightarrow> f))"
  by (cases "i = key a b"; cases "m i") (simp_all add: linked_in_entry new_sector_def)

lemma floor_at_ensure:
  assumes "valid_keys m"
  shows "floor_at x' y' z (snd (ensure_sector x y m)) = floor_at x' y' z m"
    "fst (ensure_sector x y m) = key (unat x div 16) (unat y div 16)"
    "snd (ensure_sector x y m) (key (unat x div 16) (unat y div 16)) \<noteq> None"
proof -
  have l: "unat x div 16 < 4096" "unat y div 16 < 4096" by (rule coord_lt)+
  from assms have "floor_at x' y' z (snd (ensure_sector x y m)) = floor_at x' y' z m \<and>
      fst (ensure_sector x y m) = key (unat x div 16) (unat y div 16) \<and>
      snd (ensure_sector x y m) (key (unat x div 16) (unat y div 16)) \<noteq> None"
  proof (cases rule: ensure_cases [where x = x and y = y])
    case (old i)
    then show ?thesis by (auto simp: getMapSector_def coord_index split: if_splits)
  next
    case new
    have "floor_at x' y' z (linked_in (unat x div 16) (unat y div 16) m) = floor_at x' y' z m"
      by (cases "unat z < 16") (simp_all only: floor_at_key floor_at_high linked_in_floors [where m = m, OF l new(2)] not_False_eq_True)
    then show ?thesis using new by (simp add: linked_in_None)
  qed
  then show "floor_at x' y' z (snd (ensure_sector x y m)) = floor_at x' y' z m"
    "fst (ensure_sector x y m) = key (unat x div 16) (unat y div 16)"
    "snd (ensure_sector x y m) (key (unat x div 16) (unat y div 16)) \<noteq> None" by simp_all
qed

lemma floor_at_update:
  assumes "m (key (unat x div 16) (unat y div 16)) \<noteq> None" "unat z < 16"
  shows "floor_at x' y' z' (update_sector (key (unat x div 16) (unat y div 16)) (on_floor (unat z) f) m) =
    (if unat x' div 16 = unat x div 16 \<and> unat y' div 16 = unat y div 16 \<and> z' = z then f (floor_at x y z m) else floor_at x' y' z' m)"
proof -
  have k: "key (unat x' div 16) (unat y' div 16) = key (unat x div 16) (unat y div 16) \<longleftrightarrow>
      unat x' div 16 = unat x div 16 \<and> unat y' div 16 = unat y div 16"
    using coord_lt [of x] coord_lt [of y] coord_lt [of x'] coord_lt [of y'] by (simp add: key_inj)
  obtain s where s: "m (key (unat x div 16) (unat y div 16)) = Some s" using assms(1) by blast
  show ?thesis
  proof (cases "unat z' < 16")
    case True
    then show ?thesis using s assms(2) k
      by (auto simp: floor_at_key update_sector_def on_floor_def createFloor_def Let_def word_unat_eq_iff split: option.split)
  next
    case False
    then show ?thesis using assms(2) by (auto simp: floor_at_high)
  qed
qed

lemma cell_inj:
  assumes "unat x' div 16 = unat x div 16" "unat y' div 16 = unat y div 16"
  shows "cell x' y' = cell x y \<longleftrightarrow> x' = x \<and> y' = y"
proof -
  have a: "unat (w AND 15) = unat w mod 16" for w :: "16 word"
  proof -
    have "w AND 15 = take_bit 4 w" by (simp add: take_bit_eq_mask mask_eq_exp_minus_1)
    then show ?thesis by (simp add: unsigned_take_bit_eq take_bit_nat_def)
  qed
  have d: "w' = w" if "unat w' div 16 = unat w div 16" "unat w' mod 16 = unat w mod 16" for w w' :: "16 word"
    using that by (metis div_mult_mod_eq word_unat_eq_iff)
  show ?thesis using d assms by (auto simp: cell_def a)
qed

text \<open>
  C20: The table of sectors represents a function from positions to tiles: setting a tile, or the
  cached description of one, changes what is found at that position and nowhere else, and on a floor
  outside 0 to 15 it changes nothing.
\<close>

theorem tiles_are_a_map:
  assumes "grid isp mk m loc"
  shows "getLoadedTile x' y' z' (map_setTile x y z t m) =
      (if (x', y', z') = (x, y, z) \<and> unat z < 16 then t else getLoadedTile x' y' z' m)
    \<and> cachedTile x' y' z' (map_setTile x y z t m) = cachedTile x' y' z' m
    \<and> cachedTile x' y' z' (setBasicTile x y z b m) =
      (if (x', y', z') = (x, y, z) \<and> unat z < 16 then b else cachedTile x' y' z' m)
    \<and> getLoadedTile x' y' z' (setBasicTile x y z b m) = getLoadedTile x' y' z' m"
proof (cases "unat z < 16")
  case True
  have v: "valid_keys m" using links_ok_keys [OF grid_invD(1) [OF grid_grid_inv [OF assms]]] .
  obtain m1 where e: "ensure_sector x y m = (key (unat x div 16) (unat y div 16), m1)"
    "\<And>x' y' z. floor_at x' y' z m1 = floor_at x' y' z m" "m1 (key (unat x div 16) (unat y div 16)) \<noteq> None"
    using floor_at_ensure [OF v, where x = x and y = y] by (metis prod.collapse)
  have f: "floor_at x' y' z' (map_setTile x y z t m) =
      (if unat x' div 16 = unat x div 16 \<and> unat y' div 16 = unat y div 16 \<and> z' = z then floor_setTile x y t (floor_at x y z m) else floor_at x' y' z' m)"
    "floor_at x' y' z' (setBasicTile x y z b m) =
      (if unat x' div 16 = unat x div 16 \<and> unat y' div 16 = unat y div 16 \<and> z' = z then setTileCache x y b (floor_at x y z m) else floor_at x' y' z' m)"
    using True floor_at_update [where m = m1 and x = x and y = y, OF e(3) True] by (simp_all add: map_setTile_def setBasicTile_def e)
  show ?thesis
  proof (cases "unat x' div 16 = unat x div 16 \<and> unat y' div 16 = unat y div 16 \<and> z' = z")
    case s: True
    have e: "floor_at x' y' z' m = floor_at x y z m" using s True by (simp add: floor_at_key)
    have g: "floor_at x' y' z' (map_setTile x y z t m) = floor_setTile x y t (floor_at x y z m)"
      "floor_at x' y' z' (setBasicTile x y z b m) = setTileCache x y b (floor_at x y z m)"
      using f s by simp_all
    show ?thesis unfolding lookup_floor_at e g using s True cell_inj [of x' x y' y]
      by (simp add: floor_getTile_def floor_setTile_def getTileCache_def setTileCache_def)
  next
    case False
    then show ?thesis by (auto simp: lookup_floor_at f)
  qed
next
  case False
  then show ?thesis by (auto simp: map_setTile_def setBasicTile_def)
qed

theorem tiles_are_a_map_witness:
  "getLoadedTile 21 8 7 (map_setTile 21 8 7 (Some 5) example_grid) = Some 5
    \<and> cachedTile 20 8 7 (map_setTile 21 8 7 (Some 5) example_grid) = cachedTile 20 8 7 example_grid"
  using tiles_are_a_map [OF example_grid_reach, where x = 21 and y = 8 and z = 7 and t = "Some 5" and x' = 21 and y' = 8 and z' = 7]
    tiles_are_a_map [OF example_grid_reach, where x = 21 and y = 8 and z = 7 and t = "Some 5" and x' = 20 and y' = 8 and z' = 7]
  by simp

end
