(* ===== verification/Spectators.thy ===== *)
theory Spectators
  imports Sectors
begin

text \<open>
  Who sees what: \<open>map/spectators.hpp\<close> and \<open>map/spectators.cpp\<close>.  A query walks the sectors around a
  position and keeps the creatures in view; its answer is cached under the position, together with
  the range it was asked for, until a creature moves.  Numbers are the signed integers of the code,
  with the casts to unsigned types written out.
\<close>

abbreviation "MAP_MAX_VIEW_PORT_X \<equiv> 11 :: int"
abbreviation "MAP_MAX_VIEW_PORT_Y \<equiv> 11 :: int"
abbreviation "MAP_INIT_SURFACE_LAYER \<equiv> 7 :: int"
abbreviation "MAP_LAYER_VIEW_LIMIT \<equiv> 2 :: int"

record floor_data =
  fd_floor :: "nat list option"
  fd_multiFloor :: "nat list option"

record spectators_cache =
  sp_minRangeX :: int
  sp_maxRangeX :: int
  sp_minRangeY :: int
  sp_maxRangeY :: int
  sp_creatures :: floor_data
  sp_players :: floor_data

type_synonym spectators_caches = "position \<Rightarrow> spectators_cache option"

text \<open>What a query reads: the sectors, where creatures are, and which of them are players.\<close>

record ('a, 'b) world =
  wd_sectors :: "('a, 'b) sectors"
  wd_loc :: "nat \<Rightarrow> position option"
  wd_player :: "nat \<Rightarrow> bool"

definition getPosition :: "('a, 'b) world \<Rightarrow> nat \<Rightarrow> position" where
  "getPosition w c = the (wd_loc w c)"

subsection \<open>Casts\<close>

definition to_u32 :: "int \<Rightarrow> int" where
  "to_u32 n = n mod 4294967296"

definition to_u8 :: "int \<Rightarrow> int" where
  "to_u8 n = n mod 256"

definition to_i8 :: "int \<Rightarrow> int" where
  "to_i8 n = (n + 128) mod 256 - 128"

subsection \<open>The answer so far\<close>

text \<open>Duplicates go through a hash set, whose order is unspecified; only the set of the result matters.\<close>

definition insertAll :: "nat list \<Rightarrow> nat list \<Rightarrow> nat list" where
  "insertAll xs creatures = (if xs = [] then creatures
     else let hasValue = (creatures \<noteq> []); creatures = creatures @ xs
          in if hasValue then remdups creatures else creatures)"

definition insert_creature :: "nat option \<Rightarrow> nat list \<Rightarrow> nat list" where
  "insert_creature c creatures = (case c of None \<Rightarrow> creatures | Some c \<Rightarrow> creatures @ [c])"

definition checkCache :: "('a, 'b) world \<Rightarrow> floor_data \<Rightarrow> bool \<Rightarrow> position \<Rightarrow> bool \<Rightarrow> bool \<Rightarrow>
    int \<Rightarrow> int \<Rightarrow> int \<Rightarrow> int \<Rightarrow> nat list \<Rightarrow> nat list option" where
  "checkCache w specData onlyPlayers centerPos checkDistance multifloor minRangeX maxRangeX minRangeY maxRangeY creatures =
    (case (if multifloor \<or> fd_floor specData = None then fd_multiFloor specData else fd_floor specData) of
       None \<Rightarrow> None
     | Some xs \<Rightarrow> let checkDistance = (checkDistance \<or> \<not> multifloor \<and> fd_floor specData = None) in
         if checkDistance then Some (insertAll (filter (\<lambda>c. let specPos = getPosition w c in
             uint (pos_x centerPos) - uint (pos_x specPos) \<ge> minRangeX
             \<and> uint (pos_y centerPos) - uint (pos_y specPos) \<ge> minRangeY
             \<and> uint (pos_x centerPos) - uint (pos_x specPos) \<le> maxRangeX
             \<and> uint (pos_y centerPos) - uint (pos_y specPos) \<le> maxRangeY
             \<and> (multifloor \<or> pos_z specPos = pos_z centerPos)
             \<and> (\<not> onlyPlayers \<or> wd_player w c)) xs) creatures)
         else Some (insertAll xs creatures))"

subsection \<open>The walk over the sectors\<close>

definition floor_range :: "int \<Rightarrow> bool \<Rightarrow> int \<times> int" where
  "floor_range z multifloor =
    (if multifloor then
       if z > MAP_INIT_SURFACE_LAYER then
         (to_u8 (max (to_i8 (z - MAP_LAYER_VIEW_LIMIT)) 0), to_u8 (min (to_i8 (z + MAP_LAYER_VIEW_LIMIT)) (int MAP_MAX_LAYERS - 1)))
       else if z = MAP_INIT_SURFACE_LAYER - 1 then (0, (MAP_INIT_SURFACE_LAYER - 1) + MAP_LAYER_VIEW_LIMIT)
       else if z = MAP_INIT_SURFACE_LAYER then (0, MAP_INIT_SURFACE_LAYER + MAP_LAYER_VIEW_LIMIT)
       else (0, MAP_INIT_SURFACE_LAYER)
     else (z, z))"

definition in_view :: "position \<Rightarrow> int \<Rightarrow> int \<Rightarrow> int \<Rightarrow> int \<Rightarrow> int \<Rightarrow> int \<Rightarrow> position \<Rightarrow> bool" where
  "in_view centerPos minRangeZ depth min_x width min_y height cpos \<longleftrightarrow>
     to_u32 (uint (pos_z cpos) - minRangeZ) \<le> depth
     \<and> (let offsetZ = getOffsetZ centerPos cpos in
        to_u32 (uint (pos_x cpos) - offsetZ - min_x) \<le> width
        \<and> to_u32 (uint (pos_y cpos) - offsetZ - min_y) \<le> height)"

function walk_E :: "('a, 'b) sectors \<Rightarrow> (('a, 'b) sector \<Rightarrow> nat list) \<Rightarrow> int \<Rightarrow> int \<Rightarrow> int \<Rightarrow> u32 option \<Rightarrow> nat list" where
  "walk_E m pick endx2 ny nx sectorE =
    (if nx > endx2 then []
     else case sectorE of
       Some i \<Rightarrow> pick (the (m i)) @ walk_E m pick endx2 ny (nx + 16) (sc_E (the (m i)))
     | None \<Rightarrow> walk_E m pick endx2 ny (nx + 16) (getMapSector (word_of_int (nx + 16)) (word_of_int ny) m))"
  by pat_completeness auto
termination
  by (relation "measure (\<lambda>(m, pick, endx2, ny, nx, sectorE). nat (endx2 + 1 - nx))") auto

function walk_S :: "('a, 'b) sectors \<Rightarrow> (('a, 'b) sector \<Rightarrow> nat list) \<Rightarrow> int \<Rightarrow> int \<Rightarrow> int \<Rightarrow> int \<Rightarrow> u32 option \<Rightarrow> nat list" where
  "walk_S m pick startx1 endx2 endy2 ny sectorS =
    (if ny > endy2 then []
     else walk_E m pick endx2 ny startx1 sectorS @
       walk_S m pick startx1 endx2 endy2 (ny + 16)
         (case sectorS of Some i \<Rightarrow> sc_S (the (m i))
          | None \<Rightarrow> getMapSector (word_of_int startx1) (word_of_int (ny + 16)) m))"
  by pat_completeness auto
termination
  by (relation "measure (\<lambda>(m, pick, startx1, endx2, endy2, ny, sectorS). nat (endy2 + 1 - ny))") auto

declare walk_E.simps [simp del] walk_S.simps [simp del]

definition clamp16 :: "int \<Rightarrow> int" where
  "clamp16 n = min 65535 (max 0 n)"

definition sector_start :: "int \<Rightarrow> int" where
  "sector_start n = n - n mod 16"

definition search :: "('a, 'b) world \<Rightarrow> position \<Rightarrow> bool \<Rightarrow> bool \<Rightarrow> int \<Rightarrow> int \<Rightarrow> int \<Rightarrow> int \<Rightarrow> nat list" where
  "search w centerPos multifloor onlyPlayers minRangeX maxRangeX minRangeY maxRangeY =
    (let z = uint (pos_z centerPos); (minRangeZ, maxRangeZ) = floor_range z multifloor;
         min_y = uint (pos_y centerPos) + minRangeY; min_x = uint (pos_x centerPos) + minRangeX;
         max_y = uint (pos_y centerPos) + maxRangeY; max_x = uint (pos_x centerPos) + maxRangeX;
         width = to_u32 (max_x - min_x); height = to_u32 (max_y - min_y); depth = to_u32 (maxRangeZ - minRangeZ);
         minoffset = z - maxRangeZ; x1 = clamp16 (min_x + minoffset); y1 = clamp16 (min_y + minoffset);
         maxoffset = z - minRangeZ; x2 = clamp16 (max_x + maxoffset); y2 = clamp16 (max_y + maxoffset);
         startx1 = sector_start x1; starty1 = sector_start y1; endx2 = sector_start x2; endy2 = sector_start y2;
         pick = (\<lambda>s. filter (\<lambda>c. in_view centerPos minRangeZ depth min_x width min_y height (getPosition w c))
           (if onlyPlayers then sc_players s else sc_creatures s))
     in walk_S (wd_sectors w) pick startx1 endx2 endy2 starty1
          (getMapSector (word_of_int startx1) (word_of_int starty1) (wd_sectors w)))"

subsection \<open>The query\<close>

definition no_data :: floor_data where
  "no_data = \<lparr>fd_floor = None, fd_multiFloor = None\<rparr>"

definition store_list :: "bool \<Rightarrow> bool \<Rightarrow> nat list \<Rightarrow> spectators_cache \<Rightarrow> spectators_cache" where
  "store_list onlyPlayers multifloor xs cache =
    (let put = (\<lambda>d. if multifloor then d\<lparr>fd_multiFloor := Some xs\<rparr> else d\<lparr>fd_floor := Some xs\<rparr>)
     in if onlyPlayers then cache\<lparr>sp_players := put (sp_players cache)\<rparr> else cache\<lparr>sp_creatures := put (sp_creatures cache)\<rparr>)"

text \<open>Lines 115 to 204: search, remember the answer, add it to the creatures found before.\<close>

definition search_and_store :: "('a, 'b) world \<Rightarrow> position \<Rightarrow> bool \<Rightarrow> bool \<Rightarrow> int \<Rightarrow> int \<Rightarrow> int \<Rightarrow> int \<Rightarrow>
    nat list \<Rightarrow> spectators_caches \<Rightarrow> nat list \<times> spectators_caches" where
  "search_and_store w centerPos multifloor onlyPlayers minRangeX maxRangeX minRangeY maxRangeY creatures caches =
    (let spectators = search w centerPos multifloor onlyPlayers minRangeX maxRangeX minRangeY maxRangeY;
         cache = (case caches centerPos of Some cache \<Rightarrow> cache
           | None \<Rightarrow> \<lparr>sp_minRangeX = minRangeX, sp_maxRangeX = maxRangeX, sp_minRangeY = minRangeY, sp_maxRangeY = maxRangeY,
               sp_creatures = no_data, sp_players = no_data\<rparr>)
     in (insertAll spectators creatures, caches(centerPos \<mapsto> store_list onlyPlayers multifloor spectators cache)))"

definition spectators_find :: "('a, 'b) world \<Rightarrow> position \<Rightarrow> bool \<Rightarrow> bool \<Rightarrow> int \<Rightarrow> int \<Rightarrow> int \<Rightarrow> int \<Rightarrow>
    nat list \<Rightarrow> spectators_caches \<Rightarrow> nat list \<times> spectators_caches" where
  "spectators_find w centerPos multifloor onlyPlayers minRangeX maxRangeX minRangeY maxRangeY creatures caches =
    (let minRangeX = (if minRangeX = 0 then - MAP_MAX_VIEW_PORT_X else - minRangeX);
         maxRangeX = (if maxRangeX = 0 then MAP_MAX_VIEW_PORT_X else maxRangeX);
         minRangeY = (if minRangeY = 0 then - MAP_MAX_VIEW_PORT_Y else - minRangeY);
         maxRangeY = (if maxRangeY = 0 then MAP_MAX_VIEW_PORT_Y else maxRangeY)
     in case caches centerPos of
       None \<Rightarrow> search_and_store w centerPos multifloor onlyPlayers minRangeX maxRangeX minRangeY maxRangeY creatures caches
     | Some cache \<Rightarrow>
         if minRangeX < sp_minRangeX cache \<or> maxRangeX > sp_maxRangeX cache \<or> minRangeY < sp_minRangeY cache \<or> maxRangeY > sp_maxRangeY cache
         then let minRangeX = min minRangeX (sp_minRangeX cache); minRangeY = min minRangeY (sp_minRangeY cache);
                  maxRangeX = max maxRangeX (sp_maxRangeX cache); maxRangeY = max maxRangeY (sp_maxRangeY cache)
           in search_and_store w centerPos multifloor onlyPlayers minRangeX maxRangeX minRangeY maxRangeY creatures
                (caches(centerPos \<mapsto> cache\<lparr>sp_minRangeX := minRangeX, sp_maxRangeX := maxRangeX,
                  sp_minRangeY := minRangeY, sp_maxRangeY := maxRangeY\<rparr>))
         else let checkDistance = (minRangeX \<noteq> sp_minRangeX cache \<or> maxRangeX \<noteq> sp_maxRangeX cache
                    \<or> minRangeY \<noteq> sp_minRangeY cache \<or> maxRangeY \<noteq> sp_maxRangeY cache);
                  check = (\<lambda>data only dist. checkCache w data only centerPos dist multifloor minRangeX maxRangeX minRangeY maxRangeY creatures);
                  hit = (if onlyPlayers then (case check (sp_players cache) True checkDistance of Some r \<Rightarrow> Some r
                           | None \<Rightarrow> check (sp_creatures cache) True True)
                         else check (sp_creatures cache) False checkDistance)
           in (case hit of Some r \<Rightarrow> (r, caches)
               | None \<Rightarrow> search_and_store w centerPos multifloor onlyPlayers minRangeX maxRangeX minRangeY maxRangeY creatures caches))"

definition clearCache :: spectators_caches where
  "clearCache = (\<lambda>_. None)"


subsection \<open>The walk visits every sector of the rectangle once\<close>

definition entries :: "('a, 'b) sectors \<Rightarrow> (('a, 'b) sector \<Rightarrow> nat list) \<Rightarrow> nat \<Rightarrow> nat \<Rightarrow> nat list" where
  "entries m pick b a = (case m (key a b) of None \<Rightarrow> [] | Some s \<Rightarrow> pick s)"

lemma getMapSector_int:
  assumes "a \<le> 4096" "b \<le> 4096"
  shows "getMapSector (word_of_int (16 * int a)) (word_of_int (16 * int b)) m = link m a b"
proof -
  have w: "(word_of_int (16 * int n) :: u32) = word_of_nat (16 * n)" for n
    by (metis of_int_of_nat_eq of_nat_mult of_nat_numeral)
  have u: "unat (word_of_nat (16 * n) :: u32) = 16 * n" if "n \<le> 4096" for n
    using that unat_of_nat [where 'a = 32, of "16 * n"] by simp
  have "sector_index (word_of_nat (16 * a)) (word_of_nat (16 * b)) = key a b"
    using u [OF assms(1)] u [OF assms(2)] assms by (subst index_key) simp_all
  then show ?thesis unfolding w by (simp only: getMapSector_def link_def)
qed

lemma link_cases:
  assumes "link m a b = r"
  obtains "r = None" "m (key a b) = None" | s where "r = Some (key a b)" "m (key a b) = Some s"
  using assms by (cases "m (key a b)") (auto simp: link_def)

lemma walk_E_eq:
  assumes "links_ok m" "b < 4096" "e < 4096"
  shows "a \<le> 4096 \<Longrightarrow> walk_E m pick (16 * int e) (16 * int b) (16 * int a) (link m a b) = concat (map (entries m pick b) [a ..< Suc e])"
proof (induction "Suc e - a" arbitrary: a)
  case 0
  then show ?case by (subst walk_E.simps) simp
next
  case (Suc n)
  then have a: "a \<le> e" "a < 4096" "a + 1 \<le> 4096" using assms(3) by auto
  have next_a: "16 * int a + 16 = 16 * int (a + 1)" by simp
  have ih: "walk_E m pick (16 * int e) (16 * int b) (16 * int (a + 1)) (link m (a + 1) b) = concat (map (entries m pick b) [a + 1 ..< Suc e])"
    using Suc.hyps(1) [of "a + 1"] Suc.hyps(2) a by simp
  have list: "[a ..< Suc e] = a # [a + 1 ..< Suc e]" using a by (simp add: upt_conv_Cons)
  have g: "getMapSector (word_of_int (16 * int (a + 1))) (word_of_int (16 * int b)) m = link m (a + 1) b"
    using a(3) assms(2) by (intro getMapSector_int) simp_all
  have le: "\<not> 16 * int a > 16 * int e" using a by simp
  from refl [of "link m a b"] show ?case
  proof (cases rule: link_cases)
    case 1
    then show ?thesis by (subst walk_E.simps) (simp only: le if_False option.case next_a g ih list entries_def list.map concat.simps append.simps)
  next
    case (2 s)
    then have "sc_E (the (m (key a b))) = link m (a + 1) b" using links_okD [OF assms(1) a(2) assms(2)] by simp
    then show ?thesis using 2
      by (subst walk_E.simps) (simp only: le if_False option.case option.sel next_a ih list entries_def list.map concat.simps)
  qed
qed

lemma walk_S_eq:
  assumes "links_ok m" "a < 4096" "e < 4096" "f < 4096"
  shows "b \<le> 4096 \<Longrightarrow> walk_S m pick (16 * int a) (16 * int e) (16 * int f) (16 * int b) (link m a b) =
    concat (map (\<lambda>b. concat (map (entries m pick b) [a ..< Suc e])) [b ..< Suc f])"
proof (induction "Suc f - b" arbitrary: b)
  case 0
  then show ?case by (subst walk_S.simps) simp
next
  case (Suc n)
  then have b: "b \<le> f" "b < 4096" "b + 1 \<le> 4096" using assms(4) by auto
  have next_b: "16 * int b + 16 = 16 * int (b + 1)" by simp
  have ih: "walk_S m pick (16 * int a) (16 * int e) (16 * int f) (16 * int (b + 1)) (link m a (b + 1)) =
      concat (map (\<lambda>b. concat (map (entries m pick b) [a ..< Suc e])) [b + 1 ..< Suc f])"
    using Suc.hyps(1) [of "b + 1"] Suc.hyps(2) b by simp
  have list: "[b ..< Suc f] = b # [b + 1 ..< Suc f]" using b by (simp add: upt_conv_Cons)
  have g: "getMapSector (word_of_int (16 * int a)) (word_of_int (16 * int (b + 1))) m = link m a (b + 1)"
    using b(3) assms(2) by (intro getMapSector_int) simp_all
  have le: "\<not> 16 * int b > 16 * int f" using b by simp
  have e: "walk_E m pick (16 * int e) (16 * int b) (16 * int a) (link m a b) = concat (map (entries m pick b) [a ..< Suc e])"
    using assms(2) by (intro walk_E_eq [OF assms(1) b(2) assms(3)]) simp
  have s: "(case link m a b of None \<Rightarrow> link m a (b + 1) | Some i \<Rightarrow> sc_S (the (m i))) = link m a (b + 1)"
    using refl [of "link m a b"]
  proof (cases rule: link_cases)
    case (2 s)
    then show ?thesis using links_okD [OF assms(1,2) b(2)] by simp
  qed simp
  show ?case
    by (subst walk_S.simps) (simp only: le if_False next_b g s e ih list list.map concat.simps)
qed


subsection \<open>What a query ought to answer\<close>

definition visible :: "('a, 'b) world \<Rightarrow> position \<Rightarrow> bool \<Rightarrow> bool \<Rightarrow> int \<Rightarrow> int \<Rightarrow> int \<Rightarrow> int \<Rightarrow> nat \<Rightarrow> bool" where
  "visible w centerPos multifloor onlyPlayers left right up down c \<longleftrightarrow>
    (case wd_loc w c of None \<Rightarrow> False
     | Some p \<Rightarrow> (onlyPlayers \<longrightarrow> wd_player w c)
         \<and> fst (floor_range (uint (pos_z centerPos)) multifloor) \<le> uint (pos_z p)
         \<and> uint (pos_z p) \<le> snd (floor_range (uint (pos_z centerPos)) multifloor)
         \<and> (let dx = uint (pos_x p) - getOffsetZ centerPos p - uint (pos_x centerPos);
                dy = uint (pos_y p) - getOffsetZ centerPos p - uint (pos_y centerPos)
            in - left \<le> dx \<and> dx \<le> right \<and> - up \<le> dy \<and> dy \<le> down))"

lemma uint_bounds: "0 \<le> uint (x :: 16 word)" "uint (x :: 16 word) < 65536" "0 \<le> uint (z :: u8)" "uint (z :: u8) < 256"
  using uint_lt2p [of x] uint_lt2p [of z] by simp_all

lemma to_u32_le: "- 2147483648 < d \<Longrightarrow> d < 2147483648 \<Longrightarrow> 0 \<le> n \<Longrightarrow> n < 2147483648 \<Longrightarrow> to_u32 d \<le> to_u32 n \<longleftrightarrow> 0 \<le> d \<and> d \<le> n"
proof -
  assume a: "- 2147483648 < d" "d < 2147483648" "0 \<le> n" "n < 2147483648"
  have "d mod 4294967296 = (d + 4294967296) mod 4294967296" by simp
  then have "to_u32 d = (if d < 0 then d + 4294967296 else d)"
    using a by (auto simp: to_u32_def mod_pos_pos_trivial simp del: mod_add_self2)
  moreover have "to_u32 n = n" using a by (simp add: to_u32_def)
  ultimately show ?thesis using a by auto
qed

lemma to_i8_id: "- 128 \<le> n \<Longrightarrow> n < 128 \<Longrightarrow> to_i8 n = n"
  by (simp add: to_i8_def)

lemma to_u8_id: "0 \<le> n \<Longrightarrow> n < 256 \<Longrightarrow> to_u8 n = n"
  by (simp add: to_u8_def)

lemma floor_range_bounds:
  assumes "0 \<le> z" "z < 16"
  shows "0 \<le> fst (floor_range z f) \<and> fst (floor_range z f) \<le> z \<and> z \<le> snd (floor_range z f) \<and> snd (floor_range z f) < 16"
proof -
  have "to_i8 (z - 2) = z - 2" "to_i8 (z + 2) = z + 2" using assms by (simp_all add: to_i8_id)
  moreover have "to_u8 (max (z - 2) 0) = max (z - 2) 0" "to_u8 (min (z + 2) 15) = min (z + 2) 15"
    using assms by (simp_all add: to_u8_id)
  ultimately show ?thesis using assms by (auto simp: floor_range_def)
qed

lemma in_view_iff:
  fixes p c :: position
  assumes "0 \<le> zlo" "zlo \<le> zhi" "zhi < 16" "0 \<le> l" "0 \<le> r" "0 \<le> u" "0 \<le> d" "l < 65536" "r < 65536" "u < 65536" "d < 65536"
  shows "in_view c zlo (to_u32 (zhi - zlo)) (uint (pos_x c) - l) (to_u32 (r + l)) (uint (pos_y c) - u) (to_u32 (d + u)) p \<longleftrightarrow>
    zlo \<le> uint (pos_z p) \<and> uint (pos_z p) \<le> zhi
    \<and> (let dx = uint (pos_x p) - getOffsetZ c p - uint (pos_x c); dy = uint (pos_y p) - getOffsetZ c p - uint (pos_y c)
       in - l \<le> dx \<and> dx \<le> r \<and> - u \<le> dy \<and> dy \<le> d)"
proof -
  have z: "to_u32 (uint (pos_z p) - zlo) \<le> to_u32 (zhi - zlo) \<longleftrightarrow> 0 \<le> uint (pos_z p) - zlo \<and> uint (pos_z p) - zlo \<le> zhi - zlo"
    using assms uint_bounds(3,4) [of "pos_z p"] by (intro to_u32_le; linarith)
  have o: "- 256 < getOffsetZ c p" "getOffsetZ c p < 256"
    using uint_bounds(3,4) [of "pos_z p"] uint_bounds(3,4) [of "pos_z c"] unfolding getOffsetZ_def by linarith+
  have x: "to_u32 (uint (pos_x p) - getOffsetZ c p - (uint (pos_x c) - l)) \<le> to_u32 (r + l) \<longleftrightarrow>
      0 \<le> uint (pos_x p) - getOffsetZ c p - (uint (pos_x c) - l) \<and> uint (pos_x p) - getOffsetZ c p - (uint (pos_x c) - l) \<le> r + l"
    using assms o uint_bounds(1,2) [of "pos_x p"] uint_bounds(1,2) [of "pos_x c"] by (intro to_u32_le; linarith)
  have y: "to_u32 (uint (pos_y p) - getOffsetZ c p - (uint (pos_y c) - u)) \<le> to_u32 (d + u) \<longleftrightarrow>
      0 \<le> uint (pos_y p) - getOffsetZ c p - (uint (pos_y c) - u) \<and> uint (pos_y p) - getOffsetZ c p - (uint (pos_y c) - u) \<le> d + u"
    using assms o uint_bounds(1,2) [of "pos_y p"] uint_bounds(1,2) [of "pos_y c"] by (intro to_u32_le; linarith)
  show ?thesis unfolding in_view_def Let_def z x y by linarith
qed

lemma distinct_concat_map:
  "distinct xs \<Longrightarrow> (\<And>x. x \<in> set xs \<Longrightarrow> distinct (f x)) \<Longrightarrow>
    (\<And>x y. x \<in> set xs \<Longrightarrow> y \<in> set xs \<Longrightarrow> x \<noteq> y \<Longrightarrow> set (f x) \<inter> set (f y) = {}) \<Longrightarrow> distinct (concat (map f xs))"
  by (induction xs) (auto simp: disjoint_iff)

lemma pos_key: "uint (pos_x p) div 16 = int (unat (pos_x p) div 16)" "uint (pos_y p) div 16 = int (unat (pos_y p) div 16)"
  by (simp_all add: zdiv_int)

text \<open>The sectors hold the right creatures.\<close>

lemma entries_set:
  assumes "grid_inv (wd_player w) (wd_sectors w) (wd_loc w)" "a < 4096" "b < 4096"
    and "pick = (\<lambda>s. filter Q (if onlyPlayers then sc_players s else sc_creatures s))"
  shows "set (entries (wd_sectors w) pick b a) =
      {c. Q c \<and> (onlyPlayers \<longrightarrow> wd_player w c) \<and> (\<exists>p. wd_loc w c = Some p \<and> unat (pos_x p) div 16 = a \<and> unat (pos_y p) div 16 = b)}"
    "distinct (entries (wd_sectors w) pick b a)"
proof -
  have k: "key_of p = key a b \<longleftrightarrow> unat (pos_x p) div 16 = a \<and> unat (pos_y p) div 16 = b" for p
    using assms(2,3) coord_lt [of "pos_x p"] coord_lt [of "pos_y p"] by (simp add: key_of_key key_inj)
  have "set (entries (wd_sectors w) pick b a) =
      {c. Q c \<and> (onlyPlayers \<longrightarrow> wd_player w c) \<and> (\<exists>p. wd_loc w c = Some p \<and> key_of p = key a b)}
      \<and> distinct (entries (wd_sectors w) pick b a)"
  proof (cases "wd_sectors w (key a b)")
    case None
    then show ?thesis using grid_invD(3) [OF assms(1)] by (fastforce simp: entries_def)
  next
    case (Some s)
    then show ?thesis using grid_invD(2) [OF assms(1) Some] by (auto simp: entries_def listed_def assms(4))
  qed
  then show "set (entries (wd_sectors w) pick b a) =
      {c. Q c \<and> (onlyPlayers \<longrightarrow> wd_player w c) \<and> (\<exists>p. wd_loc w c = Some p \<and> unat (pos_x p) div 16 = a \<and> unat (pos_y p) div 16 = b)}"
    "distinct (entries (wd_sectors w) pick b a)" unfolding k by simp_all
qed


lemma clamp_mono: "a \<le> n \<Longrightarrow> 0 \<le> n \<Longrightarrow> clamp16 a \<le> n" "n \<le> a \<Longrightarrow> n < 65536 \<Longrightarrow> n \<le> clamp16 a"
  by (auto simp: clamp16_def)

lemma clamp_bounds: "0 \<le> clamp16 a" "clamp16 a < 65536"
  by (auto simp: clamp16_def)

lemma sector_start_nat: "0 \<le> n \<Longrightarrow> n < 65536 \<Longrightarrow> sector_start n = 16 * int (nat (n div 16)) \<and> nat (n div 16) < 4096"
  by (auto simp: sector_start_def minus_mod_eq_mult_div nat_less_iff)

text \<open>A creature in view stands on a sector that the walk visits.\<close>

lemma in_rectangle:
  assumes "zlo \<le> uint (pos_z p)" "uint (pos_z p) \<le> zhi"
    and "- l \<le> uint x - getOffsetZ c p - uint cx" "uint x - getOffsetZ c p - uint cx \<le> r"
  shows "nat (clamp16 (uint cx - l + (uint (pos_z c) - zhi)) div 16) \<le> unat (x :: 16 word) div 16
    \<and> unat x div 16 \<le> nat (clamp16 (uint (cx :: 16 word) + r + (uint (pos_z c) - zlo)) div 16)"
proof -
  have o: "getOffsetZ c p = uint (pos_z c) - uint (pos_z p)" by (simp add: getOffsetZ_def)
  have a: "clamp16 (uint cx - l + (uint (pos_z c) - zhi)) \<le> uint x" "uint x \<le> clamp16 (uint cx + r + (uint (pos_z c) - zlo))"
    using assms uint_bounds(1,2) [of x] unfolding o by (intro clamp_mono; linarith)+
  have u: "int (unat x div 16) = uint x div 16" by (simp add: zdiv_int)
  have "clamp16 (uint cx - l + (uint (pos_z c) - zhi)) div 16 \<le> int (unat x div 16)"
    "int (unat x div 16) \<le> clamp16 (uint cx + r + (uint (pos_z c) - zlo)) div 16"
    unfolding u using a by (simp_all add: zdiv_mono1)
  then show ?thesis by linarith
qed

lemma search_exact:
  assumes "grid_inv (wd_player w) (wd_sectors w) (wd_loc w)" "uint (pos_z centerPos) < 16"
    and "0 \<le> l" "0 \<le> r" "0 \<le> u" "0 \<le> d" "l < 65536" "r < 65536" "u < 65536" "d < 65536"
  shows "set (search w centerPos multifloor onlyPlayers (- l) r (- u) d) = Collect (visible w centerPos multifloor onlyPlayers l r u d)"
    "distinct (search w centerPos multifloor onlyPlayers (- l) r (- u) d)"
proof -
  obtain zlo zhi where fr: "floor_range (uint (pos_z centerPos)) multifloor = (zlo, zhi)" by fastforce
  have z: "0 \<le> zlo" "zlo \<le> zhi" "zhi < 16"
    using floor_range_bounds [of "uint (pos_z centerPos)" multifloor] assms(2) fr by auto
  define Q where "Q = (\<lambda>c. in_view centerPos zlo (to_u32 (zhi - zlo)) (uint (pos_x centerPos) - l) (to_u32 (r + l))
    (uint (pos_y centerPos) - u) (to_u32 (d + u)) (getPosition w c))"
  define pick :: "('a, 'b) sector \<Rightarrow> nat list" where "pick = (\<lambda>s. filter Q (if onlyPlayers then sc_players s else sc_creatures s))"
  define x1 y1 x2 y2 where xy: "x1 = clamp16 (uint (pos_x centerPos) - l + (uint (pos_z centerPos) - zhi))"
    "y1 = clamp16 (uint (pos_y centerPos) - u + (uint (pos_z centerPos) - zhi))"
    "x2 = clamp16 (uint (pos_x centerPos) + r + (uint (pos_z centerPos) - zlo))"
    "y2 = clamp16 (uint (pos_y centerPos) + d + (uint (pos_z centerPos) - zlo))"
  define a b e f where abef: "a = nat (x1 div 16)" "b = nat (y1 div 16)" "e = nat (x2 div 16)" "f = nat (y2 div 16)"
  have s: "sector_start x1 = 16 * int a" "sector_start y1 = 16 * int b" "sector_start x2 = 16 * int e" "sector_start y2 = 16 * int f"
    and lt: "a < 4096" "b < 4096" "e < 4096" "f < 4096"
    using clamp_bounds by (simp_all add: abef sector_start_nat xy)
  have lk: "links_ok (wd_sectors w)" using grid_invD(1) [OF assms(1)] .
  have g: "getMapSector (word_of_int (16 * int a)) (word_of_int (16 * int b)) (wd_sectors w) = link (wd_sectors w) a b"
    using lt by (intro getMapSector_int) simp_all
  have width: "X + r' - (X - l') = r' + l'" for X r' l' :: int by simp
  have "search w centerPos multifloor onlyPlayers (- l) r (- u) d = walk_S (wd_sectors w) pick (16 * int a) (16 * int e) (16 * int f) (16 * int b)
      (getMapSector (word_of_int (16 * int a)) (word_of_int (16 * int b)) (wd_sectors w))"
    unfolding search_def fr Let_def prod.case pick_def Q_def s [symmetric] xy
    by (simp only: add_uminus_conv_diff width)
  then have walk: "search w centerPos multifloor onlyPlayers (- l) r (- u) d =
      concat (map (\<lambda>b. concat (map (entries (wd_sectors w) pick b) [a ..< Suc e])) [b ..< Suc f])"
    unfolding g using walk_S_eq [OF lk lt(1,3,4), of b pick] lt by simp
  note en = entries_set [OF assms(1) _ _ pick_def]
  have "c \<in> set (search w centerPos multifloor onlyPlayers (- l) r (- u) d) \<longleftrightarrow>
      (\<exists>i\<in>{b..f}. \<exists>j\<in>{a..e}. c \<in> set (entries (wd_sectors w) pick i j))" for c
    unfolding walk set_concat set_map image_image set_upt atLeastLessThanSuc_atLeastAtMost by blast
  also have "\<dots> c \<longleftrightarrow> Q c \<and> (onlyPlayers \<longrightarrow> wd_player w c) \<and> (\<exists>p. wd_loc w c = Some p \<and>
      a \<le> unat (pos_x p) div 16 \<and> unat (pos_x p) div 16 \<le> e \<and> b \<le> unat (pos_y p) div 16 \<and> unat (pos_y p) div 16 \<le> f)" for c
    using en lt by fastforce
  also have "\<dots> c \<longleftrightarrow> visible w centerPos multifloor onlyPlayers l r u d c" for c
  proof (cases "wd_loc w c")
    case (Some p)
    have q: "Q c \<longleftrightarrow> zlo \<le> uint (pos_z p) \<and> uint (pos_z p) \<le> zhi
      \<and> (let dx = uint (pos_x p) - getOffsetZ centerPos p - uint (pos_x centerPos); dy = uint (pos_y p) - getOffsetZ centerPos p - uint (pos_y centerPos)
       in - l \<le> dx \<and> dx \<le> r \<and> - u \<le> dy \<and> dy \<le> d)"
      using in_view_iff [OF z assms(3-10), of centerPos p] by (simp add: Q_def getPosition_def Some)
    have "Q c \<Longrightarrow> a \<le> unat (pos_x p) div 16 \<and> unat (pos_x p) div 16 \<le> e \<and> b \<le> unat (pos_y p) div 16 \<and> unat (pos_y p) div 16 \<le> f"
      unfolding q Let_def abef xy using in_rectangle [of zlo p zhi] by blast
    then show ?thesis using Some q by (auto simp: visible_def fr)
  qed (simp add: visible_def)
  finally show "set (search w centerPos multifloor onlyPlayers (- l) r (- u) d) = Collect (visible w centerPos multifloor onlyPlayers l r u d)"
    by blast
  show "distinct (search w centerPos multifloor onlyPlayers (- l) r (- u) d)"
    unfolding walk using en lt by (intro distinct_concat_map) (auto simp: less_Suc_eq_le intro!: distinct_concat_map)
qed


lemma insertAll_Nil [simp]: "insertAll xs [] = xs"
  by (simp add: insertAll_def)

definition or_default :: "int \<Rightarrow> int \<Rightarrow> int" where
  "or_default d n = (if n = 0 then d else n)"

lemma or_default_bounds: "0 \<le> n \<Longrightarrow> n < 65536 \<Longrightarrow> 0 \<le> or_default 11 n \<and> or_default 11 n < 65536"
  by (simp add: or_default_def)

text \<open>Without a cache entry for the position, and once more with the entry this leaves.\<close>

lemma find_cold:
  assumes "caches centerPos = None"
  shows "spectators_find w centerPos multifloor onlyPlayers l r u d [] caches =
    (let s = search w centerPos multifloor onlyPlayers (- or_default 11 l) (or_default 11 r) (- or_default 11 u) (or_default 11 d)
     in (s, caches(centerPos \<mapsto> store_list onlyPlayers multifloor s
       \<lparr>sp_minRangeX = - or_default 11 l, sp_maxRangeX = or_default 11 r, sp_minRangeY = - or_default 11 u, sp_maxRangeY = or_default 11 d,
         sp_creatures = no_data, sp_players = no_data\<rparr>)))"
  using assms by (simp add: spectators_find_def search_and_store_def or_default_def Let_def)

lemma find_again:
  assumes "caches centerPos = None" "spectators_find w centerPos multifloor onlyPlayers l r u d [] caches = (s, caches')"
  shows "spectators_find w centerPos multifloor onlyPlayers l r u d [] caches' = (s, caches')"
  using assms(2) unfolding find_cold [where caches = caches and centerPos = centerPos, OF assms(1)]
  by (auto simp: spectators_find_def or_default_def Let_def store_list_def no_data_def checkCache_def)

text \<open>
  C21: On a consistent grid, a query for a position that has no cached answer finds exactly the
  creatures (or players) in view, each once: those on the floors that are visible from there, within
  the range after shifting them by the difference in floors.  Asking again gives the same answer.
\<close>

theorem spectators_exact:
  assumes "grid (wd_player w) mk (wd_sectors w) (wd_loc w)" "uint (pos_z centerPos) < 16" "caches centerPos = None"
    and "\<forall>n\<in>{l, r, u, d}. 0 \<le> n \<and> n < 65536"
    and "spectators_find w centerPos multifloor onlyPlayers l r u d [] caches = (s, caches')"
  shows "set s = Collect (visible w centerPos multifloor onlyPlayers (or_default 11 l) (or_default 11 r) (or_default 11 u) (or_default 11 d))
    \<and> distinct s \<and> spectators_find w centerPos multifloor onlyPlayers l r u d [] caches' = (s, caches')"
proof -
  have s: "s = search w centerPos multifloor onlyPlayers (- or_default 11 l) (or_default 11 r) (- or_default 11 u) (or_default 11 d)"
    using assms(5) unfolding find_cold [where caches = caches and centerPos = centerPos, OF assms(3)] by (simp add: Let_def)
  have "0 \<le> or_default 11 n \<and> or_default 11 n < 65536" if "n \<in> {l, r, u, d}" for n
    using assms(4) that or_default_bounds by blast
  then have b: "0 \<le> or_default 11 l" "0 \<le> or_default 11 r" "0 \<le> or_default 11 u" "0 \<le> or_default 11 d"
    "or_default 11 l < 65536" "or_default 11 r < 65536" "or_default 11 u < 65536" "or_default 11 d < 65536" by simp_all
  show ?thesis
    unfolding s using search_exact [OF grid_grid_inv [OF assms(1)] assms(2) b] find_again [where caches = caches and centerPos = centerPos, OF assms(3,5)] s by simp
qed

text \<open>A player on one sector and a monster on the next.\<close>

definition example_sectors :: "(nat, nat) sectors" where
  "example_sectors = the (grid_place True 7 (Pos 21 9 7) example_grid)"

definition example_world :: "(nat, nat) world" where
  "example_world = \<lparr>wd_sectors = the (grid_place False 8 (Pos 41 9 7) example_sectors),
     wd_loc = (\<lambda>_. None)(7 \<mapsto> Pos 21 9 7, 8 \<mapsto> Pos 41 9 7), wd_player = (\<lambda>c. c = 7)\<rparr>"

lemma some_the: "\<not> Option.is_none r \<Longrightarrow> r = Some (the r)"
  by (simp add: Option.is_none_def)

lemma example_world_grid: "grid (wd_player example_world) (\<lambda>b. b) (wd_sectors example_world) (wd_loc example_world)"
proof -
  have "\<not> Option.is_none (grid_place True 7 (Pos 21 9 7) example_grid)" by code_simp
  then have 1: "grid_place True 7 (Pos 21 9 7) example_grid = Some example_sectors"
    unfolding example_sectors_def by (rule some_the)
  have g: "grid (\<lambda>c. c = 7) (\<lambda>b. b) example_sectors ((\<lambda>_. None)(7 \<mapsto> Pos 21 9 7))"
    by (rule grid.place [OF example_grid_reach]) (use 1 in simp_all)
  have "\<not> Option.is_none (grid_place False 8 (Pos 41 9 7) example_sectors)" by code_simp
  then have 2: "grid_place False 8 (Pos 41 9 7) example_sectors = Some (wd_sectors example_world)"
    unfolding example_world_def by (simp add: some_the)
  have "grid (\<lambda>c. c = 7) (\<lambda>b. b) (wd_sectors example_world) ((\<lambda>_. None)(7 \<mapsto> Pos 21 9 7, 8 \<mapsto> Pos 41 9 7))"
    by (rule grid.place [OF g]) (use 2 in simp_all)
  then show ?thesis by (simp add: example_world_def)
qed

theorem spectators_exact_witness:
  "let s = fst (spectators_find example_world (Pos 36 9 7) True False 20 20 20 20 [] clearCache)
   in s = [7, 8] \<and> visible example_world (Pos 36 9 7) True False 20 20 20 20 7"
proof -
  let ?f = "spectators_find example_world (Pos 36 9 7) True False 20 20 20 20 [] clearCache"
  have s: "fst ?f = [7, 8]" by code_simp
  have "set (fst ?f) = Collect (visible example_world (Pos 36 9 7) True False (or_default 11 20) (or_default 11 20) (or_default 11 20) (or_default 11 20))
      \<and> distinct (fst ?f) \<and> spectators_find example_world (Pos 36 9 7) True False 20 20 20 20 [] (snd ?f) = (fst ?f, snd ?f)"
    by (rule spectators_exact [OF example_world_grid]) (simp_all add: clearCache_def)
  then have "visible example_world (Pos 36 9 7) True False 20 20 20 20 7" unfolding s by (auto simp: or_default_def)
  then show ?thesis by (simp add: s)
qed

text \<open>
  When a wider range is asked for, the cached range grows but only one of the four cached
  lists is renewed.  After a query for creatures within \<open>r\<close> and one for players within a larger \<open>r'\<close>,
  a query for creatures within \<open>r'\<close> answers with the creatures within \<open>r\<close>: whoever stands between
  the two ranges is not seen.
\<close>

theorem widened_cache_stale:
  assumes "0 < r" "r < r'"
  shows "let (s, k) = spectators_find w centerPos multifloor False r r r r [] clearCache;
             (_, k) = spectators_find w centerPos multifloor True r' r' r' r' [] k
         in fst (spectators_find w centerPos multifloor False r' r' r' r' [] k) = s"
  using assms
  by (cases multifloor)
    (simp_all add: spectators_find_def search_and_store_def clearCache_def Let_def store_list_def no_data_def checkCache_def)

theorem widened_cache_stale_witness:
  "let (s, k) = spectators_find example_world (Pos 26 9 7) False False 11 11 11 11 [] clearCache;
       (_, k) = spectators_find example_world (Pos 26 9 7) False True 20 20 20 20 [] k
   in fst (spectators_find example_world (Pos 26 9 7) False False 20 20 20 20 [] k) = [7]
     \<and> visible example_world (Pos 26 9 7) False False 20 20 20 20 8"
proof -
  have "fst (spectators_find example_world (Pos 26 9 7) False False 11 11 11 11 [] clearCache) = [7]" by code_simp
  moreover have "visible example_world (Pos 26 9 7) False False 20 20 20 20 8" by code_simp
  ultimately show ?thesis
    using widened_cache_stale [of 11 20 example_world "Pos 26 9 7" False] by (simp add: case_prod_beta Let_def)
qed

end
