(* ===== verification/MapLoad.thy ===== *)
theory MapLoad
  imports FileStream Sectors
begin

text \<open>
  Loading the map: \<open>io/iomap.cpp\<close> and the item and tile descriptions of \<open>map/mapcache.hpp\<close> and
  \<open>map/mapcache.cpp\<close>.  The loader reads a \<open>FileStream\<close> and keeps what it makes in one state: the two
  tables through which equal items and tiles are shared, the sectors, the houses, zones, towns and
  waypoints.  The item types (their table is data the server loads) and the hash of strings (a
  library) are parameters.  Loops take a bound on their rounds; a theorem says which bound is enough.
\<close>

abbreviation "OTBM_MAP_DATA \<equiv> 2 :: u8"
abbreviation "OTBM_TILE_AREA \<equiv> 4 :: u8"
abbreviation "OTBM_TILE \<equiv> 5 :: u8"
abbreviation "OTBM_ITEM \<equiv> 6 :: u8"
abbreviation "OTBM_TOWNS \<equiv> 12 :: u8"
abbreviation "OTBM_TOWN \<equiv> 13 :: u8"
abbreviation "OTBM_HOUSETILE \<equiv> 14 :: u8"
abbreviation "OTBM_WAYPOINTS \<equiv> 15 :: u8"
abbreviation "OTBM_WAYPOINT \<equiv> 16 :: u8"
abbreviation "OTBM_TILE_ZONE \<equiv> 19 :: u8"

record item_attrs =
  ia_text :: "u8 list"
  ia_id :: "16 word"
  ia_charges :: "16 word"
  ia_actionId :: "16 word"
  ia_uniqueId :: "16 word"
  ia_destX :: "16 word"
  ia_destY :: "16 word"
  ia_doorOrDepotId :: "16 word"
  ia_destZ :: u8

datatype basic_item = BasicItem (bi_attrs: item_attrs) (bi_items: "basic_item list")

record basic_tile =
  bt_ground :: "basic_item option"
  bt_items :: "basic_item list"
  bt_flags :: u32
  bt_houseId :: u32
  bt_type :: u8
  bt_isStatic :: bool

definition new_attrs :: "16 word \<Rightarrow> item_attrs" where
  "new_attrs i = \<lparr>ia_text = [], ia_id = i, ia_charges = 0, ia_actionId = 0, ia_uniqueId = 0, ia_destX = 0, ia_destY = 0,
     ia_doorOrDepotId = 0, ia_destZ = 0\<rparr>"

definition new_tile :: basic_tile where
  "new_tile = \<lparr>bt_ground = None, bt_items = [], bt_flags = 0, bt_houseId = 0, bt_type = 0, bt_isStatic = False\<rparr>"

definition tile_isEmpty :: "bool \<Rightarrow> basic_tile \<Rightarrow> bool" where
  "tile_isEmpty ignoreFlag t \<longleftrightarrow> (ignoreFlag \<or> bt_flags t = 0) \<and> bt_ground t = None \<and> bt_items t = []"

definition tile_isHouse :: "basic_tile \<Rightarrow> bool" where
  "tile_isHouse t \<longleftrightarrow> bt_houseId t \<noteq> 0"

record map_env =
  me_isBed :: "16 word \<Rightarrow> bool"
  me_isTrashHolder :: "16 word \<Rightarrow> bool"
  me_movable :: "16 word \<Rightarrow> bool"
  me_isGroundTile :: "16 word \<Rightarrow> bool"
  me_hash :: "u8 list \<Rightarrow> 64 word"

record map_loader = filestream +
  ml_path :: "u8 list"
  ml_width :: "16 word"
  ml_height :: "16 word"
  ml_monsterfile :: "u8 list"
  ml_npcfile :: "u8 list"
  ml_housefile :: "u8 list"
  ml_zonesfile :: "u8 list"
  ml_items :: "64 word \<Rightarrow> basic_item option"
  ml_tiles :: "64 word \<Rightarrow> basic_tile option"
  ml_sectors :: "(unit, basic_tile) sectors"
  ml_houses :: "u32 list"
  ml_zones :: "(u32 \<times> position) list"
  ml_towns :: "u32 \<Rightarrow> (u8 list \<times> position) option"
  ml_waypoints :: "u8 list \<Rightarrow> position option"

type_synonym 'a loader = "(map_loader, 'a) reader"

subsection \<open>Hashes\<close>

definition hash_int :: "64 word \<Rightarrow> 64 word" where
  "hash_int x = (let x = x XOR drop_bit 33 x; x = x * 0xff51afd7ed558ccd in x XOR drop_bit 33 x)"

definition hash_union :: "64 word \<Rightarrow> 64 word \<Rightarrow> 64 word" where
  "hash_union seed h = seed XOR (h + 0x9e3779b9 + push_bit 6 seed + drop_bit 2 seed)"

definition hash_combine :: "64 word \<Rightarrow> 64 word \<Rightarrow> 64 word" where
  "hash_combine seed v = hash_union seed (hash_int v)"

text \<open>The loop over an array of fields: those that are zero are left out.\<close>

fun hash_fields :: "64 word list \<Rightarrow> 64 word \<Rightarrow> 64 word" where
  "hash_fields [] h = h"
| "hash_fields (v # vs) h = hash_fields vs (if v > 0 then hash_combine h v else h)"

fun item_hash :: "map_env \<Rightarrow> basic_item \<Rightarrow> 64 word \<Rightarrow> 64 word" where
  "item_hash env (BasicItem a its) h = (let
     h = hash_fields [ucast (ia_id a), ucast (ia_charges a), ucast (ia_actionId a), ucast (ia_uniqueId a), ucast (ia_destX a),
           ucast (ia_destY a), ucast (ia_destZ a), ucast (ia_doorOrDepotId a)] h;
     h = (if ia_text a \<noteq> [] then hash_union h (me_hash env (ia_text a)) else h)
   in if its \<noteq> [] then fold (item_hash env) its (hash_combine h (word_of_nat (length its))) else h)"

definition tile_hash :: "map_env \<Rightarrow> basic_tile \<Rightarrow> 64 word \<Rightarrow> 64 word" where
  "tile_hash env t h = (let
     h = hash_fields [ucast (bt_flags t), ucast (bt_houseId t), ucast (bt_type t), of_bool (bt_isStatic t)] h;
     h = (case bt_ground t of None \<Rightarrow> h | Some g \<Rightarrow> item_hash env g h)
   in if bt_items t \<noteq> [] then fold (item_hash env) (bt_items t) (hash_combine h (word_of_nat (length (bt_items t)))) else h)"

text \<open>\<open>try_emplace\<close> under the hash: what is in the table already is taken instead.\<close>

definition tryReplaceItemFromCache :: "map_env \<Rightarrow> basic_item \<Rightarrow> basic_item loader" where
  "tryReplaceItemFromCache env ref s = (let h = item_hash env ref 0 in
     case ml_items s h of Some item \<Rightarrow> Inr (item, s)
     | None \<Rightarrow> Inr (ref, s\<lparr>ml_items := (ml_items s)(h \<mapsto> ref)\<rparr>))"

definition tryGetTileFromCache :: "map_env \<Rightarrow> basic_tile \<Rightarrow> basic_tile loader" where
  "tryGetTileFromCache env ref s = (let h = tile_hash env ref 0 in
     case ml_tiles s h of Some tile \<Rightarrow> Inr (tile, s)
     | None \<Rightarrow> Inr (ref, s\<lparr>ml_tiles := (ml_tiles s)(h \<mapsto> ref)\<rparr>))"

definition cache_setBasicTile :: "map_env \<Rightarrow> 16 word \<Rightarrow> 16 word \<Rightarrow> u8 \<Rightarrow> basic_tile \<Rightarrow> unit loader" where
  "cache_setBasicTile env x y z newTile =
    (if unat z \<ge> MAP_MAX_LAYERS then fs_return ()
     else fs_bind (tryGetTileFromCache env newTile) (\<lambda>tile.
       fs_modify (\<lambda>s. s\<lparr>ml_sectors := setBasicTile x y z (Some tile) (ml_sectors s)\<rparr>)))"

definition cache_flush :: "unit loader" where
  "cache_flush = fs_modify (\<lambda>s. s\<lparr>ml_items := (\<lambda>_. None), ml_tiles := (\<lambda>_. None)\<rparr>)"

subsection \<open>Items\<close>

text \<open>A loop whose body says whether to go on.\<close>

fun fs_iter :: "nat \<Rightarrow> ('a \<Rightarrow> ('s, bool \<times> 'a) reader) \<Rightarrow> 'a \<Rightarrow> ('s, 'a) reader" where
  "fs_iter 0 body a = fs_throw Out_of_fuel"
| "fs_iter (Suc n) body a = fs_bind (body a) (\<lambda>(go, a). if go then fs_iter n body a else fs_return a)"

definition readAttr_case :: "item_attrs \<Rightarrow> u8 \<Rightarrow> (bool \<times> item_attrs) loader" where
  "readAttr_case a attr =
    (if attr = 10 then fs_bind getU16 (\<lambda>v. fs_return (True, a\<lparr>ia_doorOrDepotId := v\<rparr>))
     else if attr = 14 then fs_bind getU8 (\<lambda>v. fs_return (True, a\<lparr>ia_doorOrDepotId := ucast v\<rparr>))
     else if attr = 8 then fs_bind getU16 (\<lambda>x. fs_bind getU16 (\<lambda>y. fs_bind getU8 (\<lambda>z.
       fs_return (True, a\<lparr>ia_destX := x, ia_destY := y, ia_destZ := z\<rparr>))))
     else if attr = 15 then fs_bind getU8 (\<lambda>v. fs_return (True, a\<lparr>ia_charges := ucast v\<rparr>))
     else if attr = 22 then fs_bind getU16 (\<lambda>v. fs_return (True, a\<lparr>ia_charges := v\<rparr>))
     else if attr = 4 then fs_bind getU16 (\<lambda>v. fs_return (True, a\<lparr>ia_actionId := v\<rparr>))
     else if attr = 5 then fs_bind getU16 (\<lambda>v. fs_return (True, a\<lparr>ia_uniqueId := v\<rparr>))
     else if attr = 6 then fs_bind fs_getString (\<lambda>str. fs_return (True, if str \<noteq> [] then a\<lparr>ia_text := str\<rparr> else a))
     else if attr = 7 then fs_bind fs_getString (\<lambda>str. fs_return (True, a))
     else fs_bind (fs_back 1) (\<lambda>_. fs_return (False, a)))"

definition readAttr :: "nat \<Rightarrow> item_attrs \<Rightarrow> item_attrs loader" where
  "readAttr fuel = fs_iter fuel (\<lambda>a. fs_bind getU8 (readAttr_case a))"

fun unserializeItemNode :: "map_env \<Rightarrow> nat \<Rightarrow> nat \<Rightarrow> item_attrs \<Rightarrow> basic_item loader" where
  "unserializeItemNode env fuel 0 a = fs_throw Out_of_fuel"
| "unserializeItemNode env fuel (Suc depth) a = fs_bind (isProp END True) (\<lambda>atEnd.
     if atEnd then fs_bind (fs_back 1) (\<lambda>_. fs_return (BasicItem a []))
     else fs_bind (readAttr fuel a) (\<lambda>a.
       fs_while fuel (startNode 0) (\<lambda>item. fs_bind getU8 (\<lambda>type.
         if type \<noteq> OTBM_ITEM then fs_throw IOMapException
         else fs_bind getU16 (\<lambda>streamId.
           fs_bind (unserializeItemNode env fuel depth (new_attrs streamId)) (\<lambda>sub.
           fs_bind (tryReplaceItemFromCache env sub) (\<lambda>sub.
           fs_bind endNode (\<lambda>ok. if \<not> ok then fs_throw IOMapException
             else fs_return (BasicItem (bi_attrs item) (bi_items item @ [sub]))))))))
       (BasicItem a [])))"

subsection \<open>Tiles\<close>

definition tile_flags :: "u32 \<Rightarrow> u32 \<Rightarrow> u32" where
  "tile_flags flags t = (let
     t = (if flags AND 1 \<noteq> 0 then t OR 128 else if flags AND 4 \<noteq> 0 then t OR 256 else if flags AND 16 \<noteq> 0 then t OR 1024 else t)
   in if flags AND 8 \<noteq> 0 then t OR 512 else t)"

text \<open>Where an item that was read goes; a movable item in a house is left out with a warning.\<close>

definition put_item :: "map_env \<Rightarrow> basic_item \<Rightarrow> basic_tile \<Rightarrow> basic_tile loader" where
  "put_item env item tile = (let i = ia_id (bi_attrs item) in
     if tile_isHouse tile \<and> me_movable env i then fs_return tile
     else if me_isGroundTile env i then fs_bind (tryReplaceItemFromCache env item) (\<lambda>item. fs_return (tile\<lparr>bt_ground := Some item\<rparr>))
     else fs_bind (tryReplaceItemFromCache env item) (\<lambda>item. fs_return (tile\<lparr>bt_items := bt_items tile @ [item]\<rparr>)))"

fun read_zones :: "nat \<Rightarrow> position \<Rightarrow> unit loader" where
  "read_zones 0 p = fs_return ()"
| "read_zones (Suc n) p = fs_bind getU16 (\<lambda>zoneId. if zoneId = 0 then fs_throw IOMapException
     else fs_bind (fs_modify (\<lambda>s. s\<lparr>ml_zones := List.insert (ucast zoneId, p) (ml_zones s)\<rparr>)) (\<lambda>_. read_zones n p))"

definition parse_subnode :: "map_env \<Rightarrow> nat \<Rightarrow> position \<Rightarrow> basic_tile \<Rightarrow> basic_tile loader" where
  "parse_subnode env fuel p tile = fs_bind getU8 (\<lambda>type. fs_bind
     (if type = OTBM_ITEM then fs_bind getU16 (\<lambda>i. fs_bind (unserializeItemNode env fuel fuel (new_attrs i)) (\<lambda>item.
        if tile_isHouse tile \<and> (me_isBed env i \<or> me_isTrashHolder env i) then fs_return tile else put_item env item tile))
      else if type = OTBM_TILE_ZONE then fs_bind getU16 (\<lambda>zoneCount. fs_bind (read_zones (unat zoneCount) p) (\<lambda>_. fs_return tile))
      else fs_throw IOMapException)
     (\<lambda>tile. fs_bind endNode (\<lambda>ok. if \<not> ok then fs_throw IOMapException else fs_return tile)))"

definition parse_tile :: "map_env \<Rightarrow> nat \<Rightarrow> 16 word \<Rightarrow> 16 word \<Rightarrow> u8 \<Rightarrow> position \<Rightarrow> unit loader" where
  "parse_tile env fuel base_x base_y base_z pos = fs_bind getU8 (\<lambda>tileType.
     if tileType \<noteq> OTBM_HOUSETILE \<and> tileType \<noteq> OTBM_TILE then fs_throw IOMapException
     else fs_bind getU8 (\<lambda>tileCoordsX. fs_bind getU8 (\<lambda>tileCoordsY.
       let x = base_x + ucast tileCoordsX + pos_x pos; y = base_y + ucast tileCoordsY + pos_y pos; z = base_z + pos_z pos
       in fs_bind (if tileType = OTBM_HOUSETILE then fs_bind getU32 (\<lambda>houseId.
            fs_bind (fs_modify (\<lambda>s. s\<lparr>ml_houses := List.insert houseId (ml_houses s)\<rparr>)) (\<lambda>_. fs_return (new_tile\<lparr>bt_houseId := houseId\<rparr>)))
          else fs_return new_tile) (\<lambda>tile.
       fs_bind (fs_bind (isProp 3 True) (\<lambda>p. if p then fs_bind getU32 (\<lambda>flags. fs_return (tile\<lparr>bt_flags := tile_flags flags (bt_flags tile)\<rparr>))
          else fs_return tile)) (\<lambda>tile.
       fs_bind (fs_bind (isProp 9 True) (\<lambda>p. if p then fs_bind getU16 (\<lambda>i.
            if \<not> tile_isHouse tile \<or> (\<not> me_isBed env i \<and> \<not> me_isTrashHolder env i) then put_item env (BasicItem (new_attrs i) []) tile
            else fs_return tile)
          else fs_return tile)) (\<lambda>tile.
       fs_bind (fs_while fuel (startNode 0) (parse_subnode env fuel (Pos x y z)) tile) (\<lambda>tile.
       fs_bind endNode (\<lambda>ok. if \<not> ok then fs_throw IOMapException
         else if tile_isEmpty True tile then fs_return ()
         else cache_setBasicTile env x y z tile))))))))"

definition parseTileArea :: "map_env \<Rightarrow> nat \<Rightarrow> position \<Rightarrow> unit loader" where
  "parseTileArea env fuel pos = fs_while fuel (startNode OTBM_TILE_AREA) (\<lambda>_.
     fs_bind getU16 (\<lambda>base_x. fs_bind getU16 (\<lambda>base_y. fs_bind getU8 (\<lambda>base_z.
     fs_bind (fs_while fuel (startNode 0) (\<lambda>_. parse_tile env fuel base_x base_y base_z pos) ()) (\<lambda>_.
     fs_bind endNode (\<lambda>ok. if \<not> ok then fs_throw IOMapException else fs_return ())))))) ()"

subsection \<open>Towns, waypoints and the whole file\<close>

definition read_position :: "position loader" where
  "read_position = fs_bind getU16 (\<lambda>x. fs_bind getU16 (\<lambda>y. fs_bind getU8 (\<lambda>z. fs_return (Pos x y z))))"

definition end_or_throw :: "unit loader" where
  "end_or_throw = fs_bind endNode (\<lambda>ok. if \<not> ok then fs_throw IOMapException else fs_return ())"

definition parse_town :: "unit loader" where
  "parse_town = fs_bind getU32 (\<lambda>townId. fs_bind fs_getString (\<lambda>townName. fs_bind read_position (\<lambda>p.
     fs_bind (fs_modify (\<lambda>s. s\<lparr>ml_towns := (ml_towns s)(townId \<mapsto> (townName, p))\<rparr>)) (\<lambda>_. end_or_throw))))"

definition parseTowns :: "nat \<Rightarrow> unit loader" where
  "parseTowns fuel = fs_bind (startNode OTBM_TOWNS) (\<lambda>ok. if \<not> ok then fs_throw IOMapException
     else fs_bind (fs_while fuel (startNode OTBM_TOWN) (\<lambda>_. parse_town) ()) (\<lambda>_. end_or_throw))"

definition parse_waypoint :: "unit loader" where
  "parse_waypoint = fs_bind fs_getString (\<lambda>name. fs_bind read_position (\<lambda>p.
     fs_bind (fs_modify (\<lambda>s. s\<lparr>ml_waypoints := (ml_waypoints s)(name \<mapsto> p)\<rparr>)) (\<lambda>_. end_or_throw)))"

definition parseWaypoints :: "nat \<Rightarrow> unit loader" where
  "parseWaypoints fuel = fs_bind (startNode OTBM_WAYPOINTS) (\<lambda>ok. if \<not> ok then fs_throw IOMapException
     else fs_bind (fs_while fuel (startNode OTBM_WAYPOINT) (\<lambda>_. parse_waypoint) ()) (\<lambda>_. end_or_throw))"

text \<open>The directory of the map file: everything up to the last slash.\<close>

definition dir_of :: "u8 list \<Rightarrow> u8 list" where
  "dir_of path = rev (dropWhile (\<lambda>c. c \<noteq> 47) (rev path))"

definition map_attr_case :: "u8 \<Rightarrow> (bool \<times> unit) loader" where
  "map_attr_case attr =
    (if attr = 1 then fs_bind fs_getString (\<lambda>_. fs_return (True, ()))
     else if attr = 11 then fs_bind fs_getString (\<lambda>f. fs_bind (fs_modify (\<lambda>s. s\<lparr>ml_monsterfile := dir_of (ml_path s) @ f\<rparr>)) (\<lambda>_. fs_return (True, ())))
     else if attr = 23 then fs_bind fs_getString (\<lambda>f. fs_bind (fs_modify (\<lambda>s. s\<lparr>ml_npcfile := dir_of (ml_path s) @ f\<rparr>)) (\<lambda>_. fs_return (True, ())))
     else if attr = 13 then fs_bind fs_getString (\<lambda>f. fs_bind (fs_modify (\<lambda>s. s\<lparr>ml_housefile := dir_of (ml_path s) @ f\<rparr>)) (\<lambda>_. fs_return (True, ())))
     else if attr = 24 then fs_bind fs_getString (\<lambda>f. fs_bind (fs_modify (\<lambda>s. s\<lparr>ml_zonesfile := dir_of (ml_path s) @ f\<rparr>)) (\<lambda>_. fs_return (True, ())))
     else fs_bind (fs_back 1) (\<lambda>_. fs_return (False, ())))"

definition parseMapDataAttributes :: "nat \<Rightarrow> unit loader" where
  "parseMapDataAttributes fuel = fs_iter fuel (\<lambda>_. fs_bind getU8 map_attr_case) ()"

definition loadMap :: "map_env \<Rightarrow> nat \<Rightarrow> position \<Rightarrow> unit loader" where
  "loadMap env fuel pos = fs_bind (startNode 0) (\<lambda>ok. if \<not> ok then fs_throw IOMapException
     else fs_bind (fs_skip 1) (\<lambda>_. fs_bind getU32 (\<lambda>version. fs_bind getU16 (\<lambda>w. fs_bind getU16 (\<lambda>h.
       fs_bind (fs_modify (\<lambda>s. s\<lparr>ml_width := w, ml_height := h\<rparr>)) (\<lambda>_.
       fs_bind getU32 (\<lambda>majorVersionItems. fs_bind getU32 (\<lambda>_.
       if version > 2 then fs_throw IOMapException
       else if majorVersionItems < 3 then fs_throw IOMapException
       else fs_bind (fs_bind (startNode OTBM_MAP_DATA) (\<lambda>ok. if ok then fs_bind (parseMapDataAttributes fuel) (\<lambda>_.
                fs_bind (parseTileArea env fuel pos) (\<lambda>_. fs_bind endNode (\<lambda>_. fs_return ()))) else fs_return ())) (\<lambda>_.
            fs_bind (parseTowns fuel) (\<lambda>_. fs_bind (parseWaypoints fuel) (\<lambda>_. cache_flush)))))))))))"


subsection \<open>Loading ends\<close>

text \<open>A weaker form of the rule for sequencing, for use as an introduction rule.\<close>

lemma forward_bindI:
  "forward m s \<Longrightarrow> (\<And>a t. fs_valid t \<Longrightarrow> fs_left t \<le> fs_left s \<Longrightarrow> forward (f a) t) \<Longrightarrow> forward (fs_bind m f) s"
  by (rule forward_bind) (auto dest: fs_le_valid fs_le_left)

lemma forward_if: "(P \<Longrightarrow> forward m s) \<Longrightarrow> (\<not> P \<Longrightarrow> forward m' s) \<Longrightarrow> forward (if P then m else m') s"
  by simp

text \<open>A step that reads a byte and goes on with it, or puts it back and stops.\<close>

definition peeks :: "(u8 \<Rightarrow> (bool \<times> 'a) loader) \<Rightarrow> bool" where
  "peeks f \<longleftrightarrow> (\<forall>b. (\<forall>t. fs_valid t \<longrightarrow> forward (f b) t) \<or> (\<exists>a. f b = fs_bind (fs_back 1) (\<lambda>_. fs_return (False, a))))"

lemma peeks_step:
  assumes "peeks f" "fs_valid s"
  shows "forward (fs_bind getU8 f) s" "fs_bind getU8 f s = Inr ((True, a), s') \<Longrightarrow> fs_left s' < fs_left s"
proof -
  have "forward (fs_bind getU8 f) s \<and> (fs_bind getU8 f s = Inr ((True, a), s') \<longrightarrow> fs_left s' < fs_left s)"
    using assms(2)
  proof (cases rule: getU8_cases)
    case (1 e)
    then show ?thesis by (simp add: forward_def fs_bind_def)
  next
    case (2 b k)
    let ?t = "fs_advance k s"
    have t: "fs_valid ?t" "fs_le s ?t" "fs_left ?t < fs_left s"
      using assms(2) 2 by (simp_all add: fs_le_advance fs_left_advance left_rest)
    consider "forward (f b) ?t" | a where "f b = fs_bind (fs_back 1) (\<lambda>_. fs_return (False, a))"
      using assms(1) t(1) by (auto simp: peeks_def)
    then show ?thesis
    proof cases
      case 1
      then show ?thesis using 2 t
        by (auto simp: forward_def fs_bind_def split: sum.splits dest: fs_le_left fs_le_trans)
    next
      case (2 a)
      have "fs_le s (fs_advance (k - 1) s)" using assms(2) \<open>k \<le> length (fs_rest s)\<close> by (simp add: fs_le_advance)
      then show ?thesis using 2 \<open>getU8 s = Inr (b, ?t)\<close> back_advance [OF \<open>0 < k\<close>, of s]
        by (simp add: forward_def reader_simps)
    qed
  qed
  then show "forward (fs_bind getU8 f) s" "fs_bind getU8 f s = Inr ((True, a), s') \<Longrightarrow> fs_left s' < fs_left s" by simp_all
qed

lemma forward_iter:
  assumes "\<And>a. peeks (f a)"
  shows "fs_valid s \<Longrightarrow> fs_left s < n \<Longrightarrow> forward (fs_iter n (\<lambda>a. fs_bind getU8 (f a)) a) s"
proof (induction n arbitrary: a s)
  case (Suc n)
  show ?case unfolding fs_iter.simps
  proof (rule forward_bind)
    show "forward (fs_bind getU8 (f a)) s" by (rule peeks_step [OF assms Suc.prems(1)])
    fix r t assume r: "fs_bind getU8 (f a) s = Inr (r, t)" and le: "fs_le s t"
    obtain go b where "r = (go, b)" by fastforce
    then show "forward (case r of (go, a) \<Rightarrow> if go then fs_iter n (\<lambda>a. fs_bind getU8 (f a)) a else fs_return a) t"
      using Suc.IH [of t b] Suc.prems(2) peeks_step(2) [OF assms Suc.prems(1), of a b t] r fs_le_valid [OF le]
      by (auto simp: forward_return)
  qed
qed simp

lemma forward_cache: "fs_valid s \<Longrightarrow> forward (tryReplaceItemFromCache env i) s" "fs_valid s \<Longrightarrow> forward (tryGetTileFromCache env t) s"
  by (auto simp: forward_def tryReplaceItemFromCache_def tryGetTileFromCache_def fs_le_def fs_valid_def Let_def split: option.split)

lemma forward_update: "fs_valid s \<Longrightarrow> (\<And>s. fs_data (f s) = fs_data s \<and> fs_pos (f s) = fs_pos s) \<Longrightarrow> forward (fs_modify f) s"
  by (rule forward_modify) simp_all

lemmas forward_intros = forward_bindI forward_if forward_return forward_throw forward_getU8 forward_number forward_getString
  forward_isProp forward_startNode forward_endNode forward_cache forward_update

text \<open>The two loops over attributes, items, tiles and the rest.\<close>

lemma forward_readAttr: "fs_valid s \<Longrightarrow> fs_left s < n \<Longrightarrow> forward (readAttr n a) s"
  unfolding readAttr_def
proof (rule forward_iter)
  show "peeks (readAttr_case a)" for a
    unfolding peeks_def
  proof (intro allI)
    fix b
    show "(\<forall>t. fs_valid t \<longrightarrow> forward (readAttr_case a b) t) \<or> (\<exists>a'. readAttr_case a b = fs_bind (fs_back 1) (\<lambda>_. fs_return (False, a')))"
    proof (cases "b \<in> {10, 14, 8, 15, 22, 4, 5, 6, 7}")
      case True
      have "forward (readAttr_case a b) t" if "fs_valid t" for t
        unfolding readAttr_case_def using that True by (intro forward_intros) simp_all
      then show ?thesis by blast
    next
      case False
      then show ?thesis by (auto simp: readAttr_case_def)
    qed
  qed
qed

lemma forward_map_attrs: "fs_valid s \<Longrightarrow> fs_left s < n \<Longrightarrow> forward (parseMapDataAttributes n) s"
  unfolding parseMapDataAttributes_def
proof (rule forward_iter)
  show "peeks map_attr_case"
    unfolding peeks_def
  proof (intro allI)
    fix b
    show "(\<forall>t. fs_valid t \<longrightarrow> forward (map_attr_case b) t) \<or> (\<exists>a'. map_attr_case b = fs_bind (fs_back 1) (\<lambda>_. fs_return (False, a')))"
    proof (cases "b \<in> {1, 11, 23, 13, 24}")
      case True
      have "forward (map_attr_case b) t" if "fs_valid t" for t
        unfolding map_attr_case_def using that True by (intro forward_intros) simp_all
      then show ?thesis by blast
    next
      case False
      then show ?thesis by (auto simp: map_attr_case_def)
    qed
  qed
qed

text \<open>Looking for the end of a node and stepping back, as for an item without attributes.\<close>

lemma forward_isProp_back:
  assumes "fs_valid s" "\<And>t. fs_valid t \<Longrightarrow> fs_left t \<le> fs_left s \<Longrightarrow> forward m t"
  shows "forward (fs_bind (isProp p True) (\<lambda>b. if b then fs_bind (fs_back 1) (\<lambda>_. fs_return x) else m)) s"
  using assms(1)
proof (cases rule: getU8_cases)
  case (1 e)
  then show ?thesis by (simp add: forward_def isProp_def fs_bind_def)
next
  case (2 b k)
  have le: "fs_le s (fs_advance (k - 1) s)" using assms(1) 2 by (simp add: fs_le_advance)
  note bk = back_advance [OF 2(2), of s]
  show ?thesis
  proof (cases "b = p")
    case True
    then show ?thesis using 2 bk le by (simp add: forward_def isProp_def reader_simps)
  next
    case False
    have "forward m (fs_advance (k - 1) s)" using assms(2) fs_le_valid [OF le] fs_le_left [OF le] by simp
    then show ?thesis using False 2 bk fs_le_trans [OF le]
      by (auto simp: forward_def isProp_def reader_simps split: sum.splits)
  qed
qed

lemma forward_nodes:
  assumes "\<And>a t. fs_valid t \<Longrightarrow> fs_left t < fs_left s \<Longrightarrow> forward (body a) t" "fs_valid s" "fs_left s < n"
  shows "forward (fs_while n (startNode ty) body a) s"
  by (rule forward_while [where l = "fs_left s"]) (use assms forward_startNode startNode_consumes in \<open>auto\<close>)

lemma forward_item:
  "fs_valid s \<Longrightarrow> fs_left s < fuel \<Longrightarrow> fs_left s < depth \<Longrightarrow> forward (unserializeItemNode env fuel depth a) s"
proof (induction depth arbitrary: a s)
  case (Suc depth)
  show ?case unfolding unserializeItemNode.simps
  proof (rule forward_isProp_back [OF Suc.prems(1)])
    fix t :: map_loader assume t: "fs_valid t" "fs_left t \<le> fs_left s"
    show "forward (fs_bind (readAttr fuel a) (\<lambda>a. fs_while fuel (startNode 0) (\<lambda>item. fs_bind getU8 (\<lambda>type.
         if type \<noteq> OTBM_ITEM then fs_throw IOMapException
         else fs_bind getU16 (\<lambda>streamId.
           fs_bind (unserializeItemNode env fuel depth (new_attrs streamId)) (\<lambda>sub.
           fs_bind (tryReplaceItemFromCache env sub) (\<lambda>sub.
           fs_bind endNode (\<lambda>ok. if \<not> ok then fs_throw IOMapException
             else fs_return (BasicItem (bi_attrs item) (bi_items item @ [sub]))))))))
       (BasicItem a []))) t"
      using Suc.prems t
      by (intro forward_bindI forward_readAttr forward_nodes forward_intros Suc.IH) simp_all
  qed
qed simp


lemma forward_put_item: "fs_valid s \<Longrightarrow> forward (put_item env item tile) s"
  unfolding put_item_def Let_def by (intro forward_intros) simp_all

lemma forward_zones: "fs_valid s \<Longrightarrow> forward (read_zones n p) s"
proof (induction n arbitrary: s)
  case 0
  then show ?case by (simp add: forward_return)
next
  case (Suc n)
  show ?case unfolding read_zones.simps using Suc.prems by (intro forward_intros Suc.IH) simp_all
qed

lemma forward_subnode: "fs_valid s \<Longrightarrow> fs_left s < fuel \<Longrightarrow> forward (parse_subnode env fuel p tile) s"
  unfolding parse_subnode_def
  by (intro forward_intros forward_zones forward_put_item forward_item) simp_all

lemma forward_cache_tile: "fs_valid s \<Longrightarrow> forward (cache_setBasicTile env x y z t) s"
  unfolding cache_setBasicTile_def by (intro forward_intros) simp_all

lemma forward_tile: "fs_valid s \<Longrightarrow> fs_left s < fuel \<Longrightarrow> forward (parse_tile env fuel base_x base_y base_z pos) s"
  unfolding parse_tile_def Let_def
  by (intro forward_intros forward_put_item forward_nodes forward_subnode forward_cache_tile) simp_all

lemma forward_tile_area: "fs_valid s \<Longrightarrow> fs_left s < fuel \<Longrightarrow> forward (parseTileArea env fuel pos) s"
  unfolding parseTileArea_def
  by (intro forward_nodes forward_intros forward_tile) simp_all

lemma forward_end_or_throw: "fs_valid s \<Longrightarrow> forward end_or_throw s"
  unfolding end_or_throw_def by (intro forward_intros) simp_all

lemma forward_read_position: "fs_valid s \<Longrightarrow> forward read_position s"
  unfolding read_position_def by (intro forward_intros) simp_all

lemma forward_towns: "fs_valid s \<Longrightarrow> fs_left s < fuel \<Longrightarrow> forward (parseTowns fuel) s"
  unfolding parseTowns_def parse_town_def
  by (intro forward_nodes forward_intros forward_read_position forward_end_or_throw) simp_all

lemma forward_waypoints: "fs_valid s \<Longrightarrow> fs_left s < fuel \<Longrightarrow> forward (parseWaypoints fuel) s"
  unfolding parseWaypoints_def parse_waypoint_def
  by (intro forward_nodes forward_intros forward_read_position forward_end_or_throw) simp_all

text \<open>
  C39: Loading a map file of less than four gigabytes always ends, whatever it holds: with a bound
  of one more than the length of the file on the rounds of every loop and on the nesting of items,
  it makes a map or stops with one of the exceptions (or at an access behind the end of the file).
\<close>

theorem map_load_ends:
  assumes "length (fs_data s) < 4294959104" "fs_pos s = 0" "fuel = length (fs_data s) + 1"
  shows "case loadMap env fuel pos s of Inl e \<Rightarrow> e \<noteq> Out_of_fuel
    | Inr (_, s') \<Rightarrow> fs_data s' = fs_data s \<and> unat (fs_pos s') \<le> length (fs_data s)"
proof -
  have v: "fs_valid s" "fs_left s < fuel" using assms by (simp_all add: fs_valid_def fs_left_def)
  have "forward (loadMap env fuel pos) s"
    unfolding loadMap_def cache_flush_def
    using v by (intro forward_intros forward_skip forward_map_attrs forward_tile_area forward_towns forward_waypoints) simp_all
  then show ?thesis by (auto simp: forward_def fs_le_def fs_valid_def split: sum.splits)
qed


text \<open>A map of one tile with a ground item and a chest with an item in it, and a town.\<close>

definition example_map :: "u8 list" where
  "example_map = [START, 0, 2, 0, 0, 0, 44, 1, 44, 1, 3, 0, 0, 0, 0, 0, 0, 0,
     START, 2, START, 4, 10, 0, 20, 0, 7, START, 5, 1, 2, 3, 1, 0, 0, 0, 9, 100, 0,
       START, 6, 200, 0, 4, 5, 0, START, 6, 201, 0, END, END, END, END, END,
     START, 12, START, 13, 1, 0, 0, 0, 2, 0, 65, 66, 11, 0, 22, 0, 7, END, END, START, 15, END, END]"

definition example_env :: map_env where
  "example_env = \<lparr>me_isBed = (\<lambda>_. False), me_isTrashHolder = (\<lambda>_. False), me_movable = (\<lambda>_. True),
     me_isGroundTile = (\<lambda>i. i = 100), me_hash = (\<lambda>_. 0)\<rparr>"

definition example_loader :: "u8 list \<Rightarrow> map_loader" where
  "example_loader bs = \<lparr>fs_data = bs, fs_pos = 0, fs_nodes = 0, ml_path = [], ml_width = 0, ml_height = 0,
     ml_monsterfile = [], ml_npcfile = [], ml_housefile = [], ml_zonesfile = [], ml_items = (\<lambda>_. None), ml_tiles = (\<lambda>_. None),
     ml_sectors = (\<lambda>_. None), ml_houses = [], ml_zones = [], ml_towns = (\<lambda>_. None), ml_waypoints = (\<lambda>_. None)\<rparr>"

theorem map_load_ends_witness:
  "(case loadMap example_env (length example_map + 1) (Pos 0 0 0) (example_loader example_map) of Inl e \<Rightarrow> e \<noteq> Out_of_fuel
     | Inr (_, s') \<Rightarrow> unat (fs_pos s') \<le> length example_map)
   \<and> (case loadMap example_env 100 (Pos 0 0 0) (example_loader example_map) of Inl e \<Rightarrow> False
     | Inr (_, s') \<Rightarrow> ml_towns s' 1 = Some ([65, 66], Pos 11 22 7)
         \<and> map_option (\<lambda>t. map_option (ia_id \<circ> bi_attrs) (bt_ground t)) (cachedTile 11 22 7 (ml_sectors s')) = Some (Some 100))"
proof -
  have "case loadMap example_env (length example_map + 1) (Pos 0 0 0) (example_loader example_map) of Inl e \<Rightarrow> e \<noteq> Out_of_fuel
     | Inr (_, s') \<Rightarrow> fs_data s' = fs_data (example_loader example_map) \<and> unat (fs_pos s') \<le> length (fs_data (example_loader example_map))"
    by (rule map_load_ends) (simp_all add: example_loader_def example_map_def)
  then have "case loadMap example_env (length example_map + 1) (Pos 0 0 0) (example_loader example_map) of Inl e \<Rightarrow> e \<noteq> Out_of_fuel
     | Inr (_, s') \<Rightarrow> unat (fs_pos s') \<le> length example_map"
    by (auto simp: example_loader_def split: sum.splits)
  moreover have "case loadMap example_env 100 (Pos 0 0 0) (example_loader example_map) of Inl e \<Rightarrow> False
     | Inr (_, s') \<Rightarrow> ml_towns s' 1 = Some ([65, 66], Pos 11 22 7)
         \<and> map_option (\<lambda>t. map_option (ia_id \<circ> bi_attrs) (bt_ground t)) (cachedTile 11 22 7 (ml_sectors s')) = Some (Some 100)"
    by code_simp
  ultimately show ?thesis by blast
qed

subsection \<open>Different items that share a hash\<close>

text \<open>
  C40: The hash leaves out the fields that are zero without marking which they were, and the table
  of shared items compares nothing but hashes: after an item with \<open>n\<close> charges, an item of the same
  type with action id \<open>n\<close> and no charges is replaced by it, and so loses its action id.
\<close>

theorem shared_item_confusion:
  assumes "ia_charges a = 0" "ia_actionId a = 0"
    and "item = BasicItem (a\<lparr>ia_charges := n\<rparr>) its" "item' = BasicItem (a\<lparr>ia_actionId := n\<rparr>) its"
    and "tryReplaceItemFromCache env item s = Inr (item, s')"
  shows "tryReplaceItemFromCache env item' s' = Inr (item, s')"
proof -
  have h: "item_hash env item' 0 = item_hash env item 0" by (simp add: assms(1-4) Let_def)
  have "ml_items s' (item_hash env item 0) = Some item"
    using assms(5) by (auto simp: tryReplaceItemFromCache_def Let_def split: option.splits)
  then show ?thesis by (simp add: tryReplaceItemFromCache_def Let_def h)
qed

theorem shared_item_confusion_witness:
  "\<exists>s'. tryReplaceItemFromCache example_env (BasicItem ((new_attrs 5)\<lparr>ia_actionId := 100\<rparr>) []) s'
      = Inr (BasicItem ((new_attrs 5)\<lparr>ia_charges := 100\<rparr>) [], s')"
proof -
  let ?i = "BasicItem ((new_attrs 5)\<lparr>ia_charges := 100\<rparr>) []"
  obtain s' where "tryReplaceItemFromCache example_env ?i (example_loader []) = Inr (?i, s')"
    by (simp add: tryReplaceItemFromCache_def example_loader_def Let_def)
  then show ?thesis
    using shared_item_confusion [of "new_attrs 5" ?i 100 "[]" _ example_env "example_loader []" s']
    by (auto simp: new_attrs_def)
qed

end
