(* ===== verification/Party.thy ===== *)
theory Party
  imports Position "HOL-Library.AList"
begin

text \<open>
  Parties: \<open>creatures/players/grouping/party.hpp\<close> and \<open>party.cpp\<close>, the invitations a player holds
  (\<open>player.cpp\<close>) and the handlers of \<open>game/game.cpp\<close>.  Players and parties are numbers into two
  stores; a party knows its leader, members and invitees, a player its party and the parties that
  invited it, and the theorems say that the two sides agree.  What is only sent to clients is left
  out.  The scripts that may forbid joining, leaving or disbanding, the prices of items, and the
  floating-point level range are parameters.
\<close>

type_synonym u64 = "64 word"

datatype shared_exp_status = SHAREDEXP_OK | SHAREDEXP_TOOFARAWAY | SHAREDEXP_LEVELDIFFTOOLARGE
  | SHAREDEXP_MEMBERINACTIVE | SHAREDEXP_EMPTYPARTY

datatype price_type = MARKET_PRICE | LEADER_PRICE

record analyzer =
  an_id :: nat
  an_damage :: u64
  an_healing :: u64
  an_lootPrice :: u64
  an_supplyPrice :: u64
  an_lootMap :: "(16 word \<times> u64) list"
  an_supplyMap :: "(16 word \<times> u64) list"

record party =
  pt_leader :: "nat option"
  pt_members :: "nat list"
  pt_invites :: "nat list"
  pt_sharedExpActive :: bool
  pt_sharedExpEnabled :: bool
  pt_ticks :: "nat \<Rightarrow> int option"
  pt_trackerTime :: int
  pt_priceType :: price_type
  pt_membersData :: "analyzer list"

record pplayer =
  pp_party :: "nat option"
  pp_invitations :: "nat list"
  pp_level :: nat
  pp_pos :: position
  pp_notGainInFight :: bool
  pp_inFight :: bool
  pp_protected :: bool

text \<open>\<open>pw_online\<close> is what \<open>getPlayerByID\<close> finds.\<close>

record pworld =
  pw_players :: "nat \<Rightarrow> pplayer"
  pw_online :: "nat set"
  pw_parties :: "nat \<Rightarrow> party"
  pw_next :: nat

record party_env =
  pe_autoShare :: bool
  pe_minLevel :: "nat \<Rightarrow> nat"
  pe_onDisband :: "nat \<Rightarrow> bool"
  pe_onLeave :: "nat \<Rightarrow> nat \<Rightarrow> bool"
  pe_onJoin :: "nat \<Rightarrow> nat \<Rightarrow> bool"
  pe_customPrice :: "nat \<Rightarrow> 16 word \<Rightarrow> bool \<Rightarrow> u64"
  pe_marketPrice :: "(16 word \<times> u64) list \<Rightarrow> bool \<Rightarrow> u64"

definition new_party :: "nat \<Rightarrow> int \<Rightarrow> party" where
  "new_party leader now = \<lparr>pt_leader = Some leader, pt_members = [], pt_invites = [], pt_sharedExpActive = False,
     pt_sharedExpEnabled = False, pt_ticks = (\<lambda>_. None), pt_trackerTime = now, pt_priceType = MARKET_PRICE, pt_membersData = []\<rparr>"

definition on_party :: "nat \<Rightarrow> (party \<Rightarrow> party) \<Rightarrow> pworld \<Rightarrow> pworld" where
  "on_party i f w = w\<lparr>pw_parties := (pw_parties w)(i := f (pw_parties w i))\<rparr>"

definition on_player :: "nat \<Rightarrow> (pplayer \<Rightarrow> pplayer) \<Rightarrow> pworld \<Rightarrow> pworld" where
  "on_player p f w = w\<lparr>pw_players := (pw_players w)(p := f (pw_players w p))\<rparr>"

subsection \<open>The player's side\<close>

definition setParty :: "nat \<Rightarrow> nat option \<Rightarrow> pworld \<Rightarrow> pworld" where
  "setParty p r = on_player p (\<lambda>x. x\<lparr>pp_party := r\<rparr>)"

definition addPartyInvitation :: "nat \<Rightarrow> nat \<Rightarrow> pworld \<Rightarrow> bool \<times> pworld" where
  "addPartyInvitation p i w = (if i \<in> set (pp_invitations (pw_players w p)) then (False, w)
     else (True, on_player p (\<lambda>x. x\<lparr>pp_invitations := pp_invitations x @ [i]\<rparr>) w))"

definition removePartyInvitation :: "nat \<Rightarrow> nat \<Rightarrow> pworld \<Rightarrow> pworld" where
  "removePartyInvitation p i = on_player p (\<lambda>x. x\<lparr>pp_invitations := removeAll i (pp_invitations x)\<rparr>)"

subsection \<open>Shared experience\<close>

definition getHighestLevel :: "nat \<Rightarrow> pworld \<Rightarrow> nat" where
  "getHighestLevel i w = (case pt_leader (pw_parties w i) of None \<Rightarrow> 0
     | Some l \<Rightarrow> fold (\<lambda>m h. max h (pp_level (pw_players w m))) (pt_members (pw_parties w i)) (pp_level (pw_players w l)))"

definition getMinLevel :: "party_env \<Rightarrow> nat \<Rightarrow> pworld \<Rightarrow> nat" where
  "getMinLevel env i w = pe_minLevel env (getHighestLevel i w)"

definition getLowestLevel :: "nat \<Rightarrow> pworld \<Rightarrow> nat" where
  "getLowestLevel i w = (case pt_leader (pw_parties w i) of None \<Rightarrow> 0
     | Some l \<Rightarrow> fold (\<lambda>m h. min h (pp_level (pw_players w m))) (pt_members (pw_parties w i)) (pp_level (pw_players w l)))"

text \<open>The difference of two times is unsigned.\<close>

definition isPlayerActive :: "int \<Rightarrow> nat \<Rightarrow> nat \<Rightarrow> pworld \<Rightarrow> bool" where
  "isPlayerActive now i p w = (case pt_ticks (pw_parties w i) p of None \<Rightarrow> False
     | Some t \<Rightarrow> (now - t) mod 2 ^ 64 \<le> 2 * 60 * 1000)"

definition getMemberSharedExperienceStatus :: "party_env \<Rightarrow> int \<Rightarrow> nat \<Rightarrow> nat \<Rightarrow> pworld \<Rightarrow> shared_exp_status" where
  "getMemberSharedExperienceStatus env now i p w = (let pt = pw_parties w i; x = pw_players w p in
     case pt_leader pt of None \<Rightarrow> SHAREDEXP_EMPTYPARTY
     | Some l \<Rightarrow> if pt_members pt = [] then SHAREDEXP_EMPTYPARTY
         else if pp_level x < getMinLevel env i w then SHAREDEXP_LEVELDIFFTOOLARGE
         else if \<not> areInRange3 30 30 1 (pp_pos (pw_players w l)) (pp_pos x) then SHAREDEXP_TOOFARAWAY
         else if \<not> pp_notGainInFight x \<and> \<not> isPlayerActive now i p w then SHAREDEXP_MEMBERINACTIVE
         else SHAREDEXP_OK)"

fun first_bad_status :: "(nat \<Rightarrow> shared_exp_status) \<Rightarrow> nat list \<Rightarrow> shared_exp_status" where
  "first_bad_status f [] = SHAREDEXP_OK"
| "first_bad_status f (m # ms) = (if f m \<noteq> SHAREDEXP_OK then f m else first_bad_status f ms)"

definition getSharedExperienceStatus :: "party_env \<Rightarrow> int \<Rightarrow> nat \<Rightarrow> pworld \<Rightarrow> shared_exp_status" where
  "getSharedExperienceStatus env now i w = (let status = (\<lambda>p. getMemberSharedExperienceStatus env now i p w) in
     case pt_leader (pw_parties w i) of None \<Rightarrow> SHAREDEXP_EMPTYPARTY
     | Some l \<Rightarrow> if status l \<noteq> SHAREDEXP_OK then status l else first_bad_status status (pt_members (pw_parties w i)))"

definition canUseSharedExperience :: "party_env \<Rightarrow> int \<Rightarrow> nat \<Rightarrow> nat \<Rightarrow> pworld \<Rightarrow> bool" where
  "canUseSharedExperience env now i p w \<longleftrightarrow> getMemberSharedExperienceStatus env now i p w = SHAREDEXP_OK"

definition updateSharedExperience :: "party_env \<Rightarrow> int \<Rightarrow> nat \<Rightarrow> pworld \<Rightarrow> pworld" where
  "updateSharedExperience env now i w = (if pt_sharedExpActive (pw_parties w i)
     then let result = (getSharedExperienceStatus env now i w = SHAREDEXP_OK) in
       if result \<noteq> pt_sharedExpEnabled (pw_parties w i) then on_party i (\<lambda>pt. pt\<lparr>pt_sharedExpEnabled := result\<rparr>) w else w
     else w)"

definition setSharedExperience :: "party_env \<Rightarrow> int \<Rightarrow> nat \<Rightarrow> nat \<Rightarrow> bool \<Rightarrow> pworld \<Rightarrow> bool \<times> pworld" where
  "setSharedExperience env now i p newSharedExpActive w =
    (if pt_leader (pw_parties w i) \<noteq> Some p then (False, w)
     else if pt_sharedExpActive (pw_parties w i) = newSharedExpActive then (True, w)
     else let w = on_party i (\<lambda>pt. pt\<lparr>pt_sharedExpActive := newSharedExpActive\<rparr>) w in
       if newSharedExpActive
       then (True, on_party i (\<lambda>pt. pt\<lparr>pt_sharedExpEnabled := (getSharedExperienceStatus env now i w = SHAREDEXP_OK)\<rparr>) w)
       else (True, w))"

definition updatePlayerTicks :: "party_env \<Rightarrow> int \<Rightarrow> nat \<Rightarrow> nat \<Rightarrow> u32 \<Rightarrow> pworld \<Rightarrow> pworld" where
  "updatePlayerTicks env now i p points w = (if points \<noteq> 0 \<and> \<not> pp_notGainInFight (pw_players w p)
     then updateSharedExperience env now i (on_party i (\<lambda>pt. pt\<lparr>pt_ticks := (pt_ticks pt)(p \<mapsto> now)\<rparr>) w) else w)"

definition clearPlayerPoints :: "party_env \<Rightarrow> int \<Rightarrow> nat \<Rightarrow> nat \<Rightarrow> pworld \<Rightarrow> pworld" where
  "clearPlayerPoints env now i p w = (if pt_ticks (pw_parties w i) p \<noteq> None
     then updateSharedExperience env now i (on_party i (\<lambda>pt. pt\<lparr>pt_ticks := (pt_ticks pt)(p := None)\<rparr>) w) else w)"

subsection \<open>Members and invitations\<close>

definition party_empty :: "party \<Rightarrow> bool" where
  "party_empty pt \<longleftrightarrow> pt_members pt = [] \<and> pt_invites pt = []"

definition isPlayerInvited :: "nat \<Rightarrow> party \<Rightarrow> bool" where
  "isPlayerInvited p pt \<longleftrightarrow> p \<in> set (pt_invites pt)"

definition party_create :: "party_env \<Rightarrow> int \<Rightarrow> nat \<Rightarrow> pworld \<Rightarrow> nat \<times> pworld" where
  "party_create env now leader w = (let i = pw_next w;
     w = setParty leader (Some i) (w\<lparr>pw_parties := (pw_parties w)(i := new_party leader now), pw_next := i + 1\<rparr>)
   in (i, if pe_autoShare env then snd (setSharedExperience env now i leader True w) else w))"

definition disband :: "party_env \<Rightarrow> nat \<Rightarrow> pworld \<Rightarrow> pworld" where
  "disband env i w = (if \<not> pe_onDisband env i then w
     else case pt_leader (pw_parties w i) of None \<Rightarrow> w
     | Some currentLeader \<Rightarrow> let
         w = setParty currentLeader None (on_party i (\<lambda>pt. pt\<lparr>pt_leader := None\<rparr>) w);
         w = fold (\<lambda>invitee. removePartyInvitation invitee i) (pt_invites (pw_parties w i)) w;
         w = on_party i (\<lambda>pt. pt\<lparr>pt_invites := []\<rparr>) w;
         w = fold (\<lambda>member. setParty member None) (pt_members (pw_parties w i)) w
       in on_party i (\<lambda>pt. pt\<lparr>pt_members := [], pt_membersData := []\<rparr>) w)"

definition passPartyLeadership :: "party_env \<Rightarrow> int \<Rightarrow> nat \<Rightarrow> nat \<Rightarrow> pworld \<Rightarrow> bool \<times> pworld" where
  "passPartyLeadership env now i p w = (case pt_leader (pw_parties w i) of None \<Rightarrow> (False, w)
     | Some leader \<Rightarrow> if leader = p \<or> pp_party (pw_players w p) \<noteq> Some i then (False, w)
         else (True, updateSharedExperience env now i
           (on_party i (\<lambda>pt. pt\<lparr>pt_members := leader # remove1 p (pt_members pt), pt_leader := Some p\<rparr>) w)))"

text \<open>Members are never null, so the loop that looks for a new leader takes the first one.\<close>

definition leaveParty :: "party_env \<Rightarrow> int \<Rightarrow> nat \<Rightarrow> nat \<Rightarrow> pworld \<Rightarrow> bool \<times> pworld" where
  "leaveParty env now i p w = (let pt = pw_parties w i in case pt_leader pt of None \<Rightarrow> (False, w)
     | Some leader \<Rightarrow>
       if pp_party (pw_players w p) \<noteq> Some i \<and> leader \<noteq> p then (False, w)
       else if \<not> pe_onLeave env i p then (False, w)
       else let missingLeader = (leader = p \<and> (pt_members pt = [] \<or> length (pt_members pt) = 1 \<and> pt_invites pt = []));
              w = (if leader = p \<and> \<not> missingLeader then snd (passPartyLeadership env now i (hd (pt_members pt)) w) else w);
              w = on_party i (\<lambda>pt. pt\<lparr>pt_members := remove1 p (pt_members pt)\<rparr>) w;
              w = setParty p None w;
              w = updateSharedExperience env now i w;
              w = clearPlayerPoints env now i p w;
              w = (if missingLeader \<or> party_empty (pw_parties w i) then disband env i w else w)
         in (True, w))"

definition joinParty :: "party_env \<Rightarrow> int \<Rightarrow> nat \<Rightarrow> nat \<Rightarrow> pworld \<Rightarrow> bool \<times> pworld" where
  "joinParty env now i p w = (case pt_leader (pw_parties w i) of None \<Rightarrow> (False, w)
     | Some leader \<Rightarrow> if \<not> pe_onJoin env i p then (False, w)
         else if p \<notin> set (pt_invites (pw_parties w i)) then (False, w)
         else let w = on_party i (\<lambda>pt. pt\<lparr>pt_invites := remove1 p (pt_invites pt)\<rparr>) w;
                w = setParty p (Some i) w;
                w = on_party i (\<lambda>pt. pt\<lparr>pt_members := pt_members pt @ [p]\<rparr>) w;
                w = removePartyInvitation p i w
           in (True, updateSharedExperience env now i w))"

definition removeInvite :: "party_env \<Rightarrow> nat \<Rightarrow> nat \<Rightarrow> bool \<Rightarrow> pworld \<Rightarrow> bool \<times> pworld" where
  "removeInvite env i p removeFromPlayer w =
    (if pt_leader (pw_parties w i) = None \<or> p \<notin> set (pt_invites (pw_parties w i)) then (False, w)
     else let w = on_party i (\<lambda>pt. pt\<lparr>pt_invites := remove1 p (pt_invites pt)\<rparr>) w;
            w = (if removeFromPlayer then removePartyInvitation p i w else w)
       in (True, if party_empty (pw_parties w i) then disband env i w else w))"

definition revokeInvitation :: "party_env \<Rightarrow> nat \<Rightarrow> nat \<Rightarrow> pworld \<Rightarrow> pworld" where
  "revokeInvitation env i p w = (if pt_leader (pw_parties w i) = None then w else snd (removeInvite env i p True w))"

definition invitePlayer :: "nat \<Rightarrow> nat \<Rightarrow> pworld \<Rightarrow> bool \<times> pworld" where
  "invitePlayer i p w = (if pt_leader (pw_parties w i) = None \<or> isPlayerInvited p (pw_parties w i) then (False, w)
     else (True, snd (addPartyInvitation p i (on_party i (\<lambda>pt. pt\<lparr>pt_invites := pt_invites pt @ [p]\<rparr>) w))))"

text \<open>The list is walked while the parties in it may disband; it is cleared at the end.\<close>

definition clearPartyInvitations :: "party_env \<Rightarrow> nat \<Rightarrow> pworld \<Rightarrow> pworld" where
  "clearPartyInvitations env p w =
     on_player p (\<lambda>x. x\<lparr>pp_invitations := []\<rparr>)
       (fold (\<lambda>i w. snd (removeInvite env i p False w)) (pp_invitations (pw_players w p)) w)"

definition canOpenCorpse :: "nat \<Rightarrow> nat \<Rightarrow> pworld \<Rightarrow> bool" where
  "canOpenCorpse i ownerId w = (case pt_leader (pw_parties w i) of None \<Rightarrow> False
     | Some l \<Rightarrow> ownerId \<in> pw_online w \<and> (l = ownerId \<or> pp_party (pw_players w ownerId) = Some i))"

subsection \<open>Handlers of the game\<close>

definition isInviting :: "nat \<Rightarrow> nat \<Rightarrow> pworld \<Rightarrow> bool" where
  "isInviting p q w = (case pp_party (pw_players w p) of None \<Rightarrow> False
     | Some i \<Rightarrow> pt_leader (pw_parties w i) = Some p \<and> isPlayerInvited q (pw_parties w i))"

definition isPartner :: "nat \<Rightarrow> nat \<Rightarrow> pworld \<Rightarrow> bool" where
  "isPartner p q w \<longleftrightarrow> q \<noteq> p \<and> pp_party (pw_players w p) \<noteq> None \<and> pp_party (pw_players w p) = pp_party (pw_players w q)"

definition playerInviteToParty :: "party_env \<Rightarrow> int \<Rightarrow> nat \<Rightarrow> nat \<Rightarrow> pworld \<Rightarrow> pworld" where
  "playerInviteToParty env now p q w =
    (if p = q then w else if p \<notin> pw_online w then w
     else if q \<notin> pw_online w \<or> isInviting q p w then w
     else if pp_party (pw_players w q) \<noteq> None then w
     else case pp_party (pw_players w p) of
       None \<Rightarrow> (let (i, w) = party_create env now p w in snd (invitePlayer i q w))
     | Some i \<Rightarrow> if pt_leader (pw_parties w i) \<noteq> Some p then w else snd (invitePlayer i q w))"

definition playerJoinParty :: "party_env \<Rightarrow> int \<Rightarrow> nat \<Rightarrow> nat \<Rightarrow> pworld \<Rightarrow> pworld" where
  "playerJoinParty env now p l w =
    (if p \<notin> pw_online w then w else if l \<notin> pw_online w \<or> \<not> isInviting l p w then w
     else case pp_party (pw_players w l) of None \<Rightarrow> w
     | Some i \<Rightarrow> if pt_leader (pw_parties w i) \<noteq> Some l then w
         else if pp_party (pw_players w p) \<noteq> None then w
         else snd (joinParty env now i p w))"

definition playerRevokePartyInvitation :: "party_env \<Rightarrow> nat \<Rightarrow> nat \<Rightarrow> pworld \<Rightarrow> pworld" where
  "playerRevokePartyInvitation env p q w = (if p \<notin> pw_online w then w
     else case pp_party (pw_players w p) of None \<Rightarrow> w
     | Some i \<Rightarrow> if pt_leader (pw_parties w i) \<noteq> Some p then w
         else if q \<notin> pw_online w \<or> \<not> isInviting p q w then w
         else revokeInvitation env i q w)"

definition playerPassPartyLeadership :: "party_env \<Rightarrow> int \<Rightarrow> nat \<Rightarrow> nat \<Rightarrow> pworld \<Rightarrow> pworld" where
  "playerPassPartyLeadership env now p q w = (if p \<notin> pw_online w then w
     else case pp_party (pw_players w p) of None \<Rightarrow> w
     | Some i \<Rightarrow> if pt_leader (pw_parties w i) \<noteq> Some p then w
         else if q \<notin> pw_online w \<or> \<not> isPartner p q w then w
         else snd (passPartyLeadership env now i q w))"

definition playerLeaveParty :: "party_env \<Rightarrow> int \<Rightarrow> nat \<Rightarrow> pworld \<Rightarrow> pworld" where
  "playerLeaveParty env now p w = (if p \<notin> pw_online w then w
     else case pp_party (pw_players w p) of None \<Rightarrow> w
     | Some i \<Rightarrow> if pp_inFight (pw_players w p) \<and> \<not> pp_protected (pw_players w p) then w
         else snd (leaveParty env now i p w))"

definition playerEnableSharedPartyExperience :: "party_env \<Rightarrow> int \<Rightarrow> nat \<Rightarrow> bool \<Rightarrow> pworld \<Rightarrow> pworld" where
  "playerEnableSharedPartyExperience env now p active w = (if p \<notin> pw_online w then w
     else case pp_party (pw_players w p) of None \<Rightarrow> w
     | Some i \<Rightarrow> if pp_inFight (pw_players w p) \<and> \<not> pp_protected (pw_players w p) then w
         else snd (setSharedExperience env now i p active w))"

text \<open>The part of the logout that concerns parties.\<close>

definition party_logout :: "party_env \<Rightarrow> int \<Rightarrow> nat \<Rightarrow> pworld \<Rightarrow> pworld" where
  "party_logout env now p w = (if p \<notin> pw_online w then w
     else let w = (case pp_party (pw_players w p) of None \<Rightarrow> w | Some i \<Rightarrow> snd (leaveParty env now i p w));
            w = clearPartyInvitations env p w
       in w\<lparr>pw_online := pw_online w - {p}\<rparr>)"


subsection \<open>The analyzer\<close>

definition new_analyzer :: "nat \<Rightarrow> analyzer" where
  "new_analyzer p = \<lparr>an_id = p, an_damage = 0, an_healing = 0, an_lootPrice = 0, an_supplyPrice = 0, an_lootMap = [], an_supplyMap = []\<rparr>"

fun getPlayerPartyAnalyzerStruct :: "nat \<Rightarrow> analyzer list \<Rightarrow> analyzer option" where
  "getPlayerPartyAnalyzerStruct p [] = None"
| "getPlayerPartyAnalyzerStruct p (a # as) = (if an_id a = p then Some a else getPlayerPartyAnalyzerStruct p as)"

text \<open>An analyzer is shared by pointer: what is written to the one found is seen in the list.\<close>

fun with_analyzer :: "nat \<Rightarrow> (analyzer \<Rightarrow> analyzer) \<Rightarrow> analyzer list \<Rightarrow> analyzer list" where
  "with_analyzer p f [] = [f (new_analyzer p)]"
| "with_analyzer p f (a # as) = (if an_id a = p then f a # as else a # with_analyzer p f as)"

definition bump :: "16 word \<Rightarrow> u64 \<Rightarrow> (16 word \<times> u64) list \<Rightarrow> (16 word \<times> u64) list" where
  "bump k n m = AList.update k (case map_of m k of None \<Rightarrow> n | Some c \<Rightarrow> c + n) m"

definition addPlayerLoot :: "party_env \<Rightarrow> nat \<Rightarrow> nat \<Rightarrow> 16 word \<Rightarrow> u32 \<Rightarrow> pworld \<Rightarrow> pworld" where
  "addPlayerLoot env i p item itemCount w = (case pt_leader (pw_parties w i) of None \<Rightarrow> w
     | Some l \<Rightarrow> let count = (ucast (max 1 itemCount) :: u64);
         price = (if pt_priceType (pw_parties w i) = LEADER_PRICE then pe_customPrice env l item False * count
                  else pe_marketPrice env [(item, count)] False)
       in on_party i (\<lambda>pt. pt\<lparr>pt_membersData := with_analyzer p
            (\<lambda>a. a\<lparr>an_lootMap := bump item count (an_lootMap a), an_lootPrice := an_lootPrice a + price\<rparr>) (pt_membersData pt)\<rparr>) w)"

definition addPlayerSupply :: "party_env \<Rightarrow> nat \<Rightarrow> nat \<Rightarrow> 16 word \<Rightarrow> pworld \<Rightarrow> pworld" where
  "addPlayerSupply env i p item w = (case pt_leader (pw_parties w i) of None \<Rightarrow> w
     | Some l \<Rightarrow> let price = (if pt_priceType (pw_parties w i) = LEADER_PRICE then pe_customPrice env l item True
                  else pe_marketPrice env [(item, 1)] True)
       in on_party i (\<lambda>pt. pt\<lparr>pt_membersData := with_analyzer p
            (\<lambda>a. a\<lparr>an_supplyMap := bump item 1 (an_supplyMap a), an_supplyPrice := an_supplyPrice a + price\<rparr>) (pt_membersData pt)\<rparr>) w)"

definition addPlayerDamage :: "nat \<Rightarrow> nat \<Rightarrow> u64 \<Rightarrow> pworld \<Rightarrow> pworld" where
  "addPlayerDamage i p amount = on_party i (\<lambda>pt. pt\<lparr>pt_membersData :=
     with_analyzer p (\<lambda>a. a\<lparr>an_damage := an_damage a + amount\<rparr>) (pt_membersData pt)\<rparr>)"

definition addPlayerHealing :: "nat \<Rightarrow> nat \<Rightarrow> u64 \<Rightarrow> pworld \<Rightarrow> pworld" where
  "addPlayerHealing i p amount = on_party i (\<lambda>pt. pt\<lparr>pt_membersData :=
     with_analyzer p (\<lambda>a. a\<lparr>an_healing := an_healing a + amount\<rparr>) (pt_membersData pt)\<rparr>)"

definition custom_total :: "party_env \<Rightarrow> nat \<Rightarrow> bool \<Rightarrow> (16 word \<times> u64) list \<Rightarrow> u64" where
  "custom_total env l buy m = fold (\<lambda>(item, n) total. total + pe_customPrice env l item buy * n) m 0"

definition reload_analyzer :: "party_env \<Rightarrow> nat \<Rightarrow> price_type \<Rightarrow> analyzer \<Rightarrow> analyzer" where
  "reload_analyzer env l t a = (if t = MARKET_PRICE
     then a\<lparr>an_lootPrice := pe_marketPrice env (an_lootMap a) False, an_supplyPrice := pe_marketPrice env (an_supplyMap a) True\<rparr>
     else a\<lparr>an_lootPrice := custom_total env l False (an_lootMap a), an_supplyPrice := custom_total env l True (an_supplyMap a)\<rparr>)"

definition reloadPrices :: "party_env \<Rightarrow> nat \<Rightarrow> pworld \<Rightarrow> pworld" where
  "reloadPrices env i w = (case pt_leader (pw_parties w i) of None \<Rightarrow> w
     | Some l \<Rightarrow> on_party i (\<lambda>pt. pt\<lparr>pt_membersData := map (reload_analyzer env l (pt_priceType pt)) (pt_membersData pt)\<rparr>) w)"

definition switchAnalyzerPriceType :: "party_env \<Rightarrow> nat \<Rightarrow> pworld \<Rightarrow> pworld" where
  "switchAnalyzerPriceType env i w = (if pt_leader (pw_parties w i) = None then w
     else reloadPrices env i (on_party i (\<lambda>pt. pt\<lparr>pt_priceType :=
       (if pt_priceType pt = LEADER_PRICE then MARKET_PRICE else LEADER_PRICE)\<rparr>) w))"

definition resetAnalyzer :: "int \<Rightarrow> nat \<Rightarrow> pworld \<Rightarrow> pworld" where
  "resetAnalyzer now i = on_party i (\<lambda>pt. pt\<lparr>pt_trackerTime := now, pt_membersData := []\<rparr>)"

subsection \<open>What an operation reads and leaves alone\<close>

lemma on_party_sel [simp]:
  "pw_players (on_party i f w) = pw_players w" "pw_online (on_party i f w) = pw_online w"
  "pw_next (on_party i f w) = pw_next w"
  "pw_parties (on_party i f w) j = (if j = i then f (pw_parties w i) else pw_parties w j)"
  by (simp_all add: on_party_def)

lemma on_player_sel [simp]:
  "pw_parties (on_player p g w) = pw_parties w" "pw_online (on_player p g w) = pw_online w"
  "pw_next (on_player p g w) = pw_next w"
  "pw_players (on_player p g w) q = (if q = p then g (pw_players w p) else pw_players w q)"
  by (simp_all add: on_player_def)

lemma setParty_sel [simp]:
  "pw_parties (setParty p r w) = pw_parties w" "pw_online (setParty p r w) = pw_online w"
  "pw_next (setParty p r w) = pw_next w"
  "pp_party (pw_players (setParty p r w) q) = (if q = p then r else pp_party (pw_players w q))"
  "pp_invitations (pw_players (setParty p r w) q) = pp_invitations (pw_players w q)"
  by (simp_all add: setParty_def)

lemma removePartyInvitation_sel [simp]:
  "pw_parties (removePartyInvitation p i w) = pw_parties w" "pw_online (removePartyInvitation p i w) = pw_online w"
  "pw_next (removePartyInvitation p i w) = pw_next w"
  "pp_party (pw_players (removePartyInvitation p i w) q) = pp_party (pw_players w q)"
  "pp_invitations (pw_players (removePartyInvitation p i w) q) =
     (if q = p then removeAll i (pp_invitations (pw_players w p)) else pp_invitations (pw_players w q))"
  by (simp_all add: removePartyInvitation_def)

lemma addPartyInvitation_sel [simp]:
  "pw_parties (snd (addPartyInvitation p i w)) = pw_parties w" "pw_online (snd (addPartyInvitation p i w)) = pw_online w"
  "pw_next (snd (addPartyInvitation p i w)) = pw_next w"
  "pp_party (pw_players (snd (addPartyInvitation p i w)) q) = pp_party (pw_players w q)"
  "pp_invitations (pw_players (snd (addPartyInvitation p i w)) q) =
     (if q = p \<and> i \<notin> set (pp_invitations (pw_players w p)) then pp_invitations (pw_players w p) @ [i]
      else pp_invitations (pw_players w q))"
  by (auto simp: addPartyInvitation_def)


text \<open>Sharing experience never touches the roster: leader, members, invitees and the players' pointers.\<close>

lemma updateSharedExperience_sel [simp]:
  "pw_players (updateSharedExperience env now i w) = pw_players w"
  "pw_online (updateSharedExperience env now i w) = pw_online w"
  "pw_next (updateSharedExperience env now i w) = pw_next w"
  "pt_leader (pw_parties (updateSharedExperience env now i w) j) = pt_leader (pw_parties w j)"
  "pt_members (pw_parties (updateSharedExperience env now i w) j) = pt_members (pw_parties w j)"
  "pt_invites (pw_parties (updateSharedExperience env now i w) j) = pt_invites (pw_parties w j)"
  by (simp_all add: updateSharedExperience_def Let_def)

lemma clearPlayerPoints_sel [simp]:
  "pw_players (clearPlayerPoints env now i p w) = pw_players w"
  "pw_online (clearPlayerPoints env now i p w) = pw_online w"
  "pw_next (clearPlayerPoints env now i p w) = pw_next w"
  "pt_leader (pw_parties (clearPlayerPoints env now i p w) j) = pt_leader (pw_parties w j)"
  "pt_members (pw_parties (clearPlayerPoints env now i p w) j) = pt_members (pw_parties w j)"
  "pt_invites (pw_parties (clearPlayerPoints env now i p w) j) = pt_invites (pw_parties w j)"
  by (simp_all add: clearPlayerPoints_def)

lemma updatePlayerTicks_sel [simp]:
  "pw_players (updatePlayerTicks env now i p n w) = pw_players w"
  "pw_online (updatePlayerTicks env now i p n w) = pw_online w"
  "pw_next (updatePlayerTicks env now i p n w) = pw_next w"
  "pt_leader (pw_parties (updatePlayerTicks env now i p n w) j) = pt_leader (pw_parties w j)"
  "pt_members (pw_parties (updatePlayerTicks env now i p n w) j) = pt_members (pw_parties w j)"
  "pt_invites (pw_parties (updatePlayerTicks env now i p n w) j) = pt_invites (pw_parties w j)"
  by (simp_all add: updatePlayerTicks_def)

lemma setSharedExperience_sel [simp]:
  "pw_players (snd (setSharedExperience env now i p b w)) = pw_players w"
  "pw_online (snd (setSharedExperience env now i p b w)) = pw_online w"
  "pw_next (snd (setSharedExperience env now i p b w)) = pw_next w"
  "pt_leader (pw_parties (snd (setSharedExperience env now i p b w)) j) = pt_leader (pw_parties w j)"
  "pt_members (pw_parties (snd (setSharedExperience env now i p b w)) j) = pt_members (pw_parties w j)"
  "pt_invites (pw_parties (snd (setSharedExperience env now i p b w)) j) = pt_invites (pw_parties w j)"
  by (simp_all add: setSharedExperience_def Let_def)

lemma fold_setParty_sel [simp]:
  "pw_parties (fold (\<lambda>m. setParty m r) ms w) = pw_parties w" "pw_online (fold (\<lambda>m. setParty m r) ms w) = pw_online w"
  "pw_next (fold (\<lambda>m. setParty m r) ms w) = pw_next w"
  "pp_party (pw_players (fold (\<lambda>m. setParty m r) ms w) q) = (if q \<in> set ms then r else pp_party (pw_players w q))"
  "pp_invitations (pw_players (fold (\<lambda>m. setParty m r) ms w) q) = pp_invitations (pw_players w q)"
  by (induction ms arbitrary: w) auto

lemma fold_removePartyInvitation_sel [simp]:
  "pw_parties (fold (\<lambda>m. removePartyInvitation m i) ms w) = pw_parties w"
  "pw_online (fold (\<lambda>m. removePartyInvitation m i) ms w) = pw_online w"
  "pw_next (fold (\<lambda>m. removePartyInvitation m i) ms w) = pw_next w"
  "pp_party (pw_players (fold (\<lambda>m. removePartyInvitation m i) ms w) q) = pp_party (pw_players w q)"
  "pp_invitations (pw_players (fold (\<lambda>m. removePartyInvitation m i) ms w) q) =
     (if q \<in> set ms then removeAll i (pp_invitations (pw_players w q)) else pp_invitations (pw_players w q))"
  by (induction ms arbitrary: w) auto

subsection \<open>The roster, and what it must satisfy\<close>

text \<open>A roster is the leader followed by the members, and the invitees; a party without a leader has none.\<close>

type_synonym roster = "nat list \<times> nat list"

definition roster_of :: "pworld \<Rightarrow> nat \<Rightarrow> roster option" where
  "roster_of w i = (case pt_leader (pw_parties w i) of None \<Rightarrow> None
     | Some l \<Rightarrow> Some (l # pt_members (pw_parties w i), pt_invites (pw_parties w i)))"

definition party_ok :: "nat \<Rightarrow> nat \<Rightarrow> party \<Rightarrow> bool" where
  "party_ok n i pt \<longleftrightarrow> (case pt_leader pt of None \<Rightarrow> pt_members pt = [] \<and> pt_invites pt = []
     | Some l \<Rightarrow> i < n \<and> distinct (l # pt_members pt @ pt_invites pt) \<and> \<not> party_empty pt)"

text \<open>The invariant: each party is in order, the players' pointers say what the parties say, and who is offline
  is in none.\<close>

definition parties_ok :: "pworld \<Rightarrow> bool" where
  "parties_ok w \<longleftrightarrow> (\<forall>i. party_ok (pw_next w) i (pw_parties w i)) \<and>
     (\<forall>p i. pp_party (pw_players w p) = Some i \<longleftrightarrow>
        pt_leader (pw_parties w i) = Some p \<or> p \<in> set (pt_members (pw_parties w i))) \<and>
     (\<forall>p i. i \<in> set (pp_invitations (pw_players w p)) \<longleftrightarrow> p \<in> set (pt_invites (pw_parties w i))) \<and>
     (\<forall>p. p \<notin> pw_online w \<longrightarrow> pp_party (pw_players w p) = None \<and> pp_invitations (pw_players w p) = [])"

lemma disband_sel:
  assumes "pe_onDisband env i" "pt_leader (pw_parties w i) = Some l"
  shows "pw_online (disband env i w) = pw_online w" "pw_next (disband env i w) = pw_next w"
    "pt_leader (pw_parties (disband env i w) j) = (if j = i then None else pt_leader (pw_parties w j))"
    "pt_members (pw_parties (disband env i w) j) = (if j = i then [] else pt_members (pw_parties w j))"
    "pt_invites (pw_parties (disband env i w) j) = (if j = i then [] else pt_invites (pw_parties w j))"
    "pp_party (pw_players (disband env i w) q) =
       (if q = l \<or> q \<in> set (pt_members (pw_parties w i)) then None else pp_party (pw_players w q))"
    "pp_invitations (pw_players (disband env i w) q) =
       (if q \<in> set (pt_invites (pw_parties w i)) then removeAll i (pp_invitations (pw_players w q))
        else pp_invitations (pw_players w q))"
  using assms by (auto simp: disband_def Let_def)


lemma parties_okI:
  assumes "parties_ok w"
    and rest: "\<And>j. j \<noteq> i \<Longrightarrow> pt_leader (pw_parties w' j) = pt_leader (pw_parties w j) \<and>
       pt_members (pw_parties w' j) = pt_members (pw_parties w j) \<and> pt_invites (pw_parties w' j) = pt_invites (pw_parties w j)"
    and "party_ok (pw_next w') i (pw_parties w' i)" and "pw_next w \<le> pw_next w'"
    and point: "\<And>q. pp_party (pw_players w' q) =
       (if pt_leader (pw_parties w' i) = Some q \<or> q \<in> set (pt_members (pw_parties w' i)) then Some i
        else if pp_party (pw_players w q) = Some i then None else pp_party (pw_players w q))"
    and free: "\<And>q. pt_leader (pw_parties w' i) = Some q \<or> q \<in> set (pt_members (pw_parties w' i)) \<Longrightarrow>
       pp_party (pw_players w q) \<in> {None, Some i}"
    and invs: "\<And>q j. j \<in> set (pp_invitations (pw_players w' q)) \<longleftrightarrow>
       (if j = i then q \<in> set (pt_invites (pw_parties w' i)) else j \<in> set (pp_invitations (pw_players w q)))"
    and "\<And>q. q \<notin> pw_online w' \<Longrightarrow> pp_party (pw_players w' q) = None \<and> pp_invitations (pw_players w' q) = []"
  shows "parties_ok w'"
proof -
  have ok: "party_ok (pw_next w') j (pw_parties w' j)" for j
  proof (cases "j = i")
    case False
    have "party_ok (pw_next w) j (pw_parties w j)" using assms(1) by (simp add: parties_ok_def)
    then show ?thesis using rest [OF False] \<open>pw_next w \<le> pw_next w'\<close>
      by (auto simp: party_ok_def party_empty_def split: option.splits)
  qed (use assms(3) in simp)
  have old: "pp_party (pw_players w q) = Some j \<longleftrightarrow>
      pt_leader (pw_parties w j) = Some q \<or> q \<in> set (pt_members (pw_parties w j))" for q j
    using assms(1) by (simp add: parties_ok_def)
  have new: "pp_party (pw_players w' q) = Some j \<longleftrightarrow>
      pt_leader (pw_parties w' j) = Some q \<or> q \<in> set (pt_members (pw_parties w' j))" for q j
  proof (cases "j = i")
    case False
    then show ?thesis using point [of q] free [of q] old [of q j] rest [OF False] by auto
  qed (use point [of q] in auto)
  have iv: "j \<in> set (pp_invitations (pw_players w' q)) \<longleftrightarrow> q \<in> set (pt_invites (pw_parties w' j))" for q j
    using invs [of j q] rest [of j] assms(1) by (auto simp: parties_ok_def)
  show ?thesis using ok new iv assms(8) by (simp add: parties_ok_def)
qed

lemma roster_upd:
  assumes "\<And>j. j \<noteq> i \<Longrightarrow> pt_leader (pw_parties w' j) = pt_leader (pw_parties w j) \<and>
       pt_members (pw_parties w' j) = pt_members (pw_parties w j) \<and> pt_invites (pw_parties w' j) = pt_invites (pw_parties w j)"
  shows "roster_of w' = (roster_of w)(i := roster_of w' i)"
  using assms by (auto simp: roster_of_def fun_eq_iff split: option.splits)

lemma parties_okD:
  assumes "parties_ok w"
  shows "party_ok (pw_next w) i (pw_parties w i)"
    "pp_party (pw_players w p) = Some i \<longleftrightarrow> pt_leader (pw_parties w i) = Some p \<or> p \<in> set (pt_members (pw_parties w i))"
    "i \<in> set (pp_invitations (pw_players w p)) \<longleftrightarrow> p \<in> set (pt_invites (pw_parties w i))"
    "p \<notin> pw_online w \<Longrightarrow> pp_party (pw_players w p) = None" "p \<notin> pw_online w \<Longrightarrow> pp_invitations (pw_players w p) = []"
  using assms by (simp_all add: parties_ok_def)

subsection \<open>What the handlers do to a roster\<close>

text \<open>The same operations on a roster alone: the first of the list leads, and a party that holds one player and
  no invitation, or no player, is gone.\<close>

definition settle :: "roster \<Rightarrow> roster option" where
  "settle r = (if fst r = [] \<or> length (fst r) = 1 \<and> snd r = [] then None else Some r)"

definition spec_leave :: "nat \<Rightarrow> roster \<Rightarrow> roster option" where
  "spec_leave p r = settle (remove1 p (fst r), snd r)"

definition spec_join :: "nat \<Rightarrow> roster \<Rightarrow> roster option" where
  "spec_join p r = Some (fst r @ [p], remove1 p (snd r))"

definition spec_uninvite :: "nat \<Rightarrow> roster \<Rightarrow> roster option" where
  "spec_uninvite p r = settle (fst r, remove1 p (snd r))"

definition spec_invite :: "nat \<Rightarrow> roster \<Rightarrow> roster option" where
  "spec_invite p r = Some (fst r, snd r @ [p])"

definition spec_pass :: "nat \<Rightarrow> roster \<Rightarrow> roster option" where
  "spec_pass p r = Some (p # remove1 p (fst r), snd r)"


lemma settle_None_iff: "settle (rs, vs) = None \<longleftrightarrow> rs = [] \<or> length rs = 1 \<and> vs = []"
  by (simp add: settle_def)

text \<open>The party \<open>i\<close> of \<open>w\<close> after its roster became \<open>r\<close>: gone with all pointers to it, or led by the first of the list.\<close>

definition reseated :: "nat \<Rightarrow> nat set \<Rightarrow> nat set \<Rightarrow> roster option \<Rightarrow> pworld \<Rightarrow> pworld \<Rightarrow> bool" where
  "reseated i gone told r w w' \<longleftrightarrow> pw_online w' = pw_online w \<and> pw_next w' = pw_next w \<and>
     (\<forall>j. j \<noteq> i \<longrightarrow> pt_leader (pw_parties w' j) = pt_leader (pw_parties w j) \<and>
        pt_members (pw_parties w' j) = pt_members (pw_parties w j) \<and> pt_invites (pw_parties w' j) = pt_invites (pw_parties w j)) \<and>
     pt_leader (pw_parties w' i) = map_option (\<lambda>r. hd (fst r)) r \<and>
     pt_members (pw_parties w' i) = (case r of None \<Rightarrow> [] | Some r \<Rightarrow> tl (fst r)) \<and>
     pt_invites (pw_parties w' i) = (case r of None \<Rightarrow> [] | Some r \<Rightarrow> snd r) \<and>
     (\<forall>q. pp_party (pw_players w' q) = (if q \<in> gone then None else pp_party (pw_players w q))) \<and>
     (\<forall>q. pp_invitations (pw_players w' q) =
        (if q \<in> told then removeAll i (pp_invitations (pw_players w q)) else pp_invitations (pw_players w q)))"

lemma reseated_roster:
  assumes "reseated i gone told r w w'" and "\<And>r'. r = Some r' \<Longrightarrow> fst r' \<noteq> []"
  shows "roster_of w' = (roster_of w)(i := r)"
proof -
  have "roster_of w' = (roster_of w)(i := roster_of w' i)"
    using assms(1) by (intro roster_upd) (auto simp: reseated_def)
  moreover have "roster_of w' i = r"
    using assms by (auto simp: reseated_def roster_of_def split: option.splits)
  ultimately show ?thesis by simp
qed

text \<open>A party that only loses players and invitees stays in order, when each of them is told.\<close>

lemma reseated_ok:
  assumes ok: "parties_ok w" and res: "reseated i gone told (settle (rs, vs)) w w'"
    and l: "pt_leader (pw_parties w i) = Some l"
    and sub: "set rs \<subseteq> insert l (set (pt_members (pw_parties w i)))" "set vs \<subseteq> set (pt_invites (pw_parties w i))"
    and dist: "distinct rs" "distinct vs"
    and gone: "gone = insert l (set (pt_members (pw_parties w i))) - (if settle (rs, vs) = None then {} else set rs)"
    and told: "told = set (pt_invites (pw_parties w i)) - (if settle (rs, vs) = None then {} else set vs)"
  shows "parties_ok w'"
proof (rule parties_okI [OF ok, where i = i])
  note r = res [unfolded reseated_def]
  note d = parties_okD [OF ok]
  have pok: "i < pw_next w" "distinct (l # pt_members (pw_parties w i) @ pt_invites (pw_parties w i))"
    using d(1) [of i] l by (simp_all add: party_ok_def)
  show "party_ok (pw_next w') i (pw_parties w' i)"
  proof (cases "settle (rs, vs)")
    case None
    then show ?thesis using r by (simp add: party_ok_def)
  next
    case (Some r')
    then have rs: "r' = (rs, vs)" "rs \<noteq> []" "tl rs \<noteq> [] \<or> vs \<noteq> []"
      by (cases rs; auto simp: settle_def split: if_splits)+
    have "distinct (rs @ vs)" using dist sub pok by auto
    then have "distinct (hd rs # tl rs @ vs)" using rs(2) by (cases rs) auto
    then show ?thesis using r Some rs pok(1) by (auto simp: party_ok_def party_empty_def)
  qed
  have hd_tl: "q = hd rs \<or> q \<in> set (tl rs) \<longleftrightarrow> q \<in> set rs" if "rs \<noteq> []" for q using that by (cases rs) auto
  have new: "pt_leader (pw_parties w' i) = Some q \<or> q \<in> set (pt_members (pw_parties w' i)) \<longleftrightarrow>
      settle (rs, vs) \<noteq> None \<and> q \<in> set rs" for q
    using r hd_tl [of q] by (auto simp: settle_def)
  show "pp_party (pw_players w' q) = (if pt_leader (pw_parties w' i) = Some q \<or> q \<in> set (pt_members (pw_parties w' i))
      then Some i else if pp_party (pw_players w q) = Some i then None else pp_party (pw_players w q))" for q
    unfolding new using r sub(1) gone l d(2) [of q i] by auto
  show "pp_party (pw_players w q) \<in> {None, Some i}"
    if "pt_leader (pw_parties w' i) = Some q \<or> q \<in> set (pt_members (pw_parties w' i))" for q
    using that sub(1) l d(2) [of q i] unfolding new by auto
  show "j \<in> set (pp_invitations (pw_players w' q)) \<longleftrightarrow>
      (if j = i then q \<in> set (pt_invites (pw_parties w' i)) else j \<in> set (pp_invitations (pw_players w q)))" for q j
    using r d(3) [of i q] told sub(2) by (auto simp: settle_def)
  show "pp_party (pw_players w' q) = None \<and> pp_invitations (pw_players w' q) = []" if "q \<notin> pw_online w'" for q
    using that r d(4,5) [of q] by auto
qed (use res in \<open>auto simp: reseated_def\<close>)


lemma disband_reseated:
  assumes "pe_onDisband env i" "pt_leader (pw_parties w i) = Some l"
  shows "reseated i (insert l (set (pt_members (pw_parties w i)))) (set (pt_invites (pw_parties w i))) None w (disband env i w)"
  using assms by (simp add: reseated_def disband_sel)

lemma leaveParty_reseated:
  assumes ok: "parties_ok w" and "pe_onDisband env i" "pe_onLeave env i p" and mine: "pp_party (pw_players w p) = Some i"
    and l: "pt_leader (pw_parties w i) = Some l"
    and r: "r = spec_leave p (l # pt_members (pw_parties w i), pt_invites (pw_parties w i))"
  shows "reseated i (if r = None then insert l (set (pt_members (pw_parties w i))) else {p})
     (if r = None then set (pt_invites (pw_parties w i)) else {}) r w (snd (leaveParty env now i p w))"
proof -
  note d = parties_okD [OF ok]
  let ?ms = "pt_members (pw_parties w i)" and ?vs = "pt_invites (pw_parties w i)"
  have dist: "distinct (l # ?ms @ ?vs)" "?ms \<noteq> [] \<or> ?vs \<noteq> []"
    using d(1) [of i] l by (auto simp: party_ok_def party_empty_def)
  have p: "p = l \<or> p \<in> set ?ms" using d(2) [of p i] mine l by auto
  show ?thesis
  proof (cases "p = l")
    case False
    then have *: "p \<in> set ?ms" "l \<noteq> p" using p by auto
    have e: "remove1 p ?ms = [] \<longleftrightarrow> length (l # remove1 p ?ms) = 1" by simp
    have m: "insert p (set (remove1 p ?ms)) = set ?ms" using * dist by auto
    show ?thesis
      using assms * m unfolding r by (auto simp: leaveParty_def Let_def spec_leave_def settle_def reseated_def disband_sel party_empty_def)
  next
    case True
    show ?thesis
    proof (cases "?ms")
      case Nil
      then show ?thesis using assms True
        by (auto simp: leaveParty_def Let_def spec_leave_def settle_def reseated_def disband_sel)
    next
      case (Cons m ms)
      have pm: "pp_party (pw_players w m) = Some i" using d(2) [of m i] Cons by simp
      have "m \<noteq> l" "l \<notin> set ms" using dist Cons by auto
      then show ?thesis using assms True Cons pm
        by (auto simp: leaveParty_def Let_def spec_leave_def settle_def reseated_def disband_sel passPartyLeadership_def party_empty_def)
    qed
  qed
qed


lemma leaveParty_ok:
  assumes ok: "parties_ok w" and hooks: "pe_onDisband env i" "pe_onLeave env i p" and mine: "pp_party (pw_players w p) = Some i"
  shows "parties_ok (snd (leaveParty env now i p w))"
    and "roster_of (snd (leaveParty env now i p w)) = (roster_of w)(i := Option.bind (roster_of w i) (spec_leave p))"
    and "pp_party (pw_players (snd (leaveParty env now i p w)) p) = None"
    and "pw_online (snd (leaveParty env now i p w)) = pw_online w"
proof -
  note d = parties_okD [OF ok]
  have "pt_leader (pw_parties w i) \<noteq> None"
    using d(1) [of i] d(2) [of p i] mine by (auto simp: party_ok_def split: option.splits)
  then obtain l where l: "pt_leader (pw_parties w i) = Some l" by auto
  let ?ms = "pt_members (pw_parties w i)" and ?vs = "pt_invites (pw_parties w i)" and ?w = "snd (leaveParty env now i p w)"
  define r where "r = spec_leave p (l # ?ms, ?vs)"
  note res = leaveParty_reseated [OF ok hooks mine l r_def, of now]
  have dist: "distinct (l # ?ms)" "distinct ?vs" using d(1) [of i] l by (auto simp: party_ok_def)
  have p: "p \<in> set (l # ?ms)" using d(2) [of p i] mine l by auto
  have r: "r = settle (remove1 p (l # ?ms), ?vs)" by (simp add: r_def spec_leave_def)
  have s: "set (remove1 p (l # ?ms)) = insert l (set ?ms) - {p}" using dist by auto
  show "parties_ok ?w"
  proof (rule reseated_ok [OF ok res [unfolded r] l])
    show "(if settle (remove1 p (l # ?ms), ?vs) = None then insert l (set ?ms) else {p}) =
      insert l (set ?ms) - (if settle (remove1 p (l # ?ms), ?vs) = None then {} else set (remove1 p (l # ?ms)))"
      unfolding s using p by auto
  qed (use dist s in \<open>auto simp del: remove1.simps\<close>)
  have "roster_of ?w = (roster_of w)(i := r)"
    by (rule reseated_roster [OF res]) (auto simp: r settle_def split: if_splits)
  then show "roster_of ?w = (roster_of w)(i := Option.bind (roster_of w i) (spec_leave p))"
    by (simp add: roster_of_def l r_def)
  show "pp_party (pw_players ?w p) = None" using res p by (auto simp: reseated_def)
  show "pw_online ?w = pw_online w" using res by (simp add: reseated_def)
qed

text \<open>An invitation withdrawn by the party; with \<open>removeFromPlayer\<close> the player forgets it too.\<close>

lemma removeInvite_reseated:
  assumes ok: "parties_ok w" and "pe_onDisband env i" and mine: "p \<in> set (pt_invites (pw_parties w i))"
    and l: "pt_leader (pw_parties w i) = Some l"
    and r: "r = spec_uninvite p (l # pt_members (pw_parties w i), pt_invites (pw_parties w i))"
  shows "reseated i (if r = None then insert l (set (pt_members (pw_parties w i))) else {})
     (if r = None then set (pt_invites (pw_parties w i)) else {p}) r w (snd (removeInvite env i p True w))"
proof -
  have dist: "distinct (pt_invites (pw_parties w i))"
    using parties_okD(1) [OF ok, of i] l by (auto simp: party_ok_def)
  have only: "remove1 p xs = [] \<and> p \<in> set xs \<longleftrightarrow> xs = [p]" for xs :: "nat list" by (cases xs) auto
  have "remove1 p (pt_invites (pw_parties w i)) = [] \<longleftrightarrow> pt_invites (pw_parties w i) = [p]" using only mine by blast
  then show ?thesis using assms dist
    by (auto simp: removeInvite_def Let_def spec_uninvite_def settle_def reseated_def disband_sel party_empty_def)
qed

lemma removeInvite_ok:
  assumes ok: "parties_ok w" and hooks: "pe_onDisband env i" and mine: "p \<in> set (pt_invites (pw_parties w i))"
  shows "parties_ok (snd (removeInvite env i p True w))"
    and "roster_of (snd (removeInvite env i p True w)) = (roster_of w)(i := Option.bind (roster_of w i) (spec_uninvite p))"
    and "pw_online (snd (removeInvite env i p True w)) = pw_online w"
proof -
  note d = parties_okD [OF ok]
  obtain l where l: "pt_leader (pw_parties w i) = Some l"
    using d(1) [of i] mine by (auto simp: party_ok_def split: option.splits)
  let ?ms = "pt_members (pw_parties w i)" and ?vs = "pt_invites (pw_parties w i)"
    and ?w = "snd (removeInvite env i p True w)"
  define r where "r = spec_uninvite p (l # ?ms, ?vs)"
  note res = removeInvite_reseated [OF ok hooks mine l r_def]
  have dist: "distinct (l # ?ms)" "distinct ?vs" using d(1) [of i] l by (auto simp: party_ok_def)
  have r: "r = settle (l # ?ms, remove1 p ?vs)" by (simp add: r_def spec_uninvite_def)
  show "parties_ok ?w"
    by (rule reseated_ok [OF ok res [unfolded r] l]) (use dist mine in \<open>auto\<close>)
  have "roster_of ?w = (roster_of w)(i := r)"
    by (rule reseated_roster [OF res]) (auto simp: r settle_def split: if_splits)
  then show "roster_of ?w = (roster_of w)(i := Option.bind (roster_of w i) (spec_uninvite p))"
    by (simp add: roster_of_def l r_def)
  show "pw_online ?w = pw_online w" using res by (simp add: reseated_def)
qed


subsection \<open>Clearing the invitations of a player\<close>

definition forget :: "nat \<Rightarrow> pworld \<Rightarrow> pworld" where
  "forget p = on_player p (\<lambda>x. x\<lparr>pp_invitations := []\<rparr>)"

lemma forget_sel [simp]:
  "pw_parties (forget p w) = pw_parties w" "pw_online (forget p w) = pw_online w" "pw_next (forget p w) = pw_next w"
  "pp_party (pw_players (forget p w) q) = pp_party (pw_players w q)"
  by (simp_all add: forget_def)

lemma on_player_comm:
  assumes "\<And>x. f (g x) = g (f x)"
  shows "on_player p f (on_player q g w) = on_player q g (on_player p f w)"
  using assms by (auto simp: on_player_def fun_upd_twist)

lemma on_player_twice: "on_player p f (on_player p g w) = on_player p (\<lambda>x. f (g x)) w"
  by (simp add: on_player_def)

lemma on_player_on_party: "on_player p g (on_party i f w) = on_party i f (on_player p g w)"
  by (simp add: on_player_def on_party_def)

lemma on_player_other:
  assumes "q \<noteq> p" shows "on_player p f (on_player q g w) = on_player q g (on_player p f w)"
  using assms by (simp add: on_player_def fun_upd_twist)

lemma forget_comm:
  "forget p (forget p w) = forget p w"
  "forget p (on_party i f w) = on_party i f (forget p w)"
  "forget p (setParty q r w) = setParty q r (forget p w)"
  "q \<noteq> p \<Longrightarrow> forget p (removePartyInvitation q i w) = removePartyInvitation q i (forget p w)"
  "forget p (removePartyInvitation p i w) = forget p w"
  by (simp_all add: forget_def setParty_def removePartyInvitation_def on_player_twice on_player_on_party on_player_other
      on_player_comm [where g = "\<lambda>x. x\<lparr>pp_party := r\<rparr>"])

lemma forget_removePartyInvitation: "forget p (removePartyInvitation q i w) = forget p (removePartyInvitation q i (forget p w))"
  by (cases "q = p") (simp_all add: forget_comm)

lemma forget_fold_setParty: "forget p (fold (\<lambda>m. setParty m r) ms w) = fold (\<lambda>m. setParty m r) ms (forget p w)"
  by (induction ms arbitrary: w) (simp_all add: forget_comm)

lemma forget_fold_remove:
  "forget p (fold (\<lambda>m. removePartyInvitation m i) ms w) = forget p (fold (\<lambda>m. removePartyInvitation m i) ms (forget p w))"
proof (induction ms arbitrary: w)
  case (Cons m ms)
  have "forget p (fold (\<lambda>m. removePartyInvitation m i) ms (removePartyInvitation m i w)) =
      forget p (fold (\<lambda>m. removePartyInvitation m i) ms (forget p (removePartyInvitation m i w)))" by (rule Cons.IH)
  also have "\<dots> = forget p (fold (\<lambda>m. removePartyInvitation m i) ms (forget p (removePartyInvitation m i (forget p w))))"
    by (subst forget_removePartyInvitation) simp
  also have "\<dots> = forget p (fold (\<lambda>m. removePartyInvitation m i) ms (removePartyInvitation m i (forget p w)))"
    by (rule Cons.IH [symmetric])
  finally show ?case by simp
qed (simp add: forget_comm)

lemma forget_disband: "forget p (disband env i w) = forget p (disband env i (forget p w))"
proof (cases "pt_leader (pw_parties w i)")
  case (Some l)
  let ?w = "setParty l None (on_party i (\<lambda>pt. pt\<lparr>pt_leader := None\<rparr>) w)" and ?vs = "pt_invites (pw_parties w i)"
  have "forget p (fold (\<lambda>m. removePartyInvitation m i) ?vs ?w) = forget p (fold (\<lambda>m. removePartyInvitation m i) ?vs (forget p ?w))"
    by (rule forget_fold_remove)
  then show ?thesis
    by (simp add: disband_def Let_def Some forget_comm forget_fold_setParty)
qed (simp add: disband_def forget_comm)

lemma forget_removeInvite: "forget p (snd (removeInvite env i p b w)) = forget p (snd (removeInvite env i p True (forget p w)))"
proof -
  let ?w = "on_party i (\<lambda>pt. pt\<lparr>pt_invites := remove1 p (pt_invites pt)\<rparr>) w"
  have "forget p (disband env i (removePartyInvitation p i ?w)) = forget p (disband env i ?w)"
    by (subst (1 2) forget_disband) (simp add: forget_comm)
  moreover have "forget p (disband env i (removePartyInvitation p i (forget p ?w))) = forget p (disband env i ?w)"
    by (subst (1 2) forget_disband) (simp add: forget_comm)
  ultimately show ?thesis
    by (simp add: removeInvite_def Let_def forget_comm)
qed


lemma forget_fold_removeInvite:
  "forget p (fold (\<lambda>i w. snd (removeInvite env i p False w)) is w) =
   forget p (fold (\<lambda>i w. snd (removeInvite env i p True w)) is w)"
proof -
  let ?F = "\<lambda>i w. snd (removeInvite env i p False w)" and ?T = "\<lambda>i w. snd (removeInvite env i p True w)"
  have "forget p w = forget p v \<Longrightarrow> forget p (fold ?F is w) = forget p (fold ?T is v)" for w v
  proof (induction "is" arbitrary: w v)
    case (Cons i "is")
    have "forget p (?F i w) = forget p (?T i (forget p w))" by (rule forget_removeInvite)
    also have "\<dots> = forget p (?T i v)" unfolding Cons.prems by (rule forget_removeInvite [symmetric])
    finally show ?case using Cons.IH by simp
  qed simp
  then show ?thesis by simp
qed

lemma spec_uninvite_gone:
  assumes "parties_ok w" "pe_onDisband env i"
  shows "p \<notin> set (pt_invites (pw_parties (snd (removeInvite env i p True w)) i))"
proof (cases "p \<in> set (pt_invites (pw_parties w i))")
  case True
  then obtain l where l: "pt_leader (pw_parties w i) = Some l"
    using parties_okD(1) [OF assms(1), of i] by (auto simp: party_ok_def split: option.splits)
  then have "distinct (pt_invites (pw_parties w i))" using parties_okD(1) [OF assms(1), of i] by (simp add: party_ok_def)
  then show ?thesis using removeInvite_reseated [OF assms True l refl]
    by (auto simp: reseated_def spec_uninvite_def settle_def)
qed (simp add: removeInvite_def)

definition invited_to :: "nat \<Rightarrow> roster option \<Rightarrow> bool" where
  "invited_to p r \<longleftrightarrow> (case r of None \<Rightarrow> False | Some r \<Rightarrow> p \<in> set (snd r))"

lemma invited_to_roster: "parties_ok w \<Longrightarrow> invited_to p (roster_of w i) \<longleftrightarrow> p \<in> set (pt_invites (pw_parties w i))"
  using parties_okD(1) [of w i] by (auto simp: invited_to_def roster_of_def party_ok_def split: option.splits)

lemma removeInvite_all_ok:
  fixes p :: nat
  assumes "parties_ok w" "pe_onDisband env i"
  defines "w' \<equiv> snd (removeInvite env i p True w)"
  shows "parties_ok w'" "pw_online w' = pw_online w"
    "roster_of w' j = (if j = i \<and> invited_to p (roster_of w j) then Option.bind (roster_of w j) (spec_uninvite p) else roster_of w j)"
  unfolding w'_def using removeInvite_ok [OF assms(1,2), of p] invited_to_roster [OF assms(1), of p i] assms(1)
  by (cases "p \<in> set (pt_invites (pw_parties w i))"; auto simp: removeInvite_def)+

lemma fold_removeInvite_ok:
  assumes "\<And>i. pe_onDisband env i" "parties_ok w" and w': "w' = fold (\<lambda>i w. snd (removeInvite env i p True w)) is w"
  shows "parties_ok w' \<and> pw_online w' = pw_online w \<and>
    (\<forall>j. roster_of w' j = (if j \<in> set is \<and> invited_to p (roster_of w j) then Option.bind (roster_of w j) (spec_uninvite p)
       else roster_of w j)) \<and> (\<forall>j\<in>set is. p \<notin> set (pt_invites (pw_parties w' j)))"
  using assms(2) w'
proof (induction "is" arbitrary: w)
  case (Cons i "is")
  let ?w = "snd (removeInvite env i p True w)"
  note step = removeInvite_all_ok [OF Cons.prems(1) assms(1), where p = p and i = i]
  have gone: "\<not> invited_to p (roster_of ?w i)"
    unfolding invited_to_roster [OF step(1)] by (rule spec_uninvite_gone [OF Cons.prems(1) assms(1)])
  have IH: "parties_ok w' \<and> pw_online w' = pw_online ?w \<and>
    (\<forall>j. roster_of w' j = (if j \<in> set is \<and> invited_to p (roster_of ?w j) then Option.bind (roster_of ?w j) (spec_uninvite p)
       else roster_of ?w j)) \<and> (\<forall>j\<in>set is. p \<notin> set (pt_invites (pw_parties w' j)))"
    using Cons.IH [OF step(1)] Cons.prems(2) by simp
  have same: "roster_of w' i = roster_of ?w i" using IH gone by simp
  then have out: "p \<notin> set (pt_invites (pw_parties w' i))" using gone invited_to_roster [of w' p i] IH by simp
  have "roster_of w' j = (if j \<in> set (i # is) \<and> invited_to p (roster_of w j)
      then Option.bind (roster_of w j) (spec_uninvite p) else roster_of w j)" for j
    using IH same step(3) [of j] by (cases "j = i") simp_all
  then show ?case using IH out step(2) by simp
qed simp

lemma clearPartyInvitations_ok:
  fixes p :: nat
  assumes hooks: "\<And>i. pe_onDisband env i" and ok: "parties_ok w"
  defines "w' \<equiv> clearPartyInvitations env p w"
  shows "parties_ok w'" "pw_online w' = pw_online w" "pp_invitations (pw_players w' p) = []"
    "roster_of w' j = (if invited_to p (roster_of w j) then Option.bind (roster_of w j) (spec_uninvite p) else roster_of w j)"
proof -
  let ?is = "pp_invitations (pw_players w p)"
  define v where "v = fold (\<lambda>i w. snd (removeInvite env i p True w)) ?is w"
  note f = fold_removeInvite_ok [OF hooks ok v_def]
  have all: "i \<in> set ?is \<longleftrightarrow> invited_to p (roster_of w i)" for i
    by (simp add: invited_to_roster [OF ok] parties_okD(3) [OF ok])
  have none: "p \<notin> set (pt_invites (pw_parties v i))" for i
  proof (cases "i \<in> set ?is")
    case False
    then have "roster_of v i = roster_of w i" "\<not> invited_to p (roster_of w i)" using f all by auto
    then show ?thesis using invited_to_roster f by metis
  qed (use f in blast)
  have v: "parties_ok v" using f by blast
  have "i \<notin> set (pp_invitations (pw_players v p))" for i using none parties_okD(3) [OF v] by blast
  then have e: "pp_invitations (pw_players v p) = []" by (meson ex_in_conv set_empty)
  then have "forget p v = v" by (simp add: forget_def on_player_def fun_upd_idem)
  moreover have "w' = forget p v"
    using forget_fold_removeInvite [of p env ?is w] by (simp add: w'_def v_def clearPartyInvitations_def forget_def)
  ultimately have "w' = v" by simp
  then show "parties_ok w'" "pw_online w' = pw_online w" "pp_invitations (pw_players w' p) = []"
    "roster_of w' j = (if invited_to p (roster_of w j) then Option.bind (roster_of w j) (spec_uninvite p) else roster_of w j)"
    using f e all by simp_all
qed


subsection \<open>The other operations keep the invariant\<close>

lemma passPartyLeadership_ok:
  fixes env :: party_env and now :: int
  assumes ok: "parties_ok w" and l: "pt_leader (pw_parties w i) = Some l" and q: "q \<noteq> l" "pp_party (pw_players w q) = Some i"
  defines "w' \<equiv> snd (passPartyLeadership env now i q w)"
  shows "parties_ok w'" "pw_online w' = pw_online w"
    "roster_of w' = (roster_of w)(i := Option.bind (roster_of w i) (spec_pass q))"
proof -
  note d = parties_okD [OF ok]
  have dist: "i < pw_next w" "distinct (l # pt_members (pw_parties w i) @ pt_invites (pw_parties w i))"
    using d(1) [of i] l by (simp_all add: party_ok_def)
  have q': "q \<in> set (pt_members (pw_parties w i))" using d(2) [of q i] l q by auto
  have s: "insert q (set (remove1 q (pt_members (pw_parties w i)))) = set (pt_members (pw_parties w i))"
    using dist q' by auto
  show "parties_ok w'"
    by (rule parties_okI [OF ok, where i = i])
      (use l q q' dist s d(2) [of _ i] d(3-5) in \<open>auto simp: w'_def passPartyLeadership_def party_ok_def party_empty_def\<close>)
  show "pw_online w' = pw_online w" by (simp add: w'_def passPartyLeadership_def split: option.split)
  have "roster_of w' = (roster_of w)(i := roster_of w' i)"
    by (rule roster_upd) (simp add: w'_def passPartyLeadership_def split: option.split)
  also have "roster_of w' i = Option.bind (roster_of w i) (spec_pass q)"
    using l q by (simp add: w'_def passPartyLeadership_def roster_of_def spec_pass_def)
  finally show "roster_of w' = (roster_of w)(i := Option.bind (roster_of w i) (spec_pass q))" .
qed

lemma joinParty_ok:
  fixes env :: party_env and now :: int
  assumes ok: "parties_ok w" and l: "pt_leader (pw_parties w i) = Some l" and p: "p \<in> set (pt_invites (pw_parties w i))"
    and "pp_party (pw_players w p) = None" "p \<in> pw_online w" and hook: "pe_onJoin env i p"
  defines "w' \<equiv> snd (joinParty env now i p w)"
  shows "parties_ok w'" "pw_online w' = pw_online w"
    "roster_of w' = (roster_of w)(i := Option.bind (roster_of w i) (spec_join p))"
proof -
  note d = parties_okD [OF ok]
  have dist: "i < pw_next w" "distinct (l # pt_members (pw_parties w i) @ pt_invites (pw_parties w i))"
    using d(1) [of i] l by (simp_all add: party_ok_def)
  show "parties_ok w'"
    by (rule parties_okI [OF ok, where i = i])
      (use assms(2-6) dist d(2) [of _ i] d(3-5) in \<open>auto simp: w'_def joinParty_def Let_def party_ok_def party_empty_def\<close>)
  show "pw_online w' = pw_online w" by (simp add: w'_def joinParty_def Let_def split: option.split)
  have "roster_of w' = (roster_of w)(i := roster_of w' i)"
    by (rule roster_upd) (simp add: w'_def joinParty_def Let_def split: option.split)
  also have "roster_of w' i = Option.bind (roster_of w i) (spec_join p)"
    using l p hook by (simp add: w'_def joinParty_def Let_def roster_of_def spec_join_def)
  finally show "roster_of w' = (roster_of w)(i := Option.bind (roster_of w i) (spec_join p))" .
qed

lemma invitePlayer_ok:
  assumes ok: "parties_ok w" and l: "pt_leader (pw_parties w i) = Some l" and q: "q \<notin> set (pt_invites (pw_parties w i))"
    and "pp_party (pw_players w q) = None" "q \<in> pw_online w"
  defines "w' \<equiv> snd (invitePlayer i q w)"
  shows "parties_ok w'" "pw_online w' = pw_online w"
    "roster_of w' = (roster_of w)(i := Option.bind (roster_of w i) (spec_invite q))"
proof -
  note d = parties_okD [OF ok]
  have dist: "i < pw_next w" "distinct (l # pt_members (pw_parties w i) @ pt_invites (pw_parties w i))"
    using d(1) [of i] l by (simp_all add: party_ok_def)
  have "q \<noteq> l" "q \<notin> set (pt_members (pw_parties w i))" using d(2) [of q i] l assms(4) by auto
  then show "parties_ok w'"
    by - (rule parties_okI [OF ok, where i = i];
      use assms(2-5) dist d(2) [of _ i] d(3-5) in \<open>auto simp: w'_def invitePlayer_def isPlayerInvited_def party_ok_def party_empty_def\<close>)
  show "pw_online w' = pw_online w" by (simp add: w'_def invitePlayer_def)
  have "roster_of w' = (roster_of w)(i := roster_of w' i)"
    by (rule roster_upd) (simp add: w'_def invitePlayer_def)
  also have "roster_of w' i = Option.bind (roster_of w i) (spec_invite q)"
    using l q by (simp add: w'_def invitePlayer_def isPlayerInvited_def roster_of_def spec_invite_def)
  finally show "roster_of w' = (roster_of w)(i := Option.bind (roster_of w i) (spec_invite q))" .
qed


lemma party_create_sel:
  "fst (party_create env now p w) = pw_next w"
  "pw_online (snd (party_create env now p w)) = pw_online w" "pw_next (snd (party_create env now p w)) = Suc (pw_next w)"
  "pt_leader (pw_parties (snd (party_create env now p w)) j) = (if j = pw_next w then Some p else pt_leader (pw_parties w j))"
  "pt_members (pw_parties (snd (party_create env now p w)) j) = (if j = pw_next w then [] else pt_members (pw_parties w j))"
  "pt_invites (pw_parties (snd (party_create env now p w)) j) = (if j = pw_next w then [] else pt_invites (pw_parties w j))"
  "pp_party (pw_players (snd (party_create env now p w)) x) = (if x = p then Some (pw_next w) else pp_party (pw_players w x))"
  "pp_invitations (pw_players (snd (party_create env now p w)) x) = pp_invitations (pw_players w x)"
  by (simp_all add: party_create_def new_party_def Let_def)

lemma create_and_invite_ok:
  fixes env :: party_env and now :: int
  assumes ok: "parties_ok w" and pq: "p \<noteq> q" "p \<in> pw_online w" "q \<in> pw_online w"
    and free: "pp_party (pw_players w p) = None" "pp_party (pw_players w q) = None"
  defines "w' \<equiv> snd (invitePlayer (fst (party_create env now p w)) q (snd (party_create env now p w)))"
  shows "parties_ok w'" "pw_online w' = pw_online w" "roster_of w' = (roster_of w)(pw_next w := Some ([p], [q]))"
proof -
  note d = parties_okD [OF ok]
  have none: "pt_leader (pw_parties w (pw_next w)) = None" "pt_members (pw_parties w (pw_next w)) = []"
     "pt_invites (pw_parties w (pw_next w)) = []"
    using d(1) [of "pw_next w"] by (auto simp: party_ok_def split: option.splits)
  have out: "pw_next w \<notin> set (pp_invitations (pw_players w x))" "pp_party (pw_players w x) \<noteq> Some (pw_next w)" for x
    using d(2) [of x "pw_next w"] d(3) [of "pw_next w" x] none by auto
  note sel = party_create_sel invitePlayer_def isPlayerInvited_def
  have off: "x \<noteq> p \<and> x \<noteq> q \<and> pp_party (pw_players w x) = None \<and> pp_invitations (pw_players w x) = []"
    if "x \<notin> pw_online w" for x using that pq d(4,5) by auto
  show "parties_ok w'"
    by (rule parties_okI [OF ok, where i = "pw_next w"])
      (use pq free none out off in \<open>simp_all add: w'_def sel party_ok_def party_empty_def split: if_splits\<close>)
  show "pw_online w' = pw_online w" by (simp add: w'_def sel)
  have "roster_of w' = (roster_of w)(pw_next w := roster_of w' (pw_next w))"
    by (rule roster_upd) (simp add: w'_def sel)
  also have "roster_of w' (pw_next w) = Some ([p], [q])" by (simp add: w'_def sel roster_of_def)
  finally show "roster_of w' = (roster_of w)(pw_next w := Some ([p], [q]))" .
qed

text \<open>An operation that leaves the roster and the pointers alone keeps the invariant.\<close>

lemma parties_ok_same:
  assumes "parties_ok w"
    and "\<And>j. pt_leader (pw_parties w' j) = pt_leader (pw_parties w j)" "\<And>j. pt_members (pw_parties w' j) = pt_members (pw_parties w j)"
      "\<And>j. pt_invites (pw_parties w' j) = pt_invites (pw_parties w j)" "\<And>q. pp_party (pw_players w' q) = pp_party (pw_players w q)"
      "\<And>q. pp_invitations (pw_players w' q) = pp_invitations (pw_players w q)"
      "pw_next w' = pw_next w"
    and off: "\<And>q. q \<notin> pw_online w' \<Longrightarrow> q \<notin> pw_online w \<or> pp_party (pw_players w q) = None \<and> pp_invitations (pw_players w q) = []"
  shows "parties_ok w'"
proof -
  have "party_ok (pw_next w') i (pw_parties w' i) = party_ok (pw_next w) i (pw_parties w i)" for i
    by (simp add: party_ok_def party_empty_def assms split: option.split)
  then show ?thesis using assms(1) off unfolding parties_ok_def assms(2-7) by blast
qed

subsection \<open>Every state the handlers reach is in order\<close>

definition scripts_allow :: "party_env \<Rightarrow> bool" where
  "scripts_allow env \<longleftrightarrow> (\<forall>i. pe_onDisband env i) \<and> (\<forall>i p. pe_onLeave env i p)"

lemma playerInviteToParty_ok: "parties_ok w \<Longrightarrow> parties_ok (playerInviteToParty env now p q w)"
  using create_and_invite_ok [of w p q] invitePlayer_ok(1) [of w _ p q]
  by (auto simp: playerInviteToParty_def case_prod_beta invitePlayer_def isPlayerInvited_def split: option.splits)

lemma playerJoinParty_ok: "parties_ok w \<Longrightarrow> parties_ok (playerJoinParty env now p l w)"
  using joinParty_ok(1) [of w _ l p]
  by (auto simp: playerJoinParty_def isInviting_def isPlayerInvited_def joinParty_def split: option.splits)

lemma playerRevokePartyInvitation_ok:
  "parties_ok w \<Longrightarrow> scripts_allow env \<Longrightarrow> parties_ok (playerRevokePartyInvitation env p q w)"
  using removeInvite_all_ok(1) [of w env _ q]
  by (auto simp: playerRevokePartyInvitation_def revokeInvitation_def scripts_allow_def split: option.splits)

lemma playerPassPartyLeadership_ok: "parties_ok w \<Longrightarrow> parties_ok (playerPassPartyLeadership env now p q w)"
  using passPartyLeadership_ok(1) [of w _ p q]
  by (auto simp: playerPassPartyLeadership_def isPartner_def split: option.splits)

lemma playerLeaveParty_ok: "parties_ok w \<Longrightarrow> scripts_allow env \<Longrightarrow> parties_ok (playerLeaveParty env now p w)"
  using leaveParty_ok(1) [of w env _ p now]
  by (auto simp: playerLeaveParty_def scripts_allow_def split: option.splits)

lemma playerEnableSharedPartyExperience_ok: "parties_ok w \<Longrightarrow> parties_ok (playerEnableSharedPartyExperience env now p b w)"
  by (erule parties_ok_same) (auto simp: playerEnableSharedPartyExperience_def split: option.splits if_splits)


text \<open>What the logout of \<open>p\<close> does to one roster.\<close>

definition spec_withdraw :: "nat \<Rightarrow> roster \<Rightarrow> roster option" where
  "spec_withdraw p r = (if p \<in> set (fst r) then spec_leave p r else if p \<in> set (snd r) then spec_uninvite p r else Some r)"

lemma roster_member:
  assumes "parties_ok w" shows "pp_party (pw_players w p) = Some i \<longleftrightarrow> (\<exists>r. roster_of w i = Some r \<and> p \<in> set (fst r))"
  using parties_okD(1) [OF assms, of i] parties_okD(2) [OF assms, of p i]
  by (auto simp: roster_of_def party_ok_def split: option.splits)

lemma roster_disjoint:
  assumes "parties_ok w" "roster_of w i = Some r" shows "set (fst r) \<inter> set (snd r) = {}" "distinct (fst r)" "distinct (snd r)"
  using parties_okD(1) [OF assms(1), of i] assms(2) by (auto simp: roster_of_def party_ok_def split: option.splits)

lemma spec_withdraw_member:
  "p \<in> set (fst r) \<Longrightarrow> spec_withdraw p r = spec_leave p r"
  "p \<notin> set (fst r) \<Longrightarrow> spec_withdraw p r = (if invited_to p (Some r) then spec_uninvite p r else Some r)"
  by (simp_all add: spec_withdraw_def invited_to_def)

lemma party_logout_sel:
  assumes "p \<in> pw_online w"
  shows "party_logout env now p w = (let w = (case pp_party (pw_players w p) of None \<Rightarrow> w | Some i \<Rightarrow> snd (leaveParty env now i p w));
     w = clearPartyInvitations env p w in w\<lparr>pw_online := pw_online w - {p}\<rparr>)"
  using assms by (simp add: party_logout_def)

lemma roster_of_online [simp]: "roster_of (w\<lparr>pw_online := S\<rparr>) = roster_of w"
  by (simp add: roster_of_def fun_eq_iff split: option.split)

lemma leave_invited:
  assumes "distinct (snd r)" "p \<notin> set (snd r)"
  shows "\<not> invited_to p (spec_leave p r)"
  using assms by (auto simp: invited_to_def spec_leave_def settle_def)

lemma party_logout_ok:
  fixes now :: int
  assumes ok: "parties_ok w" and hooks: "scripts_allow env" and p: "p \<in> pw_online w"
  defines "w' \<equiv> party_logout env now p w"
  shows "parties_ok w'" "roster_of w' j = Option.bind (roster_of w j) (spec_withdraw p)"
    "pp_party (pw_players w' p) = None" "pp_invitations (pw_players w' p) = []" "pw_online w' = pw_online w - {p}"
proof -
  define v where "v = (case pp_party (pw_players w p) of None \<Rightarrow> w | Some i \<Rightarrow> snd (leaveParty env now i p w))"
  have h: "\<And>i. pe_onDisband env i" "\<And>i. pe_onLeave env i p" using hooks by (simp_all add: scripts_allow_def)
  have left: "parties_ok v \<and> pp_party (pw_players v p) = None \<and> pw_online v = pw_online w"
    using leaveParty_ok [OF ok h(1) h(2)] ok by (simp add: v_def split: option.split)
  have rost: "roster_of v j = (if pp_party (pw_players w p) = Some j then Option.bind (roster_of w j) (spec_leave p) else roster_of w j)"
    using leaveParty_ok(2) [OF ok h(1) h(2)] by (simp add: v_def split: option.split)
  define u where "u = clearPartyInvitations env p v"
  note c = clearPartyInvitations_ok [OF h(1) conjunct1 [OF left], of p, folded u_def]
  have w': "w' = u\<lparr>pw_online := pw_online u - {p}\<rparr>"
    unfolding w'_def party_logout_sel [OF p] Let_def u_def v_def by simp
  have none: "pp_party (pw_players u p) = None"
  proof (rule ccontr)
    assume "pp_party (pw_players u p) \<noteq> None"
    then obtain i r where r: "roster_of u i = Some r" "p \<in> set (fst r)"
      using roster_member [OF c(1), of p] by auto
    have "\<exists>r'. roster_of v i = Some r' \<and> p \<in> set (fst r')"
      using r c(4) [of i] by (cases "roster_of v i") (auto simp: spec_uninvite_def settle_def split: if_splits)
    then show False using left roster_member [of v p i] by simp
  qed
  show "parties_ok w'"
    by (rule parties_ok_same [OF c(1)]) (use none c(3) in \<open>auto simp: w'\<close>)
  show "pp_party (pw_players w' p) = None" "pp_invitations (pw_players w' p) = []" using none c(3) by (simp_all add: w')
  show "pw_online w' = pw_online w - {p}" using c(2) left by (simp add: w')
  show "roster_of w' j = Option.bind (roster_of w j) (spec_withdraw p)"
  proof (cases "roster_of w j")
    case None
    then show ?thesis using rost c(4) [of j] by (simp add: w' invited_to_def)
  next
    case (Some r)
    note dis = roster_disjoint [OF ok Some]
    show ?thesis
    proof (cases "p \<in> set (fst r)")
      case True
      then have "roster_of v j = spec_leave p r" using rost roster_member [OF ok] Some by auto
      moreover have "\<not> invited_to p (spec_leave p r)" using True dis by (intro leave_invited) auto
      ultimately show ?thesis using c(4) [of j] Some True by (simp add: w' spec_withdraw_member)
    next
      case False
      then have "roster_of v j = roster_of w j" using rost roster_member [OF ok, of p j] Some by auto
      then show ?thesis using c(4) [of j] Some False by (simp add: w' spec_withdraw_member)
    qed
  qed
qed


inductive party_reach :: "party_env \<Rightarrow> pworld \<Rightarrow> bool" for env where
  start: "(\<And>i. pw_parties w i = (new_party 0 0)\<lparr>pt_leader := None\<rparr>) \<Longrightarrow> pw_online w = {} \<Longrightarrow>
    (\<And>p. pp_party (pw_players w p) = None \<and> pp_invitations (pw_players w p) = []) \<Longrightarrow> party_reach env w"
| login: "party_reach env w \<Longrightarrow> p \<notin> pw_online w \<Longrightarrow> party_reach env
    (on_player p (\<lambda>_. x\<lparr>pp_party := None, pp_invitations := []\<rparr>) (w\<lparr>pw_online := insert p (pw_online w)\<rparr>))"
| change: "party_reach env w \<Longrightarrow> party_reach env
    (on_player p (\<lambda>x. x\<lparr>pp_level := l, pp_pos := pos, pp_notGainInFight := b, pp_inFight := c, pp_protected := d\<rparr>) w)"
| invite: "party_reach env w \<Longrightarrow> party_reach env (playerInviteToParty env now p q w)"
| join: "party_reach env w \<Longrightarrow> party_reach env (playerJoinParty env now p q w)"
| revoke: "party_reach env w \<Longrightarrow> party_reach env (playerRevokePartyInvitation env p q w)"
| pass: "party_reach env w \<Longrightarrow> party_reach env (playerPassPartyLeadership env now p q w)"
| leave: "party_reach env w \<Longrightarrow> party_reach env (playerLeaveParty env now p w)"
| share: "party_reach env w \<Longrightarrow> party_reach env (playerEnableSharedPartyExperience env now p b w)"
| fight: "party_reach env w \<Longrightarrow> pp_party (pw_players w p) = Some i \<Longrightarrow> party_reach env (updatePlayerTicks env now i p n w)"
| logout: "party_reach env w \<Longrightarrow> party_reach env (party_logout env now p w)"

lemma start_ok:
  assumes "\<And>i. pw_parties w i = (new_party 0 0)\<lparr>pt_leader := None\<rparr>" "\<And>p. pp_party (pw_players w p) = None \<and> pp_invitations (pw_players w p) = []"
  shows "parties_ok w"
  using assms by (simp add: parties_ok_def party_ok_def new_party_def)

lemma login_ok:
  assumes "parties_ok w" "p \<notin> pw_online w"
  shows "parties_ok (on_player p (\<lambda>_. x\<lparr>pp_party := None, pp_invitations := []\<rparr>) (w\<lparr>pw_online := insert p (pw_online w)\<rparr>))"
  by (rule parties_ok_same [OF assms(1)]) (use assms(2) parties_okD(4,5) [OF assms(1), of p] in auto)

lemma change_ok:
  assumes "parties_ok w"
  shows "parties_ok (on_player p (\<lambda>x. x\<lparr>pp_level := l, pp_pos := pos, pp_notGainInFight := b, pp_inFight := c, pp_protected := d\<rparr>) w)"
  by (rule parties_ok_same [OF assms]) auto

lemma updatePlayerTicks_ok: "parties_ok w \<Longrightarrow> parties_ok (updatePlayerTicks env now i p n w)"
  by (erule parties_ok_same) simp_all

lemma logout_ok: "parties_ok w \<Longrightarrow> scripts_allow env \<Longrightarrow> parties_ok (party_logout env now p w)"
  by (cases "p \<in> pw_online w") (auto intro: party_logout_ok(1), simp add: party_logout_def)

lemmas party_handlers_ok = login_ok change_ok playerInviteToParty_ok playerJoinParty_ok playerRevokePartyInvitation_ok
  playerPassPartyLeadership_ok playerLeaveParty_ok playerEnableSharedPartyExperience_ok updatePlayerTicks_ok logout_ok

lemma reach_parties_ok: "party_reach env w \<Longrightarrow> scripts_allow env \<Longrightarrow> parties_ok w"
  by (induction rule: party_reach.induct) (blast intro: start_ok party_handlers_ok)+

subsection \<open>Properties\<close>

definition party_env0 :: party_env where
  "party_env0 = \<lparr>pe_autoShare = True, pe_minLevel = (\<lambda>h. (h * 2 + 2) div 3), pe_onDisband = (\<lambda>_. True),
     pe_onLeave = (\<lambda>_ _. True), pe_onJoin = (\<lambda>_ _. True), pe_customPrice = (\<lambda>_ item buy. if buy then 2 else ucast item),
     pe_marketPrice = (\<lambda>m _. sum_list (map snd m))\<rparr>"

definition pplayer0 :: pplayer where
  "pplayer0 = \<lparr>pp_party = None, pp_invitations = [], pp_level = 50, pp_pos = Pos 100 100 7,
     pp_notGainInFight = True, pp_inFight = False, pp_protected = False\<rparr>"

definition pworld0 :: pworld where
  "pworld0 = \<lparr>pw_players = (\<lambda>_. pplayer0), pw_online = {}, pw_parties = (\<lambda>_. (new_party 0 0)\<lparr>pt_leader := None\<rparr>), pw_next = 0\<rparr>"

definition party_login :: "nat \<Rightarrow> pworld \<Rightarrow> pworld" where
  "party_login p w = on_player p (\<lambda>_. pplayer0\<lparr>pp_party := None, pp_invitations := []\<rparr>) (w\<lparr>pw_online := insert p (pw_online w)\<rparr>)"

text \<open>Three players; the first invites the other two and the second joins.\<close>

definition pworld1 :: pworld where
  "pworld1 = playerJoinParty party_env0 5 2 1 (playerInviteToParty party_env0 4 1 3 (playerInviteToParty party_env0 3 1 2
     (party_login 3 (party_login 2 (party_login 1 pworld0)))))"

lemma pworld1_roster: "roster_of pworld1 0 = Some ([1, 2], [3])"
  by (simp add: pworld1_def playerJoinParty_def playerInviteToParty_def party_login_def pworld0_def pplayer0_def case_prod_beta
      party_create_sel invitePlayer_def isPlayerInvited_def isInviting_def joinParty_def Let_def party_env0_def new_party_def roster_of_def)

lemma scripts_allow0: "scripts_allow party_env0"
  by (simp add: scripts_allow_def party_env0_def)

lemma pworld0_reach: "party_reach env pworld0"
  by (rule party_reach.start) (simp_all add: pworld0_def pplayer0_def)

lemma party_login_reach: "party_reach env w \<Longrightarrow> p \<notin> pw_online w \<Longrightarrow> party_reach env (party_login p w)"
  unfolding party_login_def by (rule party_reach.login)

lemma pworld1_reach: "party_reach party_env0 pworld1"
  unfolding pworld1_def
  by (intro party_reach.join party_reach.invite party_login_reach pworld0_reach) (simp_all add: party_login_def pworld0_def)




text \<open>C23: A logout takes the player out of every party and refines the operation on rosters: each party that
  listed the player loses it - with the first member as the new leader when the leader goes -, each that had
  invited it loses the invitation, a party left with one player and no invitation (or with no player) is
  dissolved, every other party is unchanged, and the player keeps no pointer to a party.\<close>

theorem logout_withdraws:
  assumes "party_reach env w" "scripts_allow env" "p \<in> pw_online w"
  shows "(\<forall>i. roster_of (party_logout env now p w) i = Option.bind (roster_of w i) (spec_withdraw p)) \<and>
    pp_party (pw_players (party_logout env now p w) p) = None \<and>
    pp_invitations (pw_players (party_logout env now p w) p) = []"
  using party_logout_ok(2-4) [OF reach_parties_ok [OF assms(1,2)] assms(2,3)] by blast

theorem logout_withdraws_witness:
  "roster_of (party_logout party_env0 9 1 pworld1) 0 = Some ([2], [3]) \<and>
   roster_of (party_logout party_env0 9 3 (party_logout party_env0 9 1 pworld1)) 0 = None"
proof -
  have on: "pw_online pworld1 = {1, 2, 3}"
    by (auto simp: pworld1_def playerJoinParty_def playerInviteToParty_def party_login_def pworld0_def pplayer0_def case_prod_beta
        party_create_sel invitePlayer_def isPlayerInvited_def isInviting_def joinParty_def Let_def party_env0_def)
  have a: "roster_of (party_logout party_env0 9 1 pworld1) 0 = Some ([2], [3])"
    using logout_withdraws [OF pworld1_reach scripts_allow0, of 1 9] on
    by (simp add: pworld1_roster spec_withdraw_def spec_leave_def settle_def)
  have "pw_online (party_logout party_env0 9 1 pworld1) = {2, 3}"
    using party_logout_ok(5) [OF reach_parties_ok [OF pworld1_reach scripts_allow0] scripts_allow0, of 1 9] on by simp
  then have "roster_of (party_logout party_env0 9 3 (party_logout party_env0 9 1 pworld1)) 0 = None"
    using logout_withdraws [OF party_reach.logout [OF pworld1_reach] scripts_allow0, where now1 = 9 and p1 = 1, of 3 9] a
    by (simp add: spec_withdraw_def spec_uninvite_def settle_def)
  then show ?thesis using a by simp
qed

subsection \<open>Prices of the analyzer\<close>


lemma fold_total: "fold (\<lambda>(k, n) total. total + (g k n :: u64)) m a = a + (\<Sum>(k, n)\<leftarrow>m. g k n)"
  by (induction m arbitrary: a) (auto simp: add.assoc)

lemma custom_total_sum: "custom_total env l buy m = (\<Sum>(k, n)\<leftarrow>m. pe_customPrice env l k buy * n)"
  by (simp add: custom_total_def fold_total)

lemma custom_total_Cons: "custom_total env l buy ((k, c) # m) = pe_customPrice env l k buy * c + custom_total env l buy m"
  by (simp add: custom_total_sum)

lemma custom_total_bump:
  "custom_total env l buy (bump k n m) = custom_total env l buy m + pe_customPrice env l k buy * n"
proof (induction m)
  case Nil
  then show ?case by (simp add: bump_def custom_total_sum)
next
  case (Cons kc m)
  obtain k' c where kc: "kc = (k', c)" by (cases kc)
  show ?case
  proof (cases "k' = k")
    case True
    then show ?thesis by (simp add: kc bump_def custom_total_Cons algebra_simps)
  next
    case False
    then have "bump k n (kc # m) = kc # bump k n m" by (simp add: kc bump_def)
    then show ?thesis using Cons by (simp add: kc custom_total_Cons algebra_simps)
  qed
qed

lemma map_with_analyzer:
  assumes "map g as = as" "\<And>a. g a = a \<Longrightarrow> g (f a) = f a" "g (new_analyzer p) = new_analyzer p"
  shows "map g (with_analyzer p f as) = with_analyzer p f as"
  using assms(1) by (induction "as") (simp_all add: assms(2,3))

lemma on_party_id_iff: "on_party i f w = w \<longleftrightarrow> f (pw_parties w i) = pw_parties w i"
proof
  assume "on_party i f w = w"
  then have "pw_parties (on_party i f w) i = pw_parties w i" by simp
  then show "f (pw_parties w i) = pw_parties w i" by simp
next
  assume "f (pw_parties w i) = pw_parties w i"
  then show "on_party i f w = w" by (simp add: on_party_def fun_upd_idem)
qed

lemma reloadPrices_id_iff:
  assumes "pt_leader (pw_parties w i) = Some l"
  shows "reloadPrices env i w = w \<longleftrightarrow>
    map (reload_analyzer env l (pt_priceType (pw_parties w i))) (pt_membersData (pw_parties w i)) = pt_membersData (pw_parties w i)"
  using assms by (cases "pw_parties w i") (simp add: reloadPrices_def on_party_id_iff)

text \<open>With the leader's prices, keeping the totals as loot and supplies come in is the same as computing
  them anew: when the prices are those of a reload, another reload changes nothing after an item was looted or
  a supply used; and after the price type was switched a reload changes nothing either.\<close>

theorem prices_are_current:
  assumes "pt_leader (pw_parties w i) = Some l" "pt_priceType (pw_parties w i) = LEADER_PRICE" "reloadPrices env i w = w"
  shows "reloadPrices env i (addPlayerLoot env i p item n w) = addPlayerLoot env i p item n w \<and>
    reloadPrices env i (addPlayerSupply env i p item w) = addPlayerSupply env i p item w \<and>
    reloadPrices env i (switchAnalyzerPriceType env i w) = switchAnalyzerPriceType env i w"
proof -
  let ?g = "reload_analyzer env l LEADER_PRICE"
  have cur: "map ?g (pt_membersData (pw_parties w i)) = pt_membersData (pw_parties w i)"
    using reloadPrices_id_iff [OF assms(1)] assms(2,3) by simp
  have g: "?g a = a \<longleftrightarrow> an_lootPrice a = custom_total env l False (an_lootMap a) \<and>
      an_supplyPrice a = custom_total env l True (an_supplyMap a)" for a
    by (cases a) (auto simp: reload_analyzer_def)
  have new: "?g (new_analyzer p) = new_analyzer p" unfolding g by (simp add: new_analyzer_def custom_total_def)
  have loot: "reloadPrices env i (addPlayerLoot env i p item n w) = addPlayerLoot env i p item n w"
    by (subst reloadPrices_id_iff [where l = l])
      (use assms(1,2) in \<open>auto simp: addPlayerLoot_def Let_def intro!: map_with_analyzer [OF cur _ new], simp add: g custom_total_bump\<close>)
  have used: "reloadPrices env i (addPlayerSupply env i p item w) = addPlayerSupply env i p item w"
    by (subst reloadPrices_id_iff [where l = l])
      (use assms(1,2) in \<open>auto simp: addPlayerSupply_def Let_def intro!: map_with_analyzer [OF cur _ new], simp add: g custom_total_bump\<close>)
  have idem: "reload_analyzer env l t (reload_analyzer env l t a) = reload_analyzer env l t a" for t a
    by (simp add: reload_analyzer_def)
  have swapped: "reloadPrices env i (switchAnalyzerPriceType env i w) = switchAnalyzerPriceType env i w"
    by (subst reloadPrices_id_iff [where l = l]) (use assms(1,2) idem in \<open>simp_all add: switchAnalyzerPriceType_def reloadPrices_def\<close>)
  show ?thesis using loot used swapped by blast
qed

text \<open>A party of two whose leader set the prices.\<close>

definition pworld2 :: pworld where
  "pworld2 = on_party 0 (\<lambda>pt. pt\<lparr>pt_leader := Some 1, pt_members := [2], pt_priceType := LEADER_PRICE\<rparr>) pworld0"

theorem prices_are_current_witness:
  "reloadPrices party_env0 0 (addPlayerLoot party_env0 0 1 100 3 pworld2) = addPlayerLoot party_env0 0 1 100 3 pworld2 \<and>
   map an_lootPrice (pt_membersData (pw_parties (addPlayerLoot party_env0 0 1 100 3 pworld2) 0)) = [300]"
proof -
  have l: "pt_leader (pw_parties pworld2 0) = Some 1" "pt_priceType (pw_parties pworld2 0) = LEADER_PRICE"
     "pt_membersData (pw_parties pworld2 0) = []"
    by (simp_all add: pworld2_def pworld0_def new_party_def)
  then have r: "reloadPrices party_env0 0 pworld2 = pworld2" using reloadPrices_id_iff [OF l(1)] by simp
  have "map an_lootPrice (pt_membersData (pw_parties (addPlayerLoot party_env0 0 1 100 3 pworld2) 0)) = [300]"
    using l by (simp add: addPlayerLoot_def Let_def new_analyzer_def party_env0_def)
  then show ?thesis using prices_are_current [OF l(1,2) r, of 1 100 3] by blast
qed

end
