(* ===== verification/ItemAttr.thy ===== *)
theory ItemAttr
  imports Otb "HOL-Library.Multiset"
begin

text \<open>
  Attributes of items: \<open>enums/item_attribute.hpp\<close>, \<open>items/functions/item/attribute.hpp\<close>, \<open>attribute.cpp\<close> and
  \<open>custom_attribute.hpp\<close>, with the accessors of \<open>items/item.hpp\<close> and the functions of \<open>items/item.cpp\<close> that
  read and write them.  An item without an attribute object behaves like one with an empty object.
  Integers of attributes are 64-bit words, floating-point values their bit patterns, strings lists of bytes
  behind a shared pointer, whose address is a number: items compare the pointers of strings, not the strings.
  The theorems are the laws of lookup after update, over the vector with its swap-and-pop removal.
\<close>

type_synonym u16 = "16 word"
type_synonym u64 = "64 word"
type_synonym bytes = "u8 list"

datatype item_attribute = NONE | ACTIONID | UNIQUEID | DESCRIPTION | TEXT | DATE | WRITER | NAME | ARTICLE | PLURALNAME
  | WEIGHT | ATTACK | DEFENSE | EXTRADEFENSE | ARMOR | HITCHANCE | SHOOTRANGE | OWNER | DURATION | DECAYSTATE
  | CORPSEOWNER | CHARGES | FLUIDTYPE | DOORID | SPECIAL | IMBUEMENT_SLOT | OPENCONTAINER | QUICKLOOTCONTAINER
  | DURATION_TIMESTAMP | AMOUNT | TIER | STORE | CUSTOM | LOOTMESSAGE_SUFFIX | STORE_INBOX_CATEGORY | OBTAINCONTAINER
  | AUGMENTS

datatype attr_value = AInt u64 | AStr nat bytes

datatype decay_state = DECAYING_FALSE | DECAYING_TRUE | DECAYING_PENDING | DECAYING_STOPPING | DECAYING_OTHER u8

datatype custom_value = CInt u64 | CStr bytes | CDouble u64 | CBool bool

subsection \<open>The attribute vector\<close>

definition isAttributeInteger :: "item_attribute \<Rightarrow> bool" where
  "isAttributeInteger t \<longleftrightarrow> t \<in> {STORE, ACTIONID, UNIQUEID, DATE, WEIGHT, ATTACK, DEFENSE, EXTRADEFENSE, ARMOR, HITCHANCE,
     SHOOTRANGE, OWNER, DURATION, DECAYSTATE, CORPSEOWNER, CHARGES, FLUIDTYPE, DOORID, IMBUEMENT_SLOT, OPENCONTAINER,
     QUICKLOOTCONTAINER, OBTAINCONTAINER, DURATION_TIMESTAMP, TIER, AMOUNT}"

definition isAttributeString :: "item_attribute \<Rightarrow> bool" where
  "isAttributeString t \<longleftrightarrow> t \<in> {DESCRIPTION, TEXT, WRITER, NAME, ARTICLE, PLURALNAME, SPECIAL, LOOTMESSAGE_SUFFIX, STORE_INBOX_CATEGORY}"

text \<open>A new string is put at the address \<open>loc\<close>.\<close>

definition getDefaultValueForType :: "nat \<Rightarrow> item_attribute \<Rightarrow> attr_value" where
  "getDefaultValueForType loc t = (if isAttributeInteger t then AInt 0 else if isAttributeString t then AStr loc [] else AInt 0)"

fun setValue_int :: "u64 \<Rightarrow> attr_value \<Rightarrow> attr_value" where
  "setValue_int n (AInt _) = AInt n"
| "setValue_int n (AStr l s) = AStr l s"

fun setValue_str :: "nat \<Rightarrow> bytes \<Rightarrow> attr_value \<Rightarrow> attr_value" where
  "setValue_str loc s (AStr _ _) = AStr loc s"
| "setValue_str loc s (AInt n) = AInt n"

fun attr_getInteger :: "attr_value \<Rightarrow> u64" where
  "attr_getInteger (AInt n) = n"
| "attr_getInteger (AStr _ _) = 0"

type_synonym attributes = "(item_attribute \<times> attr_value) list"

text \<open>The reference that \<open>getAttributesByType\<close> returns, to an entry that is appended when there is none, is updated at once.\<close>

fun getAttributesByType :: "nat \<Rightarrow> item_attribute \<Rightarrow> (attr_value \<Rightarrow> attr_value) \<Rightarrow> attributes \<Rightarrow> attributes" where
  "getAttributesByType loc t f [] = [(t, f (getDefaultValueForType loc t))]"
| "getAttributesByType loc t f ((a, v) # as) = (if a = t then (a, f v) # as else (a, v) # getAttributesByType loc t f as)"

definition hasAttribute :: "item_attribute \<Rightarrow> attributes \<Rightarrow> bool" where
  "hasAttribute t as \<longleftrightarrow> t \<in> fst ` set as"

definition getInteger :: "item_attribute \<Rightarrow> attributes \<Rightarrow> u64" where
  "getInteger t as = (if isAttributeInteger t then (case map_of as t of None \<Rightarrow> 0 | Some v \<Rightarrow> attr_getInteger v) else 0)"

text \<open>The string of an entry that holds none is a null pointer; such an entry is never made.\<close>

definition getString :: "item_attribute \<Rightarrow> attributes \<Rightarrow> bytes" where
  "getString t as = (if isAttributeString t then (case map_of as t of Some (AStr _ s) \<Rightarrow> s | _ \<Rightarrow> []) else [])"

definition setAttribute_int :: "item_attribute \<Rightarrow> u64 \<Rightarrow> attributes \<Rightarrow> attributes" where
  "setAttribute_int t n as = (if \<not> isAttributeInteger t then as else getAttributesByType 0 t (setValue_int n) as)"

definition setAttribute_str :: "nat \<Rightarrow> item_attribute \<Rightarrow> bytes \<Rightarrow> attributes \<Rightarrow> attributes" where
  "setAttribute_str loc t s as = (if \<not> isAttributeString t then as else if s = [] then as else getAttributesByType loc t (setValue_str loc s) as)"

text \<open>The entry is overwritten with the last one, which is then dropped.\<close>

fun removeAttribute :: "item_attribute \<Rightarrow> attributes \<Rightarrow> attributes" where
  "removeAttribute t [] = []"
| "removeAttribute t (x # as) = (if fst x = t then (if as = [] then [] else last as # butlast as) else x # removeAttribute t as)"

subsection \<open>Custom attributes\<close>

definition lower_byte :: "u8 \<Rightarrow> u8" where
  "lower_byte b = (if 65 \<le> b \<and> b \<le> 90 then b + 32 else b)"

definition lower_bytes :: "bytes \<Rightarrow> bytes" where
  "lower_bytes s = map lower_byte s"

fun bytes_less :: "bytes \<Rightarrow> bytes \<Rightarrow> bool" where
  "bytes_less [] s = (s \<noteq> [])"
| "bytes_less (a # r) [] = False"
| "bytes_less (a # r) (b # s) = (a < b \<or> a = b \<and> bytes_less r s)"

type_synonym custom_map = "(bytes \<times> custom_value) list"

text \<open>A \<open>std::map\<close> keeps its keys in the order of their bytes.\<close>

fun custom_put :: "bytes \<Rightarrow> custom_value \<Rightarrow> custom_map \<Rightarrow> custom_map" where
  "custom_put k v [] = [(k, v)]"
| "custom_put k v ((k', v') # m) = (if k = k' then (k, v) # m else if bytes_less k k' then (k, v) # (k', v') # m
     else (k', v') # custom_put k v m)"

definition addCustomAttribute :: "bytes \<Rightarrow> custom_value \<Rightarrow> custom_map \<Rightarrow> custom_map" where
  "addCustomAttribute key v m = custom_put (lower_bytes key) v m"

definition getCustomAttribute :: "bytes \<Rightarrow> custom_map \<Rightarrow> custom_value option" where
  "getCustomAttribute key m = map_of m (lower_bytes key)"

definition removeCustomAttribute :: "bytes \<Rightarrow> custom_map \<Rightarrow> bool \<times> custom_map" where
  "removeCustomAttribute key m = (let k = lower_bytes key in
     if map_of m k = None then (False, m) else (True, filter (\<lambda>e. fst e \<noteq> k) m))"


subsection \<open>Items\<close>

text \<open>The fields of \<open>ItemType\<close> that are used; the table of item types is a parameter.  A type is known when its
  number is not zero, and a container when \<open>CreateItem\<close> makes an object of a class derived from \<open>Container\<close>.\<close>

record item_type =
  ity_known :: bool
  ity_container :: bool
  ity_stackable :: bool
  ity_stackSize :: u8
  ity_fluidContainer :: bool
  ity_splash :: bool
  ity_charges :: u32
  ity_movable :: bool
  ity_pickupable :: bool
  ity_quiver :: bool
  ity_ammo :: bool
  ity_weight :: u32
  ity_decayTime :: u32
  ity_decayTo :: "32 word"
  ity_stopTime :: bool

type_synonym item_types = "u16 \<Rightarrow> item_type"

record item =
  it_id :: u16
  it_count :: u8
  it_attrs :: attributes
  it_custom :: custom_map

definition set_int :: "item_attribute \<Rightarrow> u64 \<Rightarrow> 'a item_scheme \<Rightarrow> 'a item_scheme" where
  "set_int t n x = x\<lparr>it_attrs := setAttribute_int t n (it_attrs x)\<rparr>"

definition set_str :: "nat \<Rightarrow> item_attribute \<Rightarrow> bytes \<Rightarrow> 'a item_scheme \<Rightarrow> 'a item_scheme" where
  "set_str loc t s x = x\<lparr>it_attrs := setAttribute_str loc t s (it_attrs x)\<rparr>"

definition del_attr :: "item_attribute \<Rightarrow> 'a item_scheme \<Rightarrow> 'a item_scheme" where
  "del_attr t x = x\<lparr>it_attrs := removeAttribute t (it_attrs x)\<rparr>"

definition get_int :: "item_attribute \<Rightarrow> 'a item_scheme \<Rightarrow> u64" where
  "get_int t x = getInteger t (it_attrs x)"

definition get_str :: "item_attribute \<Rightarrow> 'a item_scheme \<Rightarrow> bytes" where
  "get_str t x = getString t (it_attrs x)"

definition has_attr :: "item_attribute \<Rightarrow> 'a item_scheme \<Rightarrow> bool" where
  "has_attr t x = hasAttribute t (it_attrs x)"

text \<open>A cast keeps the low bytes; \<open>getAttribute\<close> clamps the result to its own range, which changes nothing.\<close>

definition attr_u8 :: "item_attribute \<Rightarrow> 'a item_scheme \<Rightarrow> u8" where "attr_u8 t x = ucast (get_int t x)"
definition attr_u16 :: "item_attribute \<Rightarrow> 'a item_scheme \<Rightarrow> u16" where "attr_u16 t x = ucast (get_int t x)"
definition attr_u32 :: "item_attribute \<Rightarrow> 'a item_scheme \<Rightarrow> u32" where "attr_u32 t x = ucast (get_int t x)"

fun decay_of_byte :: "u8 \<Rightarrow> decay_state" where
  "decay_of_byte b = (if b = 0 then DECAYING_FALSE else if b = 1 then DECAYING_TRUE else if b = 2 then DECAYING_PENDING
     else if b = 3 then DECAYING_STOPPING else DECAYING_OTHER b)"

fun byte_of_decay :: "decay_state \<Rightarrow> u8" where
  "byte_of_decay DECAYING_FALSE = 0"
| "byte_of_decay DECAYING_TRUE = 1"
| "byte_of_decay DECAYING_PENDING = 2"
| "byte_of_decay DECAYING_STOPPING = 3"
| "byte_of_decay (DECAYING_OTHER b) = b"

definition getDecaying :: "'a item_scheme \<Rightarrow> decay_state" where
  "getDecaying x = decay_of_byte (attr_u8 DECAYSTATE x)"

definition setDecaying :: "decay_state \<Rightarrow> 'a item_scheme \<Rightarrow> 'a item_scheme" where
  "setDecaying d x = (let x = set_int DECAYSTATE (ucast (byte_of_decay d)) x in
     if d = DECAYING_FALSE then del_attr DURATION_TIMESTAMP x else x)"

text \<open>The difference of a timestamp and the clock is taken in 32 bits, signed.\<close>

definition getDuration :: "u64 \<Rightarrow> 'a item_scheme \<Rightarrow> u32" where
  "getDuration now x = (if getDecaying x = DECAYING_TRUE \<or> getDecaying x = DECAYING_STOPPING
     then let d = attr_u32 DURATION_TIMESTAMP x - ucast now in if d <s 0 then 0 else d
     else attr_u32 DURATION x)"

definition setDuration :: "u32 \<Rightarrow> 'a item_scheme \<Rightarrow> 'a item_scheme" where
  "setDuration time = set_int DURATION (scast (if time <s 0 then 0 else time))"

definition isStoreItem :: "'a item_scheme \<Rightarrow> bool" where
  "isStoreItem x \<longleftrightarrow> 0 <s get_int STORE x"

definition item_getOwnerId :: "'a item_scheme \<Rightarrow> u32" where
  "item_getOwnerId x = (if has_attr OWNER x then attr_u32 OWNER x else 0)"

definition isRewardCorpse :: "'a item_scheme \<Rightarrow> bool" where
  "isRewardCorpse x \<longleftrightarrow> attr_u32 CORPSEOWNER x = 0x7FFFFFFF"

definition getTier :: "u8 \<Rightarrow> 'a item_scheme \<Rightarrow> u8" where
  "getTier maxTier x = (if \<not> has_attr TIER x then 0 else if attr_u8 TIER x > maxTier then 0 else attr_u8 TIER x)"

definition getBaseWeight :: "item_types \<Rightarrow> 'a item_scheme \<Rightarrow> u32" where
  "getBaseWeight items x = (if has_attr WEIGHT x then attr_u32 WEIGHT x else ity_weight (items (it_id x)))"

definition item_getWeight :: "item_types \<Rightarrow> 'a item_scheme \<Rightarrow> u32" where
  "item_getWeight items x = (if ity_stackable (items (it_id x)) then getBaseWeight items x * max 1 (ucast (it_count x))
     else getBaseWeight items x)"

definition getSubType :: "item_types \<Rightarrow> 'a item_scheme \<Rightarrow> u16" where
  "getSubType items x = (let it = items (it_id x) in
     if ity_fluidContainer it \<or> ity_splash it then attr_u16 FLUIDTYPE x
     else if ity_stackable it then ucast (it_count x)
     else if ity_charges it \<noteq> 0 then attr_u16 CHARGES x
     else ucast (it_count x))"

definition setSubType :: "item_types \<Rightarrow> u16 \<Rightarrow> 'a item_scheme \<Rightarrow> 'a item_scheme" where
  "setSubType items n x = (let it = items (it_id x) in
     if ity_fluidContainer it \<or> ity_splash it then set_int FLUIDTYPE (ucast n) x
     else if ity_stackable it then x\<lparr>it_count := ucast n\<rparr>
     else if ity_charges it \<noteq> 0 then set_int CHARGES (ucast n) x
     else x\<lparr>it_count := ucast n\<rparr>)"

definition setID :: "item_types \<Rightarrow> u16 \<Rightarrow> 'a item_scheme \<Rightarrow> 'a item_scheme" where
  "setID items newid x = (let prevIt = items (it_id x); x = x\<lparr>it_id := newid\<rparr>; it = items newid;
     newDuration = ity_decayTime it * 1000;
     x = (if newDuration = 0 \<and> \<not> ity_stopTime it \<and> ity_decayTo it <s 0
          then del_attr DURATION (if has_attr DECAYSTATE x then setDecaying DECAYING_STOPPING x else x) else x);
     x = (if \<not> isRewardCorpse x then del_attr CORPSEOWNER x else x)
   in if newDuration > 0 \<and> (\<not> ity_stopTime prevIt \<or> \<not> has_attr DURATION x)
      then setDuration newDuration (setDecaying DECAYING_PENDING x) else x)"

subsection \<open>New items\<close>

definition FLUID_INK :: u16 where "FLUID_INK = 18"

definition setDefaultDuration :: "item_types \<Rightarrow> 'a item_scheme \<Rightarrow> 'a item_scheme" where
  "setDefaultDuration items x = (let duration = ity_decayTime (items (it_id x)) * 1000 in
     if duration \<noteq> 0 then setDuration duration x else x)"

definition new_item :: "item_types \<Rightarrow> u16 \<Rightarrow> u16 \<Rightarrow> item" where
  "new_item items itemId itemCount = (let it = items itemId; x = \<lparr>it_id = itemId, it_count = 1, it_attrs = [], it_custom = []\<rparr>;
     x = (if ity_fluidContainer it \<or> ity_splash it then set_int FLUIDTYPE (ucast (min (max itemCount 1) FLUID_INK)) x
          else if ity_stackable it then
            (if itemCount \<noteq> 0 then x\<lparr>it_count := ucast itemCount\<rparr>
             else if ity_charges it \<noteq> 0 then x\<lparr>it_count := ucast (ity_charges it)\<rparr> else x)
          else if ity_charges it \<noteq> 0 then
            (if itemCount \<noteq> 0 then set_int CHARGES (ucast itemCount) x else set_int CHARGES (ucast (ity_charges it)) x)
          else x)
   in setDefaultDuration items x)"

text \<open>Activated rings and the like are created in their default form; containers and other special classes are not in
  the table.\<close>

definition ItemTransformationMap :: "(u16 \<times> u16) list" where
  "ItemTransformationMap = [(3094, 3091), (3096, 3093), (3099, 3097), (3100, 3098), (3086, 3049), (3090, 3053), (3549, 6529),
     (6300, 6299), (16264, 16114), (25757, 35901)]"

definition CreateItem :: "item_types \<Rightarrow> u16 \<Rightarrow> u16 \<Rightarrow> item option" where
  "CreateItem items ty cnt = (let it = items ty; cnt = (if ity_stackable it \<and> cnt = 0 then 1 else cnt) in
     if \<not> ity_known it then None
     else if ity_container it then Some (new_item items ty 0)
     else case map_of ItemTransformationMap ty of Some ty' \<Rightarrow> Some (new_item items ty' cnt) | None \<Rightarrow> Some (new_item items ty cnt))"

text \<open>Two attribute lists clash when some kind is in both with different values; the kind \<open>STORE\<close> is passed over.
  The strings of two attributes are compared by their addresses.\<close>

fun attr_getString :: "attr_value \<Rightarrow> nat option" where
  "attr_getString (AStr loc _) = Some loc"
| "attr_getString (AInt _) = None"

definition attr_clash :: "attributes \<Rightarrow> attributes \<Rightarrow> bool" where
  "attr_clash as bs \<longleftrightarrow> list_ex (\<lambda>(t, v). t \<noteq> STORE \<and> list_ex (\<lambda>(u, w). t = u \<and>
     (isAttributeInteger t \<and> attr_getInteger v \<noteq> attr_getInteger w \<or> isAttributeString t \<and> attr_getString v \<noteq> attr_getString w)) bs) as"

definition item_equals :: "u32 \<Rightarrow> u32 \<Rightarrow> 'a item_scheme \<Rightarrow> 'a item_scheme \<Rightarrow> bool" where
  "item_equals owner compareOwner x y \<longleftrightarrow> it_id x = it_id y \<and> isStoreItem x = isStoreItem y \<and> owner = compareOwner
     \<and> \<not> attr_clash (it_attrs x) (it_attrs y)"


subsection \<open>Laws\<close>

lemma integer_not_string: "isAttributeInteger t \<Longrightarrow> \<not> isAttributeString t"
  by (auto simp: isAttributeInteger_def isAttributeString_def)

lemma default_kind:
  "isAttributeInteger t \<Longrightarrow> getDefaultValueForType loc t = AInt 0"
  "isAttributeString t \<Longrightarrow> getDefaultValueForType loc t = AStr loc []"
  using integer_not_string [of t] by (auto simp: getDefaultValueForType_def)

lemma map_of_getAttributesByType:
  "map_of (getAttributesByType loc t f as) u =
     (if u = t then Some (f (case map_of as t of None \<Rightarrow> getDefaultValueForType loc t | Some v \<Rightarrow> v)) else map_of as u)"
  by (induction loc t f as rule: getAttributesByType.induct) auto

lemma keys_getAttributesByType: "fst ` set (getAttributesByType loc t f as) = insert t (fst ` set as)"
  by (induction loc t f as rule: getAttributesByType.induct) auto

lemma distinct_getAttributesByType: "distinct (map fst as) \<Longrightarrow> distinct (map fst (getAttributesByType loc t f as))"
  by (induction loc t f as rule: getAttributesByType.induct) (auto simp: keys_getAttributesByType)

lemma mset_removeAttribute: "distinct (map fst as) \<Longrightarrow> set (removeAttribute t as) = {x \<in> set as. fst x \<noteq> t}"
proof (induction t "as" rule: removeAttribute.induct)
  case (2 t x "as")
  have "set (last as # butlast as) = set as" if "as \<noteq> []"
    using that by (cases "as" rule: rev_cases) auto
  then show ?case
  proof (cases "fst x = t")
    case True
    then have "{y \<in> set (x # as). fst y \<noteq> t} = set as" using 2(2) by (auto simp: image_iff)
    then show ?thesis using True \<open>as \<noteq> [] \<Longrightarrow> set (last as # butlast as) = set as\<close> by (cases "as = []") simp_all
  qed (use 2 in auto)
qed simp

lemma distinct_removeAttribute: "distinct (map fst as) \<Longrightarrow> distinct (map fst (removeAttribute t as))"
proof (induction t "as" rule: removeAttribute.induct)
  case (2 t x "as")
  have "mset (last as # butlast as) = mset as" if "as \<noteq> []"
    using that by (cases "as" rule: rev_cases) auto
  then have "distinct (map fst (last as # butlast as))" if "as \<noteq> []"
    using that 2(2) by (metis distinct.simps(2) list.simps(9) mset_eq_imp_distinct_iff mset_map)
  with 2 show ?case by (auto simp: mset_removeAttribute)
qed simp

lemma map_of_removeAttribute:
  assumes "distinct (map fst as)" shows "map_of (removeAttribute t as) u = (if u = t then None else map_of as u)"
proof -
  have "map_of (removeAttribute t as) u = Some v \<longleftrightarrow> u \<noteq> t \<and> map_of as u = Some v" for v
    using assms by (auto simp: map_of_eq_Some_iff distinct_removeAttribute mset_removeAttribute)
  then show ?thesis by (metis not_None_eq)
qed

text \<open>Kinds are not repeated, and what an entry holds fits its kind.\<close>

definition attrs_ok :: "attributes \<Rightarrow> bool" where
  "attrs_ok as \<longleftrightarrow> distinct (map fst as) \<and> (\<forall>t v. map_of as t = Some v \<longrightarrow>
     (case v of AInt _ \<Rightarrow> \<not> isAttributeString t | AStr _ s \<Rightarrow> isAttributeString t \<and> s \<noteq> []))"

lemma attrs_ok_Nil [simp]: "attrs_ok []"
  by (simp add: attrs_ok_def)

lemma attrs_ok_entry:
  "attrs_ok as \<Longrightarrow> map_of as t = Some v \<Longrightarrow> isAttributeInteger t \<Longrightarrow> \<exists>n. v = AInt n"
  "attrs_ok as \<Longrightarrow> map_of as t = Some v \<Longrightarrow> isAttributeString t \<Longrightarrow> \<exists>l s. v = AStr l s \<and> s \<noteq> []"
  using integer_not_string by (cases v; fastforce simp: attrs_ok_def)+

lemma attrs_ok_set [simp]:
  "attrs_ok as \<Longrightarrow> attrs_ok (setAttribute_int t n as)"
  "attrs_ok as \<Longrightarrow> attrs_ok (setAttribute_str loc t s as)"
proof -
  assume ok: "attrs_ok as"
  have "attrs_ok (getAttributesByType 0 t (setValue_int n) as)" if int: "isAttributeInteger t"
  proof -
    obtain m where "(case map_of as t of None \<Rightarrow> getDefaultValueForType 0 t | Some v \<Rightarrow> v) = AInt m"
      using attrs_ok_entry(1) [OF ok _ int] int by (cases "map_of as t") (auto simp: default_kind)
    then show ?thesis using ok integer_not_string [OF int]
      by (auto simp: attrs_ok_def map_of_getAttributesByType distinct_getAttributesByType)
  qed
  then show "attrs_ok (setAttribute_int t n as)" using ok by (simp add: setAttribute_int_def)
  have "attrs_ok (getAttributesByType loc t (setValue_str loc s) as)" if str: "isAttributeString t" "s \<noteq> []"
  proof -
    obtain l m where "(case map_of as t of None \<Rightarrow> getDefaultValueForType loc t | Some v \<Rightarrow> v) = AStr l m"
      using attrs_ok_entry(2) [OF ok _ str(1)] str(1) integer_not_string [of t]
      by (cases "map_of as t") (auto simp: default_kind)
    then show ?thesis using ok str
      by (auto simp: attrs_ok_def map_of_getAttributesByType distinct_getAttributesByType)
  qed
  then show "attrs_ok (setAttribute_str loc t s as)" using ok by (simp add: setAttribute_str_def)
qed

lemma attrs_ok_remove [simp]: "attrs_ok as \<Longrightarrow> attrs_ok (removeAttribute t as)"
  by (auto simp: attrs_ok_def distinct_removeAttribute map_of_removeAttribute split: if_splits)

lemma getInteger_set_int [simp]:
  assumes "attrs_ok as" "isAttributeInteger t"
  shows "getInteger u (setAttribute_int t n as) = (if u = t then n else getInteger u as)"
proof -
  obtain m where "(case map_of as t of None \<Rightarrow> getDefaultValueForType 0 t | Some v \<Rightarrow> v) = AInt m"
    using attrs_ok_entry(1) [OF assms(1) _ assms(2)] assms(2) by (cases "map_of as t") (auto simp: default_kind)
  then show ?thesis using assms(2) by (simp add: getInteger_def setAttribute_int_def map_of_getAttributesByType)
qed

lemma getString_set_str [simp]:
  assumes "attrs_ok as" "isAttributeString t"
  shows "getString u (setAttribute_str loc t s as) = (if u = t \<and> s \<noteq> [] then s else getString u as)"
proof -
  obtain l m where "(case map_of as t of None \<Rightarrow> getDefaultValueForType loc t | Some v \<Rightarrow> v) = AStr l m"
    using attrs_ok_entry(2) [OF assms(1) _ assms(2)] assms(2) integer_not_string [of t]
    by (cases "map_of as t") (auto simp: default_kind)
  then show ?thesis using assms(2) by (simp add: getString_def setAttribute_str_def map_of_getAttributesByType)
qed

lemma getInteger_set_str [simp]: "getInteger u (setAttribute_str loc t s as) = getInteger u as"
  using integer_not_string by (auto simp: getInteger_def setAttribute_str_def map_of_getAttributesByType)

lemma getString_set_int [simp]: "getString u (setAttribute_int t n as) = getString u as"
  using integer_not_string by (auto simp: getString_def setAttribute_int_def map_of_getAttributesByType)

lemma get_remove [simp]:
  "attrs_ok as \<Longrightarrow> getInteger u (removeAttribute t as) = (if u = t then 0 else getInteger u as)"
  "attrs_ok as \<Longrightarrow> getString u (removeAttribute t as) = (if u = t then [] else getString u as)"
  by (auto simp: getInteger_def getString_def attrs_ok_def map_of_removeAttribute)

lemma hasAttribute_set [simp]:
  "hasAttribute u (setAttribute_int t n as) \<longleftrightarrow> (u = t \<and> isAttributeInteger t) \<or> hasAttribute u as"
  "hasAttribute u (setAttribute_str loc t s as) \<longleftrightarrow> (u = t \<and> isAttributeString t \<and> s \<noteq> []) \<or> hasAttribute u as"
  "attrs_ok as \<Longrightarrow> hasAttribute u (removeAttribute t as) \<longleftrightarrow> u \<noteq> t \<and> hasAttribute u as"
  by (auto simp: hasAttribute_def setAttribute_int_def setAttribute_str_def keys_getAttributesByType mset_removeAttribute attrs_ok_def)


text \<open>Whether two items can be put on one stack depends on the attributes that both have: a number must be the same number,
  but a text must be the same shared string. Two items with equal texts that were written separately, for instance
  loaded from the database, are never equal, while an attribute only one of them has makes no difference.\<close>

theorem item_equals_compares_addresses:
  assumes "attrs_ok (it_attrs x)" "attrs_ok (it_attrs y)"
  shows "item_equals owner compareOwner x y \<longleftrightarrow> it_id x = it_id y \<and> isStoreItem x = isStoreItem y \<and> owner = compareOwner \<and>
    (\<forall>t n m. t \<noteq> STORE \<and> isAttributeInteger t \<and> map_of (it_attrs x) t = Some (AInt n) \<and> map_of (it_attrs y) t = Some (AInt m) \<longrightarrow> n = m) \<and>
    (\<forall>t l s k r. map_of (it_attrs x) t = Some (AStr l s) \<and> map_of (it_attrs y) t = Some (AStr k r) \<longrightarrow> l = k)"
proof -
  let ?clash = "\<lambda>v w t. isAttributeInteger t \<and> attr_getInteger v \<noteq> attr_getInteger w \<or> isAttributeString t \<and> attr_getString v \<noteq> attr_getString w"
  have d: "distinct (map fst (it_attrs x))" "distinct (map fst (it_attrs y))" using assms by (simp_all add: attrs_ok_def)
  have clash: "attr_clash (it_attrs x) (it_attrs y) \<longleftrightarrow> (\<exists>t v w. t \<noteq> STORE \<and> map_of (it_attrs x) t = Some v \<and> map_of (it_attrs y) t = Some w \<and> ?clash v w t)"
    using d by (force simp: attr_clash_def list_ex_iff)
  have kind: "?clash v w t \<longleftrightarrow> (\<exists>n m. isAttributeInteger t \<and> v = AInt n \<and> w = AInt m \<and> n \<noteq> m) \<or> (\<exists>l s k r. v = AStr l s \<and> w = AStr k r \<and> l \<noteq> k)"
    if "map_of (it_attrs x) t = Some v" "map_of (it_attrs y) t = Some w" for t v w
    using assms that integer_not_string [of t] unfolding attrs_ok_def
    by (cases v; cases w) (fastforce split: attr_value.splits)+
  have "\<not> isAttributeString STORE" by (simp add: isAttributeString_def)
  then have store: "t \<noteq> STORE" if "map_of (it_attrs x) t = Some (AStr l s)" for t l s
    using that assms(1) unfolding attrs_ok_def by (metis attr_value.case(2))
  have "attr_clash (it_attrs x) (it_attrs y) \<longleftrightarrow>
      (\<exists>t n m. t \<noteq> STORE \<and> isAttributeInteger t \<and> map_of (it_attrs x) t = Some (AInt n) \<and> map_of (it_attrs y) t = Some (AInt m) \<and> n \<noteq> m) \<or>
      (\<exists>t l s k r. map_of (it_attrs x) t = Some (AStr l s) \<and> map_of (it_attrs y) t = Some (AStr k r) \<and> l \<noteq> k)" (is "_ \<longleftrightarrow> ?I \<or> ?S")
  proof
    assume "attr_clash (it_attrs x) (it_attrs y)"
    then obtain t v w where t: "t \<noteq> STORE" "map_of (it_attrs x) t = Some v" "map_of (it_attrs y) t = Some w" "?clash v w t"
      unfolding clash by blast
    then show "?I \<or> ?S" using kind [OF t(2,3)] by blast
  next
    assume "?I \<or> ?S"
    then obtain t v w where "t \<noteq> STORE" "map_of (it_attrs x) t = Some v" "map_of (it_attrs y) t = Some w"
        "(\<exists>n m. isAttributeInteger t \<and> v = AInt n \<and> w = AInt m \<and> n \<noteq> m) \<or> (\<exists>l s k r. v = AStr l s \<and> w = AStr k r \<and> l \<noteq> k)"
      using store by blast
    then show "attr_clash (it_attrs x) (it_attrs y)" unfolding clash using kind by blast
  qed
  then show ?thesis unfolding item_equals_def by blast
qed

definition a_book :: "nat \<Rightarrow> item" where
  "a_book l = \<lparr>it_id = 2819, it_count = 1, it_attrs = [(TEXT, AStr l [104, 105])], it_custom = []\<rparr>"

lemma item_equals_compares_addresses_witness: "\<not> item_equals 0 0 (a_book 1) (a_book 2)"
proof -
  have ok: "attrs_ok (it_attrs (a_book l))" for l by (simp add: a_book_def attrs_ok_def isAttributeString_def)
  show ?thesis using item_equals_compares_addresses [OF ok ok, of 0 0 1 2] by (auto simp: a_book_def)
qed

end
