(* ===== verification/ItemSave.thy ===== *)
theory ItemSave
  imports ItemAttr
begin

text \<open>
  Saving and loading items: \<open>Item::serializeAttr\<close>, \<open>readAttr\<close>, \<open>unserializeAttr\<close> of \<open>items/item.cpp\<close>, the
  values of custom attributes (\<open>custom_attribute.cpp\<close>), and the trees of containers of the house files
  (\<open>io/iomapserialize.cpp\<close>).  A saved item is a stream of records, each a tag byte and a value, in a fixed
  order; the reader takes records until the stream ends, a zero tag, or the content of a container.
  The clock, the highest tier of the configuration, the table of item types and the registration of
  unique numbers are arguments.
\<close>

datatype attr_read_value = ATTR_READ_CONTINUE | ATTR_READ_ERROR | ATTR_READ_END

abbreviation ATTR_STORE :: u8 where "ATTR_STORE \<equiv> 1"
abbreviation ATTR_ACTION_ID :: u8 where "ATTR_ACTION_ID \<equiv> 4"
abbreviation ATTR_UNIQUE_ID :: u8 where "ATTR_UNIQUE_ID \<equiv> 5"
abbreviation ATTR_TEXT :: u8 where "ATTR_TEXT \<equiv> 6"
abbreviation ATTR_DESC :: u8 where "ATTR_DESC \<equiv> 7"
abbreviation ATTR_TELE_DEST :: u8 where "ATTR_TELE_DEST \<equiv> 8"
abbreviation ATTR_DEPOT_ID :: u8 where "ATTR_DEPOT_ID \<equiv> 10"
abbreviation ATTR_RUNE_CHARGES :: u8 where "ATTR_RUNE_CHARGES \<equiv> 12"
abbreviation ATTR_HOUSEDOORID :: u8 where "ATTR_HOUSEDOORID \<equiv> 14"
abbreviation ATTR_COUNT :: u8 where "ATTR_COUNT \<equiv> 15"
abbreviation ATTR_DURATION :: u8 where "ATTR_DURATION \<equiv> 16"
abbreviation ATTR_DECAYING_STATE :: u8 where "ATTR_DECAYING_STATE \<equiv> 17"
abbreviation ATTR_WRITTENDATE :: u8 where "ATTR_WRITTENDATE \<equiv> 18"
abbreviation ATTR_WRITTENBY :: u8 where "ATTR_WRITTENBY \<equiv> 19"
abbreviation ATTR_SLEEPERGUID :: u8 where "ATTR_SLEEPERGUID \<equiv> 20"
abbreviation ATTR_SLEEPSTART :: u8 where "ATTR_SLEEPSTART \<equiv> 21"
abbreviation ATTR_CHARGES :: u8 where "ATTR_CHARGES \<equiv> 22"
abbreviation ATTR_CONTAINER_ITEMS :: u8 where "ATTR_CONTAINER_ITEMS \<equiv> 23"
abbreviation ATTR_NAME :: u8 where "ATTR_NAME \<equiv> 24"
abbreviation ATTR_ARTICLE :: u8 where "ATTR_ARTICLE \<equiv> 25"
abbreviation ATTR_PLURALNAME :: u8 where "ATTR_PLURALNAME \<equiv> 26"
abbreviation ATTR_WEIGHT :: u8 where "ATTR_WEIGHT \<equiv> 27"
abbreviation ATTR_ATTACK :: u8 where "ATTR_ATTACK \<equiv> 28"
abbreviation ATTR_DEFENSE :: u8 where "ATTR_DEFENSE \<equiv> 29"
abbreviation ATTR_EXTRADEFENSE :: u8 where "ATTR_EXTRADEFENSE \<equiv> 30"
abbreviation ATTR_ARMOR :: u8 where "ATTR_ARMOR \<equiv> 31"
abbreviation ATTR_HITCHANCE :: u8 where "ATTR_HITCHANCE \<equiv> 32"
abbreviation ATTR_SHOOTRANGE :: u8 where "ATTR_SHOOTRANGE \<equiv> 33"
abbreviation ATTR_SPECIAL :: u8 where "ATTR_SPECIAL \<equiv> 34"
abbreviation ATTR_IMBUEMENT_SLOT :: u8 where "ATTR_IMBUEMENT_SLOT \<equiv> 35"
abbreviation ATTR_OPENCONTAINER :: u8 where "ATTR_OPENCONTAINER \<equiv> 36"
abbreviation ATTR_CUSTOM_ATTRIBUTES :: u8 where "ATTR_CUSTOM_ATTRIBUTES \<equiv> 37"
abbreviation ATTR_QUICKLOOTCONTAINER :: u8 where "ATTR_QUICKLOOTCONTAINER \<equiv> 38"
abbreviation ATTR_AMOUNT :: u8 where "ATTR_AMOUNT \<equiv> 39"
abbreviation ATTR_TIER :: u8 where "ATTR_TIER \<equiv> 40"
abbreviation ATTR_CUSTOM :: u8 where "ATTR_CUSTOM \<equiv> 41"
abbreviation ATTR_STORE_INBOX_CATEGORY :: u8 where "ATTR_STORE_INBOX_CATEGORY \<equiv> 42"
abbreviation ATTR_OWNER :: u8 where "ATTR_OWNER \<equiv> 43"
abbreviation ATTR_OBTAINCONTAINER :: u8 where "ATTR_OBTAINCONTAINER \<equiv> 44"

record save_env =
  se_items :: item_types
  se_now :: u64
  se_timeNow :: u64
  se_maxTier :: u8
  se_unique :: "u16 \<Rightarrow> bool"

subsection \<open>Values of custom attributes\<close>

definition custom_serialize :: "custom_value \<Rightarrow> bytes \<Rightarrow> bytes" where
  "custom_serialize v p = (case v of
     CStr s \<Rightarrow> ps_writeString s (ps_write 1 1 p)
   | CInt n \<Rightarrow> ps_write 8 (unat n) (ps_write 1 2 p)
   | CDouble d \<Rightarrow> ps_write 8 (unat d) (ps_write 1 3 p)
   | CBool b \<Rightarrow> ps_write 1 (if b then 1 else 0) (ps_write 1 4 p))"

definition custom_unserialize :: "bytes \<Rightarrow> (custom_value \<times> bytes) option" where
  "custom_unserialize p = (case ps_read 1 p of None \<Rightarrow> None
     | Some (ty, p) \<Rightarrow>
         if ty = 1 then map_option (\<lambda>(s, p). (CStr s, p)) (ps_readString p)
         else if ty = 2 then map_option (\<lambda>(n, p). (CInt (word_of_nat n), p)) (ps_read 8 p)
         else if ty = 3 then map_option (\<lambda>(n, p). (CDouble (word_of_nat n), p)) (ps_read 8 p)
         else if ty = 4 then map_option (\<lambda>(n, p). (CBool (n \<noteq> 0), p)) (ps_read 1 p)
         else None)"

text \<open>The loop over the custom attributes that were announced; the answer false leaves what was read.\<close>

fun read_custom :: "nat \<Rightarrow> bytes \<Rightarrow> 'a item_scheme \<Rightarrow> bool \<times> bytes \<times> 'a item_scheme" where
  "read_custom 0 p x = (True, p, x)"
| "read_custom (Suc n) p x = (case ps_readString p of None \<Rightarrow> (False, p, x)
     | Some (key, p) \<Rightarrow> (case custom_unserialize p of None \<Rightarrow> (False, p, x)
         | Some (v, p) \<Rightarrow> read_custom n p (x\<lparr>it_custom := addCustomAttribute key v (it_custom x)\<rparr>)))"

text \<open>The deprecated form also marks wrapped items as bought in the store.\<close>

definition unWrapId :: bytes where "unWrapId = [117, 110, 119, 114, 97, 112, 105, 100]"

fun read_custom_old :: "save_env \<Rightarrow> nat \<Rightarrow> bytes \<Rightarrow> 'a item_scheme \<Rightarrow> bool \<times> bytes \<times> 'a item_scheme" where
  "read_custom_old env 0 p x = (True, p, x)"
| "read_custom_old env (Suc n) p x = (case ps_readString p of None \<Rightarrow> (False, p, x)
     | Some (key, p) \<Rightarrow> (case custom_unserialize p of None \<Rightarrow> (False, p, x)
         | Some (v, p) \<Rightarrow> let x = x\<lparr>it_custom := addCustomAttribute key v (it_custom x)\<rparr>;
               x = del_attr CUSTOM x;
               x = (if getCustomAttribute unWrapId (it_custom x) \<noteq> None \<and> get_int STORE x = 0
                    then set_int STORE (se_timeNow env) x else x)
             in read_custom_old env n p x))"


subsection \<open>Reading one record\<close>

definition read_num :: "nat \<Rightarrow> (nat \<Rightarrow> 'a item_scheme \<Rightarrow> 'a item_scheme) \<Rightarrow> bytes \<Rightarrow> 'a item_scheme
    \<Rightarrow> attr_read_value \<times> bytes \<times> 'a item_scheme" where
  "read_num w f p x = (case ps_read w p of None \<Rightarrow> (ATTR_READ_ERROR, p, x) | Some (n, p) \<Rightarrow> (ATTR_READ_CONTINUE, p, f n x))"

definition read_text :: "(bytes \<Rightarrow> 'a item_scheme \<Rightarrow> 'a item_scheme) \<Rightarrow> bytes \<Rightarrow> 'a item_scheme
    \<Rightarrow> attr_read_value \<times> bytes \<times> 'a item_scheme" where
  "read_text f p x = (case ps_readString p of None \<Rightarrow> (ATTR_READ_ERROR, p, x) | Some (s, p) \<Rightarrow> (ATTR_READ_CONTINUE, p, f s x))"

definition read_skip :: "nat \<Rightarrow> bytes \<Rightarrow> 'a item_scheme \<Rightarrow> attr_read_value \<times> bytes \<times> 'a item_scheme" where
  "read_skip n p x = (case ps_skip n p of None \<Rightarrow> (ATTR_READ_ERROR, p, x) | Some p \<Rightarrow> (ATTR_READ_CONTINUE, p, x))"

definition addUniqueId :: "save_env \<Rightarrow> u16 \<Rightarrow> 'a item_scheme \<Rightarrow> 'a item_scheme" where
  "addUniqueId env uniqueId x = (if has_attr UNIQUEID x then x
     else if se_unique env uniqueId then set_int UNIQUEID (ucast uniqueId) x else x)"

text \<open>C's \<open>atoi\<close>: white space, a sign, digits.\<close>

fun atoi_digits :: "int \<Rightarrow> bytes \<Rightarrow> int" where
  "atoi_digits acc [] = acc"
| "atoi_digits acc (b # s) = (if 48 \<le> b \<and> b \<le> 57 then atoi_digits (acc * 10 + (uint b - 48)) s else acc)"

fun c_atoi :: "bytes \<Rightarrow> int" where
  "c_atoi [] = 0"
| "c_atoi (b # s) = (if b = 32 \<or> 9 \<le> b \<and> b \<le> 13 then c_atoi s
     else if b = 45 then - atoi_digits 0 s else if b = 43 then atoi_digits 0 s else atoi_digits 0 (b # s))"

definition HIRELING_LAMP :: u16 where "HIRELING_LAMP = 29432"

definition set_special :: "nat \<Rightarrow> bytes \<Rightarrow> 'a item_scheme \<Rightarrow> 'a item_scheme" where
  "set_special loc special x = (let x = set_str loc SPECIAL special x in
     if it_id x = HIRELING_LAMP
     then let x = del_attr SPECIAL x in
       x\<lparr>it_custom := addCustomAttribute [72, 105, 114, 101, 108, 105, 110, 103] (CInt (word_of_int (c_atoi special))) (it_custom x)\<rparr>
     else x)"

definition signed_attr :: "nat \<Rightarrow> u64" where "signed_attr n = scast (word_of_nat n :: u32)"

definition item_readAttr :: "save_env \<Rightarrow> nat \<Rightarrow> u8 \<Rightarrow> bytes \<Rightarrow> 'a item_scheme \<Rightarrow> attr_read_value \<times> bytes \<times> 'a item_scheme" where
  "item_readAttr env loc attr p x =
    (if attr = ATTR_STORE then read_num 8 (\<lambda>n. set_int STORE (word_of_nat n)) p x
     else if attr = ATTR_COUNT \<or> attr = ATTR_RUNE_CHARGES then read_num 1 (\<lambda>n. setSubType (se_items env) (word_of_nat n)) p x
     else if attr = ATTR_ACTION_ID then read_num 2 (\<lambda>n. set_int ACTIONID (word_of_nat n)) p x
     else if attr = ATTR_UNIQUE_ID then read_num 2 (\<lambda>n. addUniqueId env (word_of_nat n)) p x
     else if attr = ATTR_TEXT then read_text (set_str loc TEXT) p x
     else if attr = ATTR_WRITTENDATE then read_num 8 (\<lambda>n. set_int DATE (word_of_nat n)) p x
     else if attr = ATTR_WRITTENBY then read_text (set_str loc WRITER) p x
     else if attr = ATTR_DESC then read_text (set_str loc DESCRIPTION) p x
     else if attr = ATTR_CHARGES then read_num 2 (\<lambda>n. setSubType (se_items env) (word_of_nat n)) p x
     else if attr = ATTR_DURATION then read_num 4 (\<lambda>n. setDuration (word_of_nat n)) p x
     else if attr = ATTR_DECAYING_STATE then read_num 1 (\<lambda>n. if n \<noteq> 0 then setDecaying DECAYING_PENDING else (\<lambda>x. x)) p x
     else if attr = ATTR_NAME then read_text (set_str loc NAME) p x
     else if attr = ATTR_ARTICLE then read_text (set_str loc ARTICLE) p x
     else if attr = ATTR_PLURALNAME then read_text (set_str loc PLURALNAME) p x
     else if attr = ATTR_WEIGHT then read_num 4 (\<lambda>n. set_int WEIGHT (word_of_nat n)) p x
     else if attr = ATTR_ATTACK then read_num 4 (\<lambda>n. set_int ATTACK (signed_attr n)) p x
     else if attr = ATTR_DEFENSE then read_num 4 (\<lambda>n. set_int DEFENSE (signed_attr n)) p x
     else if attr = ATTR_EXTRADEFENSE then read_num 4 (\<lambda>n. set_int EXTRADEFENSE (signed_attr n)) p x
     else if attr = ATTR_IMBUEMENT_SLOT then read_num 4 (\<lambda>n. set_int IMBUEMENT_SLOT (signed_attr n)) p x
     else if attr = ATTR_OPENCONTAINER then read_num 1 (\<lambda>n. set_int OPENCONTAINER (word_of_nat n)) p x
     else if attr = ATTR_ARMOR then read_num 4 (\<lambda>n. set_int ARMOR (signed_attr n)) p x
     else if attr = ATTR_HITCHANCE then read_num 1 (\<lambda>n. set_int HITCHANCE (scast (word_of_nat n :: u8))) p x
     else if attr = ATTR_SHOOTRANGE then read_num 1 (\<lambda>n. set_int SHOOTRANGE (word_of_nat n)) p x
     else if attr = ATTR_SPECIAL then read_text (set_special loc) p x
     else if attr = ATTR_QUICKLOOTCONTAINER then read_num 4 (\<lambda>n. set_int QUICKLOOTCONTAINER (word_of_nat n)) p x
     else if attr = ATTR_DEPOT_ID then read_skip 2 p x
     else if attr = ATTR_HOUSEDOORID then read_skip 1 p x
     else if attr = ATTR_SLEEPERGUID then read_skip 4 p x
     else if attr = ATTR_SLEEPSTART then read_skip 4 p x
     else if attr = ATTR_TELE_DEST then read_skip 5 p x
     else if attr = ATTR_CONTAINER_ITEMS then (ATTR_READ_ERROR, p, x)
     else if attr = ATTR_CUSTOM_ATTRIBUTES then (case ps_read 8 p of None \<Rightarrow> (ATTR_READ_ERROR, p, x)
         | Some (sz, p) \<Rightarrow> (case read_custom_old env sz p x of (ok, p, x) \<Rightarrow> (if ok then ATTR_READ_CONTINUE else ATTR_READ_ERROR, p, x)))
     else if attr = ATTR_TIER then read_num 1 (\<lambda>n. set_int TIER (word_of_nat n)) p x
     else if attr = ATTR_AMOUNT then read_num 2 (\<lambda>n. set_int AMOUNT (word_of_nat n)) p x
     else if attr = ATTR_CUSTOM then (case ps_read 8 p of None \<Rightarrow> (ATTR_READ_ERROR, p, x)
         | Some (sz, p) \<Rightarrow> (case read_custom sz p x of (ok, p, x) \<Rightarrow> (if ok then ATTR_READ_CONTINUE else ATTR_READ_ERROR, p, x)))
     else if attr = ATTR_STORE_INBOX_CATEGORY then read_text (set_str loc STORE_INBOX_CATEGORY) p x
     else if attr = ATTR_OWNER then read_num 4 (\<lambda>n. set_int OWNER (word_of_nat n)) p x
     else if attr = ATTR_OBTAINCONTAINER then read_num 4 (\<lambda>n. set_int OBTAINCONTAINER (word_of_nat n)) p x
     else (ATTR_READ_ERROR, p, x))"

text \<open>The class \<open>Container\<close> stops at its content; the flag says whether the item is one.\<close>

definition readAttr_virtual :: "save_env \<Rightarrow> bool \<Rightarrow> nat \<Rightarrow> u8 \<Rightarrow> bytes \<Rightarrow> 'a item_scheme
    \<Rightarrow> attr_read_value \<times> bytes \<times> 'a item_scheme \<times> nat" where
  "readAttr_virtual env cont loc attr p x =
    (if cont \<and> attr = ATTR_CONTAINER_ITEMS
     then (case ps_read 4 p of None \<Rightarrow> (ATTR_READ_ERROR, p, x, 0) | Some (serializationCount, p) \<Rightarrow> (ATTR_READ_END, p, x, serializationCount))
     else case item_readAttr env loc attr p x of (r, p, x) \<Rightarrow> (r, p, x, 0))"

lemma ps_read_length: "ps_read w p = Some (n, q) \<Longrightarrow> length q \<le> length p"
  by (auto simp: ps_read_def split: if_splits)

lemma ps_readString_length: "ps_readString p = Some (s, q) \<Longrightarrow> length q \<le> length p"
  by (auto simp: ps_readString_def ps_read_def split: option.splits if_splits)

lemma custom_unserialize_length: "custom_unserialize p = Some (v, q) \<Longrightarrow> length q \<le> length p"
  by (auto simp: custom_unserialize_def split: option.splits if_splits dest!: ps_read_length ps_readString_length)

lemma read_custom_length: "read_custom n p x = (ok, q, y) \<Longrightarrow> length q \<le> length p"
proof (induction n arbitrary: p x)
  case (Suc n)
  then show ?case
    by (fastforce split: option.splits prod.splits dest: ps_readString_length custom_unserialize_length)
qed simp

lemma read_custom_old_length: "read_custom_old env n p x = (ok, q, y) \<Longrightarrow> length q \<le> length p"
proof (induction n arbitrary: p x)
  case (Suc n)
  then show ?case
    by (fastforce simp: Let_def split: option.splits prod.splits dest: ps_readString_length custom_unserialize_length)
qed simp

lemma read_num_length: "length (fst (snd (read_num w f p x))) \<le> length p"
  by (auto simp: read_num_def split: option.splits dest: ps_read_length)

lemma read_text_length: "length (fst (snd (read_text f p x))) \<le> length p"
  by (auto simp: read_text_def split: option.splits dest: ps_readString_length)

lemma read_skip_length: "length (fst (snd (read_skip n p x))) \<le> length p"
  by (auto simp: read_skip_def ps_skip_def split: option.splits)


lemma readAttr_length: "length (fst (snd (item_readAttr env loc attr p x))) \<le> length p"
proof -
  have old: "length (fst (snd (case ps_read 8 p of None \<Rightarrow> (ATTR_READ_ERROR, p, x) | Some (sz, p) \<Rightarrow> (case f sz p x of (ok, p, x) \<Rightarrow>
      (if ok then ATTR_READ_CONTINUE else ATTR_READ_ERROR, p, x))))) \<le> length p"
    if "\<And>n p x ok q y. f n p x = (ok, q, y) \<Longrightarrow> length q \<le> length p" for f :: "nat \<Rightarrow> bytes \<Rightarrow> 'a item_scheme \<Rightarrow> bool \<times> bytes \<times> 'a item_scheme"
    using that by (fastforce split: option.splits prod.splits dest: ps_read_length)
  have if_le: "length (fst (snd (if c then r else s))) \<le> length p"
    if "length (fst (snd r)) \<le> length p" "length (fst (snd s)) \<le> length p"
    for c and r s :: "attr_read_value \<times> bytes \<times> 'a item_scheme" using that by simp
  show ?thesis
    unfolding item_readAttr_def
    by (intro if_le read_num_length read_text_length read_skip_length old [OF read_custom_length] old [OF read_custom_old_length]) simp_all
qed

lemma readAttr_virtual_length: "length (fst (snd (readAttr_virtual env cont loc attr p x))) \<le> length p"
  using readAttr_length [of env loc attr p x]
  by (auto simp: readAttr_virtual_def split: option.splits prod.splits dest: ps_read_length)


subsection \<open>Reading and writing an item\<close>

text \<open>A string that is read is put at the address \<open>base\<close> plus what is left of the stream: never twice the same.\<close>

function unserializeAttr :: "save_env \<Rightarrow> bool \<Rightarrow> nat \<Rightarrow> bytes \<Rightarrow> 'a item_scheme \<Rightarrow> bool \<times> bytes \<times> 'a item_scheme \<times> nat" where
  "unserializeAttr env cont base p x = (case p of [] \<Rightarrow> (True, p, x, 0)
     | attr_type # p \<Rightarrow> if attr_type = 0 then (True, p, x, 0)
         else (case readAttr_virtual env cont (base + length p) attr_type p x of (r, p, x, serializationCount) \<Rightarrow>
           (case r of ATTR_READ_ERROR \<Rightarrow> (False, p, x, 0)
            | ATTR_READ_END \<Rightarrow> (True, p, x, serializationCount)
            | ATTR_READ_CONTINUE \<Rightarrow> unserializeAttr env cont base p x)))"
  by pat_completeness auto
termination
proof (relation "measure (\<lambda>(env, cont, base, p, x). length p)")
  show "((env, cont, base, q, y), env, cont, base, p, x) \<in> measure (\<lambda>(env, cont, base, p, x). length p)"
    if "p = t # p'" "(r, z) = readAttr_virtual env cont (base + length p') t p' x" "(q, z') = z" "(y, c) = z'"
    for env cont base p q t p' r z z' c and x y :: "'a item_scheme"
    using readAttr_virtual_length [of env cont "base + length p'" t p' x] that by (cases z) (auto simp flip: that(2))
qed simp

declare unserializeAttr.simps [simp del]

text \<open>A record that is written under a condition.\<close>

definition put_num :: "bool \<Rightarrow> u8 \<Rightarrow> nat \<Rightarrow> nat \<Rightarrow> bytes \<Rightarrow> bytes" where
  "put_num c tag w n p = (if c then ps_write w n (ps_write 1 (unat tag) p) else p)"

definition put_text :: "bool \<Rightarrow> u8 \<Rightarrow> bytes \<Rightarrow> bytes \<Rightarrow> bytes" where
  "put_text c tag s p = (if c then ps_writeString s (ps_write 1 (unat tag) p) else p)"

definition put_custom :: "custom_map \<Rightarrow> bytes \<Rightarrow> bytes" where
  "put_custom m p = (if m \<noteq> []
     then fold (\<lambda>(key, v) p. custom_serialize v (ps_writeString key p)) m (ps_write 8 (length m) (ps_write 1 (unat ATTR_CUSTOM) p))
     else p)"

definition serializeAttr :: "save_env \<Rightarrow> 'a item_scheme \<Rightarrow> bytes \<Rightarrow> bytes" where
  "serializeAttr env x p = (let it = se_items env (it_id x);
     p = put_num (get_int STORE x \<noteq> 0) ATTR_STORE 8 (unat (get_int STORE x)) p;
     p = put_num (ity_stackable it \<or> ity_fluidContainer it \<or> ity_splash it) ATTR_COUNT 1 (unat (ucast (getSubType (se_items env) x) :: u8)) p;
     p = put_num (attr_u16 CHARGES x \<noteq> 0) ATTR_CHARGES 2 (unat (attr_u16 CHARGES x)) p;
     p = put_num (ity_movable it \<and> attr_u16 ACTIONID x \<noteq> 0) ATTR_ACTION_ID 2 (unat (attr_u16 ACTIONID x)) p;
     p = put_text (get_str TEXT x \<noteq> []) ATTR_TEXT (get_str TEXT x) p;
     p = put_num (get_int DATE x \<noteq> 0) ATTR_WRITTENDATE 8 (unat (get_int DATE x)) p;
     p = put_text (get_str WRITER x \<noteq> []) ATTR_WRITTENBY (get_str WRITER x) p;
     p = put_text (get_str DESCRIPTION x \<noteq> []) ATTR_DESC (get_str DESCRIPTION x) p;
     p = put_num (has_attr DURATION x) ATTR_DURATION 4 (unat (getDuration (se_now env) x)) p;
     p = put_num (getDecaying x = DECAYING_TRUE \<or> getDecaying x = DECAYING_PENDING) ATTR_DECAYING_STATE 1
           (unat (byte_of_decay (getDecaying x))) p;
     p = put_text (has_attr NAME x) ATTR_NAME (get_str NAME x) p;
     p = put_text (has_attr ARTICLE x) ATTR_ARTICLE (get_str ARTICLE x) p;
     p = put_text (has_attr PLURALNAME x) ATTR_PLURALNAME (get_str PLURALNAME x) p;
     p = put_num (has_attr WEIGHT x) ATTR_WEIGHT 4 (unat (attr_u32 WEIGHT x)) p;
     p = put_num (has_attr ATTACK x) ATTR_ATTACK 4 (unat (attr_u32 ATTACK x)) p;
     p = put_num (has_attr DEFENSE x) ATTR_DEFENSE 4 (unat (attr_u32 DEFENSE x)) p;
     p = put_num (has_attr EXTRADEFENSE x) ATTR_EXTRADEFENSE 4 (unat (attr_u32 EXTRADEFENSE x)) p;
     p = put_num (has_attr IMBUEMENT_SLOT x) ATTR_IMBUEMENT_SLOT 4 (unat (attr_u32 IMBUEMENT_SLOT x)) p;
     p = put_num (has_attr OPENCONTAINER x) ATTR_OPENCONTAINER 1 (unat (attr_u8 OPENCONTAINER x)) p;
     p = put_num (has_attr ARMOR x) ATTR_ARMOR 4 (unat (attr_u32 ARMOR x)) p;
     p = put_num (has_attr HITCHANCE x) ATTR_HITCHANCE 1 (unat (attr_u8 HITCHANCE x)) p;
     p = put_num (has_attr SHOOTRANGE x) ATTR_SHOOTRANGE 1 (unat (attr_u8 SHOOTRANGE x)) p;
     p = put_text (has_attr SPECIAL x) ATTR_SPECIAL (get_str SPECIAL x) p;
     p = put_num (has_attr QUICKLOOTCONTAINER x) ATTR_QUICKLOOTCONTAINER 4 (unat (attr_u32 QUICKLOOTCONTAINER x)) p;
     p = put_num (has_attr TIER x) ATTR_TIER 1 (unat (getTier (se_maxTier env) x)) p;
     p = put_num (has_attr AMOUNT x) ATTR_AMOUNT 2 (unat (attr_u16 AMOUNT x)) p;
     p = put_text (has_attr STORE_INBOX_CATEGORY x) ATTR_STORE_INBOX_CATEGORY (get_str STORE_INBOX_CATEGORY x) p;
     p = put_num (has_attr OWNER x) ATTR_OWNER 4 (unat (attr_u32 OWNER x)) p;
     p = put_custom (it_custom x) p
   in put_num (has_attr OBTAINCONTAINER x) ATTR_OBTAINCONTAINER 4 (unat (attr_u32 OBTAINCONTAINER x)) p)"


subsection \<open>What a record does to an item\<close>

text \<open>The visible part of an item: its count, its attributes by kind, its custom attributes.\<close>

record item_view =
  iv_count :: u8
  iv_custom :: custom_map
  iv_int :: "item_attribute \<Rightarrow> u64"
  iv_str :: "item_attribute \<Rightarrow> bytes"
  iv_has :: "item_attribute \<Rightarrow> bool"

definition view :: "'a item_scheme \<Rightarrow> item_view" where
  "view x = \<lparr>iv_count = it_count x, iv_custom = it_custom x, iv_int = (\<lambda>t. get_int t x), iv_str = (\<lambda>t. get_str t x),
     iv_has = (\<lambda>t. has_attr t x)\<rparr>"

definition v_int :: "bool \<Rightarrow> item_attribute \<Rightarrow> u64 \<Rightarrow> item_view \<Rightarrow> item_view" where
  "v_int c t n v = (if c then v\<lparr>iv_int := (iv_int v)(t := n), iv_has := (iv_has v)(t := True)\<rparr> else v)"

definition v_str :: "bool \<Rightarrow> item_attribute \<Rightarrow> bytes \<Rightarrow> item_view \<Rightarrow> item_view" where
  "v_str c t s v = (if c \<and> s \<noteq> [] then v\<lparr>iv_str := (iv_str v)(t := s), iv_has := (iv_has v)(t := True)\<rparr> else v)"

definition v_count :: "bool \<Rightarrow> u8 \<Rightarrow> item_view \<Rightarrow> item_view" where
  "v_count c n v = (if c then v\<lparr>iv_count := n\<rparr> else v)"

definition v_custom :: "custom_map \<Rightarrow> item_view \<Rightarrow> item_view" where
  "v_custom m v = v\<lparr>iv_custom := fold (\<lambda>(k, c) m. addCustomAttribute k c m) m (iv_custom v)\<rparr>"

lemma view_sel [simp]:
  "iv_count (view x) = it_count x" "iv_custom (view x) = it_custom x" "iv_int (view x) t = get_int t x"
  "iv_str (view x) t = get_str t x" "iv_has (view x) t = has_attr t x"
  by (simp_all add: view_def)

lemma v_sel [simp]:
  "iv_int (v_int c t n v) u = (if c \<and> u = t then n else iv_int v u)" "iv_int (v_str c t s v) u = iv_int v u"
  "iv_int (v_count c m v) u = iv_int v u" "iv_int (v_custom cs v) u = iv_int v u"
  "iv_str (v_int c t n v) u = iv_str v u" "iv_str (v_str c t s v) u = (if c \<and> s \<noteq> [] \<and> u = t then s else iv_str v u)"
  "iv_str (v_count c m v) u = iv_str v u" "iv_str (v_custom cs v) u = iv_str v u"
  "iv_has (v_int c t n v) u = (c \<and> u = t \<or> iv_has v u)" "iv_has (v_str c t s v) u = (c \<and> s \<noteq> [] \<and> u = t \<or> iv_has v u)"
  "iv_has (v_count c m v) u = iv_has v u" "iv_has (v_custom cs v) u = iv_has v u"
  "iv_count (v_int c t n v) = iv_count v" "iv_count (v_str c t s v) = iv_count v"
  "iv_count (v_count c m v) = (if c then m else iv_count v)" "iv_count (v_custom cs v) = iv_count v"
  "iv_custom (v_int c t n v) = iv_custom v" "iv_custom (v_str c t s v) = iv_custom v"
  "iv_custom (v_count c m v) = iv_custom v"
  by (auto simp: v_int_def v_str_def v_count_def v_custom_def)

lemma v_False [simp]:
  "v_int False t n = (\<lambda>v. v)" "v_str False t s = (\<lambda>v. v)" "v_count False m = (\<lambda>v. v)"
  by (simp_all add: fun_eq_iff v_int_def v_str_def v_count_def)

lemma view_set_int: "attrs_ok (it_attrs x) \<Longrightarrow> isAttributeInteger t \<Longrightarrow> view (set_int t n x) = v_int True t n (view x)"
  by (auto simp: view_def v_int_def set_int_def get_int_def get_str_def has_attr_def fun_eq_iff)

lemma view_set_str: "attrs_ok (it_attrs x) \<Longrightarrow> isAttributeString t \<Longrightarrow> view (set_str loc t s x) = v_str True t s (view x)"
  by (auto simp: view_def v_str_def set_str_def get_int_def get_str_def has_attr_def fun_eq_iff)

text \<open>
  Read at any place of a stream, on an ordered item of the kind \<open>i\<close>, the bytes of a record change the view as stated.
\<close>

definition item_ok :: "u16 \<Rightarrow> 'a item_scheme \<Rightarrow> bool" where
  "item_ok i x \<longleftrightarrow> attrs_ok (it_attrs x) \<and> it_id x = i"

definition reads :: "save_env \<Rightarrow> u16 \<Rightarrow> bytes \<Rightarrow> (item_view \<Rightarrow> item_view) \<Rightarrow> 'a itself \<Rightarrow> bool" where
  "reads env i block V _ \<longleftrightarrow> (\<forall>cont base rest (y :: 'a item_scheme). item_ok i y \<longrightarrow> (\<exists>z. item_ok i z \<and> view z = V (view y) \<and>
     item.more z = item.more y \<and> unserializeAttr env cont base (block @ rest) y = unserializeAttr env cont base rest z))"

lemma reads_append:
  assumes "reads env i a V TYPE('a)" "reads env i b W TYPE('a)" shows "reads env i (a @ b) (W \<circ> V) TYPE('a)"
  unfolding reads_def
proof (intro allI impI)
  fix cont base rest and y :: "'a item_scheme"
  assume "item_ok i y"
  then obtain y' where 1: "item_ok i y'" "view y' = V (view y)" "item.more y' = item.more y"
      "unserializeAttr env cont base (a @ b @ rest) y = unserializeAttr env cont base (b @ rest) y'"
    using assms(1) unfolding reads_def by blast
  then obtain z where "item_ok i z" "view z = W (view y')" "item.more z = item.more y'"
      "unserializeAttr env cont base (b @ rest) y' = unserializeAttr env cont base rest z"
    using assms(2) unfolding reads_def by blast
  then show "\<exists>z. item_ok i z \<and> view z = (W \<circ> V) (view y) \<and> item.more z = item.more y \<and>
      unserializeAttr env cont base ((a @ b) @ rest) y = unserializeAttr env cont base rest z"
    using 1 by (intro exI [of _ z]) simp
qed

lemma unserializeAttr_step:
  assumes "tag \<noteq> 0" "tag \<noteq> ATTR_CONTAINER_ITEMS"
    and "item_readAttr env (base + length (val @ rest)) tag (val @ rest) y = (ATTR_READ_CONTINUE, rest, z)"
  shows "unserializeAttr env cont base ((tag # val) @ rest) y = unserializeAttr env cont base rest z"
  using assms by (subst unserializeAttr.simps) (simp add: readAttr_virtual_def)

lemma put_num_append: "put_num c tag w n p = p @ put_num c tag w n []"
  by (simp add: put_num_def ps_write_def)

lemma put_text_append: "put_text c tag s p = p @ put_text c tag s []"
  by (simp add: put_text_def ps_writeString_def ps_write_def)

lemma custom_fold_append:
  "fold (\<lambda>(key, v) p. custom_serialize v (ps_writeString key p)) m p =
     p @ fold (\<lambda>(key, v) p. custom_serialize v (ps_writeString key p)) m []"
proof (induction m arbitrary: p)
  case (Cons kv m)
  obtain k v where kv: "kv = (k, v)" by (cases kv)
  have one: "custom_serialize v (ps_writeString k p) = p @ custom_serialize v (ps_writeString k [])" for p
    by (simp add: custom_serialize_def ps_writeString_def ps_write_def split: custom_value.split)
  show ?case
    using Cons.IH [of "custom_serialize v (ps_writeString k p)"] Cons.IH [of "custom_serialize v (ps_writeString k [])"]
    by (simp add: kv one [of p])
qed simp

lemma put_custom_append: "put_custom m p = p @ put_custom m []"
  using custom_fold_append [of m "ps_write 8 (length m) (ps_write 1 (unat ATTR_CUSTOM) p)"]
    custom_fold_append [of m "ps_write 8 (length m) (ps_write 1 (unat ATTR_CUSTOM) [])"]
  by (simp add: put_custom_def ps_write_def)


lemma item_ok_set [simp]:
  "item_ok i x \<Longrightarrow> item_ok i (set_int t n x)" "item_ok i x \<Longrightarrow> item_ok i (set_str loc t s x)"
  "item_ok i x \<Longrightarrow> item_ok i (del_attr t x)" "item_ok i x \<Longrightarrow> item_ok i (x\<lparr>it_count := m\<rparr>)"
  by (simp_all add: item_ok_def set_int_def set_str_def del_attr_def)

lemma more_set [simp]:
  "item.more (set_int t n x) = item.more x" "item.more (set_str loc t s x) = item.more x" "item.more (del_attr t x) = item.more x"
  by (simp_all add: set_int_def set_str_def del_attr_def)

lemma readsI:
  assumes "tag \<noteq> 0" "tag \<noteq> ATTR_CONTAINER_ITEMS"
    and "\<And>loc rest y. item_ok i y \<Longrightarrow> \<exists>z. item_readAttr env loc tag (val @ rest) y = (ATTR_READ_CONTINUE, rest, z) \<and>
      item_ok i z \<and> view z = V (view y) \<and> item.more z = item.more (y :: 'a item_scheme)"
  shows "reads env i (tag # val) V TYPE('a)"
  unfolding reads_def
proof (intro allI impI)
  fix cont base rest and y :: "'a item_scheme"
  assume "item_ok i y"
  then obtain z where z: "item_readAttr env (base + length (val @ rest)) tag (val @ rest) y = (ATTR_READ_CONTINUE, rest, z)"
      "item_ok i z" "view z = V (view y)" "item.more z = item.more y" using assms(3) by blast
  have "unserializeAttr env cont base ((tag # val) @ rest) y = unserializeAttr env cont base rest z"
    by (rule unserializeAttr_step [OF assms(1,2) z(1)])
  then show "\<exists>z. item_ok i z \<and> view z = V (view y) \<and> item.more z = item.more y \<and>
      unserializeAttr env cont base ((tag # val) @ rest) y = unserializeAttr env cont base rest z"
    using z(2-4) by blast
qed

lemma reads_nothing: "reads env i [] (\<lambda>v. v) TYPE('a)"
  unfolding reads_def by auto

lemma nat_to_le_1: "nat_to_le (Suc 0) (unat (b :: u8)) = [b]"
  by simp

lemma ps_read_nat: "n < 256 ^ w \<Longrightarrow> ps_read w (nat_to_le w n @ p) = Some (n, p)"
  by simp

text \<open>A number under a kind of its own.\<close>

lemma reads_num:
  assumes tag: "tag \<noteq> 0" "tag \<noteq> ATTR_CONTAINER_ITEMS" and t: "isAttributeInteger t"
    and rd: "\<And>loc p y. item_readAttr env loc tag p (y :: 'a item_scheme) = read_num w (\<lambda>n. set_int t (f n)) p y"
    and n: "n < 256 ^ w"
  shows "reads env i (put_num c tag w n []) (v_int c t (f n)) TYPE('a)"
proof (cases c)
  case True
  have b: "put_num c tag w n [] = tag # nat_to_le w n" using True by (simp add: put_num_def ps_write_def nat_to_le_1)
  show ?thesis unfolding b
  proof (rule readsI [OF tag], intro exI conjI)
    fix loc rest and y :: "'a item_scheme" assume y: "item_ok i y"
    show "item_readAttr env loc tag (nat_to_le w n @ rest) y = (ATTR_READ_CONTINUE, rest, set_int t (f n) y)"
      by (simp add: rd read_num_def ps_read_nat [OF n] del: ps_read_append)
    show "view (set_int t (f n) y) = v_int c t (f n) (view y)" using y t True by (simp add: item_ok_def view_set_int)
  qed simp_all
next
  case False
  then show ?thesis by (simp add: put_num_def reads_nothing)
qed

lemma ps_writeString_short: "length s \<le> 65535 \<Longrightarrow> ps_writeString s p = p @ nat_to_le 2 (length s) @ s"
  by (simp add: ps_writeString_def ps_write_def)

lemma reads_text:
  assumes tag: "tag \<noteq> 0" "tag \<noteq> ATTR_CONTAINER_ITEMS" and t: "isAttributeString t"
    and rd: "\<And>loc p y. it_id y = i \<Longrightarrow> item_readAttr env loc tag p (y :: 'a item_scheme) = read_text (set_str loc t) p y"
    and s: "length s \<le> 65535"
  shows "reads env i (put_text c tag s []) (v_str c t s) TYPE('a)"
proof (cases c)
  case True
  have b: "put_text c tag s [] = tag # nat_to_le 2 (length s) @ s"
    using True s by (simp add: put_text_def ps_writeString_short ps_write_def nat_to_le_1)
  show ?thesis unfolding b
  proof (rule readsI [OF tag], intro exI conjI)
    fix loc rest and y :: "'a item_scheme" assume y: "item_ok i y"
    show "item_readAttr env loc tag ((nat_to_le 2 (length s) @ s) @ rest) y = (ATTR_READ_CONTINUE, rest, set_str loc t s y)"
      using y by (simp add: rd item_ok_def read_text_def ps_readString_append s del: nat_to_le.simps)
    show "view (set_str loc t s y) = v_str c t s (view y)" using y t True by (simp add: item_ok_def view_set_str)
  qed simp_all
next
  case False
  then show ?thesis by (simp add: put_text_def reads_nothing)
qed


lemma reads_count:
  assumes ty: "ity_stackable (se_items env i) \<or> ity_fluidContainer (se_items env i) \<or> ity_splash (se_items env i)"
  shows "reads env i (put_num True ATTR_COUNT 1 (unat (n :: u8)) [])
    (if ity_fluidContainer (se_items env i) \<or> ity_splash (se_items env i) then v_int True FLUIDTYPE (ucast n) else v_count True n) TYPE('a)"
proof -
  have b: "put_num True ATTR_COUNT 1 (unat n) [] = ATTR_COUNT # [n]" by (simp add: put_num_def ps_write_def)
  show ?thesis unfolding b
  proof (rule readsI, simp, simp)
    fix loc rest and y :: "'a item_scheme" assume y: "item_ok i y"
    have r: "ps_read (Suc 0) ([n] @ rest) = Some (unat n, rest)" by (simp add: ps_read_def)
    have w: "ucast (word_of_nat (unat n) :: u16) = n" "ucast (word_of_nat (unat n) :: u16) = (ucast n :: u64)"
      by (transfer; simp add: take_bit_take_bit)+
    have id: "it_id y = i" using y by (simp add: item_ok_def)
    let ?z = "setSubType (se_items env) (word_of_nat (unat n)) y"
    have "view ?z = (if ity_fluidContainer (se_items env i) \<or> ity_splash (se_items env i) then v_int True FLUIDTYPE (ucast n)
        else v_count True n) (view y)"
      using y ty w by (auto simp: setSubType_def Let_def id view_set_int item_ok_def isAttributeInteger_def)
         (auto simp: view_def v_count_def get_int_def get_str_def has_attr_def)
    moreover have "item_ok i ?z \<and> item.more ?z = item.more y" using y by (simp add: setSubType_def Let_def)
    moreover have "item_readAttr env loc ATTR_COUNT ([n] @ rest) y = (ATTR_READ_CONTINUE, rest, ?z)"
      using r by (simp add: item_readAttr_def read_num_def)
    ultimately show "\<exists>z. item_readAttr env loc ATTR_COUNT ([n] @ rest) y = (ATTR_READ_CONTINUE, rest, z) \<and> item_ok i z \<and>
        view z = (if ity_fluidContainer (se_items env i) \<or> ity_splash (se_items env i) then v_int True FLUIDTYPE (ucast n)
        else v_count True n) (view y) \<and> item.more z = item.more y" by blast
  qed
qed

text \<open>Charges are read into the sub-type, which is their own attribute for the kinds that have charges.\<close>

lemma reads_charges:
  assumes "c \<Longrightarrow> \<not> ity_stackable (se_items env i) \<and> \<not> ity_fluidContainer (se_items env i) \<and> \<not> ity_splash (se_items env i) \<and>
      ity_charges (se_items env i) \<noteq> 0"
  shows "reads env i (put_num c ATTR_CHARGES 2 (unat (n :: u16)) []) (v_int c CHARGES (ucast n)) TYPE('a)"
proof (cases c)
  case True
  have b: "put_num c ATTR_CHARGES 2 (unat n) [] = ATTR_CHARGES # nat_to_le 2 (unat n)"
    using True by (simp add: put_num_def ps_write_def)
  show ?thesis unfolding b
  proof (rule readsI, simp, simp, intro exI conjI)
    fix loc rest and y :: "'a item_scheme" assume y: "item_ok i y"
    let ?z = "set_int CHARGES (ucast n) y"
    have r: "ps_read 2 (nat_to_le 2 (unat n) @ rest) = Some (unat n, rest)"
      by (rule ps_read_nat) (use unat_u16_less [of n] in simp)
    show "item_readAttr env loc ATTR_CHARGES (nat_to_le 2 (unat n) @ rest) y = (ATTR_READ_CONTINUE, rest, ?z)"
      using assms [OF True] y r by (simp add: item_readAttr_def read_num_def setSubType_def item_ok_def del: ps_read_append)
    show "view ?z = v_int c CHARGES (ucast n) (view y)" using y True by (simp add: item_ok_def view_set_int isAttributeInteger_def)
    show "item_ok i ?z" "item.more ?z = item.more y" using y by simp_all
  qed
qed (simp add: put_num_def reads_nothing)

lemma reads_duration:
  "reads env i (put_num c ATTR_DURATION 4 (unat (d :: u32)) []) (v_int c DURATION (scast (if d <s 0 then 0 else d))) TYPE('a)"
proof -
  have w: "word_of_nat (unat d) = d" by simp
  show ?thesis
  proof (cases c)
    case True
    have b: "put_num c ATTR_DURATION 4 (unat d) [] = ATTR_DURATION # nat_to_le 4 (unat d)"
      using True by (simp add: put_num_def ps_write_def)
    show ?thesis unfolding b
    proof (rule readsI, simp, simp, intro exI conjI)
      fix loc rest and y :: "'a item_scheme" assume y: "item_ok i y"
      have r: "ps_read 4 (nat_to_le 4 (unat d) @ rest) = Some (unat d, rest)"
        by (rule ps_read_nat) (use unat_u32_less [of d] in simp)
      show "item_readAttr env loc ATTR_DURATION (nat_to_le 4 (unat d) @ rest) y = (ATTR_READ_CONTINUE, rest, setDuration d y)"
        using r by (simp add: item_readAttr_def read_num_def del: ps_read_append)
      show "view (setDuration d y) = v_int c DURATION (scast (if d <s 0 then 0 else d)) (view y)"
        using y True by (simp add: setDuration_def item_ok_def view_set_int isAttributeInteger_def)
      show "item_ok i (setDuration d y)" "item.more (setDuration d y) = item.more y" using y by (simp_all add: setDuration_def)
    qed
  qed (simp add: put_num_def reads_nothing)
qed

lemma reads_decaying:
  assumes "c \<Longrightarrow> n \<noteq> 0"
  shows "reads env i (put_num c ATTR_DECAYING_STATE 1 (unat (n :: u8)) []) (v_int c DECAYSTATE 2) TYPE('a)"
proof (cases c)
  case True
  have b: "put_num c ATTR_DECAYING_STATE 1 (unat n) [] = ATTR_DECAYING_STATE # [n]" using True by (simp add: put_num_def ps_write_def)
  show ?thesis unfolding b
  proof (rule readsI, simp, simp, intro exI conjI)
    fix loc rest and y :: "'a item_scheme" assume y: "item_ok i y"
    have "unat n \<noteq> 0" using assms [OF True] by (simp add: unat_eq_0)
    then show "item_readAttr env loc ATTR_DECAYING_STATE ([n] @ rest) y = (ATTR_READ_CONTINUE, rest, setDecaying DECAYING_PENDING y)"
      by (simp add: item_readAttr_def read_num_def ps_read_def)
    show "view (setDecaying DECAYING_PENDING y) = v_int c DECAYSTATE 2 (view y)"
      using y True by (simp add: setDecaying_def item_ok_def view_set_int isAttributeInteger_def)
    show "item_ok i (setDecaying DECAYING_PENDING y)" "item.more (setDecaying DECAYING_PENDING y) = item.more y"
      using y by (simp_all add: setDecaying_def)
  qed
qed (simp add: put_num_def reads_nothing)


lemma reads_special:
  assumes "i \<noteq> HIRELING_LAMP" "length s \<le> 65535"
  shows "reads env i (put_text c ATTR_SPECIAL s []) (v_str c SPECIAL s) TYPE('a)"
proof (rule reads_text)
  show "item_readAttr env loc ATTR_SPECIAL p y = read_text (set_str loc SPECIAL) p y" if "it_id y = i" for loc p and y :: "'a item_scheme"
  proof -
    have "set_special loc s y = set_str loc SPECIAL s y" for s
      using assms(1) that by (simp add: set_special_def set_str_def)
    then show ?thesis by (simp add: item_readAttr_def read_text_def split: option.splits prod.splits)
  qed
qed (use assms in \<open>simp_all add: isAttributeString_def\<close>)

definition custom_short :: "custom_value \<Rightarrow> bool" where
  "custom_short v \<longleftrightarrow> (case v of CStr s \<Rightarrow> length s \<le> 65535 | _ \<Rightarrow> True)"

lemma custom_roundtrip: "custom_short v \<Longrightarrow> custom_unserialize (custom_serialize v [] @ p) = Some (v, p)"
proof (cases v)
  case (CInt n)
  have "unat n < 256 ^ 8" using unsigned_less [of n] by simp
  then show ?thesis by (simp add: CInt custom_unserialize_def custom_serialize_def ps_write_def del: nat_to_le.simps)
next
  case (CDouble n)
  have "unat n < 256 ^ 8" using unsigned_less [of n] by simp
  then show ?thesis by (simp add: CDouble custom_unserialize_def custom_serialize_def ps_write_def del: nat_to_le.simps)
next
  case (CStr s)
  assume "custom_short v"
  then have "length s \<le> 65535" by (simp add: CStr custom_short_def)
  then show ?thesis
    by (simp add: CStr custom_unserialize_def custom_serialize_def ps_write_def ps_writeString_short ps_readString_append del: nat_to_le.simps)
qed (simp add: custom_unserialize_def custom_serialize_def ps_write_def del: nat_to_le.simps)

lemma custom_serialize_append: "custom_serialize v p = p @ custom_serialize v []"
  by (simp add: custom_serialize_def ps_writeString_def ps_write_def split: custom_value.split)

lemma read_custom_fold:
  assumes "\<forall>(k, v)\<in>set m. length k \<le> 65535 \<and> custom_short v"
  shows "read_custom (length m) (fold (\<lambda>(key, v) p. custom_serialize v (ps_writeString key p)) m [] @ rest) y =
    (True, rest, y\<lparr>it_custom := fold (\<lambda>(k, c) m. addCustomAttribute k c m) m (it_custom y)\<rparr>)"
  using assms
proof (induction m arbitrary: y)
  case (Cons kv m)
  obtain k v where kv: "kv = (k, v)" by (cases kv)
  have kv_ok: "length k \<le> 65535" "custom_short v" using Cons.prems by (auto simp: kv)
  let ?rest = "fold (\<lambda>(key, v) p. custom_serialize v (ps_writeString key p)) m [] @ rest"
  have "fold (\<lambda>(key, v) p. custom_serialize v (ps_writeString key p)) (kv # m) [] @ rest =
      nat_to_le 2 (length k) @ k @ custom_serialize v [] @ ?rest"
    using custom_fold_append [of m "custom_serialize v (ps_writeString k [])"] kv_ok
    by (simp add: kv custom_serialize_append [of v "nat_to_le 2 (length k) @ k"] ps_writeString_short del: nat_to_le.simps)
  moreover have "ps_readString (nat_to_le 2 (length k) @ k @ custom_serialize v [] @ ?rest) = Some (k, custom_serialize v [] @ ?rest)"
    using kv_ok(1) by (rule ps_readString_append)
  ultimately show ?case using Cons kv_ok by (simp add: kv custom_roundtrip del: nat_to_le.simps)
qed simp

lemma reads_custom:
  assumes "\<forall>(k, v)\<in>set m. length k \<le> 65535 \<and> custom_short v" "length m < 2 ^ 64"
  shows "reads env i (put_custom m []) (v_custom m) TYPE('a)"
proof (cases "m = []")
  case False
  let ?val = "nat_to_le 8 (length m) @ fold (\<lambda>(key, v) p. custom_serialize v (ps_writeString key p)) m []"
  have b: "put_custom m [] = ATTR_CUSTOM # ?val"
    using False custom_fold_append [of m "ps_write 8 (length m) (ps_write 1 (unat ATTR_CUSTOM) [])"]
    by (simp add: put_custom_def ps_write_def del: nat_to_le.simps) simp
  show ?thesis unfolding b
  proof (rule readsI, simp, simp, intro exI conjI)
    fix loc rest and y :: "'a item_scheme" assume y: "item_ok i y"
    let ?z = "y\<lparr>it_custom := fold (\<lambda>(k, c) m. addCustomAttribute k c m) m (it_custom y)\<rparr>"
    have "length m < 256 ^ 8" using assms(2) by simp
    then have r: "ps_read 8 (nat_to_le 8 (length m) @ q) = Some (length m, q)" for q by (rule ps_read_nat)
    show "item_readAttr env loc ATTR_CUSTOM (?val @ rest) y = (ATTR_READ_CONTINUE, rest, ?z)"
      by (simp add: item_readAttr_def r read_custom_fold [OF assms(1)] del: ps_read_append nat_to_le.simps)
    show "view ?z = v_custom m (view y)" by (simp add: view_def v_custom_def get_int_def get_str_def has_attr_def)
    show "item_ok i ?z" "item.more ?z = item.more y" using y by (simp_all add: item_ok_def)
  qed
next
  case True
  moreover have "v_custom [] = (\<lambda>v. v)" by (simp add: v_custom_def fun_eq_iff)
  ultimately show ?thesis by (simp add: put_custom_def reads_nothing)
qed


subsection \<open>Saving and loading an item\<close>

text \<open>The attributes of an item that its bytes carry.\<close>

fun saved :: "save_env \<Rightarrow> 'a item_scheme \<Rightarrow> item_attribute \<Rightarrow> bool" where
  "saved env x STORE = (get_int STORE x \<noteq> 0)"
| "saved env x CHARGES = (attr_u16 CHARGES x \<noteq> 0)"
| "saved env x ACTIONID = (ity_movable (se_items env (it_id x)) \<and> attr_u16 ACTIONID x \<noteq> 0)"
| "saved env x DATE = (get_int DATE x \<noteq> 0)"
| "saved env x FLUIDTYPE = (ity_fluidContainer (se_items env (it_id x)) \<or> ity_splash (se_items env (it_id x)))"
| "saved env x NONE = False"
| "saved env x UNIQUEID = False"
| "saved env x DURATION = False"
| "saved env x DECAYSTATE = False"
| "saved env x CORPSEOWNER = False"
| "saved env x DOORID = False"
| "saved env x DURATION_TIMESTAMP = False"
| "saved env x CUSTOM = False"
| "saved env x LOOTMESSAGE_SUFFIX = False"
| "saved env x AUGMENTS = False"
| "saved env x t = has_attr t x"

text \<open>
  What an item must be for its bytes to carry it: integers in the range of their fields, strings that fit a
  sixteen-bit length, custom keys in lower case and in order, a tier the configuration allows, no
  \<open>SPECIAL\<close> text on a hireling lamp, and charges only on kinds that have charges of their own.
\<close>

definition in_u8 :: "u64 \<Rightarrow> bool" where "in_u8 n \<longleftrightarrow> n = ucast (ucast n :: u8)"
definition in_u16 :: "u64 \<Rightarrow> bool" where "in_u16 n \<longleftrightarrow> n = ucast (ucast n :: u16)"
definition in_u32 :: "u64 \<Rightarrow> bool" where "in_u32 n \<longleftrightarrow> n = ucast (ucast n :: u32)"
definition in_i8 :: "u64 \<Rightarrow> bool" where "in_i8 n \<longleftrightarrow> n = scast (ucast n :: u8)"
definition in_i32 :: "u64 \<Rightarrow> bool" where "in_i32 n \<longleftrightarrow> n = scast (ucast n :: u32)"

definition custom_ok :: "custom_map \<Rightarrow> bool" where
  "custom_ok m \<longleftrightarrow> sorted_wrt bytes_less (map fst m) \<and> length m < 2 ^ 64 \<and>
     (\<forall>(k, v)\<in>set m. lower_bytes k = k \<and> length k \<le> 65535 \<and> custom_short v)"

definition savable :: "save_env \<Rightarrow> 'a item_scheme \<Rightarrow> bool" where
  "savable env x \<longleftrightarrow> (let it = se_items env (it_id x) in
     attrs_ok (it_attrs x) \<and> custom_ok (it_custom x) \<and>
     (\<forall>t. length (get_str t x) \<le> 65535) \<and>
     (\<forall>t\<in>{OPENCONTAINER, SHOOTRANGE, TIER}. in_u8 (get_int t x)) \<and>
     (\<forall>t\<in>{CHARGES, ACTIONID, AMOUNT}. in_u16 (get_int t x)) \<and>
     (\<forall>t\<in>{WEIGHT, QUICKLOOTCONTAINER, OWNER, OBTAINCONTAINER}. in_u32 (get_int t x)) \<and>
     (\<forall>t\<in>{ATTACK, DEFENSE, EXTRADEFENSE, IMBUEMENT_SLOT, ARMOR}. in_i32 (get_int t x)) \<and>
     in_i8 (get_int HITCHANCE x) \<and>
     (ity_fluidContainer it \<or> ity_splash it \<longrightarrow> in_u8 (get_int FLUIDTYPE x)) \<and>
     attr_u8 TIER x \<le> se_maxTier env \<and>
     (has_attr SPECIAL x \<longrightarrow> it_id x \<noteq> HIRELING_LAMP) \<and>
     (attr_u16 CHARGES x \<noteq> 0 \<longrightarrow> \<not> ity_stackable it \<and> \<not> ity_fluidContainer it \<and> \<not> ity_splash it \<and> ity_charges it \<noteq> 0))"

text \<open>The view of the item that is loaded, from the view of the item the bytes are read into.\<close>

definition loaded_view :: "save_env \<Rightarrow> 'a item_scheme \<Rightarrow> item_view \<Rightarrow> item_view" where
  "loaded_view env x =
     v_int (has_attr OBTAINCONTAINER x) OBTAINCONTAINER (word_of_nat (unat (attr_u32 OBTAINCONTAINER x))) \<circ> (
     v_custom (it_custom x) \<circ> (
     v_int (has_attr OWNER x) OWNER (word_of_nat (unat (attr_u32 OWNER x))) \<circ> (
     v_str (has_attr STORE_INBOX_CATEGORY x) STORE_INBOX_CATEGORY (get_str STORE_INBOX_CATEGORY x) \<circ> (
     v_int (has_attr AMOUNT x) AMOUNT (word_of_nat (unat (attr_u16 AMOUNT x))) \<circ> (
     v_int (has_attr TIER x) TIER (word_of_nat (unat (getTier (se_maxTier env) x))) \<circ> (
     v_int (has_attr QUICKLOOTCONTAINER x) QUICKLOOTCONTAINER (word_of_nat (unat (attr_u32 QUICKLOOTCONTAINER x))) \<circ> (
     v_str (has_attr SPECIAL x) SPECIAL (get_str SPECIAL x) \<circ> (
     v_int (has_attr SHOOTRANGE x) SHOOTRANGE (word_of_nat (unat (attr_u8 SHOOTRANGE x))) \<circ> (
     v_int (has_attr HITCHANCE x) HITCHANCE (scast (word_of_nat (unat (attr_u8 HITCHANCE x)) :: u8)) \<circ> (
     v_int (has_attr ARMOR x) ARMOR (signed_attr (unat (attr_u32 ARMOR x))) \<circ> (
     v_int (has_attr OPENCONTAINER x) OPENCONTAINER (word_of_nat (unat (attr_u8 OPENCONTAINER x))) \<circ> (
     v_int (has_attr IMBUEMENT_SLOT x) IMBUEMENT_SLOT (signed_attr (unat (attr_u32 IMBUEMENT_SLOT x))) \<circ> (
     v_int (has_attr EXTRADEFENSE x) EXTRADEFENSE (signed_attr (unat (attr_u32 EXTRADEFENSE x))) \<circ> (
     v_int (has_attr DEFENSE x) DEFENSE (signed_attr (unat (attr_u32 DEFENSE x))) \<circ> (
     v_int (has_attr ATTACK x) ATTACK (signed_attr (unat (attr_u32 ATTACK x))) \<circ> (
     v_int (has_attr WEIGHT x) WEIGHT (word_of_nat (unat (attr_u32 WEIGHT x))) \<circ> (
     v_str (has_attr PLURALNAME x) PLURALNAME (get_str PLURALNAME x) \<circ> (
     v_str (has_attr ARTICLE x) ARTICLE (get_str ARTICLE x) \<circ> (
     v_str (has_attr NAME x) NAME (get_str NAME x) \<circ> (
     v_int (getDecaying x = DECAYING_TRUE \<or> getDecaying x = DECAYING_PENDING) DECAYSTATE 2 \<circ> (
     v_int (has_attr DURATION x) DURATION (scast (if getDuration (se_now env) x <s 0 then 0 else getDuration (se_now env) x)) \<circ> (
     v_str (get_str DESCRIPTION x \<noteq> []) DESCRIPTION (get_str DESCRIPTION x) \<circ> (
     v_str (get_str WRITER x \<noteq> []) WRITER (get_str WRITER x) \<circ> (
     v_int (get_int DATE x \<noteq> 0) DATE (word_of_nat (unat (get_int DATE x))) \<circ> (
     v_str (get_str TEXT x \<noteq> []) TEXT (get_str TEXT x) \<circ> (
     v_int (ity_movable (se_items env (it_id x)) \<and> attr_u16 ACTIONID x \<noteq> 0) ACTIONID (word_of_nat (unat (attr_u16 ACTIONID x))) \<circ> (
     v_int (attr_u16 CHARGES x \<noteq> 0) CHARGES (ucast (attr_u16 CHARGES x)) \<circ> (
     (if ity_fluidContainer (se_items env (it_id x)) \<or> ity_splash (se_items env (it_id x)) then v_int True FLUIDTYPE (ucast (attr_u8 FLUIDTYPE x)) else v_count (ity_stackable (se_items env (it_id x))) (it_count x)) \<circ> (
     v_int (get_int STORE x \<noteq> 0) STORE (word_of_nat (unat (get_int STORE x))))))))))))))))))))))))))))))))"

lemma readAttr_numbers:
  "item_readAttr env loc ATTR_STORE p x = read_num 8 (\<lambda>n. set_int STORE (word_of_nat n)) p x"
  "item_readAttr env loc ATTR_ACTION_ID p x = read_num 2 (\<lambda>n. set_int ACTIONID (word_of_nat n)) p x"
  "item_readAttr env loc ATTR_WRITTENDATE p x = read_num 8 (\<lambda>n. set_int DATE (word_of_nat n)) p x"
  "item_readAttr env loc ATTR_WEIGHT p x = read_num 4 (\<lambda>n. set_int WEIGHT (word_of_nat n)) p x"
  "item_readAttr env loc ATTR_ATTACK p x = read_num 4 (\<lambda>n. set_int ATTACK (signed_attr n)) p x"
  "item_readAttr env loc ATTR_DEFENSE p x = read_num 4 (\<lambda>n. set_int DEFENSE (signed_attr n)) p x"
  "item_readAttr env loc ATTR_EXTRADEFENSE p x = read_num 4 (\<lambda>n. set_int EXTRADEFENSE (signed_attr n)) p x"
  "item_readAttr env loc ATTR_IMBUEMENT_SLOT p x = read_num 4 (\<lambda>n. set_int IMBUEMENT_SLOT (signed_attr n)) p x"
  "item_readAttr env loc ATTR_OPENCONTAINER p x = read_num 1 (\<lambda>n. set_int OPENCONTAINER (word_of_nat n)) p x"
  "item_readAttr env loc ATTR_ARMOR p x = read_num 4 (\<lambda>n. set_int ARMOR (signed_attr n)) p x"
  "item_readAttr env loc ATTR_HITCHANCE p x = read_num 1 (\<lambda>n. set_int HITCHANCE (scast (word_of_nat n :: u8))) p x"
  "item_readAttr env loc ATTR_SHOOTRANGE p x = read_num 1 (\<lambda>n. set_int SHOOTRANGE (word_of_nat n)) p x"
  "item_readAttr env loc ATTR_QUICKLOOTCONTAINER p x = read_num 4 (\<lambda>n. set_int QUICKLOOTCONTAINER (word_of_nat n)) p x"
  "item_readAttr env loc ATTR_TIER p x = read_num 1 (\<lambda>n. set_int TIER (word_of_nat n)) p x"
  "item_readAttr env loc ATTR_AMOUNT p x = read_num 2 (\<lambda>n. set_int AMOUNT (word_of_nat n)) p x"
  "item_readAttr env loc ATTR_OWNER p x = read_num 4 (\<lambda>n. set_int OWNER (word_of_nat n)) p x"
  "item_readAttr env loc ATTR_OBTAINCONTAINER p x = read_num 4 (\<lambda>n. set_int OBTAINCONTAINER (word_of_nat n)) p x"
  by (simp_all add: item_readAttr_def)

lemma readAttr_texts:
  "item_readAttr env loc ATTR_TEXT p x = read_text (set_str loc TEXT) p x"
  "item_readAttr env loc ATTR_WRITTENBY p x = read_text (set_str loc WRITER) p x"
  "item_readAttr env loc ATTR_DESC p x = read_text (set_str loc DESCRIPTION) p x"
  "item_readAttr env loc ATTR_NAME p x = read_text (set_str loc NAME) p x"
  "item_readAttr env loc ATTR_ARTICLE p x = read_text (set_str loc ARTICLE) p x"
  "item_readAttr env loc ATTR_PLURALNAME p x = read_text (set_str loc PLURALNAME) p x"
  "item_readAttr env loc ATTR_STORE_INBOX_CATEGORY p x = read_text (set_str loc STORE_INBOX_CATEGORY) p x"
  by (simp_all add: item_readAttr_def)

lemma kinds [simp]:
  "isAttributeInteger STORE"
  "isAttributeInteger ACTIONID"
  "isAttributeInteger DATE"
  "isAttributeInteger WEIGHT"
  "isAttributeInteger ATTACK"
  "isAttributeInteger DEFENSE"
  "isAttributeInteger EXTRADEFENSE"
  "isAttributeInteger IMBUEMENT_SLOT"
  "isAttributeInteger OPENCONTAINER"
  "isAttributeInteger ARMOR"
  "isAttributeInteger HITCHANCE"
  "isAttributeInteger SHOOTRANGE"
  "isAttributeInteger QUICKLOOTCONTAINER"
  "isAttributeInteger TIER"
  "isAttributeInteger AMOUNT"
  "isAttributeInteger OWNER"
  "isAttributeInteger OBTAINCONTAINER"
  "isAttributeString TEXT"
  "isAttributeString WRITER"
  "isAttributeString DESCRIPTION"
  "isAttributeString NAME"
  "isAttributeString ARTICLE"
  "isAttributeString PLURALNAME"
  "isAttributeString STORE_INBOX_CATEGORY"
  by (simp_all add: isAttributeInteger_def isAttributeString_def)

lemma reads_numbers:
  fixes b :: u8 and h :: u16 and w :: u32 and d :: u64
  shows
  "reads env i (put_num c ATTR_STORE 8 (unat d) []) (v_int c STORE (word_of_nat (unat d))) TYPE('a)"
  "reads env i (put_num c ATTR_ACTION_ID 2 (unat h) []) (v_int c ACTIONID (word_of_nat (unat h))) TYPE('a)"
  "reads env i (put_num c ATTR_WRITTENDATE 8 (unat d) []) (v_int c DATE (word_of_nat (unat d))) TYPE('a)"
  "reads env i (put_num c ATTR_WEIGHT 4 (unat w) []) (v_int c WEIGHT (word_of_nat (unat w))) TYPE('a)"
  "reads env i (put_num c ATTR_ATTACK 4 (unat w) []) (v_int c ATTACK (signed_attr (unat w))) TYPE('a)"
  "reads env i (put_num c ATTR_DEFENSE 4 (unat w) []) (v_int c DEFENSE (signed_attr (unat w))) TYPE('a)"
  "reads env i (put_num c ATTR_EXTRADEFENSE 4 (unat w) []) (v_int c EXTRADEFENSE (signed_attr (unat w))) TYPE('a)"
  "reads env i (put_num c ATTR_IMBUEMENT_SLOT 4 (unat w) []) (v_int c IMBUEMENT_SLOT (signed_attr (unat w))) TYPE('a)"
  "reads env i (put_num c ATTR_OPENCONTAINER 1 (unat b) []) (v_int c OPENCONTAINER (word_of_nat (unat b))) TYPE('a)"
  "reads env i (put_num c ATTR_ARMOR 4 (unat w) []) (v_int c ARMOR (signed_attr (unat w))) TYPE('a)"
  "reads env i (put_num c ATTR_HITCHANCE 1 (unat b) []) (v_int c HITCHANCE (scast (word_of_nat (unat b) :: u8))) TYPE('a)"
  "reads env i (put_num c ATTR_SHOOTRANGE 1 (unat b) []) (v_int c SHOOTRANGE (word_of_nat (unat b))) TYPE('a)"
  "reads env i (put_num c ATTR_QUICKLOOTCONTAINER 4 (unat w) []) (v_int c QUICKLOOTCONTAINER (word_of_nat (unat w))) TYPE('a)"
  "reads env i (put_num c ATTR_TIER 1 (unat b) []) (v_int c TIER (word_of_nat (unat b))) TYPE('a)"
  "reads env i (put_num c ATTR_AMOUNT 2 (unat h) []) (v_int c AMOUNT (word_of_nat (unat h))) TYPE('a)"
  "reads env i (put_num c ATTR_OWNER 4 (unat w) []) (v_int c OWNER (word_of_nat (unat w))) TYPE('a)"
  "reads env i (put_num c ATTR_OBTAINCONTAINER 4 (unat w) []) (v_int c OBTAINCONTAINER (word_of_nat (unat w))) TYPE('a)"
  by (rule reads_num; use unat_u8_less [of b] unat_u16_less [of h] unat_u32_less [of w] unsigned_less [of d] in
    \<open>simp add: readAttr_numbers\<close>)+

lemma reads_texts:
  assumes "length s \<le> 65535"
  shows
  "reads env i (put_text c ATTR_TEXT s []) (v_str c TEXT s) TYPE('a)"
  "reads env i (put_text c ATTR_WRITTENBY s []) (v_str c WRITER s) TYPE('a)"
  "reads env i (put_text c ATTR_DESC s []) (v_str c DESCRIPTION s) TYPE('a)"
  "reads env i (put_text c ATTR_NAME s []) (v_str c NAME s) TYPE('a)"
  "reads env i (put_text c ATTR_ARTICLE s []) (v_str c ARTICLE s) TYPE('a)"
  "reads env i (put_text c ATTR_PLURALNAME s []) (v_str c PLURALNAME s) TYPE('a)"
  "reads env i (put_text c ATTR_STORE_INBOX_CATEGORY s []) (v_str c STORE_INBOX_CATEGORY s) TYPE('a)"
  by (rule reads_text; simp add: readAttr_texts assms)+


lemma reads_put:
  assumes "reads env i p V TYPE('a)"
  shows "reads env i (put_num c tag w n []) W TYPE('a) \<Longrightarrow> reads env i (put_num c tag w n p) (W \<circ> V) TYPE('a)"
    "reads env i (put_text c tag s []) W TYPE('a) \<Longrightarrow> reads env i (put_text c tag s p) (W \<circ> V) TYPE('a)"
    "reads env i (put_custom m []) W TYPE('a) \<Longrightarrow> reads env i (put_custom m p) (W \<circ> V) TYPE('a)"
  using reads_append [OF assms] put_num_append [of c tag w n p] put_text_append [of c tag s p] put_custom_append [of m p]
  by simp_all

lemma reads_count_cond:
  assumes "c = (ity_stackable (se_items env i) \<or> ity_fluidContainer (se_items env i) \<or> ity_splash (se_items env i))"
    and "n = (if ity_fluidContainer (se_items env i) \<or> ity_splash (se_items env i) then b else k)"
  shows "reads env i (put_num c ATTR_COUNT 1 (unat (n :: u8)) [])
    (if ity_fluidContainer (se_items env i) \<or> ity_splash (se_items env i) then v_int True FLUIDTYPE (ucast b)
     else v_count (ity_stackable (se_items env i)) k) TYPE('a)"
proof (cases c)
  case True
  then show ?thesis using reads_count [of env i n, where 'a = 'a] assms by (auto split: if_splits)
next
  case False
  then show ?thesis using assms by (simp add: put_num_def reads_nothing)
qed

lemma byte_of_decay_of_byte [simp]: "byte_of_decay (decay_of_byte b) = b"
  by simp


lemma reads_serializeAttr:
  fixes x :: "'a item_scheme"
  assumes sav: "savable env x" and i: "it_id x = i"
  shows "reads env i (serializeAttr env x []) (loaded_view env x) TYPE('b)"
proof -
  have len: "length (get_str t x) \<le> 65535" for t using sav by (simp add: savable_def Let_def)
  have count: "reads env i (put_num (ity_stackable (se_items env i) \<or> ity_fluidContainer (se_items env i) \<or> ity_splash (se_items env i))
      ATTR_COUNT 1 (unat (ucast (getSubType (se_items env) x) :: u8)) [])
    (if ity_fluidContainer (se_items env i) \<or> ity_splash (se_items env i) then v_int True FLUIDTYPE (ucast (attr_u8 FLUIDTYPE x))
     else v_count (ity_stackable (se_items env i)) (it_count x)) TYPE('b)"
    if "ity_stackable (se_items env i) \<or> ity_fluidContainer (se_items env i) \<or> ity_splash (se_items env i)"
  proof (rule reads_count_cond [OF refl])
    have "ucast (ucast n :: u16) = n" "ucast (ucast d :: u16) = (ucast d :: u8)" for n :: u8 and d :: u64
      by (transfer; simp add: take_bit_take_bit)+
    then show "(ucast (getSubType (se_items env) x) :: u8) = (if ity_fluidContainer (se_items env i) \<or> ity_splash (se_items env i)
        then attr_u8 FLUIDTYPE x else it_count x)"
      using that i by (auto simp: getSubType_def Let_def attr_u16_def attr_u8_def)
  qed
  have count: "reads env i (put_num (ity_stackable (se_items env i) \<or> ity_fluidContainer (se_items env i) \<or> ity_splash (se_items env i))
      ATTR_COUNT 1 (unat (ucast (getSubType (se_items env) x) :: u8)) [])
    (if ity_fluidContainer (se_items env i) \<or> ity_splash (se_items env i) then v_int True FLUIDTYPE (ucast (attr_u8 FLUIDTYPE x))
     else v_count (ity_stackable (se_items env i)) (it_count x)) TYPE('b)"
    using count by (cases "ity_stackable (se_items env i) \<or> ity_fluidContainer (se_items env i) \<or> ity_splash (se_items env i)")
      (auto simp: put_num_def reads_nothing)
  have charges: "reads env i (put_num (attr_u16 CHARGES x \<noteq> 0) ATTR_CHARGES 2 (unat (attr_u16 CHARGES x)) [])
      (v_int (attr_u16 CHARGES x \<noteq> 0) CHARGES (ucast (attr_u16 CHARGES x))) TYPE('b)"
    by (rule reads_charges) (use sav i in \<open>simp add: savable_def Let_def\<close>)
  have decaying: "reads env i (put_num (getDecaying x = DECAYING_TRUE \<or> getDecaying x = DECAYING_PENDING) ATTR_DECAYING_STATE 1
      (unat (byte_of_decay (getDecaying x))) []) (v_int (getDecaying x = DECAYING_TRUE \<or> getDecaying x = DECAYING_PENDING) DECAYSTATE 2) TYPE('b)"
    by (rule reads_decaying) auto
  have special: "reads env i (put_text (has_attr SPECIAL x) ATTR_SPECIAL (get_str SPECIAL x) [])
      (v_str (has_attr SPECIAL x) SPECIAL (get_str SPECIAL x)) TYPE('b)"
  proof (cases "has_attr SPECIAL x")
    case True
    show ?thesis by (rule reads_special [OF _ len]) (use True sav i in \<open>auto simp: savable_def Let_def\<close>)
  qed (simp add: put_text_def reads_nothing)
  have custom: "reads env i (put_custom (it_custom x) []) (v_custom (it_custom x)) TYPE('b)"
    by (rule reads_custom) (use sav in \<open>auto simp: savable_def custom_ok_def Let_def\<close>)
  show ?thesis
    unfolding serializeAttr_def loaded_view_def Let_def i
    by (intro reads_put reads_numbers reads_texts reads_duration count charges decaying special custom len)
qed


lemma bytes_less_asym: "bytes_less a b \<Longrightarrow> \<not> bytes_less b a"
proof (induction a b rule: bytes_less.induct)
  case (1 s)
  then show ?case by (cases s) auto
qed auto

lemma bytes_less_irrefl: "\<not> bytes_less a a"
  using bytes_less_asym by blast

lemma custom_put_last: "\<forall>e\<in>set m. bytes_less (fst e) k \<Longrightarrow> custom_put k v m = m @ [(k, v)]"
  by (induction k v m rule: custom_put.induct) (auto simp: bytes_less_irrefl dest: bytes_less_asym)

lemma custom_fold:
  assumes "sorted_wrt bytes_less (map fst m)" "\<forall>(k, v)\<in>set m. lower_bytes k = k"
  shows "fold (\<lambda>(k, c) m. addCustomAttribute k c m) m [] = m"
  using assms
proof (induction m rule: rev_induct)
  case (snoc kv m)
  then show ?case by (cases kv) (auto simp: sorted_wrt_append addCustomAttribute_def custom_put_last)
qed simp

text \<open>
  How the loaded item relates to the saved one, \<open>x\<close>, and to the item the bytes were read into, \<open>y\<close>.
\<close>

definition restored :: "save_env \<Rightarrow> 'a item_scheme \<Rightarrow> 'b item_scheme \<Rightarrow> 'b item_scheme \<Rightarrow> bool" where
  "restored env x y z \<longleftrightarrow> (let it = se_items env (it_id x); d = getDuration (se_now env) x in
     it_id z = it_id x \<and> it_custom z = it_custom x \<and> item.more z = item.more y \<and> attrs_ok (it_attrs z) \<and>
     it_count z = (if ity_stackable it \<and> \<not> ity_fluidContainer it \<and> \<not> ity_splash it then it_count x else it_count y) \<and>
     (\<forall>t. t \<noteq> DURATION \<and> t \<noteq> DECAYSTATE \<longrightarrow> get_int t z = (if saved env x t then get_int t x else get_int t y) \<and>
        get_str t z = (if saved env x t then get_str t x else get_str t y)) \<and>
     get_int DURATION z = (if has_attr DURATION x then scast (if d <s 0 then 0 else d) else get_int DURATION y) \<and>
     get_int DECAYSTATE z = (if getDecaying x = DECAYING_TRUE \<or> getDecaying x = DECAYING_PENDING then 2 else get_int DECAYSTATE y))"

lemma string_attr_nonempty:
  "attrs_ok (it_attrs x) \<Longrightarrow> has_attr t x \<Longrightarrow> isAttributeString t \<Longrightarrow> get_str t x \<noteq> []"
proof -
  assume ok: "attrs_ok (it_attrs x)" "has_attr t x" "isAttributeString t"
  then obtain v where v: "map_of (it_attrs x) t = Some v"
    unfolding has_attr_def hasAttribute_def by (metis imageE map_of_eq_None_iff not_None_eq)
  then obtain l s where "v = AStr l s" "s \<noteq> []" using attrs_ok_entry(2) [OF ok(1) v ok(3)] by auto
  then show ?thesis using ok(3) v by (simp add: get_str_def getString_def)
qed

lemma no_attr:
  "\<not> has_attr t x \<Longrightarrow> get_str t x = []" "\<not> has_attr t x \<Longrightarrow> get_int t x = 0"
proof -
  have "map_of (it_attrs x) t = None" if "\<not> has_attr t x"
    using that by (simp add: has_attr_def hasAttribute_def map_of_eq_None_iff)
  then show "\<not> has_attr t x \<Longrightarrow> get_str t x = []" "\<not> has_attr t x \<Longrightarrow> get_int t x = 0"
    by (auto simp: get_str_def get_int_def getString_def getInteger_def)
qed

lemma loaded_view_int:
  assumes sav: "savable env x" and t: "t \<noteq> DURATION" "t \<noteq> DECAYSTATE"
  shows "iv_int (loaded_view env x v) t = (if saved env x t \<and> isAttributeInteger t then get_int t x else iv_int v t)"
proof -
  have u: "word_of_nat (unat (w :: u8)) = (ucast w :: u64)" "word_of_nat (unat (w' :: u16)) = (ucast w' :: u64)"
    "word_of_nat (unat (w'' :: u32)) = (ucast w'' :: u64)" for w w' w'' by simp_all
  have s: "signed_attr (unat w) = scast w" for w :: u32 by (simp add: signed_attr_def)
  have tier: "getTier (se_maxTier env) x = attr_u8 TIER x" if "has_attr TIER x"
  proof -
    have "attr_u8 TIER x \<le> se_maxTier env" using sav unfolding savable_def Let_def by blast
    then have "\<not> se_maxTier env < attr_u8 TIER x" by (rule leD)
    then show ?thesis using that by (simp add: getTier_def)
  qed
  note sav' = sav [unfolded savable_def Let_def in_u8_def in_u16_def in_u32_def in_i8_def in_i32_def]
  show ?thesis
    using sav' t
    by (cases t; simp add: loaded_view_def isAttributeInteger_def u s tier attr_u8_def attr_u16_def attr_u32_def; metis?)
qed


lemma loaded_view_str:
  assumes sav: "savable env x"
  shows "iv_str (loaded_view env x v) t = (if saved env x t \<and> isAttributeString t then get_str t x else iv_str v t)"
proof -
  have ok: "attrs_ok (it_attrs x)" using sav by (simp add: savable_def Let_def)
  have "t \<in> {TEXT, WRITER, DESCRIPTION} \<Longrightarrow> get_str t x = [] \<longleftrightarrow> \<not> has_attr t x"
    using string_attr_nonempty [OF ok, of t] no_attr(1) [of t x] by (auto simp: isAttributeString_def)
  moreover have "has_attr t x \<Longrightarrow> isAttributeString t \<Longrightarrow> get_str t x \<noteq> []" by (rule string_attr_nonempty [OF ok])
  ultimately show ?thesis
    by (cases t; simp add: loaded_view_def isAttributeString_def; blast?)
qed

lemma loaded_view_count:
  "iv_count (loaded_view env x v) = (if ity_stackable (se_items env (it_id x)) \<and> \<not> ity_fluidContainer (se_items env (it_id x)) \<and>
      \<not> ity_splash (se_items env (it_id x)) then it_count x else iv_count v)"
  by (auto simp: loaded_view_def)

lemma loaded_view_decay:
  "iv_int (loaded_view env x v) DURATION = (if has_attr DURATION x then scast (if getDuration (se_now env) x <s 0 then 0
     else getDuration (se_now env) x) else iv_int v DURATION)"
  "iv_int (loaded_view env x v) DECAYSTATE =
     (if getDecaying x = DECAYING_TRUE \<or> getDecaying x = DECAYING_PENDING then 2 else iv_int v DECAYSTATE)"
  by (auto simp: loaded_view_def)

lemma get_wrong_kind: "\<not> isAttributeInteger t \<Longrightarrow> get_int t x = 0" "\<not> isAttributeString t \<Longrightarrow> get_str t x = []"
  by (simp_all add: get_int_def getInteger_def get_str_def getString_def)

lemma unserialize_serialize:
  fixes x :: "'a item_scheme" and y :: "'b item_scheme"
  assumes sav: "savable env x" and y: "attrs_ok (it_attrs y)" "it_id y = it_id x" "it_custom y = []"
  shows "\<exists>z. restored env x y z \<and> unserializeAttr env cont base (serializeAttr env x [] @ rest) y = unserializeAttr env cont base rest z"
proof -
  have "item_ok (it_id x) y" using y by (simp add: item_ok_def)
  then obtain z where z: "item_ok (it_id x) z" "view z = loaded_view env x (view y)" "item.more z = item.more y"
      "unserializeAttr env cont base (serializeAttr env x [] @ rest) y = unserializeAttr env cont base rest z"
    using reads_serializeAttr [OF sav refl] unfolding reads_def by blast
  have ok: "attrs_ok (it_attrs x)" "custom_ok (it_custom x)" using sav by (simp_all add: savable_def Let_def)
  have "it_custom z = iv_custom (loaded_view env x (view y))" using z(2) by (metis view_sel(2))
  also have "\<dots> = fold (\<lambda>(k, c) m. addCustomAttribute k c m) (it_custom x) (it_custom y)"
    by (simp add: loaded_view_def v_custom_def)
  also have "\<dots> = it_custom x" using ok(2) y(3) custom_fold [of "it_custom x"] by (auto simp: custom_ok_def)
  finally have custom: "it_custom z = it_custom x" .
  have count: "it_count z = (if ity_stackable (se_items env (it_id x)) \<and> \<not> ity_fluidContainer (se_items env (it_id x)) \<and>
      \<not> ity_splash (se_items env (it_id x)) then it_count x else it_count y)"
    using arg_cong [OF z(2), of iv_count] by (simp add: loaded_view_count)
  have int: "get_int t z = (if saved env x t \<and> isAttributeInteger t then get_int t x else get_int t y)"
    if "t \<noteq> DURATION" "t \<noteq> DECAYSTATE" for t
    using loaded_view_int [OF sav that, of "view y"] z(2) view_sel(3) by metis
  have str: "get_str t z = (if saved env x t \<and> isAttributeString t then get_str t x else get_str t y)" for t
    using loaded_view_str [OF sav, of "view y" t] z(2) view_sel(4) by metis
  have dur: "get_int DURATION z = (if has_attr DURATION x then scast (if getDuration (se_now env) x <s 0 then 0
      else getDuration (se_now env) x) else get_int DURATION y)"
    and dec: "get_int DECAYSTATE z = (if getDecaying x = DECAYING_TRUE \<or> getDecaying x = DECAYING_PENDING then 2 else get_int DECAYSTATE y)"
    using arg_cong [OF z(2), of "\<lambda>v. iv_int v DURATION"] arg_cong [OF z(2), of "\<lambda>v. iv_int v DECAYSTATE"]
    by (simp_all add: loaded_view_decay)
  have all: "get_int t z = (if saved env x t then get_int t x else get_int t y) \<and>
      get_str t z = (if saved env x t then get_str t x else get_str t y)" if "t \<noteq> DURATION" "t \<noteq> DECAYSTATE" for t
    using int [OF that] str [of t] get_wrong_kind(1) [of t x] get_wrong_kind(1) [of t y] get_wrong_kind(2) [of t x] get_wrong_kind(2) [of t y]
    by (cases "isAttributeInteger t"; cases "isAttributeString t"; simp)
  have "restored env x y z"
    using z(1,3) custom count all dur dec unfolding restored_def Let_def item_ok_def by blast
  then show ?thesis using z(4) by blast
qed

end
