(* ===== verification/HouseItems.thy ===== *)
theory HouseItems
  imports ItemSave
begin

















lemma unserializeAttr_end [simp]: "unserializeAttr env cont base (0 # rest) z = (True, rest, z, 0)"
  by (subst unserializeAttr.simps) simp








subsection \<open>What is saved is what is loaded\<close>










lemma getString_empty: "getString t [] = []"
  by (simp add: getString_def)





end
