(* ===== verification/Containers.thy ===== *)
theory Containers
  imports ItemAttr
begin

text \<open>
  Containers: \<open>items/containers/container.hpp\<close> and \<open>container.cpp\<close>, the parents of items (\<open>items/item.cpp\<close>,
  \<open>Item::getTopParent\<close>) and what a container asks of the player who carries it (\<open>creatures/players/player.cpp\<close>).
  Items are addresses of a store; a container is an item with a box: the list of the items in it and the weight of
  everything inside, which each operation keeps up to date along the chain of parents. Addresses from \<open>cw_next\<close> on are
  free. What the client is told of a change is left out; of the notifications of players the update of the carried
  weight is modelled.
\<close>

text \<open>Parents: an item, a tile, a player.\<close>

datatype cyl = InItem nat | OnTile nat | OnPlayer u32

record box =
  bx_items :: "nat list"
  bx_totalWeight :: u32
  bx_maxSize :: u32
  bx_maxItems :: u32
  bx_unlocked :: bool
  bx_pagination :: bool
  bx_inbox :: bool

text \<open>An item of the store, with the flag whether its attribute object exists.\<close>

record citem = item +
  ci_attributePtr :: bool
  ci_parent :: "cyl option"
  ci_box :: "box option"

text \<open>A player; the slot of the store inbox, which does not count for the weight, is not in \<open>pl_inventory\<close>.\<close>

record cplayer =
  pl_guid :: u32
  pl_cannotPickup :: bool
  pl_infiniteCapacity :: bool
  pl_capacity :: u32
  pl_inventoryWeight :: u32
  pl_inventory :: "nat option list"
  pl_tile :: "nat option"

record cworld =
  cw_items :: "nat \<Rightarrow> citem"
  cw_next :: nat
  cw_players :: "u32 \<Rightarrow> cplayer option"
  cw_byGuid :: "u32 \<Rightarrow> u32 option"

record cenv =
  ce_types :: item_types
  ce_maxContainer :: u32
  ce_firstID :: u32
  ce_lastID :: u32

datatype return_value = RETURNVALUE_NOERROR | RETURNVALUE_NOTPOSSIBLE | RETURNVALUE_NOTENOUGHROOM | RETURNVALUE_NOTMOVABLE
  | RETURNVALUE_CONTAINERNOTENOUGHROOM | RETURNVALUE_ONLYAMMOINQUIVER | RETURNVALUE_NOTENOUGHCAPACITY
  | RETURNVALUE_CANNOTPICKUP | RETURNVALUE_THISISIMPOSSIBLE | RETURNVALUE_CONTAINERISFULL | RETURNVALUE_ITEMISNOTYOURS

definition FLAG_NOLIMIT :: u32 where "FLAG_NOLIMIT = 1"
definition FLAG_CHILDISOWNER :: u32 where "FLAG_CHILDISOWNER = 8"
definition FLAG_IGNORENOTMOVABLE :: u32 where "FLAG_IGNORENOTMOVABLE = 64"
definition FLAG_IGNOREAUTOSTACK :: u32 where "FLAG_IGNOREAUTOSTACK = 128"
definition INDEX_WHEREEVER :: int where "INDEX_WHEREEVER = -1"

definition hasBitSet :: "u32 \<Rightarrow> u32 \<Rightarrow> bool" where
  "hasBitSet flag flags \<longleftrightarrow> and flags flag \<noteq> 0"

subsection \<open>Access\<close>

definition getBox :: "cworld \<Rightarrow> nat \<Rightarrow> box option" where "getBox w i = ci_box (cw_items w i)"

definition isContainer :: "cworld \<Rightarrow> nat \<Rightarrow> bool" where "isContainer w i \<longleftrightarrow> getBox w i \<noteq> None"

definition itemlist :: "cworld \<Rightarrow> nat \<Rightarrow> nat list" where
  "itemlist w i = (case getBox w i of None \<Rightarrow> [] | Some b \<Rightarrow> bx_items b)"

definition getParent :: "cworld \<Rightarrow> nat \<Rightarrow> cyl option" where "getParent w i = ci_parent (cw_items w i)"

definition itype :: "cenv \<Rightarrow> cworld \<Rightarrow> nat \<Rightarrow> item_type" where "itype env w i = ce_types env (it_id (cw_items w i))"

definition itemCount :: "cworld \<Rightarrow> nat \<Rightarrow> u8" where "itemCount w i = it_count (cw_items w i)"

definition getStackSize :: "cenv \<Rightarrow> cworld \<Rightarrow> nat \<Rightarrow> u8" where
  "getStackSize env w i = (if ity_stackable (itype env w i) then ity_stackSize (itype env w i) else 1)"

definition upd_item :: "nat \<Rightarrow> (citem \<Rightarrow> citem) \<Rightarrow> cworld \<Rightarrow> cworld" where
  "upd_item i f w = w\<lparr>cw_items := (cw_items w)(i := f (cw_items w i))\<rparr>"

definition upd_box :: "nat \<Rightarrow> (box \<Rightarrow> box) \<Rightarrow> cworld \<Rightarrow> cworld" where
  "upd_box i f = upd_item i (\<lambda>x. x\<lparr>ci_box := map_option f (ci_box x)\<rparr>)"

definition setParent :: "cyl option \<Rightarrow> nat \<Rightarrow> cworld \<Rightarrow> cworld" where
  "setParent p i = upd_item i (\<lambda>x. x\<lparr>ci_parent := p\<rparr>)"

text \<open>The virtual \<open>getParent\<close> of a cylinder: a creature's is its tile, a tile has none.\<close>

fun cyl_parent :: "cworld \<Rightarrow> cyl \<Rightarrow> cyl option" where
  "cyl_parent w (InItem i) = getParent w i"
| "cyl_parent w (OnTile t) = None"
| "cyl_parent w (OnPlayer p) = (case cw_players w p of None \<Rightarrow> None | Some pl \<Rightarrow> map_option OnTile (pl_tile pl))"

fun cyl_container :: "cworld \<Rightarrow> cyl \<Rightarrow> nat option" where
  "cyl_container w (InItem i) = (if isContainer w i then Some i else None)"
| "cyl_container w (OnTile t) = None"
| "cyl_container w (OnPlayer p) = None"

definition getParentContainer :: "cworld \<Rightarrow> nat \<Rightarrow> nat option" where
  "getParentContainer w i = (case getParent w i of None \<Rightarrow> None | Some p \<Rightarrow> cyl_container w p)"

text \<open>A chain of parents visits every item at most once and then a player and a tile: this many rounds are enough.\<close>

definition chain_fuel :: "cworld \<Rightarrow> nat" where "chain_fuel w = cw_next w + 3"

text \<open>\<open>Item::getTopParent\<close>: the last cylinder on the way up that has a parent itself.\<close>

fun top_loop :: "nat \<Rightarrow> cworld \<Rightarrow> cyl option \<Rightarrow> cyl \<Rightarrow> cyl" where
  "top_loop 0 w prevaux aux = aux"
| "top_loop (Suc n) w prevaux aux = (case cyl_parent w aux of
     None \<Rightarrow> (case prevaux of Some prev \<Rightarrow> prev | None \<Rightarrow> aux)
   | Some p \<Rightarrow> top_loop n w (Some aux) p)"

definition getTopParent :: "cworld \<Rightarrow> nat \<Rightarrow> cyl option" where
  "getTopParent w i = (let prevaux = (if isContainer w i then Some (InItem i) else None) in
     case getParent w i of None \<Rightarrow> prevaux | Some aux \<Rightarrow> Some (top_loop (chain_fuel w) w prevaux aux))"

text \<open>\<open>Container::getTopParentContainer\<close>\<close>

fun top_container_loop :: "nat \<Rightarrow> cworld \<Rightarrow> cyl \<Rightarrow> cyl \<Rightarrow> cyl" where
  "top_container_loop 0 w prevThing thing = prevThing"
| "top_container_loop (Suc n) w prevThing thing = (case cyl_parent w thing of
     None \<Rightarrow> prevThing
   | Some p \<Rightarrow> if cyl_container w p \<noteq> None then top_container_loop n w thing p else prevThing)"

definition getTopParentContainer :: "cworld \<Rightarrow> nat \<Rightarrow> nat option" where
  "getTopParentContainer w i = (case getParent w i of
     None \<Rightarrow> Some i
   | Some thing \<Rightarrow> cyl_container w (top_container_loop (chain_fuel w) w (InItem i) thing))"

subsection \<open>Weights\<close>

definition getWeight :: "cenv \<Rightarrow> cworld \<Rightarrow> nat \<Rightarrow> u32" where
  "getWeight env w i = item_getWeight (ce_types env) (cw_items w i) +
     (case getBox w i of None \<Rightarrow> 0 | Some b \<Rightarrow> bx_totalWeight b)"

fun weight_loop :: "nat \<Rightarrow> nat \<Rightarrow> u32 \<Rightarrow> cworld \<Rightarrow> cworld" where
  "weight_loop 0 c diff w = w"
| "weight_loop (Suc n) c diff w = (let w = upd_box c (\<lambda>b. b\<lparr>bx_totalWeight := bx_totalWeight b + diff\<rparr>) w in
     case getParentContainer w c of None \<Rightarrow> w | Some p \<Rightarrow> weight_loop n p diff w)"

definition updateItemWeight :: "nat \<Rightarrow> u32 \<Rightarrow> cworld \<Rightarrow> cworld" where
  "updateItemWeight c diff w = weight_loop (chain_fuel w) c diff w"

subsection \<open>Everything inside\<close>

text \<open>\<open>ContainerIterator\<close>: the containers that are still to be visited, and the position in the first of them.\<close>

fun advance :: "cworld \<Rightarrow> nat list \<times> nat \<Rightarrow> nat list \<times> nat" where
  "advance w ([], cur) = ([], cur)"
| "advance w (c # over, cur) = (let i = itemlist w c ! cur; over' = (if itemlist w i \<noteq> [] then over @ [i] else over) in
     if Suc cur = length (itemlist w c) then (over', 0) else (c # over', Suc cur))"

fun iterate :: "nat \<Rightarrow> cworld \<Rightarrow> nat list \<times> nat \<Rightarrow> nat list" where
  "iterate 0 w it = []"
| "iterate (Suc n) w ([], cur) = []"
| "iterate (Suc n) w (c # over, cur) = itemlist w c ! cur # iterate n w (advance w (c # over, cur))"

definition getItemsRec :: "cworld \<Rightarrow> nat \<Rightarrow> nat list" where
  "getItemsRec w c = iterate (cw_next w) w (if itemlist w c = [] then ([], 0) else ([c], 0))"

definition getItemHoldingCount :: "cworld \<Rightarrow> nat \<Rightarrow> u32" where
  "getItemHoldingCount w c = word_of_nat (length (getItemsRec w c))"

definition getContainerHoldingCount :: "cworld \<Rightarrow> nat \<Rightarrow> u32" where
  "getContainerHoldingCount w c = word_of_nat (length (filter (isContainer w) (getItemsRec w c)))"

definition isHoldingItem :: "cworld \<Rightarrow> nat \<Rightarrow> nat \<Rightarrow> bool" where
  "isHoldingItem w c i \<longleftrightarrow> i \<in> set (getItemsRec w c)"

definition isHoldingItemWithId :: "cworld \<Rightarrow> nat \<Rightarrow> u16 \<Rightarrow> bool" where
  "isHoldingItemWithId w c ident \<longleftrightarrow> list_ex (\<lambda>i. it_id (cw_items w i) = ident) (getItemsRec w c)"

definition getItemByIndex :: "cworld \<Rightarrow> nat \<Rightarrow> int \<Rightarrow> nat option" where
  "getItemByIndex w c index = (if index < 0 \<or> int (length (itemlist w c)) \<le> index then None else Some (itemlist w c ! nat index))"

fun index_of :: "int \<Rightarrow> nat \<Rightarrow> nat list \<Rightarrow> int" where
  "index_of index i [] = -1"
| "index_of index i (x # xs) = (if x = i then index else index_of (index + 1) i xs)"

definition getThingIndex :: "cworld \<Rightarrow> nat \<Rightarrow> nat \<Rightarrow> int" where
  "getThingIndex w c i = index_of 0 i (itemlist w c)"

definition countByType :: "cenv \<Rightarrow> cworld \<Rightarrow> nat \<Rightarrow> int \<Rightarrow> u32" where
  "countByType env w i subType = (if subType = -1 \<or> subType = uint (getSubType (ce_types env) (cw_items w i))
     then ucast (itemCount w i) else 0)"

definition getItemTypeCount :: "cenv \<Rightarrow> cworld \<Rightarrow> nat \<Rightarrow> u16 \<Rightarrow> int \<Rightarrow> u32" where
  "getItemTypeCount env w c itemId subType =
     fold (\<lambda>i n. if it_id (cw_items w i) = itemId then n + countByType env w i subType else n) (itemlist w c) 0"

text \<open>Free slots are counted in sixteen bits.\<close>

fun free_slots :: "nat \<Rightarrow> cworld \<Rightarrow> nat \<Rightarrow> u16" where
  "free_slots 0 w c = 0"
| "free_slots (Suc n) w c = (case getBox w c of None \<Rightarrow> 0
   | Some b \<Rightarrow> fold (\<lambda>i counter. if isContainer w i then counter + free_slots n w i else counter) (bx_items b)
       (word_of_int (uint (bx_maxSize b) - int (length (bx_items b)))))"

definition getFreeSlots :: "cworld \<Rightarrow> nat \<Rightarrow> u16" where
  "getFreeSlots w c = free_slots (chain_fuel w) w c"

text \<open>The owner of a container is its own or that of the first item inside that has one.\<close>

fun owner_of :: "nat \<Rightarrow> cworld \<Rightarrow> nat \<Rightarrow> u32" where
  "owner_of 0 w i = 0"
| "owner_of (Suc n) w i = (let ownerId = item_getOwnerId (cw_items w i) in
     if \<not> isContainer w i \<or> ownerId > 0 then ownerId
     else fold (\<lambda>j ownerId. if ownerId > 0 then ownerId else owner_of n w j) (itemlist w i) 0)"

definition getOwnerId :: "cworld \<Rightarrow> nat \<Rightarrow> u32" where
  "getOwnerId w i = owner_of (chain_fuel w) w i"

definition isOwner_id :: "cenv \<Rightarrow> cworld \<Rightarrow> nat \<Rightarrow> u32 \<Rightarrow> bool" where
  "isOwner_id env w i ownerId \<longleftrightarrow> (if getOwnerId w i = ownerId then True
     else if ownerId \<ge> ce_firstID env \<and> ownerId \<le> ce_lastID env
     then (case cw_players w ownerId of None \<Rightarrow> False | Some pl \<Rightarrow> pl_guid pl = getOwnerId w i)
     else (case cw_byGuid w ownerId of None \<Rightarrow> False | Some p \<Rightarrow> p = getOwnerId w i))"

definition isOwner :: "cenv \<Rightarrow> cworld \<Rightarrow> nat \<Rightarrow> u32 \<Rightarrow> bool" where
  "isOwner env w i p \<longleftrightarrow> isOwner_id env w i p \<or> (case cw_players w p of None \<Rightarrow> False | Some pl \<Rightarrow> isOwner_id env w i (pl_guid pl))"

definition equals :: "cworld \<Rightarrow> nat \<Rightarrow> nat option \<Rightarrow> bool" where
  "equals w i j \<longleftrightarrow> (case j of None \<Rightarrow> False | Some j \<Rightarrow> item_equals (getOwnerId w i) (getOwnerId w j) (cw_items w i) (cw_items w j))"

subsection \<open>Queries\<close>

definition getFreeCapacity :: "cplayer \<Rightarrow> u32" where
  "getFreeCapacity pl = (if pl_cannotPickup pl then 0 else if pl_infiniteCapacity pl then -1
     else let d = pl_capacity pl - pl_inventoryWeight pl in if d <s 0 then 0 else d)"

definition hasCapacity :: "cenv \<Rightarrow> cworld \<Rightarrow> u32 \<Rightarrow> cplayer \<Rightarrow> nat \<Rightarrow> u32 \<Rightarrow> bool" where
  "hasCapacity env w p pl i cnt \<longleftrightarrow> (if pl_cannotPickup pl then False
     else if pl_infiniteCapacity pl \<or> getTopParent w i = Some (OnPlayer p) then True
     else let itemWeight = (if isContainer w i then getWeight env w i else getBaseWeight (ce_types env) (cw_items w i)) in
       (if ity_stackable (itype env w i) then itemWeight * cnt else itemWeight) \<le> getFreeCapacity pl)"

text \<open>What a container that the player carries asks: the branch of \<open>Player::queryAdd\<close> for child containers.\<close>

definition player_queryAdd :: "cenv \<Rightarrow> cworld \<Rightarrow> u32 \<Rightarrow> nat \<Rightarrow> u32 \<Rightarrow> u32 \<Rightarrow> return_value" where
  "player_queryAdd env w p i cnt flags = (case cw_players w p of None \<Rightarrow> RETURNVALUE_NOTPOSSIBLE
     | Some pl \<Rightarrow> if getOwnerId w i \<noteq> 0 \<and> \<not> isOwner env w i p then RETURNVALUE_ITEMISNOTYOURS
         else if hasBitSet FLAG_NOLIMIT flags \<or> hasCapacity env w p pl i cnt then RETURNVALUE_NOERROR
         else RETURNVALUE_NOTENOUGHCAPACITY)"

definition is_inbox :: "cworld \<Rightarrow> cyl \<Rightarrow> bool" where
  "is_inbox w cy \<longleftrightarrow> (case cyl_container w cy of None \<Rightarrow> False
     | Some d \<Rightarrow> (case getBox w d of None \<Rightarrow> False | Some b \<Rightarrow> bx_inbox b))"

text \<open>The walk over the parents of the container: the item must not be one of them.\<close>

fun parents_query :: "nat \<Rightarrow> cworld \<Rightarrow> bool \<Rightarrow> nat \<Rightarrow> cyl option \<Rightarrow> return_value" where
  "parents_query 0 w noLimit i cylinder = RETURNVALUE_NOTPOSSIBLE"
| "parents_query (Suc n) w noLimit i None = RETURNVALUE_NOERROR"
| "parents_query (Suc n) w noLimit i (Some cylinder) = (if cylinder = InItem i then RETURNVALUE_THISISIMPOSSIBLE
     else if \<not> noLimit \<and> is_inbox w cylinder then RETURNVALUE_CONTAINERNOTENOUGHROOM
     else if cyl_parent w cylinder = Some cylinder then RETURNVALUE_NOTPOSSIBLE
     else parents_query n w noLimit i (cyl_parent w cylinder))"

definition owner_query :: "cenv \<Rightarrow> cworld \<Rightarrow> nat \<Rightarrow> nat \<Rightarrow> return_value" where
  "owner_query env w c i = (if getOwnerId w i = 0 then RETURNVALUE_NOERROR
     else if (case getTopParent w c of Some (OnPlayer p) \<Rightarrow> \<not> isOwner env w i p | _ \<Rightarrow> False) then RETURNVALUE_ITEMISNOTYOURS
     else if getOwnerId w c \<noteq> 0 \<and> getOwnerId w c \<noteq> getOwnerId w i then RETURNVALUE_ITEMISNOTYOURS
     else RETURNVALUE_NOERROR)"

text \<open>The limits on the number of items and containers, counted below the container that \<open>getTopParentContainer\<close> finds.\<close>

definition limit_query :: "cenv \<Rightarrow> cworld \<Rightarrow> nat \<Rightarrow> nat \<Rightarrow> return_value" where
  "limit_query env w c i = (case (getTopParentContainer w c, getBox w c) of
     (Some root, Some b) \<Rightarrow>
       if isContainer w i
       then if getContainerHoldingCount w i + 1 + getContainerHoldingCount w root > ce_maxContainer env then RETURNVALUE_CONTAINERISFULL
         else if getItemHoldingCount w i + 1 + getItemHoldingCount w root > bx_maxItems b then RETURNVALUE_CONTAINERISFULL
         else RETURNVALUE_NOERROR
       else if getItemHoldingCount w root + 1 > bx_maxItems b then RETURNVALUE_CONTAINERISFULL
       else RETURNVALUE_NOERROR
   | _ \<Rightarrow> RETURNVALUE_NOERROR)"

text \<open>The topmost cylinder is another container, which agrees at once, or the player who carries this one.\<close>

definition top_query :: "cenv \<Rightarrow> cworld \<Rightarrow> nat \<Rightarrow> nat \<Rightarrow> u32 \<Rightarrow> u32 \<Rightarrow> return_value" where
  "top_query env w c i addCount flags = (case getTopParent w c of
     Some (OnPlayer p) \<Rightarrow> player_queryAdd env w p i addCount (or flags FLAG_CHILDISOWNER)
   | _ \<Rightarrow> RETURNVALUE_NOERROR)"

definition queryAdd :: "cenv \<Rightarrow> cworld \<Rightarrow> nat \<Rightarrow> int \<Rightarrow> nat \<Rightarrow> u32 \<Rightarrow> u32 \<Rightarrow> return_value" where
  "queryAdd env w c addIndex i addCount flags = (case getBox w c of None \<Rightarrow> RETURNVALUE_NOTPOSSIBLE | Some b \<Rightarrow>
     if hasBitSet FLAG_CHILDISOWNER flags then RETURNVALUE_NOERROR
     else if \<not> bx_unlocked b then RETURNVALUE_NOTPOSSIBLE
     else if \<not> ity_pickupable (itype env w i) then RETURNVALUE_CANNOTPICKUP
     else if i = c then RETURNVALUE_THISISIMPOSSIBLE
     else if owner_query env w c i \<noteq> RETURNVALUE_NOERROR then owner_query env w c i
     else let noLimit = hasBitSet FLAG_NOLIMIT flags; r = parents_query (chain_fuel w) w noLimit i (getParent w c) in
       if r \<noteq> RETURNVALUE_NOERROR then r
       else if \<not> noLimit \<and> addIndex = INDEX_WHEREEVER \<and> unat (bx_maxSize b) \<le> length (bx_items b) \<and> \<not> bx_pagination b
       then RETURNVALUE_CONTAINERNOTENOUGHROOM
       else if limit_query env w c i \<noteq> RETURNVALUE_NOERROR then limit_query env w c i
       else if ity_quiver (itype env w c) \<and> \<not> ity_ammo (itype env w i) then RETURNVALUE_ONLYAMMOINQUIVER
       else top_query env w c i addCount flags)"

text \<open>Room on the stacks of a container, for an item that may go anywhere.\<close>

definition stack_room :: "cenv \<Rightarrow> cworld \<Rightarrow> nat \<Rightarrow> u32" where
  "stack_room env w j = word_of_int (uint (getStackSize env w j) - uint (itemCount w j))"

definition stack_slots :: "cenv \<Rightarrow> cworld \<Rightarrow> nat \<Rightarrow> nat \<Rightarrow> u32 \<Rightarrow> u32" where
  "stack_slots env w c i flags = snd (fold (\<lambda>j (slotIndex, n).
     if j \<noteq> i \<and> equals w j (Some i) \<and> itemCount w j < getStackSize env w j
     then (slotIndex + 1, if queryAdd env w c slotIndex i (stack_room env w j) flags = RETURNVALUE_NOERROR
         then n + stack_room env w j else n)
     else (slotIndex, n)) (itemlist w c) (0, 0))"

definition queryMaxCount :: "cenv \<Rightarrow> cworld \<Rightarrow> nat \<Rightarrow> int \<Rightarrow> nat \<Rightarrow> u32 \<Rightarrow> u32 \<Rightarrow> return_value \<times> u32" where
  "queryMaxCount env w c index i cnt flags = (case getBox w c of None \<Rightarrow> (RETURNVALUE_NOTPOSSIBLE, 0) | Some b \<Rightarrow>
     if hasBitSet FLAG_NOLIMIT flags \<or> bx_pagination b then (RETURNVALUE_NOERROR, max 1 cnt)
     else let d = word_of_int (uint (bx_maxSize b) - int (length (bx_items b))) :: u32; freeSlots = (if d <s 0 then 0 else d) in
       if ity_stackable (itype env w i)
       then let n = (if index = INDEX_WHEREEVER then stack_slots env w c i flags
               else case getItemByIndex w c index of None \<Rightarrow> 0
                 | Some j \<Rightarrow> if equals w i (Some j) \<and> itemCount w j < getStackSize env w j then stack_room env w j else 0);
           maxQueryCount = freeSlots * ucast (getStackSize env w i) + n
         in (if maxQueryCount < cnt then RETURNVALUE_CONTAINERNOTENOUGHROOM else RETURNVALUE_NOERROR, maxQueryCount)
       else (if freeSlots = 0 then RETURNVALUE_CONTAINERNOTENOUGHROOM else RETURNVALUE_NOERROR, freeSlots))"

definition queryRemove :: "cenv \<Rightarrow> cworld \<Rightarrow> nat \<Rightarrow> nat \<Rightarrow> u32 \<Rightarrow> u32 \<Rightarrow> return_value" where
  "queryRemove env w c i cnt flags = (if getThingIndex w c i = -1 then RETURNVALUE_NOTPOSSIBLE
     else if cnt = 0 \<or> ity_stackable (itype env w i) \<and> ucast (itemCount w i) < cnt then RETURNVALUE_NOTPOSSIBLE
     else if \<not> ity_movable (itype env w i) \<and> \<not> hasBitSet FLAG_IGNORENOTMOVABLE flags then RETURNVALUE_NOTMOVABLE
     else RETURNVALUE_NOERROR)"

text \<open>The container, the index and the item to stack with.\<close>

fun find_stack :: "cenv \<Rightarrow> cworld \<Rightarrow> nat \<Rightarrow> int \<Rightarrow> nat list \<Rightarrow> (int \<times> nat) option" where
  "find_stack env w i n [] = None"
| "find_stack env w i n (j # js) = (if j \<noteq> i \<and> equals w j (Some i) \<and> itemCount w j < getStackSize env w j then Some (n, j)
     else find_stack env w i (n + 1) js)"

definition auto_stack :: "cenv \<Rightarrow> cworld \<Rightarrow> nat \<Rightarrow> nat \<Rightarrow> u32 \<Rightarrow> int \<Rightarrow> nat option \<Rightarrow> int \<times> nat option" where
  "auto_stack env w c i flags index destItem =
    (if \<not> hasBitSet FLAG_IGNOREAUTOSTACK flags \<and> ity_stackable (itype env w i) \<and> getParent w i \<noteq> Some (InItem c)
     then if (case destItem of None \<Rightarrow> False | Some j \<Rightarrow> equals w j (Some i) \<and> itemCount w j < getStackSize env w j)
       then (index, destItem)
       else (case find_stack env w i 0 (itemlist w c) of None \<Rightarrow> (index, destItem) | Some (n, j) \<Rightarrow> (n, Some j))
     else (index, destItem))"

definition queryDestination :: "cenv \<Rightarrow> cworld \<Rightarrow> nat \<Rightarrow> int \<Rightarrow> nat \<Rightarrow> nat option \<Rightarrow> u32 \<Rightarrow> nat \<times> int \<times> nat option" where
  "queryDestination env w c index i destItem flags = (case getBox w c of None \<Rightarrow> (c, index, destItem) | Some b \<Rightarrow>
     if \<not> bx_unlocked b then (c, index, None)
     else if index = 254
     then (case getParentContainer w c of Some d \<Rightarrow> (d, INDEX_WHEREEVER, None) | None \<Rightarrow> (c, INDEX_WHEREEVER, None))
     else let (index, destItem) = (if index = 255 \<or> sint (bx_maxSize b) \<le> index \<and> \<not> bx_pagination b then (INDEX_WHEREEVER, None)
           else (index, destItem));
         destItem = (if index \<noteq> INDEX_WHEREEVER then (case getItemByIndex w c index of Some j \<Rightarrow> Some j | None \<Rightarrow> destItem) else destItem)
       in (case (if index \<noteq> INDEX_WHEREEVER then destItem else None) of
           Some d \<Rightarrow> if isContainer w d then (d, INDEX_WHEREEVER, None)
             else (c, auto_stack env w c i flags index destItem)
         | None \<Rightarrow> (c, auto_stack env w c i flags index destItem)))"

subsection \<open>Changes\<close>

definition updateInventoryWeight :: "cenv \<Rightarrow> u32 \<Rightarrow> cworld \<Rightarrow> cworld" where
  "updateInventoryWeight env p w = (case cw_players w p of None \<Rightarrow> w | Some pl \<Rightarrow>
     if pl_infiniteCapacity pl then w
     else w\<lparr>cw_players := (cw_players w)(p \<mapsto> pl\<lparr>pl_inventoryWeight :=
       fold (\<lambda>s n. case s of None \<Rightarrow> n | Some i \<Rightarrow> n + getWeight env w i) (pl_inventory pl) 0\<rparr>)\<rparr>)"

text \<open>\<open>postAddNotification\<close> and \<open>postRemoveNotification\<close>: a player who carries the container weighs everything anew.\<close>

definition notify :: "cenv \<Rightarrow> nat \<Rightarrow> cworld \<Rightarrow> cworld" where
  "notify env c w = (case getTopParent w c of Some (OnPlayer p) \<Rightarrow> updateInventoryWeight env p w | _ \<Rightarrow> w)"

text \<open>The destination is told of an item when it is in its list.\<close>

definition notify_item :: "cenv \<Rightarrow> nat \<Rightarrow> nat option \<Rightarrow> cworld \<Rightarrow> cworld" where
  "notify_item env c i w = (case i of None \<Rightarrow> w | Some i \<Rightarrow> if getThingIndex w c i = -1 then w else notify env c w)"

definition push_item :: "cenv \<Rightarrow> nat \<Rightarrow> (nat list \<Rightarrow> nat list) \<Rightarrow> nat \<Rightarrow> cworld \<Rightarrow> cworld" where
  "push_item env c f i w = (let w = upd_box c (\<lambda>b. b\<lparr>bx_items := f (bx_items b)\<rparr>) (setParent (Some (InItem c)) i w)
     in updateItemWeight c (getWeight env w i) w)"

definition internalAddThing :: "cenv \<Rightarrow> nat \<Rightarrow> nat \<Rightarrow> cworld \<Rightarrow> cworld" where
  "internalAddThing env c i w = push_item env c (\<lambda>l. i # l) i w"

text \<open>The index is compared with the capacity and otherwise unused: the item goes to the front.\<close>

definition addThing :: "cenv \<Rightarrow> nat \<Rightarrow> int \<Rightarrow> nat \<Rightarrow> cworld \<Rightarrow> cworld" where
  "addThing env c index i w = (case getBox w c of None \<Rightarrow> w
     | Some b \<Rightarrow> if sint (bx_maxSize b) \<le> index then w else push_item env c (\<lambda>l. i # l) i w)"

definition addItemBack :: "cenv \<Rightarrow> nat \<Rightarrow> nat \<Rightarrow> cworld \<Rightarrow> cworld" where
  "addItemBack env c i w = push_item env c (\<lambda>l. l @ [i]) i w"

text \<open>An item of the store is changed by a function of \<open>Item\<close>, which may create its attribute object.\<close>

definition upd_attrs :: "nat \<Rightarrow> (citem \<Rightarrow> citem) \<Rightarrow> cworld \<Rightarrow> cworld" where
  "upd_attrs i f = upd_item i (\<lambda>x. let y = f x in y\<lparr>ci_attributePtr := ci_attributePtr x \<or> it_attrs y \<noteq> []\<rparr>)"

definition updateThing :: "cenv \<Rightarrow> nat \<Rightarrow> nat \<Rightarrow> u16 \<Rightarrow> u32 \<Rightarrow> cworld \<Rightarrow> cworld" where
  "updateThing env c i itemId cnt w = (if getThingIndex w c i = -1 then w
     else let oldWeight = getWeight env w i;
       w = upd_attrs i (setID (ce_types env) itemId) w;
       w = upd_attrs i (setSubType (ce_types env) (ucast cnt)) w
     in updateItemWeight c (- oldWeight + getWeight env w i) w)"

definition replaceThing :: "cenv \<Rightarrow> nat \<Rightarrow> nat \<Rightarrow> nat \<Rightarrow> cworld \<Rightarrow> cworld" where
  "replaceThing env c index i w = (case getItemByIndex w c (int index) of None \<Rightarrow> w
     | Some replacedItem \<Rightarrow> let
         w = upd_box c (\<lambda>b. b\<lparr>bx_items := (bx_items b)[index := i]\<rparr>) w;
         w = setParent (Some (InItem c)) i w;
         w = updateItemWeight c (- getWeight env w replacedItem + getWeight env w i) w
       in setParent None replacedItem w)"

definition erase_item :: "nat \<Rightarrow> nat \<Rightarrow> cworld \<Rightarrow> cworld" where
  "erase_item c i w = upd_box c (\<lambda>b. b\<lparr>bx_items := remove1 i (bx_items b)\<rparr>) (setParent None i w)"

definition removeThing :: "cenv \<Rightarrow> nat \<Rightarrow> nat \<Rightarrow> u32 \<Rightarrow> cworld \<Rightarrow> cworld" where
  "removeThing env c i cnt w = (if getThingIndex w c i = -1 then w
     else if ity_stackable (itype env w i) \<and> cnt \<noteq> ucast (itemCount w i)
     then let d = ucast (itemCount w i) - cnt; newCount = ucast (if d <s 0 then 0 else d) :: u8;
         oldWeight = getWeight env w i;
         w = upd_item i (\<lambda>x. x\<lparr>it_count := newCount\<rparr>) w
       in updateItemWeight c (- oldWeight + getWeight env w i) w
     else erase_item c i (updateItemWeight c (- getWeight env w i) w))"

text \<open>\<open>Container::removeItem\<close> takes the item out of the list and leaves the weights as they are.\<close>

definition container_removeItem :: "nat \<Rightarrow> nat \<Rightarrow> cworld \<Rightarrow> cworld" where
  "container_removeItem c i w = (if i \<in> set (itemlist w c) then erase_item c i w else w)"

text \<open>A copy of an item that is no container, at the next free address; \<open>None\<close> when the type is unknown.\<close>

definition clone_item :: "cenv \<Rightarrow> nat \<Rightarrow> cworld \<Rightarrow> (nat \<times> cworld) option" where
  "clone_item env i w = (let x = cw_items w i in case CreateItem (ce_types env) (it_id x) (ucast (it_count x)) of None \<Rightarrow> None
     | Some y \<Rightarrow> Some (cw_next w, w\<lparr>cw_next := Suc (cw_next w), cw_items := (cw_items w)(cw_next w :=
         \<lparr>it_id = it_id y, it_count = it_count y,
          it_attrs = (if ci_attributePtr x then it_attrs x else it_attrs y),
          it_custom = (if ci_attributePtr x then it_custom x else it_custom y),
          ci_attributePtr = ci_attributePtr x \<or> it_attrs y \<noteq> [], ci_parent = None, ci_box = None\<rparr>)\<rparr>))"

subsection \<open>Moving\<close>

text \<open>The destination is asked until it answers with itself, at most sixteen times.\<close>

fun destination :: "nat \<Rightarrow> cenv \<Rightarrow> cworld \<Rightarrow> nat \<Rightarrow> nat \<Rightarrow> int \<Rightarrow> nat option \<Rightarrow> u32 \<Rightarrow> nat \<times> int \<times> nat option \<times> u32" where
  "destination n env w i toCylinder index toItem flags =
    (case queryDestination env w toCylinder index i toItem flags of (subCylinder, index, toItem) \<Rightarrow>
      if subCylinder = toCylinder then (toCylinder, index, toItem, flags)
      else (case n of 0 \<Rightarrow> (subCylinder, index, toItem, 0) | Suc n \<Rightarrow> destination n env w i subCylinder index toItem 0))"

declare destination.simps [simp del]

text \<open>Whether the destination is inside an item that is being traded.\<close>

fun in_trade_item :: "nat \<Rightarrow> cworld \<Rightarrow> nat \<Rightarrow> cyl option \<Rightarrow> bool" where
  "in_trade_item 0 w t cylinder = False"
| "in_trade_item (Suc n) w t None = False"
| "in_trade_item (Suc n) w t (Some cylinder) = (cylinder = InItem t \<or> in_trade_item n w t (cyl_parent w cylinder))"

text \<open>The part of \<open>Game::internalMoveItem\<close> after the checks, with the amount to move; \<open>None\<close> when the copy fails.
  The answer is the item that was moved.\<close>

definition transfer_item :: "cenv \<Rightarrow> nat \<Rightarrow> nat \<Rightarrow> int \<Rightarrow> nat \<Rightarrow> u32 \<Rightarrow> nat option \<Rightarrow> cworld \<Rightarrow> (nat \<times> cworld) option" where
  "transfer_item env fromCylinder toCylinder index i m toItem w = (let
     stackable = ity_stackable (itype env w i);
     w = removeThing env fromCylinder i m w;
     n = (case toItem of None \<Rightarrow> 0 | Some t \<Rightarrow> if stackable \<and> equals w i (Some t)
       then min (word_of_int (uint (getStackSize env w t) - uint (itemCount w t))) m else 0);
     updateItem = (if stackable \<and> equals w i toItem then toItem else None);
     w = (case updateItem of None \<Rightarrow> w
       | Some t \<Rightarrow> updateThing env toCylinder t (it_id (cw_items w t)) (ucast (itemCount w t) + n) w);
     newCount = m - n;
     r = (if \<not> stackable then Some (Some i, w)
       else if 0 <s newCount then (case clone_item env i w of None \<Rightarrow> None
           | Some (j, w) \<Rightarrow> Some (Some j, upd_item j (\<lambda>x. x\<lparr>it_count := ucast newCount\<rparr>) w))
       else Some (None, w))
   in case r of None \<Rightarrow> None
     | Some (moveItem, w) \<Rightarrow>
         let w = (case moveItem of None \<Rightarrow> w | Some j \<Rightarrow> addThing env toCylinder index j w);
           w = notify_item env toCylinder updateItem (notify_item env toCylinder moveItem (notify env fromCylinder w))
         in Some (case moveItem of None \<Rightarrow> i | Some j \<Rightarrow> j, w))"

text \<open>\<open>Game::internalMoveItem\<close> between containers.  The exchange of two items is asked for by inventory slots only
  (\<open>RETURNVALUE_NEEDEXCHANGE\<close>), never by a container.\<close>

definition internalMoveItem :: "cenv \<Rightarrow> nat \<Rightarrow> nat \<Rightarrow> int \<Rightarrow> nat \<Rightarrow> u32 \<Rightarrow> u32 \<Rightarrow> nat option \<Rightarrow> cworld
    \<Rightarrow> (return_value \<times> nat option \<times> cworld) option" where
  "internalMoveItem env fromCylinder toCylinder index i cnt flags tradeItem w =
    (case destination 15 env w i toCylinder index None flags of (toCylinder, index, toItem, flags) \<Rightarrow>
      if toItem = Some i then Some (RETURNVALUE_NOERROR, None, w)
      else let cnt = (if ity_stackable (itype env w i) \<and> cnt = 255 \<and> getParent w fromCylinder = Some (InItem toCylinder)
              then ucast (itemCount w i) else cnt);
            ret = queryRemove env w fromCylinder i 1 flags in
        if ret \<noteq> RETURNVALUE_NOERROR then Some (ret, None, w)
        else let ret = queryAdd env w toCylinder index i cnt flags in
        if ret \<noteq> RETURNVALUE_NOERROR then Some (ret, None, w)
        else (case queryMaxCount env w toCylinder index i cnt flags of (retMaxCount, maxQueryCount) \<Rightarrow>
          if retMaxCount \<noteq> RETURNVALUE_NOERROR \<and> maxQueryCount = 0 then Some (retMaxCount, None, w)
          else let m = (if ity_stackable (itype env w i) then min cnt maxQueryCount else maxQueryCount);
              ret = queryRemove env w fromCylinder i m flags in
            if ret \<noteq> RETURNVALUE_NOERROR then Some (ret, None, w)
            else if (case tradeItem of None \<Rightarrow> False | Some t \<Rightarrow> in_trade_item (chain_fuel w) w t (Some (InItem toCylinder)))
            then Some (RETURNVALUE_NOTENOUGHROOM, None, w)
            else (case transfer_item env fromCylinder toCylinder index i m toItem w of None \<Rightarrow> None
              | Some (moved, w) \<Rightarrow> Some (if ity_stackable (itype env w i) \<and> maxQueryCount < cnt then retMaxCount else RETURNVALUE_NOERROR,
                  Some moved, w))))"

subsection \<open>Adding\<close>

definition ITEM_REWARD_CONTAINER :: u16 where "ITEM_REWARD_CONTAINER = 19202"

text \<open>\<open>Game::internalAddItem\<close> into a container.  What does not fit on the stack that was found is added as an item of its own;
  each round has a smaller count, so that 256 rounds are enough.  \<open>None\<close> is a copy that failed or no rounds left.
  The number in the answer is what could not be added.\<close>

fun add_loop :: "nat \<Rightarrow> cenv \<Rightarrow> nat \<Rightarrow> nat \<Rightarrow> int \<Rightarrow> u32 \<Rightarrow> bool \<Rightarrow> cworld \<Rightarrow> (return_value \<times> u32 \<times> cworld) option" where
  "add_loop 0 env destCylinder i index flags test w = None"
| "add_loop (Suc f) env destCylinder i index flags test w =
    (case queryDestination env w destCylinder index i None flags of (toCylinder, index, toItem) \<Rightarrow>
      let cnt = ucast (itemCount w i); ret = queryAdd env w toCylinder index i cnt flags in
      if ret \<noteq> RETURNVALUE_NOERROR then Some (ret, 0, w)
      else (case queryMaxCount env w destCylinder INDEX_WHEREEVER i cnt flags of (ret, maxQueryCount) \<Rightarrow>
        if ret \<noteq> RETURNVALUE_NOERROR \<and> it_id (cw_items w destCylinder) \<noteq> ITEM_REWARD_CONTAINER then Some (ret, 0, w)
        else if test then Some (RETURNVALUE_NOERROR, 0, w)
        else (case (if ity_stackable (itype env w i) \<and> equals w i toItem then toItem else None) of
            None \<Rightarrow> Some (RETURNVALUE_NOERROR, 0, notify_item env toCylinder (Some i) (addThing env toCylinder index i w))
          | Some t \<Rightarrow> let m = min cnt maxQueryCount;
                n = min (word_of_int (uint (getStackSize env w t) - uint (itemCount w t))) m;
                w = updateThing env toCylinder t (it_id (cw_items w t)) (ucast (itemCount w t) + n) w;
                left = m - n in
              if 0 <s left
              then if ucast (itemCount w i) \<noteq> left
                then (case clone_item env i w of None \<Rightarrow> None
                  | Some (j, w) \<Rightarrow> (case add_loop f env destCylinder j INDEX_WHEREEVER flags False
                          (upd_item j (\<lambda>x. x\<lparr>it_count := ucast left\<rparr>) w) of None \<Rightarrow> None
                      | Some (ret, _, w) \<Rightarrow> Some (RETURNVALUE_NOERROR, if ret \<noteq> RETURNVALUE_NOERROR then left else 0, w)))
                else Some (RETURNVALUE_NOERROR, 0, notify_item env toCylinder (Some i) (addThing env toCylinder index i w))
              else Some (RETURNVALUE_NOERROR, 0, notify_item env toCylinder (Some t) w))))"

definition internalAddItem :: "cenv \<Rightarrow> nat \<Rightarrow> nat \<Rightarrow> int \<Rightarrow> u32 \<Rightarrow> bool \<Rightarrow> cworld \<Rightarrow> (return_value \<times> u32 \<times> cworld) option" where
  "internalAddItem env toCylinder i index flags test w = add_loop 256 env toCylinder i index flags test w"

end
