(* ===== verification/ContainerTree.thy ===== *)
theory ContainerTree
  imports Containers
begin

text \<open>
  Containers form a forest.  The first part is about parent functions in general: chains that end, their length, the
  set of what is below a node.  The second part is the invariant of the store (\<open>store_ok\<close>: the lists and the parents of
  items agree, nothing is listed twice, every chain of parents ends, free addresses are unused) and the accounting of
  the weights (\<open>offs\<close>: how far the stored weight of each container is from the sum of what it lists).  The third part
  is the iterator, which visits everything inside a container exactly once.
\<close>

subsection \<open>Chains of parents\<close>

inductive ends :: "('a \<Rightarrow> 'a option) \<Rightarrow> 'a \<Rightarrow> bool" for u where
  root: "u i = None \<Longrightarrow> ends u i"
| child: "u i = Some d \<Longrightarrow> ends u d \<Longrightarrow> ends u i"

definition climbs :: "('a \<Rightarrow> 'a option) \<Rightarrow> ('a \<times> 'a) set" where
  "climbs u = {(i, d). u i = Some d}"

fun short :: "('a \<Rightarrow> 'a option) \<Rightarrow> nat \<Rightarrow> 'a \<Rightarrow> bool" where
  "short u 0 i = False"
| "short u (Suc n) i = (case u i of None \<Rightarrow> True | Some d \<Rightarrow> short u n d)"

definition below :: "('a \<Rightarrow> 'a option) \<Rightarrow> 'a \<Rightarrow> 'a set" where
  "below u c = {x. (x, c) \<in> (climbs u)\<^sup>+}"

lemma climbs_iff [simp]: "(i, d) \<in> climbs u \<longleftrightarrow> u i = Some d"
  by (simp add: climbs_def)

lemma ends_acyclic: "ends u i \<Longrightarrow> (i, i) \<notin> (climbs u)\<^sup>+"
proof (induction rule: ends.induct)
  case (root i)
  then show ?case by (auto dest: tranclD)
next
  case (child i d)
  show ?case
  proof
    assume "(i, i) \<in> (climbs u)\<^sup>+"
    then obtain e where "(i, e) \<in> climbs u" "(e, i) \<in> (climbs u)\<^sup>*" by (auto dest: tranclD)
    then have "(d, i) \<in> (climbs u)\<^sup>*" using child.hyps(1) by simp
    then have "(d, d) \<in> (climbs u)\<^sup>+" using child.hyps(1) by (auto intro: rtrancl_into_trancl1)
    then show False using child.IH by blast
  qed
qed

lemma ancestors_step:
  assumes "u i = Some d" shows "{x. (i, x) \<in> (climbs u)\<^sup>*} = insert i {x. (d, x) \<in> (climbs u)\<^sup>*}"
  using assms by (auto elim: converse_rtranclE intro: converse_rtrancl_into_rtrancl)

lemma ends_short: "ends u i \<Longrightarrow> finite {x. (i, x) \<in> (climbs u)\<^sup>*} \<and> short u (card {x. (i, x) \<in> (climbs u)\<^sup>*}) i"
proof (induction rule: ends.induct)
  case (root i)
  then have "{x. (i, x) \<in> (climbs u)\<^sup>*} = {i}" by (auto elim: converse_rtranclE)
  then show ?case using root by simp
next
  case (child i d)
  have "i \<notin> {x. (d, x) \<in> (climbs u)\<^sup>*}"
  proof
    assume "i \<in> {x. (d, x) \<in> (climbs u)\<^sup>*}"
    then have "(d, d) \<in> (climbs u)\<^sup>+" using child.hyps(1) by (auto intro: rtrancl_into_trancl1)
    then show False using ends_acyclic [OF child.hyps(2)] by blast
  qed
  then show ?case using child by (simp add: ancestors_step [where u = u, OF child.hyps(1)])
qed

lemma short_mono: "short u n i \<Longrightarrow> n \<le> m \<Longrightarrow> short u m i"
proof (induction n arbitrary: m i)
  case (Suc n)
  then obtain k where "m = Suc k" by (cases m) auto
  then show ?case using Suc by (auto split: option.splits)
qed simp

lemma short_bound:
  assumes "ends u i" and small: "\<And>j d. u j = Some d \<Longrightarrow> d < N"
  shows "short u (Suc N) i"
proof -
  have "x \<in> insert i {..<N}" if "(i, x) \<in> (climbs u)\<^sup>*" for x
    using that by cases (simp_all add: small)
  then have "{x. (i, x) \<in> (climbs u)\<^sup>*} \<subseteq> insert i {..<N}" by blast
  then have "card {x. (i, x) \<in> (climbs u)\<^sup>*} \<le> card (insert i {..<N})" by (intro card_mono) auto
  also have "\<dots> \<le> Suc N" using card_insert_le_m1 [of "Suc N" "{..<N}" i] by simp
  finally show ?thesis by (rule short_mono [OF conjunct2 [OF ends_short [OF assms(1)]]])
qed

text \<open>Hanging a node under another one that is not below it.\<close>

lemma ends_hang:
  assumes "\<And>j. ends u j" "(c, i) \<notin> (climbs u)\<^sup>*" shows "ends (u(i := Some c)) j"
proof -
  have c: "ends (u(i := Some c)) d" if "ends u d" "(d, i) \<notin> (climbs u)\<^sup>*" for d using that
  proof (induction rule: ends.induct)
    case (root d)
    then have "d \<noteq> i" by auto
    then show ?case using root by (auto intro: ends.root)
  next
    case (child d e)
    have "(d, e) \<in> climbs u" using child.hyps(1) by simp
    then have "(e, i) \<notin> (climbs u)\<^sup>*" using child.prems by (meson converse_rtrancl_into_rtrancl)
    moreover have "d \<noteq> i" using child.prems by blast
    ultimately show ?case using child by (simp add: ends.child)
  qed
  have "ends (u(i := Some c)) c" by (rule c [OF assms])
  then have i: "ends (u(i := Some c)) i" by (rule ends.child [rotated]) simp
  show ?thesis using assms(1) [of j]
  proof (induction rule: ends.induct)
    case (root j)
    show ?case
    proof (cases "j = i")
      case False
      then show ?thesis using root by (intro ends.root) simp
    qed (use i in blast)
  next
    case (child j d)
    show ?case
    proof (cases "j = i")
      case False
      show ?thesis by (rule ends.child [OF _ child.IH]) (use False child.hyps in simp)
    qed (use i in blast)
  qed
qed

lemma ends_cut:
  assumes "ends u j" shows "ends (u(i := None)) j"
  using assms
proof (induction rule: ends.induct)
  case (root j)
  then show ?case by (intro ends.root) simp
next
  case (child j d)
  show ?case
  proof (cases "j = i")
    case False
    show ?thesis by (rule ends.child [OF _ child.IH]) (use False child.hyps in simp)
  qed (simp add: ends.root)
qed

subsection \<open>The store\<close>

definition up :: "cworld \<Rightarrow> nat \<Rightarrow> nat option" where
  "up w i = (case getParent w i of Some (InItem d) \<Rightarrow> Some d | _ \<Rightarrow> None)"

definition store_ok :: "cworld \<Rightarrow> bool" where
  "store_ok w \<longleftrightarrow> (\<forall>c i. i \<in> set (itemlist w c) \<longleftrightarrow> getParent w i = Some (InItem c)) \<and> (\<forall>c. distinct (itemlist w c)) \<and>
     (\<forall>i. getParent w i \<noteq> None \<or> isContainer w i \<longrightarrow> i < cw_next w) \<and> (\<forall>i. ends (up w) i)"

definition inside :: "cworld \<Rightarrow> nat \<Rightarrow> nat set" where
  "inside w c = below (up w) c"

text \<open>The stored weight of \<open>c\<close> is short of the sum of what it lists by \<open>g c\<close>.\<close>

definition offs :: "cenv \<Rightarrow> cworld \<Rightarrow> (nat \<Rightarrow> u32) \<Rightarrow> bool" where
  "offs env w g \<longleftrightarrow> (\<forall>c b. getBox w c = Some b \<longrightarrow> bx_totalWeight b + g c = sum_list (map (getWeight env w) (bx_items b)))"

definition weights_ok :: "cenv \<Rightarrow> cworld \<Rightarrow> bool" where
  "weights_ok env w \<longleftrightarrow> (\<forall>c b. getBox w c = Some b \<longrightarrow> bx_totalWeight b = sum_list (map (getWeight env w) (bx_items b)))"

lemma weights_offs: "weights_ok env w \<longleftrightarrow> offs env w (\<lambda>_. 0)"
  by (simp add: weights_ok_def offs_def)

text \<open>Reading after writing.\<close>

named_theorems store_simps "reading the store of items after a change"

lemma upd_item_simps [store_simps]:
  "cw_items (upd_item i f w) j = (if j = i then f (cw_items w i) else cw_items w j)"
  "cw_next (upd_item i f w) = cw_next w" "cw_players (upd_item i f w) = cw_players w"
  by (simp_all add: upd_item_def)

lemma upd_box_simps [store_simps]:
  "getBox (upd_box i f w) j = (if j = i then map_option f (getBox w i) else getBox w j)"
  "getParent (upd_box i f w) j = getParent w j"
  "isContainer (upd_box i f w) j = isContainer w j"
  "cw_next (upd_box i f w) = cw_next w" "cw_players (upd_box i f w) = cw_players w"
  "it_id (cw_items (upd_box i f w) j) = it_id (cw_items w j)"
  "item_getWeight types (cw_items (upd_box i f w) j) = item_getWeight types (cw_items w j)"
  by (auto simp: upd_box_def getBox_def getParent_def isContainer_def upd_item_simps item_getWeight_def getBaseWeight_def
      has_attr_def attr_u32_def get_int_def)

lemma setParent_simps [store_simps]:
  "getBox (setParent p i w) j = getBox w j"
  "getParent (setParent p i w) j = (if j = i then p else getParent w j)"
  "isContainer (setParent p i w) j = isContainer w j" "itemlist (setParent p i w) j = itemlist w j"
  "cw_next (setParent p i w) = cw_next w" "cw_players (setParent p i w) = cw_players w"
  "it_id (cw_items (setParent p i w) j) = it_id (cw_items w j)"
  "getWeight env (setParent p i w) j = getWeight env w j"
  by (auto simp: setParent_def getBox_def getParent_def isContainer_def itemlist_def getWeight_def upd_item_simps item_getWeight_def
      getBaseWeight_def has_attr_def attr_u32_def get_int_def)

lemma up_cong: "(\<And>j. getParent w' j = getParent w j) \<Longrightarrow> up w' = up w"
  by (rule ext) (simp add: up_def)

lemma up_setParent: "up (setParent p i w) = (up w)(i := case p of Some (InItem d) \<Rightarrow> Some d | _ \<Rightarrow> None)"
  by (rule ext) (auto simp: up_def store_simps split: option.splits cyl.splits)

lemma isContainer_box: "isContainer w c \<longleftrightarrow> (\<exists>b. getBox w c = Some b)"
  by (simp add: isContainer_def)

lemma store_okD:
  assumes "store_ok w"
  shows "i \<in> set (itemlist w c) \<longleftrightarrow> getParent w i = Some (InItem c)" "distinct (itemlist w c)"
    "getParent w i \<noteq> None \<Longrightarrow> i < cw_next w" "isContainer w i \<Longrightarrow> i < cw_next w" "ends (up w) i"
  using assms by (simp_all add: store_ok_def)

lemma up_iff: "store_ok w \<Longrightarrow> up w i = Some c \<longleftrightarrow> i \<in> set (itemlist w c)"
  by (auto simp: store_okD(1) up_def split: option.splits cyl.splits)

lemma up_container: assumes "store_ok w" "up w i = Some c" shows "isContainer w c"
  using assms by (cases "getBox w c") (simp_all add: up_iff itemlist_def isContainer_def)

lemma getParentContainer_up: "store_ok w \<Longrightarrow> getParentContainer w i = up w i"
  using up_container [of w i] by (auto simp: getParentContainer_def up_def split: option.splits cyl.splits)

lemma not_own_item: assumes "store_ok w" shows "c \<notin> set (itemlist w c)"
proof
  assume "c \<in> set (itemlist w c)"
  then have "(c, c) \<in> climbs (up w)" using up_iff [OF assms] by simp
  then have "(c, c) \<in> (climbs (up w))\<^sup>+" by (rule r_into_trancl)
  then show False using ends_acyclic [OF store_okD(5) [OF assms]] by blast
qed

lemma short_store: assumes "store_ok w" shows "short (up w) (Suc (cw_next w)) i"
proof (rule short_bound)
  show "ends (up w) i" using assms by (rule store_okD(5))
  show "d < cw_next w" if "up w j = Some d" for j d using store_okD(4) [OF assms up_container [OF assms that]] .
qed

text \<open>The structure of a store: everything but the weights and what is said of items.\<close>

definition same_forest :: "cworld \<Rightarrow> cworld \<Rightarrow> bool" where
  "same_forest w w' \<longleftrightarrow> (\<forall>j. getParent w' j = getParent w j) \<and> (\<forall>j. itemlist w' j = itemlist w j) \<and>
     (\<forall>j. isContainer w' j = isContainer w j) \<and> cw_next w' = cw_next w"

lemma same_forest_refl [simp]: "same_forest w w"
  by (simp add: same_forest_def)

lemma same_forest_trans [trans]: "same_forest w w' \<Longrightarrow> same_forest w' w'' \<Longrightarrow> same_forest w w''"
  by (simp add: same_forest_def)

lemma same_forestD:
  assumes "same_forest w w'"
  shows "getParent w' = getParent w" "itemlist w' = itemlist w" "isContainer w' = isContainer w" "cw_next w' = cw_next w" "up w' = up w"
proof -
  show "getParent w' = getParent w" "itemlist w' = itemlist w" "isContainer w' = isContainer w" "cw_next w' = cw_next w"
    using assms unfolding same_forest_def by (auto intro!: ext)
  then show "up w' = up w" by (intro up_cong) simp
qed

lemma same_forest_store: assumes "same_forest w w'" "store_ok w" shows "store_ok w'"
  using assms(2) unfolding store_ok_def same_forestD [OF assms(1)] .

lemma box_weight_forest: "(\<And>b. bx_items (f b) = bx_items b) \<Longrightarrow> same_forest w (upd_box c f w)"
  by (auto simp: same_forest_def store_simps itemlist_def split: option.splits)

lemma weight_loop_forest: "same_forest w (weight_loop n c d w)"
proof (induction n arbitrary: c w)
  case (Suc n)
  let ?w = "upd_box c (\<lambda>b. b\<lparr>bx_totalWeight := bx_totalWeight b + d\<rparr>) w"
  have 1: "same_forest w ?w" by (rule box_weight_forest) simp
  show ?case
  proof (cases "getParentContainer ?w c")
    case None
    then show ?thesis using 1 by simp
  next
    case (Some p)
    then show ?thesis using same_forest_trans [OF 1 Suc.IH [of ?w p]] by simp
  qed
qed simp

lemma sum_list_update:
  assumes "distinct xs" "x \<in> set xs" "\<And>y. y \<noteq> x \<Longrightarrow> f y = g y" "f x = g x + (d :: u32)"
  shows "sum_list (map f xs) = sum_list (map g xs) + d"
proof -
  have "map f (remove1 x xs) = map g (remove1 x xs)" using assms(1,3) by auto
  then have "sum_list (map f (remove1 x xs)) = sum_list (map g (remove1 x xs))" by (rule arg_cong)
  then show ?thesis
    using assms(2,4) sum_list_map_remove1 [of x xs f] sum_list_map_remove1 [of x xs g] by (simp add: algebra_simps)
qed

text \<open>An update along the chain of parents takes its amount off what the container was short of, and nothing else.\<close>

lemma getWeight_upd_total:
  "getWeight env (upd_box c (\<lambda>b. b\<lparr>bx_totalWeight := bx_totalWeight b + d\<rparr>) w) j =
     (if j = c \<and> isContainer w c then getWeight env w j + d else getWeight env w j)"
  by (auto simp: getWeight_def store_simps isContainer_def split: option.splits)

lemma weight_loop_offs:
  assumes "store_ok w" "short (up w) n c" "offs env w g" "isContainer w c"
  shows "offs env (weight_loop n c d w) (g(c := g c - d))"
  using assms
proof (induction n arbitrary: c w g)
  case (Suc n)
  let ?w = "upd_box c (\<lambda>b. b\<lparr>bx_totalWeight := bx_totalWeight b + d\<rparr>) w"
  let ?g = "g(c := g c - d)"
  have forest: "same_forest w ?w" by (rule box_weight_forest) simp
  have ok: "store_ok ?w" by (rule same_forest_store [OF forest Suc.prems(1)])
  have parent: "getParentContainer ?w c = up w c" using getParentContainer_up [OF ok] same_forestD(5) [OF forest] by simp
  have off: "bx_totalWeight b + ?g k + (if up w c = Some k then d else 0) = sum_list (map (getWeight env ?w) (bx_items b))"
    if b: "getBox ?w k = Some b" for k b
  proof -
    obtain b0 where b0: "getBox w k = Some b0" "bx_items b = bx_items b0"
        "bx_totalWeight b + ?g k = bx_totalWeight b0 + g k"
      using b Suc.prems(4) by (auto simp: store_simps isContainer_box split: if_splits)
    have sum: "bx_totalWeight b0 + g k = sum_list (map (getWeight env w) (bx_items b0))"
      using Suc.prems(3) b0(1) unfolding offs_def by blast
    have list: "itemlist w k = bx_items b0" using b0(1) by (simp add: itemlist_def)
    show ?thesis
    proof (cases "up w c = Some k")
      case True
      then have "c \<in> set (bx_items b0)" "distinct (bx_items b0)"
        using up_iff [OF Suc.prems(1)] store_okD(2) [OF Suc.prems(1), of k] list by simp_all
      then have "sum_list (map (getWeight env ?w) (bx_items b0)) = sum_list (map (getWeight env w) (bx_items b0)) + d"
        by (intro sum_list_update [of _ c]) (simp_all add: getWeight_upd_total Suc.prems(4))
      then show ?thesis using True b0 sum by (simp add: add.assoc [symmetric])
    next
      case False
      then have "c \<notin> set (bx_items b0)" using up_iff [OF Suc.prems(1)] list by simp
      then have "map (getWeight env ?w) (bx_items b0) = map (getWeight env w) (bx_items b0)"
        by (auto simp: getWeight_upd_total)
      then have "sum_list (map (getWeight env ?w) (bx_items b0)) = sum_list (map (getWeight env w) (bx_items b0))" by (rule arg_cong)
      then show ?thesis using False b0 sum by simp
    qed
  qed
  show ?case
  proof (cases "up w c")
    case None
    then show ?thesis using off parent unfolding offs_def by simp
  next
    case (Some p)
    have pc: "p \<noteq> c" using Some up_iff [OF Suc.prems(1)] not_own_item [OF Suc.prems(1)] by blast
    have "offs env ?w (?g(p := ?g p + d))"
      unfolding offs_def
    proof (intro allI impI)
      fix k b assume "getBox ?w k = Some b"
      then show "bx_totalWeight b + (?g(p := ?g p + d)) k = sum_list (map (getWeight env ?w) (bx_items b))"
        using off [of k b] Some by (cases "k = p") (simp_all add: add.assoc)
    qed
    moreover have "short (up ?w) n p" using Suc.prems(2) Some same_forestD(5) [OF forest] by simp
    moreover have "isContainer ?w p" using up_container [OF Suc.prems(1) Some] by (simp add: store_simps)
    ultimately have "offs env (weight_loop n p d ?w) ((?g(p := ?g p + d))(p := (?g(p := ?g p + d)) p - d))"
      using Suc.IH [OF ok] by blast
    moreover have "(?g(p := ?g p + d))(p := (?g(p := ?g p + d)) p - d) = ?g" using pc by (intro ext) simp
    ultimately have "offs env (weight_loop n p d ?w) ?g" by simp
    then show ?thesis using Some parent by (simp only: weight_loop.simps Let_def option.case)
  qed
qed simp

lemma updateItemWeight_offs:
  assumes "store_ok w" "offs env w g" "isContainer w c"
  shows "offs env (updateItemWeight c d w) (g(c := g c - d))" "same_forest w (updateItemWeight c d w)"
  unfolding updateItemWeight_def chain_fuel_def
  by (rule weight_loop_offs [OF assms(1) short_mono [OF short_store [OF assms(1)]] assms(2,3)], simp) (rule weight_loop_forest)

subsection \<open>Hanging, cutting and changing items\<close>

lemma itemlist_upd_box [store_simps]:
  "itemlist (upd_box c (\<lambda>b. b\<lparr>bx_items := f (bx_items b)\<rparr>) w) j = (if j = c \<and> isContainer w c then f (itemlist w c) else itemlist w j)"
  by (auto simp: itemlist_def store_simps isContainer_def split: option.splits)

lemma getWeight_upd_list [store_simps]:
  "getWeight env (upd_box c (\<lambda>b. b\<lparr>bx_items := f (bx_items b)\<rparr>) w) j = getWeight env w j"
  by (auto simp: getWeight_def store_simps split: option.splits)

lemma up_upd_box [store_simps]: "up (upd_box c f w) = up w"
  by (rule up_cong) (simp add: store_simps)

text \<open>An item that lies nowhere is put into a container that is not inside it.\<close>

lemma push_ok:
  assumes ok: "store_ok w" and offs: "offs env w g" and c: "isContainer w c"
    and i: "getParent w i = None" "i < cw_next w" "(c, i) \<notin> (climbs (up w))\<^sup>*"
    and f: "\<And>l. mset (f l) = add_mset i (mset l)"
    and w': "w' = upd_box c (\<lambda>b. b\<lparr>bx_items := f (bx_items b)\<rparr>) (setParent (Some (InItem c)) i w)"
  shows "store_ok w'" "offs env w' (g(c := g c + getWeight env w i))" "getWeight env w' = getWeight env w"
proof -
  have set: "set (f l) = insert i (set l)" for l using f [of l] by (metis set_mset_add_mset_insert set_mset_mset)
  have new: "i \<notin> set (itemlist w k)" for k using store_okD(1) [OF ok] i(1) by simp
  have dist: "distinct (f (itemlist w c))"
  proof -
    have "distinct (i # itemlist w c)" using new store_okD(2) [OF ok] by simp
    moreover have "mset (f (itemlist w c)) = mset (i # itemlist w c)" using f by simp
    ultimately show ?thesis using mset_eq_imp_distinct_iff by blast
  qed
  have up': "up w' = (up w)(i := Some c)" unfolding w' store_simps by (simp add: up_setParent)
  show "getWeight env w' = getWeight env w" by (rule ext) (simp add: w' store_simps)
  show "store_ok w'" unfolding store_ok_def
  proof (intro conjI allI)
    show "ends (up w') j" for j unfolding up' by (rule ends_hang [OF store_okD(5) [OF ok] i(3)])
    show "j \<in> set (itemlist w' k) \<longleftrightarrow> getParent w' j = Some (InItem k)" for k j
      using store_okD(1) [OF ok, of j] new c by (auto simp: w' store_simps set)
    show "distinct (itemlist w' k)" for k using dist store_okD(2) [OF ok] c by (simp add: w' store_simps)
    show "getParent w' j \<noteq> None \<or> isContainer w' j \<longrightarrow> j < cw_next w'" for j
      using store_okD(3,4) [OF ok] i(2) by (simp add: w' store_simps)
  qed
  show "offs env w' (g(c := g c + getWeight env w i))" unfolding offs_def
  proof (intro allI impI)
    fix k b assume b: "getBox w' k = Some b"
    have w: "getWeight env w' = getWeight env w" by (rule ext) (simp add: w' store_simps)
    show "bx_totalWeight b + (g(c := g c + getWeight env w i)) k = sum_list (map (getWeight env w') (bx_items b))"
    proof (cases "k = c")
      case True
      obtain b0 where b0: "getBox w c = Some b0" using c by (auto simp: isContainer_box)
      then have b': "b = b0\<lparr>bx_items := f (bx_items b0)\<rparr>" using b True by (simp add: w' store_simps)
      have "sum_list (map (getWeight env w) (f (bx_items b0))) = getWeight env w i + sum_list (map (getWeight env w) (bx_items b0))"
        using f [of "bx_items b0"] by (metis image_mset_add_mset mset_map sum_mset.insert sum_mset_sum_list)
      then show ?thesis using offs b0 b' True w unfolding offs_def by (simp add: ac_simps)
    next
      case False
      then show ?thesis using offs b w unfolding offs_def by (simp add: w' store_simps)
    qed
  qed
qed

lemma push_item_ok:
  assumes "store_ok w" "weights_ok env w" "isContainer w c" "getParent w i = None" "i < cw_next w" "(c, i) \<notin> (climbs (up w))\<^sup>*"
    and f: "\<And>l. mset (f l) = add_mset i (mset l)"
  shows "store_ok (push_item env c f i w)" "weights_ok env (push_item env c f i w)"
proof -
  let ?w = "upd_box c (\<lambda>b. b\<lparr>bx_items := f (bx_items b)\<rparr>) (setParent (Some (InItem c)) i w)"
  note p = push_ok [OF assms(1) assms(2) [unfolded weights_offs] assms(3-6) f refl]
  have c: "isContainer ?w c" using assms(3) by (simp add: store_simps)
  have e: "push_item env c f i w = updateItemWeight c (getWeight env w i) ?w" by (simp add: push_item_def p(3))
  note u = updateItemWeight_offs [OF p(1,2) c, of "getWeight env w i"]
  show "store_ok (push_item env c f i w)" unfolding e by (rule same_forest_store [OF u(2) p(1)])
  have "((\<lambda>_. 0)(c := 0 + getWeight env w i))(c := ((\<lambda>_. 0)(c := 0 + getWeight env w i)) c - getWeight env w i) = (\<lambda>_. 0)"
    by (rule ext) simp
  then show "weights_ok env (push_item env c f i w)" unfolding e weights_offs using u(1) by simp
qed

text \<open>An item is taken out of the container it is in.\<close>

lemma erase_ok:
  assumes ok: "store_ok w" and offs: "offs env w g" and i: "i \<in> set (itemlist w c)"
  shows "store_ok (erase_item c i w)" "offs env (erase_item c i w) (g(c := g c - getWeight env w i))"
    "getWeight env (erase_item c i w) = getWeight env w"
    "getParent (erase_item c i w) j = (if j = i then None else getParent w j)" "up (erase_item c i w) = (up w)(i := None)"
    "cw_next (erase_item c i w) = cw_next w" "isContainer (erase_item c i w) j = isContainer w j"
proof -
  let ?w = "erase_item c i w"
  have c: "isContainer w c" using i by (cases "getBox w c") (simp_all add: itemlist_def isContainer_def)
  have par: "getParent w i = Some (InItem c)" using store_okD(1) [OF ok] i by simp
  have other: "i \<notin> set (itemlist w k)" if "k \<noteq> c" for k using store_okD(1) [OF ok] par that by simp
  have dist: "distinct (itemlist w k)" for k by (rule store_okD(2) [OF ok])
  show w: "getWeight env ?w = getWeight env w" by (rule ext) (simp add: erase_item_def store_simps)
  show p: "getParent ?w j = (if j = i then None else getParent w j)" for j by (simp add: erase_item_def store_simps)
  show u: "up ?w = (up w)(i := None)" by (simp add: erase_item_def store_simps up_setParent)
  show n: "cw_next ?w = cw_next w" "isContainer ?w j = isContainer w j" for j by (simp_all add: erase_item_def store_simps)
  have l: "itemlist ?w k = (if k = c then remove1 i (itemlist w c) else itemlist w k)" for k
    using c by (simp add: erase_item_def store_simps)
  show "store_ok ?w" unfolding store_ok_def
  proof (intro conjI allI)
    show "ends (up ?w) j" for j unfolding u by (rule ends_cut [OF store_okD(5) [OF ok]])
    show "j \<in> set (itemlist ?w k) \<longleftrightarrow> getParent ?w j = Some (InItem k)" for k j
      using store_okD(1) [OF ok, of j] other dist [of c] by (auto simp: p l)
    show "distinct (itemlist ?w k)" for k using dist by (simp add: l)
    show "getParent ?w j \<noteq> None \<or> isContainer ?w j \<longrightarrow> j < cw_next ?w" for j
      using store_okD(3,4) [OF ok] by (simp add: p n)
  qed
  show "offs env ?w (g(c := g c - getWeight env w i))" unfolding offs_def
  proof (intro allI impI)
    fix k b assume b: "getBox ?w k = Some b"
    show "bx_totalWeight b + (g(c := g c - getWeight env w i)) k = sum_list (map (getWeight env ?w) (bx_items b))"
    proof (cases "k = c")
      case True
      obtain b0 where b0: "getBox w c = Some b0" using c by (auto simp: isContainer_box)
      then have b': "b = b0\<lparr>bx_items := remove1 i (bx_items b0)\<rparr>" using b True by (simp add: erase_item_def store_simps)
      have "i \<in> set (bx_items b0)" using i b0 by (simp add: itemlist_def)
      then have "sum_list (map (getWeight env w) (bx_items b0)) = getWeight env w i + sum_list (map (getWeight env w) (remove1 i (bx_items b0)))"
        by (rule sum_list_map_remove1)
      moreover have "bx_totalWeight b0 + g c = sum_list (map (getWeight env w) (bx_items b0))" using offs b0 unfolding offs_def by blast
      ultimately have "bx_totalWeight b0 + g c - getWeight env w i = sum_list (map (getWeight env w) (remove1 i (bx_items b0)))"
        by simp
      then show ?thesis using b' True w by (simp add: add_diff_eq)
    next
      case False
      then show ?thesis using offs b w unfolding offs_def by (simp add: erase_item_def store_simps)
    qed
  qed
qed

text \<open>An item changes, but neither its place nor its content.\<close>

lemma change_item_ok:
  assumes ok: "store_ok w" and offs: "offs env w g" and i: "i \<in> set (itemlist w c)"
    and f: "\<And>x. ci_parent (f x) = ci_parent x" "\<And>x. ci_box (f x) = ci_box x"
  shows "same_forest w (upd_item i f w)"
    "offs env (upd_item i f w) (g(c := g c + (getWeight env (upd_item i f w) i - getWeight env w i)))"
proof -
  let ?w = "upd_item i f w" and ?d = "getWeight env (upd_item i f w) i - getWeight env w i"
  have box: "getBox ?w j = getBox w j" for j by (simp add: getBox_def store_simps f)
  have par: "getParent w i = Some (InItem c)" using store_okD(1) [OF ok] i by simp
  show "same_forest w ?w" by (simp add: same_forest_def box itemlist_def isContainer_def getParent_def store_simps f)
  show "offs env ?w (g(c := g c + ?d))" unfolding offs_def
  proof (intro allI impI)
    fix k b assume "getBox ?w k = Some b"
    then have b: "getBox w k = Some b" using box by simp
    have sum: "bx_totalWeight b + g k = sum_list (map (getWeight env w) (bx_items b))" using offs b unfolding offs_def by blast
    have same: "getWeight env ?w j = getWeight env w j" if "j \<noteq> i" for j using that by (simp add: getWeight_def box store_simps)
    have d: "distinct (bx_items b)" using store_okD(2) [OF ok, of k] b by (simp add: itemlist_def)
    show "bx_totalWeight b + (g(c := g c + ?d)) k = sum_list (map (getWeight env ?w) (bx_items b))"
    proof (cases "k = c")
      case True
      then have "i \<in> set (bx_items b)" using i b by (simp add: itemlist_def)
      then have "sum_list (map (getWeight env ?w) (bx_items b)) = sum_list (map (getWeight env w) (bx_items b)) + ?d"
        by (rule sum_list_update [OF d _ same]) simp_all
      then show ?thesis using True sum by (simp add: add.assoc [symmetric])
    next
      case False
      then have "i \<notin> set (bx_items b)" using store_okD(1) [OF ok, of i k] par b by (auto simp: itemlist_def)
      then have "map (getWeight env ?w) (bx_items b) = map (getWeight env w) (bx_items b)"
        by (intro map_cong [OF refl] same) metis
      then have "sum_list (map (getWeight env ?w) (bx_items b)) = sum_list (map (getWeight env w) (bx_items b))" by (rule arg_cong)
      then show ?thesis using False sum by simp
    qed
  qed
qed

subsection \<open>The operations keep the forest and the weights\<close>

definition store_inv :: "cenv \<Rightarrow> cworld \<Rightarrow> bool" where
  "store_inv env w \<longleftrightarrow> store_ok w \<and> weights_ok env w"

lemma getThingIndex_iff: "getThingIndex w c i = -1 \<longleftrightarrow> i \<notin> set (itemlist w c)"
proof -
  have "index_of n i xs = -1 \<longleftrightarrow> i \<notin> set xs" if "0 \<le> n" for n xs
    using that by (induction n i xs rule: index_of.induct) auto
  then show ?thesis by (simp add: getThingIndex_def)
qed

lemma offs_zero: "(\<lambda>_. 0)(c := (0 :: u32)) = (\<lambda>_. 0)"
  by (rule ext) simp

lemma change_weight_ok:
  assumes inv: "store_inv env w" and i: "i \<in> set (itemlist w c)"
    and f: "\<And>x. ci_parent (f x) = ci_parent x" "\<And>x. ci_box (f x) = ci_box x"
    and w1: "w1 = upd_item i f w" and w': "w' = updateItemWeight c (- getWeight env w i + getWeight env w1 i) w1"
  shows "store_inv env w'" "same_forest w w'"
proof -
  have ok: "store_ok w" "offs env w (\<lambda>_. 0)" using inv by (simp_all add: store_inv_def weights_offs)
  note c = change_item_ok [OF ok i f, folded w1]
  have cont: "isContainer w1 c" using up_container [OF ok(1)] up_iff [OF ok(1)] i c(1) by (auto simp: same_forest_def)
  note u = updateItemWeight_offs [OF same_forest_store [OF c(1) ok(1)] c(2) cont, of "- getWeight env w i + getWeight env w1 i"]
  show "same_forest w w'" unfolding w' by (rule same_forest_trans [OF c(1) u(2)])
  then have "store_ok w'" by (rule same_forest_store [OF _ ok(1)])
  moreover have "offs env w' (\<lambda>_. 0)" using u(1) unfolding w' by (simp add: offs_zero fun_upd_def [symmetric])
  ultimately show "store_inv env w'" by (simp add: store_inv_def weights_offs)
qed

lemma setID_place: "ci_parent (setID types n x) = ci_parent x" "ci_box (setID types n x) = ci_box x"
  by (simp_all add: setID_def Let_def setDecaying_def setDuration_def set_int_def del_attr_def)

lemma setSubType_place: "ci_parent (setSubType types n x) = ci_parent x" "ci_box (setSubType types n x) = ci_box x"
  by (simp_all add: setSubType_def Let_def set_int_def)

lemma updateThing_ok:
  assumes "store_inv env w" shows "store_inv env (updateThing env c i itemId cnt w)" "same_forest w (updateThing env c i itemId cnt w)"
proof -
  let ?a = "\<lambda>h x. (let y = h x in y\<lparr>ci_attributePtr := ci_attributePtr x \<or> it_attrs y \<noteq> []\<rparr>)"
  let ?f = "\<lambda>x :: citem. ?a (setSubType (ce_types env) (ucast cnt)) (?a (setID (ce_types env) itemId) x)"
  have e: "upd_attrs i (setSubType (ce_types env) (ucast cnt)) (upd_attrs i (setID (ce_types env) itemId) w) = upd_item i ?f w"
    by (simp add: upd_attrs_def upd_item_def)
  have f: "ci_parent (?f x) = ci_parent x" "ci_box (?f x) = ci_box x" for x
    by (simp_all add: Let_def setID_place setSubType_place)
  have "store_inv env (updateThing env c i itemId cnt w) \<and> same_forest w (updateThing env c i itemId cnt w)"
  proof (cases "i \<in> set (itemlist w c)")
    case True
    then have u: "updateThing env c i itemId cnt w = updateItemWeight c (- getWeight env w i + getWeight env (upd_item i ?f w) i) (upd_item i ?f w)"
      unfolding updateThing_def Let_def e by (simp add: getThingIndex_iff)
    show ?thesis using change_weight_ok [OF assms True f refl u] by simp
  qed (use assms in \<open>simp add: updateThing_def getThingIndex_iff\<close>)
  then show "store_inv env (updateThing env c i itemId cnt w)" "same_forest w (updateThing env c i itemId cnt w)" by simp_all
qed

lemma getWeight_cong: "getBox w' i = getBox w i \<Longrightarrow> cw_items w' i = cw_items w i \<Longrightarrow> getWeight env w' i = getWeight env w i"
  by (simp add: getWeight_def)

text \<open>Weights along the chain above \<open>c\<close> change; the weight of an item in \<open>c\<close> does not.\<close>

lemma weight_loop_keeps:
  assumes "store_ok w" "short (up w) n c" "(c, i) \<notin> (climbs (up w))\<^sup>*"
  shows "getBox (weight_loop n c d w) i = getBox w i" "cw_items (weight_loop n c d w) i = cw_items w i"
proof -
  have "getBox (weight_loop n c d w) i = getBox w i \<and> cw_items (weight_loop n c d w) i = cw_items w i"
    using assms
  proof (induction n arbitrary: c w)
    case (Suc n)
    let ?w = "upd_box c (\<lambda>b. b\<lparr>bx_totalWeight := bx_totalWeight b + d\<rparr>) w"
    have forest: "same_forest w ?w" by (rule box_weight_forest) simp
    have ok: "store_ok ?w" by (rule same_forest_store [OF forest Suc.prems(1)])
    have parent: "getParentContainer ?w c = up w c" using getParentContainer_up [OF ok] same_forestD(5) [OF forest] by simp
    have ci: "c \<noteq> i" using Suc.prems(3) by blast
    then have same: "cw_items ?w i = cw_items w i" by (simp add: upd_box_def upd_item_def)
    show ?case
    proof (cases "up w c")
      case None
      then show ?thesis using parent same by (simp add: getBox_def)
    next
      case (Some p)
      then have "(p, i) \<notin> (climbs (up ?w))\<^sup>*" using Suc.prems(3) unfolding same_forestD(5) [OF forest]
        by (meson climbs_iff converse_rtrancl_into_rtrancl)
      moreover have "short (up ?w) n p" using Suc.prems(2) Some same_forestD(5) [OF forest] by simp
      ultimately show ?thesis using Suc.IH [OF ok, of p] parent Some same by (simp add: getBox_def)
    qed
  qed simp
  then show "getBox (weight_loop n c d w) i = getBox w i" "cw_items (weight_loop n c d w) i = cw_items w i" by simp_all
qed

lemma updateItemWeight_keeps:
  assumes "store_ok w" "(c, i) \<notin> (climbs (up w))\<^sup>*"
  shows "getBox (updateItemWeight c d w) i = getBox w i" "cw_items (updateItemWeight c d w) i = cw_items w i"
  unfolding updateItemWeight_def chain_fuel_def
  by (rule weight_loop_keeps [OF assms(1) short_mono [OF short_store [OF assms(1)]] assms(2)], simp)+

lemma member_not_above:
  assumes "store_ok w" "i \<in> set (itemlist w c)" shows "(c, i) \<notin> (climbs (up w))\<^sup>*"
proof
  assume "(c, i) \<in> (climbs (up w))\<^sup>*"
  moreover have "(i, c) \<in> climbs (up w)" using up_iff [OF assms(1)] assms(2) by simp
  ultimately have "(c, c) \<in> (climbs (up w))\<^sup>+" by (rule rtrancl_into_trancl1)
  then show False using ends_acyclic [OF store_okD(5) [OF assms(1)]] by blast
qed

lemma take_out_ok:
  assumes inv: "store_inv env w" and i: "i \<in> set (itemlist w c)"
    and w': "w' = erase_item c i (updateItemWeight c (- getWeight env w i) w)"
  shows "store_inv env w'" "getParent w' j = (if j = i then None else getParent w j)" "up w' = (up w)(i := None)"
    "cw_next w' = cw_next w" "isContainer w' j = isContainer w j" "cw_items w' i = (cw_items w i)\<lparr>ci_parent := None\<rparr>"
proof -
  let ?w = "updateItemWeight c (- getWeight env w i) w"
  have ok: "store_ok w" "offs env w (\<lambda>_. 0)" using inv by (simp_all add: store_inv_def weights_offs)
  have c: "isContainer w c" using up_container [OF ok(1)] up_iff [OF ok(1)] i by blast
  note u = updateItemWeight_offs [OF ok c, of "- getWeight env w i"]
  note keep = updateItemWeight_keeps [OF ok(1) member_not_above [OF ok(1) i], of "- getWeight env w i"]
  have ci: "c \<noteq> i" using not_own_item [OF ok(1)] i by blast
  have i': "i \<in> set (itemlist ?w c)" using i by (simp add: same_forestD(2) [OF u(2)])
  have wt: "getWeight env ?w i = getWeight env w i" by (rule getWeight_cong [OF keep])
  note e = erase_ok [OF same_forest_store [OF u(2) ok(1)] u(1) i', folded w', unfolded wt]
  have z: "((\<lambda>_. 0)(c := 0 - - getWeight env w i))(c := ((\<lambda>_. 0)(c := 0 - - getWeight env w i)) c - getWeight env w i) = (\<lambda>_. 0)"
    by (rule ext) simp
  show "store_inv env w'" using e(1,2) unfolding store_inv_def weights_offs z by blast
  show "getParent w' j = (if j = i then None else getParent w j)" "up w' = (up w)(i := None)"
    "cw_next w' = cw_next w" "isContainer w' j = isContainer w j"
    using e(4-7) same_forestD [OF u(2)] by simp_all
  show "cw_items w' i = (cw_items w i)\<lparr>ci_parent := None\<rparr>"
    using keep(2) ci by (simp add: w' erase_item_def upd_box_def setParent_def upd_item_def)
qed

end
