(* ===== verification/ContainerMoves.thy ===== *)
theory ContainerMoves
  imports ContainerTree
begin

text \<open>
  Moving, adding and removing items (\<open>game/game.cpp\<close>: \<open>internalMoveItem\<close>, \<open>internalAddItem\<close> between containers, over the
  operations of \<open>Container\<close>).  What a successful query promises about the destination is what the change needs: the
  item does not contain the container it goes to.  From that, the forest of containers and the weights survive every
  sequence of operations.
\<close>

subsection \<open>Removing\<close>

lemma removeThing_ok:
  assumes inv: "store_inv env w" and w': "w' = removeThing env c i m w"
  shows "store_inv env w'" "climbs (up w') \<subseteq> climbs (up w)" "cw_next w' = cw_next w" "isContainer w' = isContainer w"
    "getParent w' j = (if j = i \<and> i \<in> set (itemlist w c) \<and> \<not> (ity_stackable (itype env w i) \<and> m \<noteq> ucast (itemCount w i)) then None
       else getParent w j)"
    "it_id (cw_items w' i) = it_id (cw_items w i)"
proof -
  let ?part = "ity_stackable (itype env w i) \<and> m \<noteq> ucast (itemCount w i)"
  have ok: "store_ok w" using inv by (simp add: store_inv_def)
  consider (out) "i \<notin> set (itemlist w c)" | (part) "i \<in> set (itemlist w c)" ?part | (all) "i \<in> set (itemlist w c)" "\<not> ?part" by blast
  then have "store_inv env w' \<and> climbs (up w') \<subseteq> climbs (up w) \<and> cw_next w' = cw_next w \<and> isContainer w' = isContainer w \<and>
     (\<forall>j. getParent w' j = (if j = i \<and> i \<in> set (itemlist w c) \<and> \<not> ?part then None else getParent w j)) \<and>
     it_id (cw_items w' i) = it_id (cw_items w i)"
  proof cases
    case out
    then show ?thesis using inv by (simp add: w' removeThing_def getThingIndex_iff)
  next
    case part
    let ?f = "\<lambda>x :: citem. x\<lparr>it_count := ucast (if ucast (itemCount w i) - m <s 0 then 0 else ucast (itemCount w i) - m :: u32)\<rparr>"
    have e: "w' = updateItemWeight c (- getWeight env w i + getWeight env (upd_item i ?f w) i) (upd_item i ?f w)"
      using part by (simp add: w' removeThing_def getThingIndex_iff Let_def)
    note c = change_weight_ok [OF inv part(1) _ _ refl e]
    have "(c, i) \<notin> (climbs (up w))\<^sup>*" by (rule member_not_above [OF ok part(1)])
    moreover have forest: "same_forest w (upd_item i ?f w)"
      by (simp add: same_forest_def getBox_def itemlist_def isContainer_def getParent_def store_simps)
    ultimately have "cw_items w' i = cw_items (upd_item i ?f w) i"
      unfolding e by (intro updateItemWeight_keeps(2)) (simp_all add: same_forest_store [OF forest ok] same_forestD(5) [OF forest])
    then show ?thesis using c same_forestD [OF c(2)] part by (simp add: store_simps)
  next
    case all
    then have "w' = erase_item c i (updateItemWeight c (- getWeight env w i) w)"
      by (auto simp: w' removeThing_def getThingIndex_iff)
    note t = take_out_ok [OF inv all(1) this]
    have "climbs ((up w)(i := None)) \<subseteq> climbs (up w)" by (auto split: if_splits)
    then show ?thesis using t all by auto
  qed
  then show "store_inv env w'" "climbs (up w') \<subseteq> climbs (up w)" "cw_next w' = cw_next w" "isContainer w' = isContainer w"
    "getParent w' j = (if j = i \<and> i \<in> set (itemlist w c) \<and> \<not> ?part then None else getParent w j)"
    "it_id (cw_items w' i) = it_id (cw_items w i)" by simp_all
qed

subsection \<open>Adding\<close>

lemma push_item_frame:
  assumes "store_inv env w" "isContainer w c" "getParent w i = None" "i < cw_next w" "(c, i) \<notin> (climbs (up w))\<^sup>*"
    and f: "\<And>l. mset (f l) = add_mset i (mset l)"
  shows "store_inv env (push_item env c f i w)"
    "getParent (push_item env c f i w) j = (if j = i then Some (InItem c) else getParent w j)"
    "cw_next (push_item env c f i w) = cw_next w" "isContainer (push_item env c f i w) = isContainer w"
proof -
  have ok: "store_ok w" "weights_ok env w" using assms(1) by (simp_all add: store_inv_def)
  show "store_inv env (push_item env c f i w)"
    using push_item_ok [OF ok assms(2-5) f] by (simp add: store_inv_def)
  let ?w = "upd_box c (\<lambda>b. b\<lparr>bx_items := f (bx_items b)\<rparr>) (setParent (Some (InItem c)) i w)"
  have forest: "same_forest ?w (push_item env c f i w)"
    by (simp add: push_item_def Let_def updateItemWeight_def weight_loop_forest)
  show "getParent (push_item env c f i w) j = (if j = i then Some (InItem c) else getParent w j)"
    "cw_next (push_item env c f i w) = cw_next w"
    using same_forestD [OF forest] by (simp_all add: store_simps)
  show "isContainer (push_item env c f i w) = isContainer w"
    unfolding same_forestD(3) [OF forest] by (rule ext) (simp add: store_simps)
qed

lemma addThing_ok:
  assumes "store_inv env w" "isContainer w c" "getParent w i = None" "i < cw_next w" "(c, i) \<notin> (climbs (up w))\<^sup>*"
  shows "store_inv env (addThing env c index i w)"
    "getParent (addThing env c index i w) j = (if j = i \<and> index < sint (bx_maxSize (the (getBox w c))) then Some (InItem c) else getParent w j)"
    "cw_next (addThing env c index i w) = cw_next w" "isContainer (addThing env c index i w) = isContainer w"
  using assms push_item_frame [OF assms, of "\<lambda>l. i # l"]
  by (auto simp: addThing_def isContainer_box split: option.splits)

lemma change_free_ok:
  assumes inv: "store_inv env w" and i: "\<And>c. i \<notin> set (itemlist w c)"
    and f: "\<And>x. ci_parent (f x) = ci_parent x" "\<And>x. ci_box (f x) = ci_box x"
  shows "store_inv env (upd_item i f w)" "same_forest w (upd_item i f w)"
proof -
  let ?w = "upd_item i f w"
  have box: "getBox ?w j = getBox w j" for j by (simp add: getBox_def store_simps f)
  show forest: "same_forest w ?w" by (simp add: same_forest_def box itemlist_def isContainer_def getParent_def store_simps f)
  have "sum_list (map (getWeight env ?w) (bx_items b)) = sum_list (map (getWeight env w) (bx_items b))" if "getBox w c = Some b" for c b
  proof -
    have "j \<noteq> i" if "j \<in> set (bx_items b)" for j using i [of c] that \<open>getBox w c = Some b\<close> by (auto simp: itemlist_def)
    then have "map (getWeight env ?w) (bx_items b) = map (getWeight env w) (bx_items b)"
      by (intro map_cong [OF refl]) (simp add: getWeight_def box store_simps)
    then show ?thesis by (rule arg_cong)
  qed
  then show "store_inv env ?w" using inv same_forest_store [OF forest] by (simp add: store_inv_def weights_ok_def box)
qed

text \<open>A copy is a new item that lies nowhere.\<close>

lemma clone_ok:
  assumes inv: "store_inv env w" and cl: "clone_item env i w = Some (j, w')"
  shows "store_inv env w'" "j = cw_next w" "cw_next w' = Suc (cw_next w)" "getParent w' = getParent w" "up w' = up w"
    "isContainer w' = isContainer w" "itemlist w' = itemlist w" "getParent w j = None" "isContainer w j = False"
proof -
  have ok: "store_ok w" using inv by (simp add: store_inv_def)
  have j: "j = cw_next w" and n: "cw_next w' = Suc (cw_next w)"
    and other: "\<And>k. k \<noteq> j \<Longrightarrow> cw_items w' k = cw_items w k" and new: "ci_parent (cw_items w' j) = None" "ci_box (cw_items w' j) = None"
    using cl by (auto simp: clone_item_def Let_def split: option.splits)
  have free: "getParent w j = None" "getBox w j = None"
    using store_okD(3,4) [OF ok, of j] unfolding j isContainer_def by blast+
  then show "getParent w j = None" "isContainer w j = False" by (simp_all add: isContainer_def)
  have box: "getBox w' = getBox w" and par: "getParent w' = getParent w"
  proof (rule ext)
    show "getBox w' k = getBox w k" for k using other free new by (cases "k = j") (simp_all add: getBox_def)
  next
    show "getParent w' = getParent w"
    proof
      show "getParent w' k = getParent w k" for k using other free new by (cases "k = j") (simp_all add: getParent_def)
    qed
  qed
  have list: "itemlist w' = itemlist w" by (rule ext) (simp add: itemlist_def box)
  have cont: "isContainer w' = isContainer w" by (rule ext) (simp add: isContainer_def box)
  have up: "up w' = up w" by (rule up_cong) (simp add: par)
  show "j = cw_next w" "cw_next w' = Suc (cw_next w)" "getParent w' = getParent w" "up w' = up w"
    "isContainer w' = isContainer w" "itemlist w' = itemlist w" by (fact j n par up cont list)+
  have "store_ok w'" using ok unfolding store_ok_def list par cont up n by (auto simp: less_Suc_eq)
  moreover have "sum_list (map (getWeight env w') (bx_items b)) = sum_list (map (getWeight env w) (bx_items b))" if "getBox w c = Some b" for c b
  proof -
    have "k \<noteq> j" if "k \<in> set (bx_items b)" for k
      using store_okD(1) [OF ok, of k c] free(1) that \<open>getBox w c = Some b\<close> by (auto simp: itemlist_def)
    then have "map (getWeight env w') (bx_items b) = map (getWeight env w) (bx_items b)"
      by (intro map_cong [OF refl]) (simp add: getWeight_def box other)
    then show ?thesis by (rule arg_cong)
  qed
  ultimately show "store_inv env w'" using inv by (simp add: store_inv_def weights_ok_def box)
qed

lemma not_above_free:
  assumes "store_ok w" "\<not> isContainer w j" "c \<noteq> j" shows "(c, j) \<notin> (climbs (up w))\<^sup>*"
proof
  assume "(c, j) \<in> (climbs (up w))\<^sup>*"
  then obtain x where "up w x = Some j" using assms(3) by (auto elim: rtranclE)
  then show False using up_container [OF assms(1)] assms(2) by blast
qed

subsection \<open>Players\<close>

text \<open>Weighing the inventory of a player leaves the items as they are.\<close>

definition same_items :: "cworld \<Rightarrow> cworld \<Rightarrow> bool" where
  "same_items w w' \<longleftrightarrow> cw_items w' = cw_items w \<and> cw_next w' = cw_next w"

lemma same_items_refl [simp]: "same_items w w"
  by (simp add: same_items_def)

lemma same_itemsD:
  assumes "same_items w w'"
  shows "getBox w' = getBox w" "getParent w' = getParent w" "itemlist w' = itemlist w" "isContainer w' = isContainer w"
    "up w' = up w" "getWeight env w' = getWeight env w" "cw_next w' = cw_next w" "cw_items w' = cw_items w"
proof -
  have e: "cw_items w' = cw_items w" using assms by (simp add: same_items_def)
  show b: "getBox w' = getBox w" "getParent w' = getParent w" by (auto simp: getBox_def getParent_def e)
  show "itemlist w' = itemlist w" "isContainer w' = isContainer w" "getWeight env w' = getWeight env w"
    by (auto simp: itemlist_def isContainer_def getWeight_def b e)
  show "up w' = up w" by (rule up_cong) (simp add: b)
  show "cw_next w' = cw_next w" "cw_items w' = cw_items w" using assms by (simp_all add: same_items_def)
qed

lemma same_items_ok: assumes "same_items w w'" "store_inv env w" shows "store_inv env w'"
  using assms(2) unfolding store_inv_def store_ok_def weights_ok_def same_itemsD [OF assms(1)] .

lemma notify_same [simp]: "same_items w (notify env c w)"
  by (simp add: same_items_def notify_def updateInventoryWeight_def split: option.splits cyl.splits)

lemma notify_item_same [simp]: "same_items w (notify_item env c i w)"
  by (simp add: notify_item_def split: option.split)

lemma same_items_trans: "same_items w w' \<Longrightarrow> same_items w' w'' \<Longrightarrow> same_items w w''"
  by (simp add: same_items_def)

subsection \<open>What queries promise\<close>

lemma parents_query_promise:
  "parents_query n w noLimit i (Some (InItem d)) = RETURNVALUE_NOERROR \<Longrightarrow> (d, i) \<notin> (climbs (up w))\<^sup>*"
proof (induction n arbitrary: d)
  case (Suc n)
  have di: "d \<noteq> i" and rest: "parents_query n w noLimit i (getParent w d) = RETURNVALUE_NOERROR"
    using Suc.prems by (auto split: if_splits)
  show ?case
  proof
    assume "(d, i) \<in> (climbs (up w))\<^sup>*"
    then obtain e where e: "up w d = Some e" "(e, i) \<in> (climbs (up w))\<^sup>*" using di by (auto elim: converse_rtranclE)
    then have "getParent w d = Some (InItem e)" by (auto simp: up_def split: option.splits cyl.splits)
    then show False using Suc.IH [of e] rest e(2) by simp
  qed
qed simp

lemma queryAdd_promise:
  assumes "queryAdd env w c index i cnt flags = RETURNVALUE_NOERROR" "\<not> hasBitSet FLAG_CHILDISOWNER flags"
  shows "isContainer w c" "(c, i) \<notin> (climbs (up w))\<^sup>*"
proof -
  obtain b where b: "getBox w c = Some b" using assms(1) by (auto simp: queryAdd_def split: option.splits)
  then show "isContainer w c" by (simp add: isContainer_def)
  have ic: "i \<noteq> c" and p: "parents_query (chain_fuel w) w (hasBitSet FLAG_NOLIMIT flags) i (getParent w c) = RETURNVALUE_NOERROR"
    using assms b by (auto simp: queryAdd_def Let_def split: if_splits)
  show "(c, i) \<notin> (climbs (up w))\<^sup>*"
  proof
    assume "(c, i) \<in> (climbs (up w))\<^sup>*"
    then obtain e where e: "up w c = Some e" "(e, i) \<in> (climbs (up w))\<^sup>*" using ic by (auto elim: converse_rtranclE)
    then have "getParent w c = Some (InItem e)" by (auto simp: up_def split: option.splits cyl.splits)
    then show False using parents_query_promise p e(2) by metis
  qed
qed

lemma queryRemove_promise:
  "queryRemove env w c i cnt flags = RETURNVALUE_NOERROR \<Longrightarrow> i \<in> set (itemlist w c)"
  "queryRemove env w c i cnt flags = RETURNVALUE_NOERROR \<Longrightarrow> ity_stackable (itype env w i) \<Longrightarrow> 0 < cnt \<and> cnt \<le> ucast (itemCount w i)"
  by (auto simp: queryRemove_def getThingIndex_iff word_gt_0 not_less split: if_splits)

lemma destination_flags:
  "destination n env w i c index toItem flags = (c', index', toItem', flags') \<Longrightarrow> flags' = flags \<or> flags' = 0"
proof (induction n arbitrary: c index toItem flags)
  case 0
  then show ?case by (subst (asm) destination.simps) (auto split: prod.splits if_splits)
next
  case (Suc n)
  obtain c2 index2 toItem2 where q: "queryDestination env w c index i toItem flags = (c2, index2, toItem2)" by (metis prod_cases3)
  show ?case
  proof (cases "c2 = c")
    case True
    then show ?thesis using Suc.prems q by (subst (asm) destination.simps) simp
  next
    case False
    then have "destination n env w i c2 index2 toItem2 0 = (c', index', toItem', flags')"
      using Suc.prems q by (subst (asm) destination.simps) simp
    then show ?thesis using Suc.IH by blast
  qed
qed

subsection \<open>Moving\<close>

text \<open>The steps of a transfer after the item was taken out: the stack that grows, the copy, the addition.\<close>

lemma transfer_item_ok:
  assumes inv: "store_inv env w" and c: "isContainer w toCylinder" and i: "i \<in> set (itemlist w fromCylinder)"
    and above: "(toCylinder, i) \<notin> (climbs (up w))\<^sup>*"
    and t: "transfer_item env fromCylinder toCylinder index i m toItem w = Some (moved, w')"
  shows "store_inv env w'"
proof -
  let ?stack = "ity_stackable (itype env w i)"
  define w1 where "w1 = removeThing env fromCylinder i m w"
  note r = removeThing_ok [OF inv w1_def]
  have above1: "(toCylinder, i) \<notin> (climbs (up w1))\<^sup>*" using above r(2) rtrancl_mono by blast
  define u where "u = (if ?stack \<and> equals w1 i toItem then toItem else None)"
  define w2 where "w2 = (case u of None \<Rightarrow> w1
       | Some t \<Rightarrow> updateThing env toCylinder t (it_id (cw_items w1 t)) (ucast (itemCount w1 t) +
          (case toItem of None \<Rightarrow> 0 | Some t \<Rightarrow> if ?stack \<and> equals w1 i (Some t)
       then min (word_of_int (uint (getStackSize env w1 t) - uint (itemCount w1 t))) m else 0)) w1)"
  have w2: "store_inv env w2 \<and> same_forest w1 w2"
    using updateThing_ok [OF r(1)] r(1) by (simp add: w2_def split: option.split)
  have ok2: "store_ok w2" using w2 by (simp add: store_inv_def)
  note f = same_forestD [OF conjunct2 [OF w2]]
  define n where "n = (m - (case toItem of None \<Rightarrow> 0 | Some t \<Rightarrow> if ?stack \<and> equals w1 i (Some t)
       then min (word_of_int (uint (getStackSize env w1 t) - uint (itemCount w1 t))) m else 0))"
  define res where "res = (if \<not> ?stack then Some (Some i, w2)
       else if 0 <s n then (case clone_item env i w2 of None \<Rightarrow> None
           | Some (j, w) \<Rightarrow> Some (Some j, upd_item j (\<lambda>x. x\<lparr>it_count := ucast n\<rparr>) w))
       else Some (None, w2))"
  obtain moveItem w3 where res: "res = Some (moveItem, w3)"
    using t unfolding transfer_item_def Let_def w1_def [symmetric] u_def [symmetric] w2_def [symmetric] n_def [symmetric] res_def [symmetric]
    by (auto split: option.splits)
  have add: "store_inv env (case moveItem of None \<Rightarrow> w3 | Some j \<Rightarrow> addThing env toCylinder index j w3)"
  proof (cases moveItem)
    case None
    then show ?thesis using res w2 by (auto simp: res_def split: if_splits option.splits)
  next
    case (Some j)
    have "store_inv env w3 \<and> isContainer w3 toCylinder \<and> getParent w3 j = None \<and> j < cw_next w3 \<and> (toCylinder, j) \<notin> (climbs (up w3))\<^sup>*"
    proof (cases ?stack)
      case False
      then have e: "w3 = w2" "j = i" using res Some by (auto simp: res_def)
      have "getParent w i \<noteq> None" using store_okD(1) inv i by (simp add: store_inv_def)
      then have "i < cw_next w" using store_okD(3) inv by (simp add: store_inv_def)
      then show ?thesis using False w2 c above1 i r(3,4) r(5) [of i] by (simp add: e f)
    next
      case True
      then obtain w4 where w4: "clone_item env i w2 = Some (j, w4)" "w3 = upd_item j (\<lambda>x. x\<lparr>it_count := ucast n\<rparr>) w4"
        using res Some by (auto simp: res_def split: if_splits option.splits)
      note cl = clone_ok [OF conjunct1 [OF w2] w4(1)]
      have ok4: "store_ok w4" using cl(1) by (simp add: store_inv_def)
      have free: "j \<notin> set (itemlist w4 k)" for k using store_okD(1) [OF ok4] cl(4,8) by simp
      note ch = change_free_ok [OF cl(1) free, of "\<lambda>x. x\<lparr>it_count := ucast n\<rparr>", folded w4(2)]
      note f4 = same_forestD [OF ch(2)]
      have "toCylinder \<noteq> j" using cl(9) c r(4) by (auto simp: f)
      then have "(toCylinder, j) \<notin> (climbs (up w2))\<^sup>*" by (intro not_above_free [OF ok2]) (use cl(9) in simp)
      then show ?thesis using ch(1) c r(4) cl by (simp add: f4 f)
    qed
    then show ?thesis using addThing_ok(1) Some by simp
  qed
  let ?w = "case moveItem of None \<Rightarrow> w3 | Some j \<Rightarrow> addThing env toCylinder index j w3"
  have "w' = notify_item env toCylinder u (notify_item env toCylinder moveItem (notify env fromCylinder ?w))"
    using t res unfolding transfer_item_def Let_def w1_def [symmetric] u_def [symmetric] w2_def [symmetric] n_def [symmetric] res_def [symmetric]
    by simp
  then have "same_items ?w w'" using same_items_trans notify_same notify_item_same by metis
  then show ?thesis using same_items_ok add by blast
qed

text \<open>A move that changes the store was accepted by every query.\<close>

lemma move_accepted:
  assumes flags: "\<not> hasBitSet FLAG_CHILDISOWNER flags"
    and mv: "internalMoveItem env fromCylinder toCylinder index i cnt flags tradeItem w = Some (ret, moved, w')" and changed: "w' \<noteq> w"
  obtains c index' toItem flags' m cnt' moved' where
    "destination 15 env w i toCylinder index None flags = (c, index', toItem, flags')" "\<not> hasBitSet FLAG_CHILDISOWNER flags'"
    "toItem \<noteq> Some i" "queryAdd env w c index' i cnt' flags' = RETURNVALUE_NOERROR"
    "queryRemove env w fromCylinder i m flags' = RETURNVALUE_NOERROR"
    "transfer_item env fromCylinder c index' i m toItem w = Some (moved', w')" "moved = Some moved'"
proof -
  obtain c index' toItem flags' where d: "destination 15 env w i toCylinder index None flags = (c, index', toItem, flags')" by (metis prod_cases4)
  have fl: "\<not> hasBitSet FLAG_CHILDISOWNER flags'" using destination_flags [OF d] flags by (auto simp: hasBitSet_def)
  let ?cnt = "if ity_stackable (itype env w i) \<and> cnt = 255 \<and> getParent w fromCylinder = Some (InItem c) then ucast (itemCount w i) else cnt"
  obtain retMaxCount maxQueryCount where mx: "queryMaxCount env w c index' i ?cnt flags' = (retMaxCount, maxQueryCount)" by (metis prod.exhaust)
  let ?m = "if ity_stackable (itype env w i) then min ?cnt maxQueryCount else maxQueryCount"
  note mv' = mv [unfolded internalMoveItem_def d prod.case Let_def mx]
  have ne: "toItem \<noteq> Some i" using mv' changed by auto
  note mv' = mv' [unfolded if_not_P [OF ne]]
  have q1: "queryRemove env w fromCylinder i 1 flags' = RETURNVALUE_NOERROR"
    by (rule ccontr) (use mv' changed in simp)
  note mv' = mv' [unfolded q1 simp_thms if_False]
  have q2: "queryAdd env w c index' i ?cnt flags' = RETURNVALUE_NOERROR"
    by (rule ccontr) (use mv' changed in simp)
  note mv' = mv' [unfolded q2 simp_thms if_False]
  have q3: "\<not> (retMaxCount \<noteq> RETURNVALUE_NOERROR \<and> maxQueryCount = 0)"
    by (rule ccontr) (use mv' changed in simp)
  note mv' = mv' [unfolded if_not_P [OF q3]]
  have q4: "queryRemove env w fromCylinder i ?m flags' = RETURNVALUE_NOERROR"
    by (rule ccontr) (use mv' changed in simp)
  note mv' = mv' [unfolded q4 simp_thms if_False]
  obtain moved' where q5: "transfer_item env fromCylinder c index' i ?m toItem w = Some (moved', w')" "moved = Some moved'"
    using mv' changed by (fastforce split: if_split_asm option.split_asm)
  show thesis by (rule that [OF d fl ne q2 q4 q5])
qed

theorem internalMoveItem_ok:
  assumes inv: "store_inv env w" and flags: "\<not> hasBitSet FLAG_CHILDISOWNER flags"
    and mv: "internalMoveItem env fromCylinder toCylinder index i cnt flags tradeItem w = Some (ret, moved, w')"
  shows "store_inv env w'"
proof (cases "w' = w")
  case False
  from move_accepted [OF flags mv False] obtain c index' toItem flags' m cnt' moved' where
    a: "destination 15 env w i toCylinder index None flags = (c, index', toItem, flags')" "\<not> hasBitSet FLAG_CHILDISOWNER flags'"
      "toItem \<noteq> Some i" "queryAdd env w c index' i cnt' flags' = RETURNVALUE_NOERROR"
      "queryRemove env w fromCylinder i m flags' = RETURNVALUE_NOERROR"
      "transfer_item env fromCylinder c index' i m toItem w = Some (moved', w')" "moved = Some moved'" .
  show ?thesis
    by (rule transfer_item_ok [OF inv queryAdd_promise(1) [OF a(4,2)] queryRemove_promise(1) [OF a(5)] queryAdd_promise(2) [OF a(4,2)] a(6)])
qed (use inv in simp)

subsection \<open>Adding what lies nowhere\<close>

lemma add_front_ok:
  assumes "store_inv env w" "queryAdd env w c index i cnt flags = RETURNVALUE_NOERROR" "\<not> hasBitSet FLAG_CHILDISOWNER flags"
    and "getParent w i = None" "i < cw_next w" "same_forest w w'" "store_inv env w'"
  shows "store_inv env (notify_item env c (Some i) (addThing env c index' i w'))"
proof -
  note f = same_forestD [OF assms(6)]
  have "store_inv env (addThing env c index' i w')"
    by (rule addThing_ok(1) [OF assms(7)]) (use assms(4,5) queryAdd_promise [OF assms(2,3)] in \<open>simp_all add: f\<close>)
  then show ?thesis using same_items_ok [OF notify_item_same] by blast
qed

lemma add_loop_ok:
  assumes "store_inv env w" "\<not> hasBitSet FLAG_CHILDISOWNER flags" "getParent w i = None" "i < cw_next w"
    and "add_loop f env c i index flags test w = Some (ret, r, w')"
  shows "store_inv env w'"
  using assms
proof (induction f arbitrary: i index w test ret r w')
  case (Suc f)
  obtain d index2 toItem where q: "queryDestination env w c index i None flags = (d, index2, toItem)" by (metis prod_cases3)
  let ?cnt = "ucast (itemCount w i) :: u32"
  obtain ret2 maxQ where mx: "queryMaxCount env w c INDEX_WHEREEVER i ?cnt flags = (ret2, maxQ)" by (metis prod.exhaust)
  note ad = Suc.prems(5) [unfolded add_loop.simps q prod.case Let_def mx]
  show ?case
  proof (cases "queryAdd env w d index2 i ?cnt flags = RETURNVALUE_NOERROR")
    case True
    note add = add_front_ok [OF Suc.prems(1) True Suc.prems(2-4)]
    note ad = ad [unfolded True simp_thms if_False]
    show ?thesis
    proof (cases "ret2 \<noteq> RETURNVALUE_NOERROR \<and> it_id (cw_items w c) \<noteq> ITEM_REWARD_CONTAINER")
      case True
      show ?thesis using ad [unfolded if_P [OF True]] Suc.prems(1) by simp
    next
      case False
      note ad = ad [unfolded if_not_P [OF False]]
      show ?thesis
      proof (cases test)
        case True
        show ?thesis using ad [unfolded if_P [OF True]] Suc.prems(1) by simp
      next
        case False
        note ad = ad [unfolded if_not_P [OF False]]
        show ?thesis
        proof (cases "ity_stackable (itype env w i) \<and> equals w i toItem")
          case False
          show ?thesis using ad [unfolded if_not_P [OF False]] add [OF same_forest_refl Suc.prems(1)] by auto
        next
          case True
          then obtain t where t: "toItem = Some t" by (auto simp: equals_def split: option.splits)
          define n where "n = min (word_of_int (uint (getStackSize env w t) - uint (itemCount w t))) (min ?cnt maxQ)"
          define left where "left = min ?cnt maxQ - n"
          define w1 where "w1 = updateThing env d t (it_id (cw_items w t)) (ucast (itemCount w t) + n) w"
          have w1: "store_inv env w1" "same_forest w w1" using updateThing_ok [OF Suc.prems(1)] by (simp_all add: w1_def)
          note f1 = same_forestD [OF w1(2)]
          note ad = ad [unfolded if_P [OF True], unfolded t option.case, folded n_def, folded left_def w1_def]
          show ?thesis
          proof (cases "0 <s left \<and> ucast (itemCount w1 i) \<noteq> left")
            case True
            then obtain j w2 ret3 r3 where cl: "clone_item env i w1 = Some (j, w2)"
                and rec: "add_loop f env c j INDEX_WHEREEVER flags False (upd_item j (\<lambda>x. x\<lparr>it_count := ucast left\<rparr>) w2) = Some (ret3, r3, w')"
              using ad by (auto split: option.splits prod.splits)
            note cl = clone_ok [OF w1(1) cl]
            have ok2: "store_ok w2" using cl(1) by (simp add: store_inv_def)
            have free: "j \<notin> set (itemlist w2 k)" for k using store_okD(1) [OF ok2] cl(4,8) by simp
            note ch = change_free_ok [OF cl(1) free, of "\<lambda>x. x\<lparr>it_count := ucast left\<rparr>", simplified]
            show ?thesis
            proof (rule Suc.IH [OF ch(1) Suc.prems(2) _ _ rec])
              show "getParent (upd_item j (\<lambda>x. x\<lparr>it_count := ucast left\<rparr>) w2) j = None"
                unfolding same_forestD [OF ch(2)] cl(4) by (rule cl(8))
              show "j < cw_next (upd_item j (\<lambda>x. x\<lparr>it_count := ucast left\<rparr>) w2)"
                unfolding same_forestD [OF ch(2)] cl(3) by (simp add: cl(2))
            qed
          next
            case False
            have other: "store_inv env (notify_item env d (Some t) w1)" using same_items_ok [OF notify_item_same w1(1)] .
            show ?thesis using ad False add [OF w1(2,1)] other by (auto split: if_splits)
          qed
        qed
      qed
    qed
  qed (use ad Suc.prems(1) in simp)
qed simp

text \<open>Each round adds an item with a smaller count, so the rounds are never used up.\<close>

lemma clone_known:
  assumes "ity_known (itype env w i)" "map_of ItemTransformationMap (it_id (cw_items w i)) = None"
  obtains j w' where "clone_item env i w = Some (j, w')" "it_id (cw_items w' j) = it_id (cw_items w i)"
proof -
  have "CreateItem (ce_types env) (it_id (cw_items w i)) (ucast (it_count (cw_items w i))) \<noteq> None"
    using assms by (simp add: CreateItem_def Let_def itype_def)
  then obtain y where y: "CreateItem (ce_types env) (it_id (cw_items w i)) (ucast (it_count (cw_items w i))) = Some y" by blast
  have "it_id y = it_id (cw_items w i)"
    using y assms by (auto simp: CreateItem_def Let_def new_item_def setDefaultDuration_def setDuration_def set_int_def itype_def split: if_splits)
  moreover obtain w' where w': "clone_item env i w = Some (cw_next w, w')" using y by (simp add: clone_item_def Let_def)
  ultimately have "it_id (cw_items w' (cw_next w)) = it_id (cw_items w i)" using y by (auto simp: clone_item_def Let_def)
  then show thesis by (rule that [OF w'])
qed

lemma weight_loop_item:
  "it_id (cw_items (weight_loop n c d w) j) = it_id (cw_items w j)" "it_count (cw_items (weight_loop n c d w) j) = it_count (cw_items w j)"
proof -
  have "it_id (cw_items (weight_loop n c d w) j) = it_id (cw_items w j) \<and> it_count (cw_items (weight_loop n c d w) j) = it_count (cw_items w j)"
    by (induction n arbitrary: c w) (simp_all add: upd_box_def upd_item_def Let_def split: option.split)
  then show "it_id (cw_items (weight_loop n c d w) j) = it_id (cw_items w j)"
    "it_count (cw_items (weight_loop n c d w) j) = it_count (cw_items w j)" by simp_all
qed

lemma updateThing_other:
  assumes "i \<noteq> t \<or> i \<notin> set (itemlist w d)"
  shows "it_id (cw_items (updateThing env d t k l w) i) = it_id (cw_items w i)" "itemCount (updateThing env d t k l w) i = itemCount w i"
  using assms by (auto simp: updateThing_def getThingIndex_iff Let_def updateItemWeight_def weight_loop_item upd_attrs_def upd_item_def itemCount_def)

lemma add_loop_total:
  assumes "ity_known (itype env w i)" "map_of ItemTransformationMap (it_id (cw_items w i)) = None" "unat (itemCount w i) < f"
    "store_inv env w" "\<And>k. i \<notin> set (itemlist w k)"
  shows "add_loop f env c i index flags test w \<noteq> None"
  using assms
proof (induction f arbitrary: i index w test)
  case (Suc f)
  obtain d index2 toItem where q: "queryDestination env w c index i None flags = (d, index2, toItem)" by (metis prod_cases3)
  let ?cnt = "ucast (itemCount w i) :: u32"
  obtain ret2 maxQ where mx: "queryMaxCount env w c INDEX_WHEREEVER i ?cnt flags = (ret2, maxQ)" by (metis prod.exhaust)
  have rec: "(case clone_item env i w1 of None \<Rightarrow> None
      | Some (j, w) \<Rightarrow> (case add_loop f env c j INDEX_WHEREEVER flags False (upd_item j (\<lambda>x. x\<lparr>it_count := ucast left\<rparr>) w) of None \<Rightarrow> None
          | Some (ret, _, w) \<Rightarrow> Some (RETURNVALUE_NOERROR, if ret \<noteq> RETURNVALUE_NOERROR then left else 0, w))) \<noteq> None"
    if d1: "w1 = updateThing env d t k l w" and left: "left \<le> ?cnt" "ucast (itemCount w1 i) \<noteq> left"
    for t k l and left :: u32 and w1
  proof -
    have w1: "store_inv env w1" using updateThing_ok [OF Suc.prems(4)] by (simp add: d1)
    have same: "it_id (cw_items w1 i) = it_id (cw_items w i)" "itemCount w1 i = itemCount w i"
      using updateThing_other [of i t w d] Suc.prems(5) by (simp_all add: d1)
    then have known: "ity_known (itype env w1 i)" "map_of ItemTransformationMap (it_id (cw_items w1 i)) = None"
      using Suc.prems(1,2) by (simp_all add: itype_def)
    obtain j w2 where cl: "clone_item env i w1 = Some (j, w2)" and id: "it_id (cw_items w2 j) = it_id (cw_items w1 i)"
      using clone_known [OF known] by blast
    note c = clone_ok [OF w1 cl]
    let ?w = "upd_item j (\<lambda>x. x\<lparr>it_count := ucast left\<rparr>) w2"
    have free: "j \<notin> set (itemlist w2 k)" for k
      using c(1) c(4,8) store_okD(1) [of w2 j k] by (simp add: store_inv_def)
    note ch = change_free_ok [OF c(1) free, of "\<lambda>x. x\<lparr>it_count := ucast left\<rparr>", simplified]
    have "unat left < unat ?cnt" using left same by (metis order_le_imp_less_or_eq word_less_nat_alt)
    moreover have "unat ?cnt = unat (itemCount w i)" 
    proof -
      have "take_bit 32 (unat (itemCount w i)) = unat (itemCount w i)"
        by (rule take_bit_nat_eq_self [OF less_trans [OF unat_u8_less]]) simp
      then show ?thesis by (simp add: unsigned_ucast_eq)
    qed
    ultimately have less: "unat left < unat (itemCount w i)" by simp
    moreover have "unat (ucast left :: u8) \<le> unat left" by (simp add: unsigned_ucast_eq)
    ultimately have "unat (itemCount ?w j) < f" using Suc.prems(3) by (simp add: itemCount_def upd_item_def)
    then have "add_loop f env c j INDEX_WHEREEVER flags False ?w \<noteq> None"
      by (intro Suc.IH ch(1)) (use known id free in \<open>simp_all add: itype_def store_simps same_forestD [OF ch(2)]\<close>)
    then show ?thesis by (auto simp: cl)
  qed
  show ?case
  proof (cases toItem)
    case None
    then show ?thesis by (simp add: q mx Let_def equals_def)
  next
    case (Some t)
    define m where "m = min ?cnt maxQ"
    define n where "n = min (word_of_int (uint (getStackSize env w t) - uint (itemCount w t))) m"
    have "n \<le> m" by (simp add: n_def)
    then have "m - n \<le> m" by (simp add: word_sub_le)
    also have "\<dots> \<le> ?cnt" by (simp add: m_def)
    finally have "m - n \<le> ?cnt" .
    note rec = rec [OF refl this, of t "it_id (cw_items w t)" "ucast (itemCount w t) + n"]
    show ?thesis
    proof (cases "ity_stackable (itype env w i) \<and> equals w i (Some t)")
      case True
      note e = if_P [OF True]
      show ?thesis
        unfolding add_loop.simps q prod.case Let_def mx Some e option.case m_def [symmetric] n_def [symmetric]
        using rec by simp
    next
      case False
      note e = if_not_P [OF False]
      show ?thesis unfolding add_loop.simps q prod.case Let_def mx Some e option.case by simp
    qed
  qed
qed simp

end
