(* ===== verification/ContainerInside.thy ===== *)
theory ContainerInside
  imports ContainerMoves
begin

text \<open>
  What is inside a container.  The iterator goes through the items breadth first, with a queue of the containers it
  still has to open; it lists everything inside exactly once.  On top of that: what the counters of \<open>Container\<close> count,
  which container \<open>getTopParentContainer\<close> finds, and the reachable states of a store of items.
\<close>

subsection \<open>The set of what is inside\<close>

lemma inside_children: assumes "store_ok w" shows "inside w c = (\<Union>x\<in>set (itemlist w c). insert x (inside w x))"
proof -
  have "(x, c) \<in> (climbs (up w))\<^sup>+ \<longleftrightarrow> (\<exists>y. up w y = Some c \<and> (x = y \<or> (x, y) \<in> (climbs (up w))\<^sup>+))" for x
  proof
    assume "(x, c) \<in> (climbs (up w))\<^sup>+"
    then show "\<exists>y. up w y = Some c \<and> (x = y \<or> (x, y) \<in> (climbs (up w))\<^sup>+)" by cases auto
  next
    assume "\<exists>y. up w y = Some c \<and> (x = y \<or> (x, y) \<in> (climbs (up w))\<^sup>+)"
    then obtain y where "(y, c) \<in> climbs (up w)" "x = y \<or> (x, y) \<in> (climbs (up w))\<^sup>+" by auto
    then show "(x, c) \<in> (climbs (up w))\<^sup>+" by (meson r_into_trancl trancl.trancl_into_trancl)
  qed
  then show ?thesis unfolding inside_def below_def using up_iff [OF assms] by auto
qed

lemma inside_bound: assumes "store_ok w" shows "inside w c \<subseteq> {..<cw_next w}"
proof
  fix x assume "x \<in> inside w c"
  then obtain y where "up w x = Some y" by (auto simp: inside_def below_def dest: tranclD)
  then have "getParent w x \<noteq> None" by (auto simp: up_def split: option.splits)
  then show "x \<in> {..<cw_next w}" using store_okD(3) [OF assms] by simp
qed

lemma finite_inside: "store_ok w \<Longrightarrow> finite (inside w c)"
  using inside_bound finite_subset by blast

lemma not_inside_itself: "store_ok w \<Longrightarrow> c \<notin> inside w c"
  using ends_acyclic [OF store_okD(5)] by (auto simp: inside_def below_def)

lemma inside_trans: "x \<in> inside w y \<Longrightarrow> y \<in> inside w z \<Longrightarrow> x \<in> inside w z"
  unfolding inside_def below_def by auto

text \<open>Of two containers with a common item inside, one is inside the other.\<close>

lemma above_common:
  assumes "z \<in> insert x (inside w x)" "z \<in> insert y (inside w y)"
  shows "x = y \<or> x \<in> inside w y \<or> y \<in> inside w x"
proof -
  let ?R = "climbs (up w)"
  have "single_valued ?R" by (simp add: single_valued_def)
  moreover have "(z, x) \<in> ?R\<^sup>*" "(z, y) \<in> ?R\<^sup>*"
    using assms by (auto simp: inside_def below_def)
  ultimately have "(x, y) \<in> ?R\<^sup>* \<or> (y, x) \<in> ?R\<^sup>*" by (rule single_valued_confluent)
  then show ?thesis by (auto simp: inside_def below_def rtrancl_eq_or_trancl)
qed

subsection \<open>The iterator\<close>

definition indep :: "cworld \<Rightarrow> nat list \<Rightarrow> bool" where
  "indep w xs \<longleftrightarrow> distinct xs \<and> (\<forall>x\<in>set xs. \<forall>y\<in>set xs. x \<notin> inside w y)"

definition pending :: "cworld \<Rightarrow> nat list \<Rightarrow> nat list \<Rightarrow> nat set" where
  "pending w rem over = (\<Union>x\<in>set rem. insert x (inside w x)) \<union> (\<Union>d\<in>set over. inside w d)"

lemma siblings_indep: assumes "store_ok w" shows "indep w (itemlist w c)"
  unfolding indep_def
proof (intro conjI ballI)
  show "distinct (itemlist w c)" by (rule store_okD(2) [OF assms])
  fix x y assume xy: "x \<in> set (itemlist w c)" "y \<in> set (itemlist w c)"
  show "x \<notin> inside w y"
  proof
    assume "x \<in> inside w y"
    then obtain e where e: "up w x = Some e" "(e, y) \<in> (climbs (up w))\<^sup>*" by (auto simp: inside_def below_def dest: tranclD)
    then have "e = c" using up_iff [OF assms] xy(1) by (metis option.inject)
    then have "(y, y) \<in> (climbs (up w))\<^sup>+" using e(2) xy(2) up_iff [OF assms] by (metis climbs_iff rtrancl_into_trancl2)
    then show False using ends_acyclic [OF store_okD(5) [OF assms]] by blast
  qed
qed

text \<open>Opening the first container of the queue.\<close>

lemma open_indep:
  assumes ok: "store_ok w" and ind: "indep w (d # over)"
  shows "indep w (itemlist w d @ over)" "pending w (itemlist w d) over = pending w [] (d # over)"
proof -
  have ch: "x \<in> inside w d" if "x \<in> set (itemlist w d)" for x using inside_children [OF ok, of d] that by blast
  have apart: "x \<notin> insert y (inside w y)" "y \<notin> inside w x" if x: "x \<in> set (itemlist w d)" and y: "y \<in> set over" for x y
  proof -
    have dy: "d \<noteq> y" "d \<notin> inside w y" "y \<notin> inside w d" using ind y by (auto simp: indep_def)
    show "y \<notin> inside w x" using dy(3) inside_trans [OF _ ch [OF x]] by blast
    show "x \<notin> insert y (inside w y)" using above_common [of x d w y] dy ch [OF x] by blast
  qed
  have "indep w (itemlist w d)" "indep w over" using siblings_indep [OF ok] ind by (auto simp: indep_def)
  then show "indep w (itemlist w d @ over)" using apart unfolding indep_def by (auto simp: disjoint_iff)
  show "pending w (itemlist w d) over = pending w [] (d # over)" using inside_children [OF ok, of d] by (simp add: pending_def)
qed

lemma visit:
  assumes ok: "store_ok w" and ind: "indep w ((x # rem) @ over)"
    and over': "over' = (if itemlist w x \<noteq> [] then over @ [x] else over)"
  shows "indep w (rem @ over')" "pending w rem over' = pending w (x # rem) over - {x}"
proof -
  show "indep w (rem @ over')" using ind by (auto simp: indep_def over')
  have empty: "inside w x = {}" if "itemlist w x = []" using inside_children [OF ok, of x] that by simp
  have "x \<notin> inside w x" by (rule not_inside_itself [OF ok])
  moreover have "x \<noteq> y \<and> x \<notin> inside w y" if "y \<in> set rem \<union> set over" for y using ind that by (auto simp: indep_def)
  ultimately have "x \<notin> pending w rem over'" unfolding pending_def over' by auto
  moreover have "pending w (x # rem) over = insert x (pending w rem over')"
    using empty unfolding pending_def over' by auto
  ultimately show "pending w rem over' = pending w (x # rem) over - {x}" by auto
qed

lemma finite_pending: "store_ok w \<Longrightarrow> finite (pending w rem over)"
  using finite_inside by (auto simp: pending_def)

lemma iterate_visits:
  assumes "store_ok w" "rem = drop cur (itemlist w c)" "rem \<noteq> []" "indep w (rem @ over)" "\<forall>d\<in>set over. itemlist w d \<noteq> []"
    "card (pending w rem over) \<le> n"
  shows "distinct (iterate n w (c # over, cur)) \<and> set (iterate n w (c # over, cur)) = pending w rem over"
  using assms
proof (induction n arbitrary: rem cur c over)
  case 0
  then have "pending w rem over = {}" using finite_pending [OF 0(1)] by simp
  then show ?case using 0(3) by (auto simp: pending_def)
next
  case (Suc n)
  let ?x = "itemlist w c ! cur" and ?rem = "drop (Suc cur) (itemlist w c)"
  let ?over = "if itemlist w ?x \<noteq> [] then over @ [?x] else over"
  have cur: "cur < length (itemlist w c)" using Suc.prems(2,3) by simp
  then have rem: "rem = ?x # ?rem" using Suc.prems(2) by (simp add: Cons_nth_drop_Suc)
  note v = visit [OF Suc.prems(1) Suc.prems(4) [unfolded rem] refl]
  have x: "?x \<in> pending w rem over" by (subst rem) (simp add: pending_def)
  have P: "pending w ?rem ?over = pending w rem over - {?x}" using v(2) rem by simp
  have fin: "finite (pending w rem over)" by (rule finite_pending [OF Suc.prems(1)])
  have card: "card (pending w ?rem ?over) \<le> n" unfolding P using Suc.prems(6) x fin by (simp add: card_Diff_singleton)
  have ne_over: "\<forall>d\<in>set ?over. itemlist w d \<noteq> []" using Suc.prems(5) by (simp split: if_split)
  have "distinct (iterate n w (advance w (c # over, cur))) \<and> set (iterate n w (advance w (c # over, cur))) = pending w ?rem ?over"
  proof (cases "?rem = []")
    case False
    then have "Suc cur \<noteq> length (itemlist w c)" by auto
    then have "advance w (c # over, cur) = (c # ?over, Suc cur)" by (simp add: Let_def)
    then show ?thesis using Suc.IH [OF Suc.prems(1) refl False v(1) ne_over card] by simp
  next
    case True
    then have "Suc cur = length (itemlist w c)" using cur by simp
    then have a: "advance w (c # over, cur) = (?over, 0)" by (simp add: Let_def)
    show ?thesis
    proof (cases ?over)
      case Nil
      then have "iterate n w (?over, 0) = []" by (cases n) simp_all
      then show ?thesis unfolding a using Nil True by (simp add: pending_def)
    next
      case (Cons d over2)
      have ind: "indep w (d # over2)" using v(1) True Cons by simp
      note o = open_indep [OF Suc.prems(1) ind]
      have ne: "itemlist w d \<noteq> []" "\<forall>d\<in>set over2. itemlist w d \<noteq> []" using ne_over unfolding Cons by simp_all
      have P2: "pending w (itemlist w d) over2 = pending w ?rem ?over" using o(2) True Cons by simp
      have "card (pending w (itemlist w d) over2) \<le> n" using card P2 by simp
      then have "distinct (iterate n w (d # over2, 0)) \<and> set (iterate n w (d # over2, 0)) = pending w (itemlist w d) over2"
        by (intro Suc.IH [OF Suc.prems(1) _ ne(1) o(1) ne(2)]) simp_all
      then show ?thesis unfolding a P2 Cons .
    qed
  qed
  moreover have "iterate (Suc n) w (c # over, cur) = ?x # iterate n w (advance w (c # over, cur))" by simp
  ultimately show ?case unfolding P using x by (simp only: distinct.simps list.set) blast
qed

lemma getItemsRec_exact:
  assumes "store_ok w" shows "distinct (getItemsRec w c)" "set (getItemsRec w c) = inside w c"
proof -
  have "distinct (getItemsRec w c) \<and> set (getItemsRec w c) = inside w c"
  proof (cases "itemlist w c = []")
    case True
    then have "getItemsRec w c = []" by (cases "cw_next w") (simp_all add: getItemsRec_def)
    then show ?thesis using inside_children [OF assms, of c] True by simp
  next
    case False
    have P: "pending w (itemlist w c) [] = inside w c" using inside_children [OF assms, of c] by (simp add: pending_def)
    have "card (inside w c) \<le> cw_next w" using card_mono [OF _ inside_bound [OF assms]] by simp
    then have "distinct (iterate (cw_next w) w ([c], 0)) \<and> set (iterate (cw_next w) w ([c], 0)) = pending w (itemlist w c) []"
      by (intro iterate_visits [OF assms]) (use False siblings_indep [OF assms] P in simp_all)
    then show ?thesis using False P by (simp add: getItemsRec_def)
  qed
  then show "distinct (getItemsRec w c)" "set (getItemsRec w c) = inside w c" by simp_all
qed

subsection \<open>The container the limits are counted in\<close>

lemma top_container_loop_below:
  assumes ok: "store_ok w" and n: "short (up w) n d" and x: "up w x = Some d"
  shows "\<exists>y r. top_container_loop n w (InItem x) (InItem d) = InItem y \<and> (x, y) \<in> (climbs (up w))\<^sup>* \<and> up w y = Some r \<and> up w r = None"
  using n x
proof (induction n arbitrary: x d)
  case (Suc n)
  show ?case
  proof (cases "up w d")
    case None
    then have "getParent w d = Some p \<Longrightarrow> cyl_container w p = None" for p
      using up_container [OF ok, of d] by (cases p) (auto simp: up_def)
    then have "top_container_loop (Suc n) w (InItem x) (InItem d) = InItem x" by (auto split: option.splits)
    then show ?thesis using Suc.prems(2) None by blast
  next
    case (Some e)
    then have p: "getParent w d = Some (InItem e)" by (auto simp: up_def split: option.splits cyl.splits)
    have "isContainer w e" by (rule up_container [OF ok Some])
    then have l: "top_container_loop (Suc n) w (InItem x) (InItem d) = top_container_loop n w (InItem d) (InItem e)" using p by simp
    have "short (up w) n e" using Suc.prems(1) Some by simp
    then obtain y r where y: "top_container_loop n w (InItem d) (InItem e) = InItem y" "(d, y) \<in> (climbs (up w))\<^sup>*"
        "up w y = Some r" "up w r = None" using Suc.IH Some by blast
    have "(x, d) \<in> climbs (up w)" using Suc.prems(2) by simp
    then have "(x, y) \<in> (climbs (up w))\<^sup>*" using y(2) by (rule converse_rtrancl_into_rtrancl)
    then show ?thesis using y l by auto
  qed
qed simp

lemma top_container_below_root:
  assumes ok: "store_ok w" and c: "isContainer w c"
  shows "up w c = None \<Longrightarrow> getTopParentContainer w c = Some c"
    "up w c \<noteq> None \<Longrightarrow> \<exists>y r. getTopParentContainer w c = Some y \<and> (c, y) \<in> (climbs (up w))\<^sup>* \<and> up w y = Some r \<and> up w r = None"
proof -
  assume "up w c = None"
  then consider "getParent w c = None" | p where "getParent w c = Some p" "\<forall>d. p \<noteq> InItem d"
    by (auto simp: up_def split: option.splits cyl.splits)
  then show "getTopParentContainer w c = Some c"
  proof cases
    case (2 p)
    then have "top_container_loop (chain_fuel w) w (InItem c) p = InItem c"
      unfolding chain_fuel_def by (cases p) (auto split: option.splits simp: numeral_eq_Suc)
    then show ?thesis using 2 c by (simp add: getTopParentContainer_def)
  qed (simp add: getTopParentContainer_def)
next
  assume "up w c \<noteq> None"
  then obtain d where d: "up w c = Some d" by blast
  then have p: "getParent w c = Some (InItem d)" by (auto simp: up_def split: option.splits cyl.splits)
  have "short (up w) (chain_fuel w) d" unfolding chain_fuel_def by (rule short_mono [OF short_store [OF ok]]) simp
  from top_container_loop_below [OF ok this d] obtain y r where y: "top_container_loop (chain_fuel w) w (InItem c) (InItem d) = InItem y"
      "(c, y) \<in> (climbs (up w))\<^sup>*" "up w y = Some r" "up w r = None" by blast
  have "isContainer w y"
  proof (cases "y = c")
    case False
    then obtain x where "up w x = Some y" using y(2) by (auto elim: rtranclE)
    then show ?thesis by (rule up_container [OF ok])
  qed (use c in simp)
  then show "\<exists>y r. getTopParentContainer w c = Some y \<and> (c, y) \<in> (climbs (up w))\<^sup>* \<and> up w y = Some r \<and> up w r = None"
    using y p by (auto simp: getTopParentContainer_def)
qed

subsection \<open>Replacing an item\<close>

lemma upd_item_twice: "upd_item c f (upd_item c g w) = upd_item c (f \<circ> g) w"
  by (simp add: upd_item_def)

lemma upd_item_commute: "i \<noteq> j \<Longrightarrow> upd_item i f (upd_item j g w) = upd_item j g (upd_item i f w)"
  by (simp add: upd_item_def fun_upd_twist)

text \<open>The chain that the weights are updated along does not see an item that is not on it.\<close>

lemma getParentContainer_upd_box: "getParentContainer (upd_box c f w) = getParentContainer w"
proof
  fix i
  have "cyl_container (upd_box c f w) p = cyl_container w p" for p by (cases p) (simp_all add: store_simps)
  then show "getParentContainer (upd_box c f w) i = getParentContainer w i" by (simp add: getParentContainer_def store_simps split: option.split)
qed

lemma weight_loop_setParent:
  "(c, r) \<notin> (climbs (getParentContainer w))\<^sup>* \<Longrightarrow> weight_loop n c d (setParent p r w) = setParent p r (weight_loop n c d w)"
proof (induction n arbitrary: c w)
  case (Suc n)
  let ?f = "\<lambda>b. b\<lparr>bx_totalWeight := bx_totalWeight b + d\<rparr>"
  have cr: "c \<noteq> r" using Suc.prems by blast
  have comm: "upd_box c ?f (setParent p r w) = setParent p r (upd_box c ?f w)"
    unfolding upd_box_def setParent_def by (rule upd_item_commute [OF cr])
  have "cyl_container (setParent p r v) q = cyl_container v q" for q v by (cases q) (simp_all add: store_simps)
  then have par: "getParentContainer (setParent p r v) c = getParentContainer v c" for v
    using cr by (simp add: getParentContainer_def store_simps split: option.split)
  show ?case
  proof (cases "getParentContainer w c")
    case None
    then show ?thesis by (simp add: comm par getParentContainer_upd_box)
  next
    case (Some e)
    then have "(c, e) \<in> climbs (getParentContainer w)" by simp
    then have "(e, r) \<notin> (climbs (getParentContainer w))\<^sup>*" using Suc.prems by (meson converse_rtrancl_into_rtrancl)
    then show ?thesis using Some Suc.IH [of e "upd_box c ?f w"] by (simp add: comm par getParentContainer_upd_box)
  qed
qed simp

lemma list_update_remove1: "distinct l \<Longrightarrow> k < length l \<Longrightarrow> take k (remove1 (l ! k) l) @ i # drop k (remove1 (l ! k) l) = l[k := i]"
proof (induction l arbitrary: k)
  case (Cons x l)
  then show ?case by (cases k) (auto simp: nth_mem)
qed simp

lemma replaceThing_ok:
  assumes inv: "store_inv env w" and i: "getParent w i = None" "i < cw_next w" "(c, i) \<notin> (climbs (up w))\<^sup>*"
  shows "store_inv env (replaceThing env c k i w)"
proof (cases "k < length (itemlist w c)")
  case False
  then show ?thesis using inv by (simp add: replaceThing_def getItemByIndex_def)
next
  case True
  let ?r = "itemlist w c ! k"
  have ok: "store_ok w" "offs env w (\<lambda>_. 0)" using inv by (simp_all add: store_inv_def weights_offs)
  have c: "isContainer w c" using True by (cases "getBox w c") (simp_all add: itemlist_def isContainer_def)
  have r: "?r \<in> set (itemlist w c)" "?r \<noteq> i" using True store_okD(1) [OF ok(1), of ?r c] i(1) by auto
  define w1 where "w1 = erase_item c ?r w"
  note e = erase_ok [OF ok r(1), folded w1_def]
  have "climbs (up w1) \<subseteq> climbs (up w)" unfolding e(5) by (auto split: if_splits)
  then have above: "(c, i) \<notin> (climbs (up w1))\<^sup>*" using i(3) rtrancl_mono by blast
  let ?f = "\<lambda>l. take k l @ i # drop k l"
  define w2 where "w2 = upd_box c (\<lambda>b. b\<lparr>bx_items := ?f (bx_items b)\<rparr>) (setParent (Some (InItem c)) i w1)"
  have f: "mset (?f l) = add_mset i (mset l)" for l
  proof -
    have "mset (take k l) + mset (drop k l) = mset l" by (metis append_take_drop_id mset_append)
    then show ?thesis by simp
  qed
  note p = push_ok [OF e(1,2) _ _ _ above f w2_def, unfolded e(3,4,6,7)]
  have c1: "isContainer w2 c" using c e(7) by (simp add: w2_def store_simps)
  let ?x = "setParent (Some (InItem c)) i (upd_box c (\<lambda>b. b\<lparr>bx_items := (bx_items b)[k := i]\<rparr>) w)"
  have ci: "c \<noteq> i" "c \<noteq> ?r" using i(3) not_own_item [OF ok(1), of c] r(1) by auto
  obtain b where b: "ci_box (cw_items w c) = Some b" "itemlist w c = bx_items b" using c by (auto simp: isContainer_box itemlist_def getBox_def)
  have "distinct (bx_items b)" using store_okD(2) [OF ok(1), of c] b by simp
  then have "?f (remove1 ?r (bx_items b)) = (bx_items b)[k := i]" using True b by (simp add: list_update_remove1)
  then have eq: "w2 = setParent None ?r ?x"
    using ci r(2) b unfolding w2_def w1_def erase_item_def
    by (intro cworld.equality ext) (auto simp: upd_box_def setParent_def upd_item_def)
  have wt: "getWeight env ?x j = getWeight env w j" for j
    using getWeight_upd_list [of env c "\<lambda>l. l[k := i]" w j] by (simp add: setParent_simps)
  have "(c, ?r) \<notin> (climbs (getParentContainer ?x))\<^sup>*"
  proof
    assume "(c, ?r) \<in> (climbs (getParentContainer ?x))\<^sup>*"
    moreover have "climbs (getParentContainer ?x) \<subseteq> insert (i, c) (climbs (up w))"
      by (auto simp: getParentContainer_def up_def store_simps split: option.splits cyl.splits if_splits)
    ultimately have path: "(c, ?r) \<in> (insert (i, c) (climbs (up w)))\<^sup>*" using rtrancl_mono by blast
    have "(c, ?r) \<in> (climbs (up w))\<^sup>*"
      using path i(3) by (auto simp: rtrancl_insert)
    then show False using member_not_above [OF ok(1) r(1)] by blast
  qed
  then have "replaceThing env c k i w = updateItemWeight c (- getWeight env w ?r + getWeight env w i) w2"
    using True weight_loop_setParent [of c ?r ?x _ _ None]
    by (simp add: replaceThing_def getItemByIndex_def Let_def getWeight_upd_list [of env c "\<lambda>l. l[k := i]" w] setParent_simps(8)
        eq updateItemWeight_def chain_fuel_def setParent_simps(5) upd_box_simps(4))
  moreover have "store_ok w2" "offs env w2 ((\<lambda>_. 0)(c := - getWeight env w ?r + getWeight env w i))" using p(1,2) c i(1,2) r(2) by auto
  moreover note updateItemWeight_offs [OF this c1, of "- getWeight env w ?r + getWeight env w i"]
  ultimately show ?thesis using same_forest_store by (simp add: store_inv_def weights_offs offs_zero fun_upd_def [symmetric])
qed

end
