(* ===== verification/ContainerReach.thy ===== *)
theory ContainerReach
  imports ContainerInside
begin

text \<open>
  The reachable states of a store of items, and the properties of containers.  The steps of \<open>ct_reach\<close> are the
  operations of \<open>Container\<close>, moves and additions of the game, the creation of items, and what tiles and players do
  with items that lie on them; each step has the preconditions its callers establish.
\<close>

definition new_store_item :: "citem \<Rightarrow> cworld \<Rightarrow> cworld" where
  "new_store_item x w = w\<lparr>cw_next := Suc (cw_next w), cw_items := (cw_items w)(cw_next w := x)\<rparr>"

definition fresh_item :: "citem \<Rightarrow> bool" where
  "fresh_item x \<longleftrightarrow> ci_parent x = None \<and> (case ci_box x of None \<Rightarrow> True | Some b \<Rightarrow> bx_items b = [] \<and> bx_totalWeight b = 0)"

definition no_item :: "cyl option \<Rightarrow> bool" where
  "no_item p \<longleftrightarrow> (case p of Some (InItem d) \<Rightarrow> False | _ \<Rightarrow> True)"

inductive ct_reach :: "cenv \<Rightarrow> cworld \<Rightarrow> bool" for env where
  start: "\<forall>i. getParent w i = None \<and> \<not> isContainer w i \<Longrightarrow> ct_reach env w"
| create: "ct_reach env w \<Longrightarrow> fresh_item x \<Longrightarrow> ct_reach env (new_store_item x w)"
| place: "ct_reach env w \<Longrightarrow> i < cw_next w \<Longrightarrow> no_item (getParent w i) \<Longrightarrow> no_item p \<Longrightarrow> ct_reach env (setParent p i w)"
| change: "ct_reach env w \<Longrightarrow> no_item (getParent w i) \<Longrightarrow> (\<And>x. ci_parent (f x) = ci_parent x) \<Longrightarrow> (\<And>x. ci_box (f x) = ci_box x) \<Longrightarrow>
    ct_reach env (upd_item i f w)"
| move: "ct_reach env w \<Longrightarrow> \<not> hasBitSet FLAG_CHILDISOWNER flags \<Longrightarrow>
    internalMoveItem env fromCylinder toCylinder index i cnt flags tradeItem w = Some (ret, moved, w') \<Longrightarrow> ct_reach env w'"
| add: "ct_reach env w \<Longrightarrow> \<not> hasBitSet FLAG_CHILDISOWNER flags \<Longrightarrow> getParent w i = None \<Longrightarrow> i < cw_next w \<Longrightarrow>
    internalAddItem env c i index flags test w = Some (ret, r, w') \<Longrightarrow> ct_reach env w'"
| put: "ct_reach env w \<Longrightarrow> isContainer w c \<Longrightarrow> getParent w i = None \<Longrightarrow> i < cw_next w \<Longrightarrow> itemlist w i = [] \<Longrightarrow> i \<noteq> c \<Longrightarrow>
    w' \<in> {addThing env c index i w, internalAddThing env c i w, addItemBack env c i w, replaceThing env c k i w} \<Longrightarrow> ct_reach env w'"
| remove: "ct_reach env w \<Longrightarrow> ct_reach env (removeThing env c i cnt w)"
| update: "ct_reach env w \<Longrightarrow> ct_reach env (updateThing env c i ident cnt w)"
| players: "ct_reach env w \<Longrightarrow> same_items w w' \<Longrightarrow> ct_reach env w'"

lemma up_no_item: "no_item (getParent w i) \<longleftrightarrow> up w i = None"
  by (auto simp: no_item_def up_def split: option.splits cyl.splits)

lemma new_store_item_ok:
  assumes inv: "store_inv env w" and x: "fresh_item x" shows "store_inv env (new_store_item x w)"
proof -
  let ?w = "new_store_item x w" and ?j = "cw_next w"
  have ok: "store_ok w" using inv by (simp add: store_inv_def)
  have free: "getParent w ?j = None" "getBox w ?j = None" using store_okD(3,4) [OF ok, of ?j] unfolding isContainer_def by blast+
  have par: "getParent ?w k = getParent w k" for k
    using free x by (cases "k = ?j") (simp_all add: new_store_item_def getParent_def fresh_item_def)
  have up: "up ?w = up w" by (rule up_cong) (rule par)
  have box: "getBox ?w k = (if k = ?j then ci_box x else getBox w k)" for k by (simp add: new_store_item_def getBox_def)
  have items: "k \<noteq> ?j \<Longrightarrow> cw_items ?w k = cw_items w k" for k by (simp add: new_store_item_def)
  have list: "itemlist ?w k = itemlist w k" for k
    using free x by (auto simp: itemlist_def box fresh_item_def split: option.splits)
  have "store_ok ?w" unfolding store_ok_def
  proof (intro conjI allI)
    show "getParent ?w k \<noteq> None \<or> isContainer ?w k \<longrightarrow> k < cw_next ?w" for k
      using store_okD(3,4) [OF ok, of k] unfolding par isContainer_def box by (simp add: new_store_item_def less_Suc_eq)
  qed (simp_all add: up par list store_okD(1,2,5) [OF ok])
  moreover have "bx_totalWeight b = sum_list (map (getWeight env ?w) (bx_items b))" if b: "getBox ?w c = Some b" for c b
  proof (cases "c = ?j")
    case True
    then show ?thesis using b x by (simp add: box fresh_item_def)
  next
    case False
    then have b': "getBox w c = Some b" using b by (simp add: box)
    have "k \<noteq> ?j" if "k \<in> set (bx_items b)" for k using store_okD(1) [OF ok, of k c] free that b' by (auto simp: itemlist_def)
    then have "map (getWeight env ?w) (bx_items b) = map (getWeight env w) (bx_items b)"
      by (intro map_cong [OF refl]) (simp add: getWeight_def box items)
    then have "sum_list (map (getWeight env ?w) (bx_items b)) = sum_list (map (getWeight env w) (bx_items b))" by (rule arg_cong)
    then show ?thesis using inv b' by (simp add: store_inv_def weights_ok_def)
  qed
  ultimately show ?thesis by (simp add: store_inv_def weights_ok_def)
qed

lemma place_ok:
  assumes inv: "store_inv env w" and i: "i < cw_next w" "no_item (getParent w i)" and p: "no_item p"
  shows "store_inv env (setParent p i w)"
proof -
  have ok: "store_ok w" using inv by (simp add: store_inv_def)
  have "(case p of Some (InItem d) \<Rightarrow> Some d | _ \<Rightarrow> None) = None" using p by (auto simp: no_item_def split: option.splits cyl.splits)
  then have up: "up (setParent p i w) = up w"
    using i(2) unfolding up_no_item up_setParent by (simp add: fun_upd_idem)
  have "store_ok (setParent p i w)" unfolding store_ok_def
  proof (intro conjI allI)
    show "j \<in> set (itemlist (setParent p i w) k) \<longleftrightarrow> getParent (setParent p i w) j = Some (InItem k)" for j k
      using store_okD(1) [OF ok, of j k] i(2) p by (auto simp: store_simps no_item_def)
  qed (use store_okD [OF ok] i(1) in \<open>auto simp: store_simps up\<close>)
  moreover have "getWeight env (setParent p i w) = getWeight env w" by (rule ext) (simp add: store_simps)
  then have "weights_ok env (setParent p i w)" using inv by (simp add: store_inv_def weights_ok_def store_simps)
  ultimately show ?thesis by (simp add: store_inv_def)
qed

lemma put_above:
  assumes "store_ok w" "itemlist w i = []" "i \<noteq> c" shows "(c, i) \<notin> (climbs (up w))\<^sup>*"
proof
  assume "(c, i) \<in> (climbs (up w))\<^sup>*"
  then obtain x where "up w x = Some i" using assms(3) by (auto elim: rtranclE)
  then show False using up_iff [OF assms(1)] assms(2) by (metis empty_iff empty_set)
qed

lemma reach_inv: assumes "ct_reach env w" shows "store_inv env w"
  using assms
proof (induction rule: ct_reach.induct)
  case (start w)
  then have "itemlist w c = []" "up w i = None" "getBox w c = None" for c i
    by (auto simp: itemlist_def up_def isContainer_def split: option.split)
  then show ?case using start by (auto simp: store_inv_def store_ok_def weights_ok_def intro: ends.root)
next
  case (create w x)
  then show ?case by (intro new_store_item_ok)
next
  case (place w i p)
  then show ?case by (intro place_ok)
next
  case (change w i f)
  have ok: "store_ok w" using change.IH by (simp add: store_inv_def)
  have "i \<notin> set (itemlist w c)" for c using store_okD(1) [OF ok, of i c] change.hyps(2) by (auto simp: no_item_def)
  then show ?case by (intro change_free_ok(1) [OF change.IH _ change.hyps(3,4)])
next
  case (move w flags fromCylinder toCylinder index i cnt tradeItem ret moved w')
  show ?case by (rule internalMoveItem_ok [OF move.IH move.hyps(2,3)])
next
  case (add w flags i c index test ret r w')
  show ?case by (rule add_loop_ok [OF add.IH add.hyps(2-4) add.hyps(5) [unfolded internalAddItem_def]])
next
  case (put w c i w' index k)
  have ok: "store_ok w" using put.IH by (simp add: store_inv_def)
  note above = put_above [OF ok put.hyps(5,6)]
  have "store_inv env (push_item env c f i w)" if "\<And>l. mset (f l) = add_mset i (mset l)" for f
    by (rule push_item_frame(1) [OF put.IH put.hyps(2-4) above that])
  then have "store_inv env (internalAddThing env c i w)" "store_inv env (addItemBack env c i w)"
    by (simp_all add: internalAddThing_def addItemBack_def)
  moreover have "store_inv env (addThing env c index i w)" by (rule addThing_ok(1) [OF put.IH put.hyps(2-4) above])
  moreover have "store_inv env (replaceThing env c k i w)" by (rule replaceThing_ok [OF put.IH put.hyps(3,4) above])
  ultimately show ?case using put.hyps(7) by blast
next
  case (remove w c i cnt)
  then show ?case using removeThing_ok(1) by blast
next
  case (update w c i ident cnt)
  then show ?case using updateThing_ok(1) by blast
next
  case (players w w')
  then show ?case using same_items_ok by blast
qed

end
