(* ===== verification/ContainerStock.thy ===== *)
theory ContainerStock
  imports ContainerReach
begin

text \<open>
  Moves conserve items: of each kind, the items that lie somewhere (in a container, on a tile, on a player) are
  counted before and after.  A stack may be split, merged with another one or replaced by a copy; the sum stays.
  The exception is a container with pages: an index beyond its capacity passes every query, and the item is dropped.
\<close>

definition worth :: "u16 \<Rightarrow> cworld \<Rightarrow> nat \<Rightarrow> nat" where
  "worth t w i = (if getParent w i \<noteq> None \<and> it_id (cw_items w i) = t then unat (itemCount w i) else 0)"

definition stock :: "u16 \<Rightarrow> cworld \<Rightarrow> nat" where
  "stock t w = (\<Sum>i<cw_next w. worth t w i)"

definition page_size :: "cworld \<Rightarrow> nat \<Rightarrow> u32" where
  "page_size w c = bx_maxSize (the (getBox w c))"

lemma stock_change:
  assumes "cw_next w' = cw_next w" "i < cw_next w" "\<And>j. j \<noteq> i \<Longrightarrow> worth t w' j = worth t w j"
  shows "stock t w' + worth t w i = stock t w + worth t w' i"
proof -
  have "stock t v = worth t v i + (\<Sum>j\<in>{..<cw_next w} - {i}. worth t v j)" if "cw_next v = cw_next w" for v
    unfolding stock_def that by (rule sum.remove) (use assms(2) in simp_all)
  moreover have "(\<Sum>j\<in>{..<cw_next w} - {i}. worth t w' j) = (\<Sum>j\<in>{..<cw_next w} - {i}. worth t w j)"
    by (rule sum.cong) (use assms(3) in simp_all)
  ultimately show ?thesis using assms(1) by simp
qed

lemma stock_same: "cw_next w' = cw_next w \<Longrightarrow> (\<And>j. worth t w' j = worth t w j) \<Longrightarrow> stock t w' = stock t w"
  by (simp add: stock_def)

subsection \<open>What operations leave alone\<close>

lemma weight_loop_size: "map_option bx_maxSize (getBox (weight_loop n c d w) k) = map_option bx_maxSize (getBox w k)"
proof (induction n arbitrary: c w)
  case (Suc n)
  let ?w = "upd_box c (\<lambda>b. b\<lparr>bx_totalWeight := bx_totalWeight b + d\<rparr>) w"
  have "map_option bx_maxSize (getBox ?w k) = map_option bx_maxSize (getBox w k)"
    by (cases "getBox w c") (auto simp: store_simps)
  then show ?case using Suc.IH by (auto simp: Let_def split: option.split)
qed simp

lemma upd_item_size: "(\<And>x. ci_box (f x) = ci_box x) \<Longrightarrow> getBox (upd_item i f w) k = getBox w k"
  by (simp add: getBox_def store_simps)

lemma erase_item_size: "map_option bx_maxSize (getBox (erase_item c i w) k) = map_option bx_maxSize (getBox w k)"
  by (cases "getBox w c") (auto simp: erase_item_def store_simps)

lemma erase_item_other: "it_id (cw_items (erase_item c i w) j) = it_id (cw_items w j)"
    "it_count (cw_items (erase_item c i w) j) = it_count (cw_items w j)"
  by (simp_all add: erase_item_def upd_box_def setParent_def upd_item_def)

lemma removeThing_counts:
  "it_id (cw_items (removeThing env c i m w) j) = it_id (cw_items w j)"
    "itemCount (removeThing env c i m w) j = (if j = i \<and> i \<in> set (itemlist w c) \<and> ity_stackable (itype env w i) \<and> m \<noteq> ucast (itemCount w i)
       then ucast (if ucast (itemCount w i) - m <s 0 then 0 else ucast (itemCount w i) - m :: u32) else itemCount w j)"
    "map_option bx_maxSize (getBox (removeThing env c i m w) k) = map_option bx_maxSize (getBox w k)"
  by (auto simp: removeThing_def getThingIndex_iff Let_def updateItemWeight_def weight_loop_item erase_item_other erase_item_size
      weight_loop_size upd_item_size itemCount_def store_simps)

lemma setID_count: "it_count (setID types n x) = it_count x" "it_id (setID types n x) = n"
  by (simp_all add: setID_def Let_def setDecaying_def setDuration_def set_int_def del_attr_def)

lemma updateThing_counts:
  assumes i: "i \<in> set (itemlist w c)" and s: "ity_stackable (ce_types env ident)" "\<not> ity_fluidContainer (ce_types env ident)" "\<not> ity_splash (ce_types env ident)"
  shows "it_id (cw_items (updateThing env c i ident cnt w) j) = (if j = i then ident else it_id (cw_items w j))"
    "itemCount (updateThing env c i ident cnt w) j = (if j = i then ucast (ucast cnt :: u16) else itemCount w j)"
    "map_option bx_maxSize (getBox (updateThing env c i ident cnt w) k) = map_option bx_maxSize (getBox w k)"
proof -
  have "ci_box (let y = setSubType (ce_types env) n x in y\<lparr>ci_attributePtr := q x y\<rparr>) = ci_box x"
    "ci_box (let y = setID (ce_types env) p x in y\<lparr>ci_attributePtr := q x y\<rparr>) = ci_box x" for n p q and x :: citem
    by (simp_all add: setID_place setSubType_place Let_def)
  then show "map_option bx_maxSize (getBox (updateThing env c i ident cnt w) k) = map_option bx_maxSize (getBox w k)"
    using i by (simp add: updateThing_def getThingIndex_iff Let_def updateItemWeight_def weight_loop_size upd_attrs_def upd_item_size)
  show "it_id (cw_items (updateThing env c i ident cnt w) j) = (if j = i then ident else it_id (cw_items w j))"
    "itemCount (updateThing env c i ident cnt w) j = (if j = i then ucast (ucast cnt :: u16) else itemCount w j)"
    using i s by (simp_all add: updateThing_def getThingIndex_iff Let_def updateItemWeight_def weight_loop_item upd_attrs_def upd_item_def
        itemCount_def setID_count setSubType_def)
qed

lemma push_item_counts:
  "it_id (cw_items (push_item env c f i w) j) = it_id (cw_items w j)" "itemCount (push_item env c f i w) j = itemCount w j"
  by (simp_all add: push_item_def Let_def updateItemWeight_def weight_loop_item itemCount_def upd_box_def setParent_def upd_item_def)

lemma push_item_size: "map_option bx_maxSize (getBox (push_item env c f i w) k) = map_option bx_maxSize (getBox w k)"
  by (cases "getBox w c") (auto simp: push_item_def Let_def updateItemWeight_def weight_loop_size store_simps)

lemma addThing_size: "map_option bx_maxSize (getBox (addThing env c index i w) k) = map_option bx_maxSize (getBox w k)"
  by (simp add: addThing_def push_item_size split: option.split)

lemma addThing_stock:
  assumes inv: "store_inv env w" and c: "isContainer w c" and i: "getParent w i = None" "i < cw_next w" "(c, i) \<notin> (climbs (up w))\<^sup>*"
    and size: "index < sint (page_size w c)"
  shows "stock t (addThing env c index i w) = stock t w + (if it_id (cw_items w i) = t then unat (itemCount w i) else 0)"
proof -
  let ?w = "addThing env c index i w"
  note a = addThing_ok [OF inv c i, of index]
  have push: "?w = push_item env c (\<lambda>l. i # l) i w" using c size by (auto simp: addThing_def isContainer_box page_size_def)
  have "stock t ?w + worth t w i = stock t w + worth t ?w i"
  proof (rule stock_change [OF a(3) i(2)])
    show "worth t ?w j = worth t w j" if "j \<noteq> i" for j
      using that by (simp add: worth_def a(2)) (simp add: push push_item_counts)
  qed
  moreover have "worth t w i = 0" using i(1) by (simp add: worth_def)
  moreover have "worth t ?w i = (if it_id (cw_items w i) = t then unat (itemCount w i) else 0)"
    using size by (simp add: worth_def a(2) page_size_def) (simp add: push push_item_counts)
  ultimately show ?thesis by simp
qed

text \<open>Counts at their width.\<close>

lemma unat_u8_in_u32 [simp]: "unat (ucast (c :: u8) :: u32) = unat c"
  by (simp add: unsigned_ucast_eq take_bit_nat_eq_self [OF less_trans [OF unat_u8_less]])

lemma small_sint: assumes "unat (d :: u32) < 256" shows "sint d = uint d"
proof -
  have "int (unat d) < 256" using assms by linarith
  then have "uint d < 256" by (simp only: uint_nat)
  moreover have "- (2 ^ 31) \<le> uint d" by (rule order_trans [OF _ uint_ge_0]) simp
  ultimately have "signed_take_bit 31 (uint d) = uint d" by (intro signed_take_bit_int_eq_self) simp_all
  moreover have "sint d = signed_take_bit 31 (uint d)" by (simp only: sint_uint) simp
  ultimately show ?thesis by simp
qed

lemma count_left:
  assumes "m \<le> (ucast (c :: u8) :: u32)"
  shows "unat (ucast (if ucast c - m <s 0 then 0 else ucast c - m :: u32) :: u8) = unat c - unat m"
proof -
  let ?d = "ucast c - m :: u32"
  have d: "unat ?d = unat c - unat m" using unat_sub [OF assms] by simp
  then have small: "unat ?d < 256" using unat_u8_less [of c] by linarith
  have "\<not> ?d <s 0" unfolding word_sless_alt small_sint [OF small] by (simp only: signed_0 not_less) (rule uint_ge_0)
  moreover have "unat (ucast ?d :: u8) = unat ?d"
    unfolding unsigned_ucast_eq by (rule take_bit_nat_eq_self) (use small in simp)
  ultimately show ?thesis using d by simp
qed


subsection \<open>A transfer\<close>

definition plain_stacks :: "cenv \<Rightarrow> cworld \<Rightarrow> bool" where
  "plain_stacks env w \<longleftrightarrow> (\<forall>j. ity_stackable (itype env w j) \<longrightarrow> itemCount w j \<le> getStackSize env w j \<and>
     \<not> ity_fluidContainer (itype env w j) \<and> \<not> ity_splash (itype env w j) \<and> map_of ItemTransformationMap (it_id (cw_items w j)) = None)"

lemma fill_stack:
  assumes "(c :: u8) \<le> s" and n: "n = min (word_of_int (uint s - uint c)) (m :: u32)"
  shows "unat (ucast (ucast (ucast c + n :: u32) :: u16) :: u8) = unat c + unat n" "n \<le> m"
proof -
  have cs: "unat c \<le> unat s" using assms(1) by (simp add: word_le_nat_alt)
  have "int (unat s) - int (unat c) = int (unat s - unat c)" using cs by (simp only: of_nat_diff)
  then have "uint s - uint c = int (unat s - unat c)" by (simp only: uint_nat)
  then have "word_of_int (uint s - uint c) = (word_of_nat (unat s - unat c) :: u32)" by simp
  moreover have room: "unat (word_of_nat (unat s - unat c) :: u32) = unat s - unat c"
  proof -
    have "unat s - unat c \<le> unat s" by simp
    also have "\<dots> < 256" by (rule unat_u8_less)
    finally have "take_bit 32 (unat s - unat c) = unat s - unat c" by (intro take_bit_nat_eq_self) simp
    then show ?thesis by (simp add: unsigned_of_nat)
  qed
  ultimately have "unat n \<le> unat s - unat c" unfolding n by (metis min.cobounded1 word_le_nat_alt)
  then have sum: "unat c + unat n < 256" using unat_u8_less [of s] cs by linarith
  have c32: "unat (ucast c :: u32) = unat c" by (simp add: unsigned_ucast_eq take_bit_nat_eq_self [OF less_trans [OF unat_u8_less]])
  have s32: "unat (ucast c + n :: u32) = unat c + unat n"
    by (subst unat_plus_simple [THEN iffD1]) (use sum c32 in \<open>simp_all add: no_olen_add_nat\<close>)
  have s16: "unat (ucast (ucast c + n :: u32) :: u16) = unat c + unat n"
    unfolding unsigned_ucast_eq s32 by (rule take_bit_nat_eq_self) (use sum in simp)
  show "unat (ucast (ucast (ucast c + n :: u32) :: u16) :: u8) = unat c + unat n"
    unfolding unsigned_ucast_eq [of "ucast (ucast c + n :: u32) :: u16"] s16 by (rule take_bit_nat_eq_self) (use sum in simp)
  show "n \<le> m" by (simp add: n)
qed

lemma same_items_stock: assumes "same_items w w'" shows "stock t w' = stock t w"
  unfolding stock_def worth_def itemCount_def same_itemsD [OF assms] ..

text \<open>Taking out of a container what is moved.\<close>

lemma removeThing_stock:
  assumes inv: "store_inv env w" and i: "i \<in> set (itemlist w c)"
    and m: "ity_stackable (itype env w i) \<Longrightarrow> m \<le> ucast (itemCount w i)"
  shows "stock t (removeThing env c i m w) +
      (if it_id (cw_items w i) = t then (if ity_stackable (itype env w i) then unat m else unat (itemCount w i)) else 0) = stock t w"
proof -
  let ?w = "removeThing env c i m w" and ?s = "ity_stackable (itype env w i)"
  note r = removeThing_ok [OF inv refl, of c i m] and n = removeThing_counts [of env c i m w]
  have ok: "store_ok w" using inv by (simp add: store_inv_def)
  have par: "getParent w i = Some (InItem c)" using store_okD(1) [OF ok] i by simp
  then have inn: "i < cw_next w" using store_okD(3) [OF ok] by simp
  have "worth t ?w j = worth t w j" if "j \<noteq> i" for j using that by (simp add: worth_def r(5) n(1,2))
  then have st: "stock t ?w + worth t w i = stock t w + worth t ?w i" by (rule stock_change [OF r(3) inn])
  have wi: "worth t w i = (if it_id (cw_items w i) = t then unat (itemCount w i) else 0)" by (simp add: worth_def par)
  show ?thesis
  proof (cases "?s \<and> m \<noteq> ucast (itemCount w i)")
    case True
    have le: "unat m \<le> unat (itemCount w i)"
      using m True by (simp add: word_le_nat_alt unsigned_ucast_eq take_bit_nat_eq_self [OF less_trans [OF unat_u8_less]])
    have "worth t ?w i = (if it_id (cw_items w i) = t then unat (itemCount w i) - unat m else 0)"
      using True i par count_left [OF m] by (simp add: worth_def r(5) n(1,2))
    then show ?thesis using st wi le True by (auto split: if_splits)
  next
    case False
    then have "worth t ?w i = 0" using i by (auto simp: worth_def r(5))
    moreover have "unat m = unat (itemCount w i)" if ?s
      using False that by (simp add: unsigned_ucast_eq take_bit_nat_eq_self [OF less_trans [OF unat_u8_less]])
    ultimately show ?thesis using st wi by (auto split: if_splits)
  qed
qed

text \<open>A stack that grows.\<close>

lemma updateThing_stock:
  assumes inv: "store_inv env w" and i: "i \<in> set (itemlist w c)" and id: "ident = it_id (cw_items w i)"
    and s: "ity_stackable (ce_types env ident)" "\<not> ity_fluidContainer (ce_types env ident)" "\<not> ity_splash (ce_types env ident)"
    and n: "unat (ucast (ucast k :: u16) :: u8) = unat (itemCount w i) + n"
  shows "stock t (updateThing env c i ident k w) = stock t w + (if ident = t then n else 0)"
proof -
  let ?w = "updateThing env c i ident k w"
  have ok: "store_ok w" using inv by (simp add: store_inv_def)
  have par: "getParent w i = Some (InItem c)" using store_okD(1) [OF ok] i by simp
  then have inn: "i < cw_next w" using store_okD(3) [OF ok] by simp
  note f = same_forestD [OF updateThing_ok(2) [OF inv, of c i ident k]]
  note u = updateThing_counts [OF i s]
  have "worth t ?w j = worth t w j" if "j \<noteq> i" for j using that by (simp add: worth_def f u)
  then have "stock t ?w + worth t w i = stock t w + worth t ?w i" by (rule stock_change [OF f(4) inn])
  moreover have "worth t ?w i = worth t w i + (if ident = t then n else 0)" unfolding worth_def f u using n par by (simp add: id)
  ultimately show ?thesis by simp
qed

text \<open>A copy lies nowhere, and so do its later changes.\<close>

lemma clone_stock:
  assumes inv: "store_inv env w" and cl: "clone_item env i w = Some (j, w')"
  shows "stock t (upd_item j (\<lambda>x. x\<lparr>it_count := k\<rparr>) w') = stock t w"
proof -
  let ?w = "upd_item j (\<lambda>x. x\<lparr>it_count := k\<rparr>) w'"
  note c = clone_ok [OF inv cl]
  have other: "l \<noteq> j \<Longrightarrow> cw_items w' l = cw_items w l" for l using cl by (auto simp: clone_item_def Let_def split: option.splits)
  have "getParent ?w j = None" using c(4,8) by (simp add: getParent_def store_simps) (metis getParent_def)
  then have "worth t ?w j = 0" by (simp add: worth_def)
  moreover have "worth t ?w l = worth t w l" if "l \<noteq> j" for l
    using that other by (simp add: worth_def getParent_def itemCount_def store_simps)
  moreover have "cw_next ?w = Suc j" using c(2,3) by (simp add: store_simps)
  ultimately show ?thesis unfolding stock_def by (simp add: c(2) [symmetric])
qed

lemma find_stack_in: "find_stack env w i n js = Some (k, j) \<Longrightarrow> j \<in> set js"
  by (induction js arbitrary: n) (auto split: if_splits)

lemma auto_stack_in:
  assumes "auto_stack env w c i flags k d = (k', Some j)" "\<And>l. d = Some l \<Longrightarrow> l \<in> set (itemlist w c)"
  shows "j \<in> set (itemlist w c)"
  using assms by (auto simp: auto_stack_def dest: find_stack_in split: if_splits option.splits)

lemma toItem_in_list:
  assumes "queryDestination env w c index i None flags = (c', index', Some t)"
  shows "c' = c \<and> t \<in> set (itemlist w c)"
proof -
  have byindex: "l \<in> set (itemlist w c)" if "getItemByIndex w c k = Some l" for c k l
    using that by (auto simp: getItemByIndex_def split: if_splits)
  have a: "t \<in> set (itemlist w c)" if "auto_stack env w c i flags k None = (index', Some t)" for c k
    by (rule auto_stack_in [OF that]) simp
  have b: "t \<in> set (itemlist w c)"
    if "auto_stack env w c i flags k (Some l) = (index', Some t)" "getItemByIndex w c k = Some l" for c k l
    by (rule auto_stack_in [OF that(1)]) (use that(2) byindex in auto)
  show ?thesis
    using assms unfolding queryDestination_def Let_def
    by (auto split: option.splits if_splits prod.splits dest: a b)
qed

lemma destination_toItem:
  "destination n env w i c index None flags = (c', index', Some t, flags') \<Longrightarrow> t \<in> set (itemlist w c')"
proof (induction n arbitrary: c index flags)
  case 0
  obtain c2 index2 toItem2 where q: "queryDestination env w c index i None flags = (c2, index2, toItem2)" by (metis prod_cases3)
  show ?case using 0 q toItem_in_list [of env w c index i flags] by (subst (asm) destination.simps) (auto split: if_splits)
next
  case (Suc n)
  obtain c2 index2 toItem2 where q: "queryDestination env w c index i None flags = (c2, index2, toItem2)" by (metis prod_cases3)
  show ?case
  proof (cases "c2 = c")
    case True
    then show ?thesis using Suc.prems q toItem_in_list [of env w c index i flags] by (subst (asm) destination.simps) simp
  next
    case False
    have none: "toItem2 = None"
    proof (cases toItem2)
      case (Some j)
      then show ?thesis using toItem_in_list [of env w c index i flags c2 index2 j] q False by simp
    qed
    have "destination n env w i c2 index2 None 0 = (c', index', Some t, flags')"
      using Suc.prems q False none by (subst (asm) destination.simps) simp
    then show ?thesis by (rule Suc.IH)
  qed
qed

lemma page_size_cong:
  assumes "map_option bx_maxSize (getBox w' c) = map_option bx_maxSize (getBox w c)" "isContainer w c"
  shows "page_size w' c = page_size w c"
  using assms by (auto simp: page_size_def isContainer_def)

text \<open>The copy that carries the rest of a stack.\<close>

lemma copy_stock:
  fixes k :: u8
  assumes inv: "store_inv env w" and c: "isContainer w c" and cl: "clone_item env i w = Some (j, w')"
    and i: "map_of ItemTransformationMap (it_id (cw_items w i)) = None"
    and size: "index < sint (page_size w c)"
  defines "w3 \<equiv> upd_item j (\<lambda>x. x\<lparr>it_count := k\<rparr>) w'"
  shows "stock t (addThing env c index j w3) = stock t w + (if it_id (cw_items w i) = t then unat k else 0)"
proof -
  note cl' = clone_ok [OF inv cl]
  have ok': "store_ok w'" "store_ok w" using cl'(1) inv by (simp_all add: store_inv_def)
  have free: "j \<notin> set (itemlist w' d)" for d using store_okD(1) [OF ok'(1)] cl'(4,8) by simp
  note ch = change_free_ok [OF cl'(1) free, of "\<lambda>x. x\<lparr>it_count := k\<rparr>", folded w3_def]
  note f = same_forestD [OF ch(2) [simplified]]
  have "c \<noteq> j" using cl'(9) c by auto
  then have above: "(c, j) \<notin> (climbs (up w3))\<^sup>*" using not_above_free [OF ok'(2), of j c] cl'(5,9) by (simp add: f)
  have "getBox w3 c = getBox w c"
    using cl \<open>c \<noteq> j\<close> by (auto simp: w3_def clone_item_def Let_def getBox_def store_simps split: option.splits)
  then have size': "index < sint (page_size w3 c)" using size by (simp add: page_size_def)
  have id: "it_id (cw_items w3 j) = it_id (cw_items w i)"
    using cl i by (auto simp: w3_def clone_item_def Let_def store_simps CreateItem_def itype_def new_item_def setDefaultDuration_def
        setDuration_def set_int_def split: option.splits if_splits)
  have "itemCount w3 j = k" by (simp add: w3_def itemCount_def store_simps)
  then show ?thesis
    using addThing_stock [OF ch(1) _ _ _ above size', simplified f] cl'(2,3,4,6,8) c clone_stock [OF inv cl, of t k, folded w3_def] id
    by (simp add: f)
qed

text \<open>What the transfer finds after taking the item out.\<close>

lemma taken_out:
  assumes inv: "store_inv env w" and i: "i \<in> set (itemlist w c)" and w1: "w1 = removeThing env c i m w"
  shows "itype env w1 j = itype env w j" "t \<noteq> i \<Longrightarrow> itemCount w1 t = itemCount w t"
    "t \<noteq> i \<Longrightarrow> t \<in> set (itemlist w d) \<Longrightarrow> t \<in> set (itemlist w1 d)"
    "isContainer w d \<Longrightarrow> page_size w1 d = page_size w d"
proof -
  note n = removeThing_counts [of env c i m w, folded w1]
  note r = removeThing_ok [OF inv w1]
  have ok: "store_ok w" "store_ok w1" using inv r(1) by (simp_all add: store_inv_def)
  show "itype env w1 j = itype env w j" by (simp add: itype_def n(1))
  show "t \<noteq> i \<Longrightarrow> itemCount w1 t = itemCount w t" by (simp add: n(2))
  show "t \<noteq> i \<Longrightarrow> t \<in> set (itemlist w d) \<Longrightarrow> t \<in> set (itemlist w1 d)"
    using store_okD(1) [OF ok(1)] store_okD(1) [OF ok(2)] r(5) by simp
  show "isContainer w d \<Longrightarrow> page_size w1 d = page_size w d" by (rule page_size_cong [OF n(3)])
qed

lemma rest_of_stack:
  assumes "n \<le> m" "m \<le> (ucast (c :: u8) :: u32)"
  shows "0 <s m - n \<longleftrightarrow> n \<noteq> m" "unat (ucast (m - n) :: u8) + unat n = unat m"
proof -
  have m: "unat m < 256" using assms(2) order_le_less_trans [OF _ unat_u8_less [of c]] by (simp add: word_le_nat_alt)
  have d: "unat (m - n) = unat m - unat n" by (rule unat_sub [OF assms(1)])
  have small: "unat (m - n) < 256" using d m by simp
  have "unat (ucast (m - n) :: u8) = unat (m - n)"
    unfolding unsigned_ucast_eq by (rule take_bit_nat_eq_self) (use small in simp)
  then show "unat (ucast (m - n) :: u8) + unat n = unat m" using d assms(1) by (simp add: word_le_nat_alt)
  have "0 <s m - n \<longleftrightarrow> 0 < uint (m - n)" unfolding word_sless_alt small_sint [OF small] by (simp only: signed_0)
  then show "0 <s m - n \<longleftrightarrow> n \<noteq> m" by (metis eq_iff_diff_eq_0 uint_ge_0 order_less_le uint_0_iff)
qed

lemma plain_stacksD:
  assumes "plain_stacks env w" "ity_stackable (itype env w j)"
  shows "itemCount w j \<le> getStackSize env w j" "\<not> ity_fluidContainer (itype env w j)" "\<not> ity_splash (itype env w j)"
    "map_of ItemTransformationMap (it_id (cw_items w j)) = None"
  using assms unfolding plain_stacks_def by blast+

lemma equals_id: "equals w i (Some t) \<Longrightarrow> it_id (cw_items w t) = it_id (cw_items w i)"
  by (simp add: equals_def item_equals_def)

text \<open>The stack at the destination takes what it has room for.\<close>

lemma merge_stock:
  assumes inv: "store_inv env w" and t: "t \<in> set (itemlist w c)" and e: "equals w i (Some t)"
    and s: "ity_stackable (itype env w i)" "\<not> ity_fluidContainer (itype env w i)" "\<not> ity_splash (itype env w i)"
    and k: "itemCount w t \<le> getStackSize env w t"
    and n: "n = min (word_of_int (uint (getStackSize env w t) - uint (itemCount w t))) m"
  shows "stock k' (updateThing env c t (it_id (cw_items w t)) (ucast (itemCount w t) + n) w) =
      stock k' w + (if it_id (cw_items w i) = k' then unat n else 0)" "n \<le> m"
proof -
  have ty: "ce_types env (it_id (cw_items w t)) = itype env w i" by (simp add: itype_def equals_id [OF e])
  show "n \<le> m" by (rule fill_stack(2) [OF k n])
  have "stock k' (updateThing env c t (it_id (cw_items w t)) (ucast (itemCount w t) + n) w) =
      stock k' w + (if it_id (cw_items w t) = k' then unat n else 0)"
    by (rule updateThing_stock [OF inv t refl]) (use s fill_stack(1) [OF k n] in \<open>simp_all add: ty\<close>)
  then show "stock k' (updateThing env c t (it_id (cw_items w t)) (ucast (itemCount w t) + n) w) =
      stock k' w + (if it_id (cw_items w i) = k' then unat n else 0)" by (simp add: equals_id [OF e])
qed

lemma transfer_stock:
  assumes inv: "store_inv env w" and c: "isContainer w c" and i: "i \<in> set (itemlist w from)"
    and above: "(c, i) \<notin> (climbs (up w))\<^sup>*" and plain: "plain_stacks env w"
    and m: "ity_stackable (itype env w i) \<Longrightarrow> m \<le> ucast (itemCount w i)"
    and to: "\<And>t. toItem = Some t \<Longrightarrow> t \<in> set (itemlist w c) \<and> t \<noteq> i"
    and size: "index < sint (page_size w c)"
    and t: "transfer_item env from c index i m toItem w = Some (moved, w')"
  shows "stock k w' = stock k w"
proof -
  let ?stack = "ity_stackable (itype env w i)"
  define w1 where "w1 = removeThing env from i m w"
  note r = removeThing_ok [OF inv w1_def] and o = taken_out [OF inv i w1_def]
  note out = removeThing_stock [OF inv i m, folded w1_def]
  have above1: "(c, i) \<notin> (climbs (up w1))\<^sup>*" using above r(2) rtrancl_mono by blast
  define n where "n = (case toItem of None \<Rightarrow> 0 | Some t \<Rightarrow> if ?stack \<and> equals w1 i (Some t)
       then min (word_of_int (uint (getStackSize env w1 t) - uint (itemCount w1 t))) m else 0)"
  define u where "u = (if ?stack \<and> equals w1 i toItem then toItem else None)"
  define w2 where "w2 = (case u of None \<Rightarrow> w1
       | Some t \<Rightarrow> updateThing env c t (it_id (cw_items w1 t)) (ucast (itemCount w1 t) + n) w1)"
  have w2: "store_inv env w2" "same_forest w1 w2"
    using updateThing_ok [OF r(1)] r(1) by (simp_all add: w2_def split: option.split)
  note f = same_forestD [OF w2(2)]
  have id1: "it_id (cw_items w1 j) = it_id (cw_items w j)" for j unfolding w1_def by (rule removeThing_counts)
  have merge: "stock k w2 = stock k w1 + (if it_id (cw_items w i) = k then unat n else 0) \<and> n \<le> m \<and>
      map_option bx_maxSize (getBox w2 c) = map_option bx_maxSize (getBox w1 c) \<and> it_id (cw_items w2 i) = it_id (cw_items w1 i) \<and>
      (u = None \<longrightarrow> n = 0)"
  proof (cases u)
    case None
    then have "n = 0" by (auto simp: u_def n_def split: option.splits if_splits)
    then show ?thesis using None by (simp add: w2_def)
  next
    case (Some tt)
    then have s: "?stack" "toItem = Some tt" "equals w1 i (Some tt)" by (auto simp: u_def split: if_splits)
    have tt: "tt \<in> set (itemlist w1 c)" "tt \<noteq> i" using to [OF s(2)] o(3) by simp_all
    have sk: "ity_stackable (itype env w tt)" using s(1) equals_id [OF s(3)] by (simp add: itype_def id1)
    have lim: "itemCount w1 tt \<le> getStackSize env w1 tt"
      using plain_stacksD(1) [OF plain sk] o(2) [OF tt(2)] unfolding getStackSize_def o(1) by (simp only:)
    have n: "n = min (word_of_int (uint (getStackSize env w1 tt) - uint (itemCount w1 tt))) m" using s by (simp add: n_def)
    note p = plain_stacksD [OF plain s(1)]
    note g = merge_stock [OF r(1) tt(1) s(3) s(1) [folded o(1)] p(2,3) [folded o(1)] lim n]
    have e: "w2 = updateThing env c tt (it_id (cw_items w1 tt)) (ucast (itemCount w1 tt) + n) w1" by (simp add: w2_def Some)
    have "map_option bx_maxSize (getBox w2 c) = map_option bx_maxSize (getBox w1 c)"
      unfolding e by (rule updateThing_counts(3) [OF tt(1)]) (use p s(1) equals_id [OF s(3)] in \<open>simp_all add: itype_def id1\<close>)
    moreover have "it_id (cw_items w2 i) = it_id (cw_items w1 i)" unfolding e by (rule updateThing_other) (use tt(2) in simp)
    ultimately show ?thesis using g Some by (simp add: e id1)
  qed
  have size2: "index < sint (page_size w2 c)"
    using size o(4) [OF c] page_size_cong [of w2 c w1] merge c r(4) by simp
  define res where "res = (if \<not> ?stack then Some (Some i, w2)
       else if 0 <s m - n then (case clone_item env i w2 of None \<Rightarrow> None
           | Some (j, w) \<Rightarrow> Some (Some j, upd_item j (\<lambda>x. x\<lparr>it_count := ucast (m - n)\<rparr>) w))
       else Some (None, w2))"
  note unf = transfer_item_def Let_def w1_def [symmetric] n_def [symmetric] u_def [symmetric] w2_def [symmetric] res_def [symmetric]
  obtain moveItem w3 where res: "res = Some (moveItem, w3)" using t unfolding unf by (auto split: option.splits)
  let ?w = "case moveItem of None \<Rightarrow> w3 | Some j \<Rightarrow> addThing env c index j w3"
  have "w' = notify_item env c u (notify_item env c moveItem (notify env from ?w))" using t res unfolding unf by simp
  then have "same_items ?w w'" using same_items_trans notify_same notify_item_same by metis
  then have same: "stock k w' = stock k ?w" by (rule same_items_stock)
  have c2: "isContainer w2 c" using c r(4) f by simp
  have "stock k ?w = stock k w"
  proof (cases ?stack)
    case False
    then have e: "w3 = w1" "moveItem = Some i" "w2 = w1" using res by (auto simp: res_def w2_def u_def)
    have none: "getParent w1 i = None" using r(5) [of i] i False by simp
    have "getParent w i \<noteq> None" using store_okD(1) inv i by (simp add: store_inv_def)
    then have nx: "i < cw_next w1" using store_okD(3) inv r(3) by (simp add: store_inv_def)
    have "itemCount w1 i = itemCount w i" unfolding w1_def using False by (simp add: removeThing_counts)
    then show ?thesis
      using addThing_stock [OF r(1) _ none nx above1 size2 [unfolded e], of k] c r(4) False out [of k]
      by (auto simp: e id1 split: if_splits)
  next
    case True
    note rest = rest_of_stack [OF conjunct1 [OF conjunct2 [OF merge]] m [OF True]]
    note p = plain_stacksD [OF plain True]
    show ?thesis
    proof (cases "n = m")
      case eq: True
      then have "\<not> 0 <s m - n" using rest(1) by blast
      then have "w3 = w2" "moveItem = None" using res True by (auto simp: res_def)
      then show ?thesis using merge out [of k] True eq by (auto split: if_splits)
    next
      case False
      then have "0 <s m - n" using rest(1) by blast
      then obtain j w4 where w4: "clone_item env i w2 = Some (j, w4)" "moveItem = Some j" "w3 = upd_item j (\<lambda>x. x\<lparr>it_count := ucast (m - n)\<rparr>) w4"
        using res True by (auto simp: res_def split: option.splits)
      have tr: "map_of ItemTransformationMap (it_id (cw_items w2 i)) = None" using p(4) merge by (simp add: id1)
      show ?thesis
        using copy_stock [OF w2(1) c2 w4(1) tr size2, of k "ucast (m - n)", folded w4(3)] merge out [of k] True rest(2) w4(2)
        by (auto simp: id1 split: if_splits)
    qed
  qed
  then show ?thesis using same by simp
qed

subsection \<open>Where a move goes\<close>

text \<open>A container without pages that is not overfull.\<close>

definition within_size :: "cworld \<Rightarrow> nat \<Rightarrow> bool" where
  "within_size w c \<longleftrightarrow> (case getBox w c of None \<Rightarrow> True
     | Some b \<Rightarrow> \<not> bx_pagination b \<and> int (length (bx_items b)) \<le> sint (bx_maxSize b))"

lemma find_stack_index: "find_stack env w i n js = Some (k, j) \<Longrightarrow> k < n + int (length js)"
  by (induction js arbitrary: n) (fastforce split: if_splits)+

lemma auto_stack_index:
  assumes "auto_stack env w c i flags k d = (k', t)" "k < s" "int (length (itemlist w c)) \<le> s" shows "k' < s"
proof -
  have "l < s" if "find_stack env w i 0 (itemlist w c) = Some (l, j)" for l j using find_stack_index [OF that] assms(3) by simp
  then show ?thesis using assms(1,2) by (auto simp: auto_stack_def split: if_splits option.splits)
qed

lemma query_index:
  assumes q: "queryDestination env w c index i None flags = (c', index', t)" and b: "getBox w c' = Some b" "bx_unlocked b" "within_size w c'"
  shows "index' < sint (page_size w c')"
proof -
  have size: "page_size w c' = bx_maxSize b" "int (length (itemlist w c')) \<le> sint (bx_maxSize b)" "\<not> bx_pagination b"
    using b by (simp_all add: page_size_def within_size_def itemlist_def)
  then have wherever: "INDEX_WHEREEVER < sint (bx_maxSize b)" by (simp add: INDEX_WHEREEVER_def)
  note auto = auto_stack_index [OF _ _ size(2)]
  show ?thesis
  proof (cases "c' = c")
    case True
    have u: "getBox w c = Some b" "bx_unlocked b" using b True by simp_all
    have "queryDestination env w c index i None flags = (c', index', t) \<Longrightarrow> index' < sint (bx_maxSize b)"
      unfolding queryDestination_def Let_def u(1) True using wherever u(2) size(3) auto [unfolded True]
      by (auto split: option.splits if_splits prod.splits)
    then show ?thesis using q size(1) by simp
  next
    case False
    then have "index' = INDEX_WHEREEVER" using q
      by (auto simp: queryDestination_def Let_def split: option.splits if_splits prod.splits)
    then show ?thesis using wherever size(1) by simp
  qed
qed

lemma destination_index:
  assumes "destination n env w i c index None flags = (c', index', t, flags')"
    and "getBox w c' = Some b" "bx_unlocked b" "within_size w c'"
  shows "index' < sint (page_size w c')"
  using assms(1)
proof (induction n arbitrary: c index flags)
  case 0
  obtain c2 index2 toItem2 where q: "queryDestination env w c index i None flags = (c2, index2, toItem2)" by (metis prod_cases3)
  have "c2 = c'" "index2 = index'" using 0 q by (subst (asm) (1) destination.simps, auto split: if_splits)+
  then show ?case using query_index [OF q] assms(2-4) by simp
next
  case (Suc n)
  obtain c2 index2 toItem2 where q: "queryDestination env w c index i None flags = (c2, index2, toItem2)" by (metis prod_cases3)
  show ?case
  proof (cases "c2 = c")
    case True
    then have "c2 = c'" "index2 = index'" using Suc.prems q by (subst (asm) (1) destination.simps, simp)+
    then show ?thesis using query_index [OF q] assms(2-4) by simp
  next
    case False
    have none: "toItem2 = None"
    proof (cases toItem2)
      case (Some j)
      then show ?thesis using toItem_in_list [of env w c index i flags c2 index2 j] q False by simp
    qed
    have "destination n env w i c2 index2 None 0 = (c', index', t, flags')"
      using Suc.prems q False none by (subst (asm) destination.simps) simp
    then show ?thesis by (rule Suc.IH)
  qed
qed

end
