(* ===== verification/ContainerSpec.thy ===== *)
theory ContainerSpec
  imports ContainerStock
begin

text \<open>
  The properties of containers, over the reachable states of \<open>ContainerReach\<close>, and a small store on which they are
  evaluated: the bag 0 holds the bag 1, which holds five coins (2); two more coins (3) and a sword (4) lie nowhere.
\<close>

subsection \<open>A small store\<close>

definition some_type :: item_type where
  "some_type = \<lparr>ity_known = True, ity_container = False, ity_stackable = False, ity_stackSize = 1, ity_fluidContainer = False,
     ity_splash = False, ity_charges = 0, ity_movable = True, ity_pickupable = True, ity_quiver = False, ity_ammo = False,
     ity_weight = 10, ity_decayTime = 0, ity_decayTo = -1, ity_stopTime = False\<rparr>"

definition bag_env :: cenv where
  "bag_env = \<lparr>ce_types = (\<lambda>t. if t = 1 then some_type\<lparr>ity_container := True\<rparr>
       else if t = 2 then some_type\<lparr>ity_stackable := True, ity_stackSize := 100\<rparr> else some_type),
     ce_maxContainer = 100, ce_firstID = 0, ce_lastID = 0\<rparr>"

definition thing_of :: "u16 \<Rightarrow> u8 \<Rightarrow> citem" where
  "thing_of t n = \<lparr>it_id = t, it_count = n, it_attrs = [], it_custom = [], ci_attributePtr = False, ci_parent = None, ci_box = None\<rparr>"

definition bag_of :: "bool \<Rightarrow> u32 \<Rightarrow> u32 \<Rightarrow> citem" where
  "bag_of pages slots limit = (thing_of 1 1)\<lparr>ci_box := Some \<lparr>bx_items = [], bx_totalWeight = 0, bx_maxSize = slots, bx_maxItems = limit,
     bx_unlocked = True, bx_pagination = pages, bx_inbox = False\<rparr>\<rparr>"

definition no_items :: cworld where
  "no_items = \<lparr>cw_items = (\<lambda>_. thing_of 0 0), cw_next = 0, cw_players = (\<lambda>_. None), cw_byGuid = (\<lambda>_. None)\<rparr>"

definition loose_items :: "bool \<Rightarrow> u32 \<Rightarrow> cworld" where
  "loose_items pages limit = new_store_item (thing_of 3 1) (new_store_item (thing_of 2 2) (new_store_item (thing_of 2 5)
     (new_store_item (bag_of pages 4 limit) (new_store_item (bag_of False 4 limit) no_items))))"

definition bags :: "bool \<Rightarrow> u32 \<Rightarrow> cworld" where
  "bags pages limit = addThing bag_env 1 0 2 (addThing bag_env 0 0 1 (loose_items pages limit))"

lemma bags_reached: "ct_reach bag_env (bags pages limit)"
proof -
  have f: "fresh_item (thing_of t n)" "fresh_item (bag_of pages slots limit)" for t n pages slots limit
    by (simp_all add: fresh_item_def thing_of_def bag_of_def)
  have "ct_reach bag_env no_items"
    by (rule ct_reach.start) (simp add: no_items_def getParent_def isContainer_def getBox_def thing_of_def)
  then have l: "ct_reach bag_env (loose_items pages limit)" unfolding loose_items_def by (intro ct_reach.create f)
  note s = loose_items_def new_store_item_def no_items_def thing_of_def bag_of_def isContainer_def getBox_def getParent_def itemlist_def
  have one: "ct_reach bag_env (addThing bag_env 0 0 1 (loose_items pages limit))"
    by (rule ct_reach.put [OF l, of 0 1 _ 0 0]) (simp_all add: s)
  have inv: "store_inv bag_env (loose_items pages limit)" by (rule reach_inv [OF l])
  have above: "(0, 1) \<notin> (climbs (up (loose_items pages limit)))\<^sup>*"
    by (rule put_above) (use inv in \<open>simp_all add: store_inv_def s\<close>)
  have l0: "isContainer (loose_items pages limit) 0" "getParent (loose_items pages limit) 1 = None" "1 < cw_next (loose_items pages limit)"
    "isContainer (loose_items pages limit) 1" "2 < cw_next (loose_items pages limit)" "getParent (loose_items pages limit) j = None"
    "0 < sint (bx_maxSize (the (getBox (loose_items pages limit) 0)))" for j by (simp_all add: s)
  note a = addThing_ok [OF inv l0(1-3) above, of 0]
  let ?w = "addThing bag_env 0 0 1 (loose_items pages limit)"
  have par: "getParent ?w j = (if j = 1 then Some (InItem 0) else None)" for j by (simp add: a l0 del: One_nat_def)
  have ok: "store_ok ?w" using reach_inv [OF one] by (simp add: store_inv_def)
  have "x \<notin> set (itemlist ?w 2)" for x unfolding store_okD(1) [OF ok] par by simp
  then have "itemlist ?w 2 = []" by (metis last_in_set)
  moreover have "isContainer ?w 1" "2 < cw_next ?w" by (simp_all add: a l0 del: One_nat_def)
  ultimately show ?thesis unfolding bags_def by (intro ct_reach.put [OF one, of 1 2 _ 0 0]) (simp_all add: par del: One_nat_def)
qed




subsection \<open>Containment and weights\<close>



text \<open>C29: The iterator visits everything inside a container exactly once: the list that \<open>getItemsRec\<close> builds has no
  duplicates and its elements are the items from which a chain of parents leads to the container.  So the holding counts
  are the numbers of items and of containers inside, in 32 bits, and \<open>isHoldingItem\<close> is membership at any depth.\<close>

theorem iterator_exact:
  assumes "ct_reach env w"
  shows "distinct (getItemsRec w c) \<and> set (getItemsRec w c) = inside w c \<and>
    getItemHoldingCount w c = word_of_nat (card (inside w c)) \<and>
    getContainerHoldingCount w c = word_of_nat (card {i \<in> inside w c. isContainer w i}) \<and>
    (isHoldingItem w c i \<longleftrightarrow> i \<in> inside w c)"
proof -
  have "store_ok w" using reach_inv [OF assms] by (simp add: store_inv_def)
  note e = getItemsRec_exact [OF this, of c]
  then have "length (getItemsRec w c) = card (inside w c)" by (metis distinct_card)
  moreover have "length (filter (isContainer w) (getItemsRec w c)) = card {i \<in> inside w c. isContainer w i}"
    using e distinct_card [of "filter (isContainer w) (getItemsRec w c)"] by simp
  ultimately show ?thesis using e by (simp add: getItemHoldingCount_def getContainerHoldingCount_def isHoldingItem_def)
qed

theorem iterator_exact_witness: "getItemsRec (bags False 9) 0 = [1, 2] \<and> inside (bags False 9) 0 = {1, 2}"
proof -
  have e: "getItemsRec (bags False 9) 0 = [1, 2]" by code_simp
  show ?thesis using iterator_exact [OF bags_reached, of False 9 0] unfolding e by auto
qed

subsection \<open>Additions and moves\<close>

text \<open>C32: Adding an item of a known type to a container always comes to an answer: what does not fit on one stack is carried on
  with a smaller count, until it fits, is refused or is added as a stack of its own.\<close>

theorem internalAddItem_total:
  assumes "ct_reach env w" "getParent w i = None" "ity_known (itype env w i)"
    "map_of ItemTransformationMap (it_id (cw_items w i)) = None"
  shows "\<exists>ret left w'. internalAddItem env c i index flags test w = Some (ret, left, w')"
proof -
  have inv: "store_inv env w" by (rule reach_inv [OF assms(1)])
  then have "i \<notin> set (itemlist w k)" for k using store_okD(1) [of w i k] assms(2) by (simp add: store_inv_def)
  moreover have "unat (itemCount w i) < 256" by (rule unat_u8_less)
  ultimately have "add_loop 256 env c i index flags test w \<noteq> None" by (intro add_loop_total [OF assms(3,4) _ inv])
  then show ?thesis unfolding internalAddItem_def by (metis not_None_eq prod_cases3)
qed

theorem internalAddItem_total_witness:
  "\<exists>ret left w'. internalAddItem bag_env 1 3 255 0 False (bags False 9) = Some (ret, left, w')"
  by (rule internalAddItem_total [OF bags_reached]) (code_simp, code_simp, code_simp)



text \<open>C31: A container with pages loses what is dropped beyond its capacity: the queries take no offence at the index, the item is
  taken out of the container it was in, and then the container that receives it ignores it.  The move is reported as
  done, and the item is in no list and has no parent.\<close>

theorem paginated_move_loses:
  assumes "ct_reach env w" "\<not> hasBitSet FLAG_CHILDISOWNER flags" "\<not> ity_stackable (itype env w i)"
    "getBox w c = Some b" "bx_unlocked b" "bx_pagination b" "sint (bx_maxSize b) \<le> index" "int (length (bx_items b)) \<le> index"
    "index \<noteq> 254" "index \<noteq> 255" "index \<noteq> INDEX_WHEREEVER"
    "internalMoveItem env fromCylinder c index i cnt flags tradeItem w = Some (ret, Some i, w')" "w' \<noteq> w"
  shows "getParent w' i = None \<and> (\<forall>d. i \<notin> set (itemlist w' d)) \<and> i \<in> set (itemlist w fromCylinder)"
proof -
  have inv: "store_inv env w" by (rule reach_inv [OF assms(1)])
  from move_accepted [OF assms(2,12,13)] obtain c' index' toItem flags' m cnt' moved' where
    a: "destination 15 env w i c index None flags = (c', index', toItem, flags')" 
      "queryRemove env w fromCylinder i m flags' = RETURNVALUE_NOERROR"
      "transfer_item env fromCylinder c' index' i m toItem w = Some (moved', w')" by metis
  have "getItemByIndex w c index = None" using assms(4,8) by (simp add: getItemByIndex_def itemlist_def)
  then have "queryDestination env w c index i None flags = (c, index, None)"
    using assms(3-11) by (simp add: queryDestination_def auto_stack_def)
  then have d: "c' = c" "index' = index" "toItem = None" using a(1) by (subst (asm) destination.simps, simp)+
  have i: "i \<in> set (itemlist w fromCylinder)" by (rule queryRemove_promise(1) [OF a(2)])
  define w1 where "w1 = removeThing env fromCylinder i m w"
  note r = removeThing_ok [OF inv w1_def]
  have "map_option bx_maxSize (getBox w1 c) = Some (bx_maxSize b)"
    unfolding w1_def removeThing_counts(3) by (simp add: assms(4))
  then have "addThing env c index i w1 = w1" using assms(7) by (auto simp: addThing_def)
  then have "w' = notify_item env c None (notify_item env c (Some i) (notify env fromCylinder w1))"
    using a(3) assms(3) unfolding d transfer_item_def Let_def w1_def [symmetric] by auto
  then have "same_items w1 w'" using same_items_trans notify_same notify_item_same by metis
  note s = same_itemsD [OF this] and ok = same_items_ok [OF this r(1)]
  have "getParent w' i = None" using r(5) [of i] i assms(3) by (simp add: s)
  then show ?thesis using store_okD(1) [of w' i] ok i by (simp add: store_inv_def)
qed

definition paged_world :: cworld where
  "paged_world = addThing bag_env 0 0 4 (bags True 9)"

theorem paginated_move_loses_witness:
  "\<exists>w'. internalMoveItem bag_env 0 1 50 4 1 0 None paged_world = Some (RETURNVALUE_NOERROR, Some 4, w') \<and>
     getParent paged_world 4 = Some (InItem 0) \<and> getParent w' 4 = None"
proof -
  have m: "map_option (\<lambda>(r, m, w). (r, m)) (internalMoveItem bag_env 0 1 50 4 1 0 None paged_world) = Some (RETURNVALUE_NOERROR, Some 4)"
    by code_simp
  then obtain w' where w': "internalMoveItem bag_env 0 1 50 4 1 0 None paged_world = Some (RETURNVALUE_NOERROR, Some 4, w')" by auto
  have "map_option (\<lambda>(r, m, w). itemlist w 0) (internalMoveItem bag_env 0 1 50 4 1 0 None paged_world) = Some [1]" by code_simp
  moreover have l: "itemlist paged_world 0 = [4, 1]" by code_simp
  ultimately have changed: "w' \<noteq> paged_world" using w' by auto
  note s = loose_items_def new_store_item_def no_items_def thing_of_def bag_of_def
  have "getParent (bags True 9) 4 = None" "itemlist (bags True 9) 4 = []" by (code_simp, code_simp)
  then have reach: "ct_reach bag_env paged_world"
    unfolding paged_world_def by (intro ct_reach.put [OF bags_reached [of True 9], of 0 4 _ 0 0]) (simp_all, code_simp, code_simp)
  have b: "map_option (\<lambda>b. (bx_unlocked b, bx_pagination b, bx_maxSize b, bx_items b)) (getBox paged_world 1) = Some (True, True, 4, [2])"
    by code_simp
  then obtain b where "getBox paged_world 1 = Some b" "bx_unlocked b" "bx_pagination b" "bx_maxSize b = 4" "bx_items b = [2]" by auto
  moreover have "\<not> ity_stackable (itype bag_env paged_world 4)" by code_simp
  ultimately have "getParent w' 4 = None"
    using paginated_move_loses [OF reach _ _ _ _ _ _ _ _ _ _ w' changed, of b]
    by (simp add: hasBitSet_def FLAG_CHILDISOWNER_def INDEX_WHEREEVER_def)
  moreover have "getParent paged_world 4 = Some (InItem 0)" by code_simp
  ultimately show ?thesis using w' by blast
qed

subsection \<open>Limits\<close>

text \<open>The container below which the limits are counted: an outermost one itself, and otherwise the one just below the
  outermost on the way up.\<close>

definition counted_from :: "cworld \<Rightarrow> nat \<Rightarrow> nat \<Rightarrow> bool" where
  "counted_from w c y \<longleftrightarrow> (if up w c = None then y = c
     else (c, y) \<in> (climbs (up w))\<^sup>* \<and> (\<exists>r. up w y = Some r \<and> up w r = None))"

lemma card_inside_less: assumes "store_ok w" shows "card (inside w c) \<le> cw_next w"
proof -
  have "inside w c \<subseteq> {..<cw_next w}" by (rule inside_bound [OF assms])
  then show ?thesis by (metis card_lessThan card_mono finite_lessThan)
qed

lemma counted_sum:
  assumes "(a :: u32) = word_of_nat m" "b = word_of_nat n" "m + n < 2 ^ 31" shows "unat (a + 1 + b) = m + 1 + n" "unat (b + 1) = n + 1"
proof -
  have "unat (word_of_nat k :: u32) = k" if "k < 2 ^ 32" for k
    using that take_bit_nat_eq_self [of k 32] by (simp add: unsigned_of_nat)
  from this [of "m + 1 + n"] this [of "n + 1"] show "unat (a + 1 + b) = m + 1 + n" "unat (b + 1) = n + 1"
    using assms by (simp_all add: add_ac)
qed

text \<open>C30: What a container accepts stays within the limits, as the code counts them: with the new item, what is inside it, and
  what is inside the container that \<open>getTopParentContainer\<close> finds, there are at most \<open>m_maxItems\<close> items, and when the item is
  a container at most \<open>MAX_CONTAINER\<close> containers.  The container that is found is the outermost one only when nothing is above:
  inside a backpack in a depot box it is the backpack, so that the box itself is not limited.\<close>

theorem accepted_within_limits:
  assumes "ct_reach env w" "queryAdd env w c index i cnt flags = RETURNVALUE_NOERROR" "\<not> hasBitSet FLAG_CHILDISOWNER flags"
    "getBox w c = Some b" "cw_next w < 2 ^ 30"
  shows "\<exists>y. counted_from w c y \<and> card (inside w i) + 1 + card (inside w y) \<le> unat (bx_maxItems b) \<and>
    (isContainer w i \<longrightarrow> card {j \<in> inside w i. isContainer w j} + 1 + card {j \<in> inside w y. isContainer w j} \<le> unat (ce_maxContainer env))"
proof -
  have ok: "store_ok w" using reach_inv [OF assms(1)] by (simp add: store_inv_def)
  have c: "isContainer w c" using assms(4) by (simp add: isContainer_def)
  obtain y where y: "getTopParentContainer w c = Some y" "counted_from w c y"
    using top_container_below_root [OF ok c] unfolding counted_from_def by (cases "up w c") auto
  have lim: "limit_query env w c i = RETURNVALUE_NOERROR"
    using assms(2-4) by (auto simp: queryAdd_def Let_def split: if_splits)
  have items: "getItemHoldingCount w d = word_of_nat (card (inside w d))" for d
    unfolding getItemHoldingCount_def using getItemsRec_exact [OF ok, of d] by (metis distinct_card)
  have conts: "getContainerHoldingCount w d = word_of_nat (card {j \<in> inside w d. isContainer w j})" for d
    unfolding getContainerHoldingCount_def using getItemsRec_exact [OF ok, of d] distinct_card [of "filter (isContainer w) (getItemsRec w d)"] by simp
  have sub: "card {j \<in> inside w d. isContainer w j} \<le> card (inside w d)" for d by (rule card_mono [OF finite_inside [OF ok]]) simp
  have small: "card (inside w d) < 2 ^ 30" for d using card_inside_less [OF ok, of d] assms(5) by simp
  have sum: "card (inside w i) + card (inside w y) < 2 ^ 31"
    "card {j \<in> inside w i. isContainer w j} + card {j \<in> inside w y. isContainer w j} < 2 ^ 31"
    using small [of i] small [of y] sub [of i] sub [of y] by simp_all
  note n = counted_sum [OF items [of i] items [of y] sum(1)] and k = counted_sum [OF conts [of i] conts [of y] sum(2)]
  have "card (inside w i) + 1 + card (inside w y) \<le> unat (bx_maxItems b) \<and>
    (isContainer w i \<longrightarrow> card {j \<in> inside w i. isContainer w j} + 1 + card {j \<in> inside w y. isContainer w j} \<le> unat (ce_maxContainer env))"
  proof (cases "isContainer w i")
    case True
    then have "getItemHoldingCount w i + 1 + getItemHoldingCount w y \<le> bx_maxItems b"
      "getContainerHoldingCount w i + 1 + getContainerHoldingCount w y \<le> ce_maxContainer env"
      using lim y(1) assms(4) by (auto simp: limit_query_def not_less split: if_splits)
    then show ?thesis using n(1) k(1) by (simp add: word_le_nat_alt)
  next
    case False
    then have "getItemHoldingCount w y + 1 \<le> bx_maxItems b"
      using lim y(1) assms(4) by (auto simp: limit_query_def not_less split: if_splits)
    moreover have "inside w i = {}" using False inside_children [OF ok, of i] by (simp add: isContainer_def itemlist_def)
    ultimately show ?thesis using n(2) False by (simp add: word_le_nat_alt)
  qed
  then show ?thesis using y(2) by blast
qed

theorem accepted_within_limits_witness:
  "\<exists>y. counted_from (bags False 2) 1 y \<and> card (inside (bags False 2) 4) + 1 + card (inside (bags False 2) y) \<le> 2"
proof -
  have q: "queryAdd bag_env (bags False 2) 1 0 4 1 0 = RETURNVALUE_NOERROR" by code_simp
  have "map_option bx_maxItems (getBox (bags False 2) 1) = Some 2" by code_simp
  then obtain b where b: "getBox (bags False 2) 1 = Some b" "bx_maxItems b = 2" by auto
  have n: "cw_next (bags False 2) < 2 ^ 30" by (rule less_le_trans [of _ 6]) (code_simp, simp)
  show ?thesis
    using accepted_within_limits [OF bags_reached q _ b(1) n] by (auto simp: hasBitSet_def FLAG_CHILDISOWNER_def b(2))
qed

text \<open>The outermost container is not limited: with a limit of two, the bag 0 holds three items after the sword was accepted.\<close>

theorem outermost_not_limited:
  "queryAdd bag_env (bags False 2) 1 0 4 1 0 = RETURNVALUE_NOERROR \<and>
   map_option bx_maxItems (getBox (bags False 2) 0) = Some 2 \<and>
   getItemsRec (addThing bag_env 1 0 4 (bags False 2)) 0 = [1, 4, 2]"
  by (intro conjI) code_simp+

text \<open>Taking an item out with \<open>Container::removeItem\<close> leaves the container wrong about its weight, unless the item weighs
  nothing: the list is shortened and the stored weight is not.\<close>

theorem removeItem_leaves_weight:
  assumes "ct_reach env w" "i \<in> set (itemlist w c)" "getWeight env w i \<noteq> 0"
  shows "store_ok (container_removeItem c i w) \<and> \<not> weights_ok env (container_removeItem c i w)"
proof -
  let ?w = "container_removeItem c i w"
  have inv: "store_ok w" "offs env w (\<lambda>_. 0)" using reach_inv [OF assms(1)] by (simp_all add: store_inv_def weights_offs)
  have e: "?w = erase_item c i w" using assms(2) by (simp add: container_removeItem_def)
  note er = erase_ok [OF inv assms(2), folded e]
  have "isContainer w c" using assms(2) by (cases "getBox w c") (simp_all add: itemlist_def isContainer_def)
  then obtain b where b: "getBox ?w c = Some b" using er(7) [of c] by (auto simp: isContainer_def)
  have "bx_totalWeight b - getWeight env w i = sum_list (map (getWeight env ?w) (bx_items b))"
    using er(2) b unfolding offs_def by fastforce
  then have "bx_totalWeight b \<noteq> sum_list (map (getWeight env ?w) (bx_items b))" using assms(3) by (metis diff_eq_eq add_cancel_left_right)
  then show ?thesis using er(1) b by (auto simp: weights_ok_def)
qed

theorem removeItem_leaves_weight_witness:
  "\<not> weights_ok bag_env (container_removeItem 1 2 (bags False 9)) \<and> getWeight bag_env (bags False 9) 2 = 50"
proof -
  have w: "getWeight bag_env (bags False 9) 2 = 50" by code_simp
  have "2 \<in> set (itemlist (bags False 9) 1)" by code_simp
  then show ?thesis using removeItem_leaves_weight [OF bags_reached, of 2 False 9 1] w by simp
qed

end
