(* ===== verification/Sight.thy ===== *)
theory Sight
  imports Position
begin

text \<open>
  Lines of sight on the map: \<open>Map::checkSightLine\<close>, \<open>Map::isSightClear\<close> and \<open>Map::canThrowObjectTo\<close> of
  \<open>map/map.cpp\<close>.  Of a tile only two things matter here, whether it has a ground and whether something on it blocks
  projectiles; \<open>Map::getTile\<close> is the argument of type \<open>sight_map\<close>.  The sloped line is drawn with a fraction of
  sixteen bits whose overflow is the step sideways, and the overflow is written out as the code has it.
\<close>

record sight_tile =
  st_ground :: bool
  st_block :: bool

type_synonym sight_map = "16 word \<Rightarrow> 16 word \<Rightarrow> 8 word \<Rightarrow> sight_tile option"

definition blocked :: "sight_map \<Rightarrow> 16 word \<Rightarrow> 16 word \<Rightarrow> 8 word \<Rightarrow> bool" where
  "blocked m x y z \<longleftrightarrow> (case m x y z of None \<Rightarrow> False | Some t \<Rightarrow> st_block t)"

text \<open>A tile that nothing can be thrown through from above or below.\<close>

definition closed_floor :: "sight_map \<Rightarrow> 16 word \<Rightarrow> 16 word \<Rightarrow> 8 word \<Rightarrow> bool" where
  "closed_floor m x y z \<longleftrightarrow> (case m x y z of None \<Rightarrow> False | Some t \<Rightarrow> st_ground t \<or> st_block t)"

subsection \<open>One floor\<close>

fun straight_x :: "nat \<Rightarrow> sight_map \<Rightarrow> 16 word \<Rightarrow> 16 word \<Rightarrow> 16 word \<Rightarrow> 8 word \<Rightarrow> bool" where
  "straight_x 0 m delta x y z = True"
| "straight_x (Suc n) m delta x y z = (let x = x + delta in if blocked m x y z then False else straight_x n m delta x y z)"

fun straight_y :: "nat \<Rightarrow> sight_map \<Rightarrow> 16 word \<Rightarrow> 16 word \<Rightarrow> 16 word \<Rightarrow> 8 word \<Rightarrow> bool" where
  "straight_y 0 m delta x y z = True"
| "straight_y (Suc n) m delta x y z = (let y = y + delta in if blocked m x y z then False else straight_y n m delta x y z)"

text \<open>The line climbs along the vertical axis, or along the horizontal one.\<close>

fun slope_y :: "nat \<Rightarrow> sight_map \<Rightarrow> 16 word \<Rightarrow> 16 word \<Rightarrow> 16 word \<Rightarrow> position \<Rightarrow> position \<Rightarrow> bool" where
  "slope_y 0 m eAdj eAcc deltaX start destination = True"
| "slope_y (Suc n) m eAdj eAcc deltaX start destination = (let eAccTemp = eAcc; eAcc = eAcc + eAdj;
     xIncrease = (if eAcc \<le> eAccTemp then deltaX else 0); x = pos_x start + xIncrease; y = pos_y start + 1 in
     if blocked m x y (pos_z start) then areInRange2 1 1 start destination
     else slope_y n m eAdj eAcc deltaX (Pos x y (pos_z start)) destination)"

fun slope_x :: "nat \<Rightarrow> sight_map \<Rightarrow> 16 word \<Rightarrow> 16 word \<Rightarrow> 16 word \<Rightarrow> position \<Rightarrow> position \<Rightarrow> bool" where
  "slope_x 0 m eAdj eAcc deltaY start destination = True"
| "slope_x (Suc n) m eAdj eAcc deltaY start destination = (let eAccTemp = eAcc; eAcc = eAcc + eAdj;
     yIncrease = (if eAcc \<le> eAccTemp then deltaY else 0); x = pos_x start + 1; y = pos_y start + yIncrease in
     if blocked m x y (pos_z start) then areInRange2 1 1 start destination
     else slope_x n m eAdj eAcc deltaY (Pos x y (pos_z start)) destination)"

definition line_slope :: "int \<Rightarrow> int \<Rightarrow> 16 word" where
  "line_slope short long = ucast (push_bit 16 (word_of_int short :: u32) div word_of_int long)"

text \<open>The coordinates of the ends are exchanged, the floors are not.\<close>

definition swap_ends :: "position \<Rightarrow> position \<Rightarrow> position \<times> position" where
  "swap_ends start destination = (Pos (pos_x destination) (pos_y destination) (pos_z start),
     Pos (pos_x start) (pos_y start) (pos_z destination))"

definition checkSightLine :: "sight_map \<Rightarrow> position \<Rightarrow> position \<Rightarrow> bool" where
  "checkSightLine m start destination =
    (let distanceX = getDistanceX start destination; distanceY = getDistanceY start destination in
     if pos_x start = pos_x destination \<and> pos_y start = pos_y destination then True
     else if pos_y start = pos_y destination
     then straight_x (nat (distanceX - 1)) m (if pos_x start < pos_x destination then 1 else 0xFFFF) (pos_x start) (pos_y start) (pos_z start)
     else if pos_x start = pos_x destination
     then straight_y (nat (distanceY - 1)) m (if pos_y start < pos_y destination then 1 else 0xFFFF) (pos_x start) (pos_y start) (pos_z start)
     else if distanceX < distanceY
     then let eAdj = line_slope distanceX distanceY;
         (start, destination) = (if pos_y destination < pos_y start then swap_ends start destination else (start, destination))
       in if pos_x destination < pos_x start then slope_y (nat (distanceY - 1)) m eAdj (- eAdj) 0xFFFF start destination
         else slope_y (nat (distanceY - 1)) m eAdj 0 1 start destination
     else let eAdj = line_slope distanceY distanceX;
         (start, destination) = (if pos_x destination < pos_x start then swap_ends start destination else (start, destination))
       in if pos_y destination < pos_y start then slope_x (nat (distanceX - 1)) m eAdj (- eAdj) 0xFFFF start destination
         else slope_x (nat (distanceX - 1)) m eAdj 0 1 start destination)"

subsection \<open>Several floors\<close>

fun floors_clear :: "nat \<Rightarrow> sight_map \<Rightarrow> position \<Rightarrow> 8 word \<Rightarrow> bool" where
  "floors_clear 0 m toPos startZ = True"
| "floors_clear (Suc n) m toPos startZ = (if closed_floor m (pos_x toPos) (pos_y toPos) startZ then False
     else floors_clear n m toPos (startZ + 1))"

text \<open>The floors from \<open>startZ\<close> to that of the target, which the counter of eight bits always reaches.\<close>

definition jump_clear :: "sight_map \<Rightarrow> position \<Rightarrow> 8 word \<Rightarrow> bool" where
  "jump_clear m toPos startZ = floors_clear (unat (pos_z toPos - startZ)) m toPos startZ"

definition above_pos :: "position \<Rightarrow> position" where
  "above_pos p = Pos (pos_x p) (pos_y p) (pos_z p - 1)"

definition isSightClear :: "sight_map \<Rightarrow> position \<Rightarrow> position \<Rightarrow> bool \<Rightarrow> bool" where
  "isSightClear m fromPos toPos floorCheck =
    (if floorCheck \<and> pos_z fromPos \<noteq> pos_z toPos then False
     else if pos_z fromPos = pos_z toPos \<and> (areInRange2 1 1 fromPos toPos \<or> \<not> floorCheck \<and> pos_z fromPos = 0) then True
     else if pos_z toPos < pos_z fromPos \<and> getDistanceZ fromPos toPos > 1 then False
     else let sightClear = checkSightLine m fromPos toPos in
       if floorCheck \<or> pos_z fromPos = pos_z toPos \<and> sightClear then sightClear
       else if sightClear \<and> pos_z fromPos \<le> pos_z toPos then jump_clear m toPos (pos_z fromPos)
       else if closed_floor m (pos_x fromPos) (pos_y fromPos) (pos_z fromPos - 1)
         \<or> \<not> checkSightLine m (above_pos fromPos) (above_pos toPos) then False
       else if pos_z toPos < pos_z fromPos then True
       else jump_clear m toPos (pos_z fromPos - 1))"

definition SightLine_CheckSightLine :: "8 word" where "SightLine_CheckSightLine = 1"
definition SightLine_FloorCheck :: "8 word" where "SightLine_FloorCheck = 2"

definition canThrowObjectTo :: "sight_map \<Rightarrow> position \<Rightarrow> position \<Rightarrow> 8 word \<Rightarrow> int \<Rightarrow> int \<Rightarrow> bool" where
  "canThrowObjectTo m fromPos toPos lineOfSight rangex rangey =
    (if 8 \<le> pos_z fromPos \<and> pos_z toPos \<le> 7 \<or> 8 \<le> pos_z toPos \<and> pos_z fromPos \<le> 7 then False
     else let deltaz = getDistanceZ fromPos toPos in
       if deltaz > 2 then False
       else if getDistanceX fromPos toPos - deltaz > rangex then False
       else if getDistanceY fromPos toPos - deltaz > rangey then False
       else if and lineOfSight SightLine_CheckSightLine = 0 then True
       else isSightClear m fromPos toPos (and lineOfSight SightLine_FloorCheck \<noteq> 0))"

subsection \<open>The line as a set of tiles\<close>

lemma all_steps: "(\<forall>k\<in>{1..Suc n}. P k) \<longleftrightarrow> P 1 \<and> (\<forall>k\<in>{1..n}. P (Suc k))"
proof -
  have e: "{1..Suc n} = insert 1 (Suc ` {1..n})" unfolding image_Suc_atLeastAtMost by auto
  show ?thesis unfolding e by (simp only: ball_simps)
qed

lemma straight_x_iff: "straight_x n m d x y z \<longleftrightarrow> (\<forall>k\<in>{1..n}. \<not> blocked m (x + of_nat k * d) y z)"
proof (induction n arbitrary: x)
  case (Suc n)
  then show ?case unfolding all_steps by (simp add: Let_def algebra_simps)
qed simp

lemma straight_y_iff: "straight_y n m d x y z \<longleftrightarrow> (\<forall>k\<in>{1..n}. \<not> blocked m x (y + of_nat k * d) z)"
proof (induction n arbitrary: y)
  case (Suc n)
  then show ?case unfolding all_steps by (simp add: Let_def algebra_simps)
qed simp

text \<open>The fraction overflows exactly when the sum of the slopes passes a multiple of \<open>2 ^ 16\<close>.\<close>

lemma overflow_step:
  assumes "0 < e" "e \<le> 65536" and w: "w = (word_of_int a :: 16 word)" "E = word_of_int e"
  shows "(a + e) div 65536 = a div 65536 + (if w + E \<le> w then 1 else 0)" "w + E = word_of_int (a + e)"
proof -
  show sum: "w + E = word_of_int (a + e)" by (simp add: w)
  have u: "uint w = a mod 65536" "uint (w + E) = (a + e) mod 65536"
    unfolding sum unfolding w by (simp_all only: uint_word_of_int) simp_all
  have d: "a = a div 65536 * 65536 + a mod 65536" by simp
  define q r where "q = a div 65536" and "r = a mod 65536"
  have r: "0 \<le> r" "r < 65536" and a: "a = q * 65536 + r" by (simp_all add: q_def r_def)
  show "(a + e) div 65536 = a div 65536 + (if w + E \<le> w then 1 else 0)"
  proof (cases "65536 \<le> r + e")
    case True
    have "(a + e) div 65536 = q + 1" by (rule int_div_pos_eq [of _ _ _ "r + e - 65536"]) (use True r assms(2) a in simp_all)
    moreover have "(a + e) mod 65536 = r + e - 65536"
      by (rule int_mod_pos_eq [of _ _ "q + 1"]) (use True r assms(2) a in simp_all)
    moreover have "w + E \<le> w" using calculation(2) assms(2) by (simp add: word_le_def u r_def [symmetric])
    ultimately show ?thesis by (simp add: q_def)
  next
    case False
    have "(a + e) div 65536 = q" by (rule int_div_pos_eq [of _ _ _ "r + e"]) (use False r assms(1) a in simp_all)
    moreover have "(a + e) mod 65536 = r + e" by (rule int_mod_pos_eq [of _ _ q]) (use False r assms(1) a in simp_all)
    moreover have "\<not> w + E \<le> w" using calculation(2) assms(1) by (simp add: word_le_def u r_def [symmetric])
    ultimately show ?thesis by (simp add: q_def)
  qed
qed

definition side_steps :: "int \<Rightarrow> int \<Rightarrow> nat \<Rightarrow> int" where
  "side_steps a e k = (a + int k * e) div 65536 - a div 65536"

lemma side_steps_1:
  assumes "0 < e" "e \<le> 65536" "w = (word_of_int a :: 16 word)" "E = word_of_int e"
  shows "side_steps a e 1 = (if w + E \<le> w then 1 else 0)"
  using overflow_step(1) [OF assms] by (simp add: side_steps_def)

lemma side_steps_Suc: "side_steps a e (Suc k) = side_steps a e 1 + side_steps (a + e) e k"
  by (simp add: side_steps_def algebra_simps)

lemma next_coordinate:
  assumes "uint (t :: 16 word) = uint (s :: 16 word) + int (Suc n) + 1" shows "uint t = uint (s + 1) + int n + 1"
proof -
  have "s < t" using assms by (simp add: word_less_def)
  then have "uint (s + 1) = uint s + 1" by (rule uint_succ_lt)
  then show ?thesis using assms by simp
qed

lemma slope_y_iff:
  assumes e: "0 < e" "e \<le> 65536" and E: "E = word_of_int e"
    and "w = word_of_int a" "uint (pos_y t) = uint (pos_y s) + int n + 1"
  shows "slope_y n m E w d s t \<longleftrightarrow>
    (\<forall>k\<in>{1..n}. \<not> blocked m (pos_x s + d * word_of_int (side_steps a e k)) (pos_y s + of_nat k) (pos_z s))"
  using assms(4,5)
proof (induction n arbitrary: w a s)
  case (Suc n)
  let ?x = "if w + E \<le> w then d else 0" and ?s = "Pos (pos_x s + (if w + E \<le> w then d else 0)) (pos_y s + 1) (pos_z s)"
  have one: "?x = d * word_of_int (side_steps a e 1)" using side_steps_1 [OF e Suc.prems(1) E] by (cases "w + E \<le> w") (simp_all del: One_nat_def)
  have far: "\<not> areInRange2 1 1 s t" using Suc.prems(2) by (simp add: areInRange2_def getDistanceY_def getOffsetY_def)
  have "slope_y n m E (w + E) d ?s t \<longleftrightarrow>
      (\<forall>k\<in>{1..n}. \<not> blocked m (pos_x ?s + d * word_of_int (side_steps (a + e) e k)) (pos_y ?s + of_nat k) (pos_z ?s))"
    by (rule Suc.IH) (use overflow_step(2) [OF e Suc.prems(1) E] next_coordinate [OF Suc.prems(2)] in simp_all)
  moreover have "pos_x ?s + d * word_of_int (side_steps (a + e) e k) = pos_x s + d * word_of_int (side_steps a e (Suc k))" for k
    by (simp add: one [symmetric] side_steps_Suc [of a e k] distrib_left del: One_nat_def)
  moreover have "pos_y ?s + of_nat k = pos_y s + of_nat (Suc k)" for k by (simp add: algebra_simps)
  ultimately have "slope_y n m E (w + E) d ?s t \<longleftrightarrow>
      (\<forall>k\<in>{1..n}. \<not> blocked m (pos_x s + d * word_of_int (side_steps a e (Suc k))) (pos_y s + of_nat (Suc k)) (pos_z s))"
    by (simp only: position.sel)
  then show ?case unfolding all_steps by (simp add: Let_def far one [symmetric] del: One_nat_def)
qed simp

text \<open>The other loop is the same on the map with its axes exchanged.\<close>

definition flip_pos :: "position \<Rightarrow> position" where "flip_pos p = Pos (pos_y p) (pos_x p) (pos_z p)"

definition flip_map :: "sight_map \<Rightarrow> sight_map" where "flip_map m = (\<lambda>x y. m y x)"

lemma flip_sel [simp]: "pos_x (flip_pos p) = pos_y p" "pos_y (flip_pos p) = pos_x p" "pos_z (flip_pos p) = pos_z p"
  by (simp_all add: flip_pos_def)

lemma flip_distance [simp]: "getDistanceX (flip_pos s) (flip_pos t) = getDistanceY s t" "getDistanceY (flip_pos s) (flip_pos t) = getDistanceX s t"
  by (simp_all add: getDistanceX_def getDistanceY_def getOffsetX_def getOffsetY_def)

lemma flip_blocked [simp]: "blocked (flip_map m) x y z = blocked m y x z"
  by (simp add: blocked_def flip_map_def)

lemma slope_x_flip: "slope_x n m E w d s t = slope_y n (flip_map m) E w d (flip_pos s) (flip_pos t)"
proof (induction n arbitrary: w s)
  case (Suc n)
  have "areInRange2 1 1 s t = areInRange2 1 1 (flip_pos s) (flip_pos t)" by (auto simp: areInRange2_def)
  moreover have "flip_pos (Pos x y z) = Pos y x z" for x y z by (simp add: flip_pos_def)
  ultimately show ?case by (simp add: Let_def Suc.IH)
qed simp

text \<open>The reference: a line is drawn from the end with the smaller coordinate along its longer axis, tile by tile; the other
  coordinate drifts by the integral part of a multiple of the slope, which is rounded down to sixteen bits.\<close>

definition fraction :: "int \<Rightarrow> int \<Rightarrow> int" where
  "fraction short long = short * 65536 div long"

definition drift :: "bool \<Rightarrow> int \<Rightarrow> nat \<Rightarrow> int" where
  "drift rising e k = (if rising then int k * e div 65536 else - (1 + (int k - 1) * e div 65536))"

definition sight_line :: "position \<Rightarrow> position \<Rightarrow> (16 word \<times> 16 word) list" where
  "sight_line s t = (let dx = getDistanceX s t; dy = getDistanceY s t in
     if dx < dy
     then let (s, t) = (if pos_y t < pos_y s then (t, s) else (s, t)) in
       map (\<lambda>k. (pos_x s + word_of_int (drift (pos_x s \<le> pos_x t) (fraction dx dy) k), pos_y s + of_nat k)) [1..<nat dy]
     else let (s, t) = (if pos_x t < pos_x s then (t, s) else (s, t)) in
       map (\<lambda>k. (pos_x s + of_nat k, pos_y s + word_of_int (drift (pos_y s \<le> pos_y t) (fraction dy dx) k))) [1..<nat dx])"

lemma line_slope_fraction:
  assumes "0 < short" "short \<le> long" "long < 65536"
  shows "line_slope short long = word_of_int (fraction short long)" "0 < fraction short long" "fraction short long \<le> 65536"
proof -
  have s: "uint (push_bit 16 (word_of_int short :: u32)) = short * 65536"
  proof -
    have "push_bit 16 (word_of_int short :: u32) = word_of_int (short * 65536)" by (simp add: push_bit_eq_mult)
    then show ?thesis using assms by (simp only: uint_word_of_int) simp
  qed
  have l: "uint (word_of_int long :: u32) = long" using assms by (simp only: uint_word_of_int) simp
  have "line_slope short long = word_of_int (uint (push_bit 16 (word_of_int short :: u32) div word_of_int long))"
    by (simp add: line_slope_def)
  also have "uint (push_bit 16 (word_of_int short :: u32) div word_of_int long) = fraction short long"
    unfolding uint_div s l by (simp add: fraction_def)
  finally show "line_slope short long = word_of_int (fraction short long)" .
  have "long \<le> short * 65536" using assms by simp
  then show "0 < fraction short long" unfolding fraction_def using assms by (simp add: pos_imp_zdiv_pos_iff)
  have "fraction short long \<le> long * 65536 div long" unfolding fraction_def by (rule zdiv_mono1) (use assms in simp_all)
  then show "fraction short long \<le> 65536" using assms by simp
qed

lemma drift_side_steps:
  assumes "0 < e" "e \<le> 65536"
  shows "drift True e k = side_steps 0 e k" "drift False e k = - side_steps (- e) e k"
proof -
  show "drift True e k = side_steps 0 e k" by (simp add: drift_def side_steps_def)
  have "- e div 65536 = - 1" by (rule int_div_pos_eq [of _ _ _ "65536 - e"]) (use assms in simp_all)
  then show "drift False e k = - side_steps (- e) e k" by (simp add: drift_def side_steps_def algebra_simps)
qed


lemma uint16_bounds: "0 \<le> uint (a :: 16 word)" "uint (a :: 16 word) < 65536"
  using uint_lt2p [of a] by simp_all

lemma distance_bounds: "0 \<le> getDistanceX s t" "getDistanceX s t < 65536" "0 \<le> getDistanceY s t" "getDistanceY s t < 65536"
  unfolding getDistanceX_def getDistanceY_def getOffsetX_def getOffsetY_def
  using uint16_bounds [of "pos_x s"] uint16_bounds [of "pos_x t"] uint16_bounds [of "pos_y s"] uint16_bounds [of "pos_y t"]
  by linarith+

lemma max_word_16: "(0xFFFF :: 16 word) = - 1" by simp

text \<open>From an end that comes first along the longer axis.\<close>

lemma slope_y_line:
  assumes "0 < getDistanceX s t" "getDistanceX s t \<le> getDistanceY s t" "pos_y s < pos_y t"
  shows "(if pos_x t < pos_x s
      then slope_y (nat (getDistanceY s t - 1)) m (line_slope (getDistanceX s t) (getDistanceY s t)) (- line_slope (getDistanceX s t) (getDistanceY s t)) 0xFFFF s t
      else slope_y (nat (getDistanceY s t - 1)) m (line_slope (getDistanceX s t) (getDistanceY s t)) 0 1 s t) \<longleftrightarrow>
    (\<forall>k\<in>{1..nat (getDistanceY s t - 1)}. \<not> blocked m
       (pos_x s + word_of_int (drift (pos_x s \<le> pos_x t) (fraction (getDistanceX s t) (getDistanceY s t)) k)) (pos_y s + of_nat k) (pos_z s))"
proof -
  let ?e = "fraction (getDistanceX s t) (getDistanceY s t)" and ?n = "nat (getDistanceY s t - 1)"
  note f = line_slope_fraction [of "getDistanceX s t" "getDistanceY s t"]
  have e: "0 < ?e" "?e \<le> 65536" "line_slope (getDistanceX s t) (getDistanceY s t) = word_of_int ?e"
    using f assms(1,2) distance_bounds [of s t] by simp_all
  have far: "uint (pos_y t) = uint (pos_y s) + int ?n + 1"
    using assms(3) by (simp add: getDistanceY_def getOffsetY_def word_less_def)
  show ?thesis
  proof (cases "pos_x t < pos_x s")
    case True
    have "slope_y ?n m (word_of_int ?e) (- word_of_int ?e) 0xFFFF s t \<longleftrightarrow>
      (\<forall>k\<in>{1..?n}. \<not> blocked m (pos_x s + 0xFFFF * word_of_int (side_steps (- ?e) ?e k)) (pos_y s + of_nat k) (pos_z s))"
      by (rule slope_y_iff [OF e(1,2) refl _ far]) simp
    then show ?thesis using True by (simp only: e(3) max_word_16 drift_side_steps [OF e(1,2)] not_le [symmetric]) simp
  next
    case False
    have "slope_y ?n m (word_of_int ?e) 0 1 s t \<longleftrightarrow>
      (\<forall>k\<in>{1..?n}. \<not> blocked m (pos_x s + 1 * word_of_int (side_steps 0 ?e k)) (pos_y s + of_nat k) (pos_z s))"
      by (rule slope_y_iff [OF e(1,2) refl _ far]) simp
    moreover have "pos_x s \<le> pos_x t" using False by simp
    ultimately show ?thesis by (simp add: e(3) drift_side_steps [OF e(1,2)])
  qed
qed

lemma slope_x_line:
  assumes "0 < getDistanceY s t" "getDistanceY s t \<le> getDistanceX s t" "pos_x s < pos_x t"
  shows "(if pos_y t < pos_y s
      then slope_x (nat (getDistanceX s t - 1)) m (line_slope (getDistanceY s t) (getDistanceX s t)) (- line_slope (getDistanceY s t) (getDistanceX s t)) 0xFFFF s t
      else slope_x (nat (getDistanceX s t - 1)) m (line_slope (getDistanceY s t) (getDistanceX s t)) 0 1 s t) \<longleftrightarrow>
    (\<forall>k\<in>{1..nat (getDistanceX s t - 1)}. \<not> blocked m (pos_x s + of_nat k)
       (pos_y s + word_of_int (drift (pos_y s \<le> pos_y t) (fraction (getDistanceY s t) (getDistanceX s t)) k)) (pos_z s))"
  unfolding slope_x_flip
  by (rule slope_y_line [of "flip_pos s" "flip_pos t" "flip_map m", unfolded flip_sel flip_distance flip_blocked, OF assms])


text \<open>Both ends of a straight line see the same tiles.\<close>

lemma straight_between:
  fixes a b :: "16 word"
  assumes "a \<noteq> b"
  defines "n \<equiv> nat (\<bar>uint a - uint b\<bar> - 1)"
  shows "(\<forall>k\<in>{1..n}. P (a + of_nat k * (if a < b then 1 else 0xFFFF))) \<longleftrightarrow> (\<forall>k\<in>{1..n}. P (min a b + of_nat k))"
proof (cases "a < b")
  case False
  then have "b < a" using assms(1) by simp
  then have "uint b < uint a" by (simp add: word_less_def)
  then have "int n + 1 = uint a - uint b" by (simp add: n_def)
  then have "word_of_int (uint a) = (word_of_int (uint b) + word_of_int (int n + 1) :: 16 word)" by (metis add_diff_cancel_left' diff_add_cancel of_int_add)
  then have a: "a = b + of_nat n + 1" by (simp add: algebra_simps)
  have rev: "a + of_nat k * 0xFFFF = b + of_nat (n + 1 - k)" if "k \<in> {1..n}" for k
  proof -
    have "of_nat (n + 1 - k) = (of_nat (n + 1) - of_nat k :: 16 word)" using that by (intro of_nat_diff) simp
    then show ?thesis unfolding max_word_16 a by (simp add: algebra_simps)
  qed
  have img: "(\<lambda>k. n + 1 - k) ` {1..n} = {1..n}"
  proof
    show "{1..n} \<subseteq> (\<lambda>k. n + 1 - k) ` {1..n}" by (rule subsetI, rule_tac x = "n + 1 - x" in rev_image_eqI) auto
  qed auto
  have "(\<forall>k\<in>(\<lambda>k. n + 1 - k) ` {1..n}. P (b + of_nat k)) \<longleftrightarrow> (\<forall>k\<in>{1..n}. P (b + of_nat (n + 1 - k)))" by (rule ball_simps)
  then have "(\<forall>k\<in>{1..n}. P (b + of_nat (n + 1 - k))) \<longleftrightarrow> (\<forall>k\<in>{1..n}. P (b + of_nat k))" unfolding img by (rule sym)
  moreover have "(\<forall>k\<in>{1..n}. P (a + of_nat k * 0xFFFF)) \<longleftrightarrow> (\<forall>k\<in>{1..n}. P (b + of_nat (n + 1 - k)))"
    by (rule ball_cong [OF refl]) (simp only: rev)
  ultimately show ?thesis using False \<open>b < a\<close> by (simp add: min_def)
qed (simp add: min_def)

lemma swap_ends_sel:
  "swap_ends s t = (Pos (pos_x t) (pos_y t) (pos_z s), Pos (pos_x s) (pos_y s) (pos_z t))" by (rule swap_ends_def)

lemma distance_swapped [simp]:
  "getDistanceX (Pos x y z) (Pos x' y' z') = \<bar>uint x - uint x'\<bar>" "getDistanceY (Pos x y z) (Pos x' y' z') = \<bar>uint y - uint y'\<bar>"
  by (simp_all add: getDistanceX_def getDistanceY_def getOffsetX_def getOffsetY_def)

lemma upt_range: "set [1..<nat d] = {1..nat (d - 1)}"
  by auto

lemma sight_straight_x:
  assumes "pos_y s = pos_y t" "pos_x s \<noteq> pos_x t"
  shows "checkSightLine m s t \<longleftrightarrow> list_all (\<lambda>(x, y). \<not> blocked m x y (pos_z s)) (sight_line s t)"
proof -
  let ?dx = "getDistanceX s t"
  have dx: "?dx = \<bar>uint (pos_x s) - uint (pos_x t)\<bar>" by (simp add: getDistanceX_def getOffsetX_def)
  have "checkSightLine m s t \<longleftrightarrow> (\<forall>k\<in>{1..nat (?dx - 1)}. \<not> blocked m (pos_x s + of_nat k * (if pos_x s < pos_x t then 1 else 0xFFFF)) (pos_y s) (pos_z s))"
    using assms by (simp only: checkSightLine_def Let_def straight_x_iff) simp
  also have "\<dots> \<longleftrightarrow> (\<forall>k\<in>{1..nat (?dx - 1)}. \<not> blocked m (min (pos_x s) (pos_x t) + of_nat k) (pos_y s) (pos_z s))"
    unfolding dx by (rule straight_between [OF assms(2)])
  also have "\<dots> \<longleftrightarrow> list_all (\<lambda>(x, y). \<not> blocked m x y (pos_z s)) (sight_line s t)"
  proof -
    have "getDistanceY s t = 0" using assms(1) by (simp add: getDistanceY_def getOffsetY_def)
    then have "sight_line s t = map (\<lambda>k. (min (pos_x s) (pos_x t) + of_nat k, pos_y s)) [1..<nat ?dx]"
      using assms(1) distance_bounds(1) [of s t] by (auto simp: sight_line_def Let_def fraction_def drift_def min_def not_less)
    then show ?thesis by (simp only: list_all_iff set_map upt_range ball_simps prod.case)
  qed
  finally show ?thesis .
qed

lemma straight_y_flip: "straight_y n m d x y z = straight_x n (flip_map m) d y x z"
  by (simp add: straight_x_iff straight_y_iff)

lemma sight_straight_y:
  assumes "pos_x s = pos_x t" "pos_y s \<noteq> pos_y t"
  shows "checkSightLine m s t \<longleftrightarrow> list_all (\<lambda>(x, y). \<not> blocked m x y (pos_z s)) (sight_line s t)"
proof -
  let ?dy = "getDistanceY s t"
  have dy: "?dy = \<bar>uint (pos_y s) - uint (pos_y t)\<bar>" by (simp add: getDistanceY_def getOffsetY_def)
  have "checkSightLine m s t \<longleftrightarrow> (\<forall>k\<in>{1..nat (?dy - 1)}. \<not> blocked m (pos_x s) (pos_y s + of_nat k * (if pos_y s < pos_y t then 1 else 0xFFFF)) (pos_z s))"
    using assms by (simp only: checkSightLine_def Let_def straight_y_iff) simp
  also have "\<dots> \<longleftrightarrow> (\<forall>k\<in>{1..nat (?dy - 1)}. \<not> blocked m (pos_x s) (min (pos_y s) (pos_y t) + of_nat k) (pos_z s))"
    unfolding dy by (rule straight_between [OF assms(2)])
  also have "\<dots> \<longleftrightarrow> list_all (\<lambda>(x, y). \<not> blocked m x y (pos_z s)) (sight_line s t)"
  proof -
    have "getDistanceX s t = 0" "0 < ?dy"
      using assms by (auto simp: getDistanceX_def getOffsetX_def dy word_uint_eq_iff)
    then have "sight_line s t = map (\<lambda>k. (pos_x s, min (pos_y s) (pos_y t) + of_nat k)) [1..<nat ?dy]"
      using assms(1) by (auto simp: sight_line_def Let_def fraction_def drift_def min_def not_less)
    then show ?thesis by (simp only: list_all_iff set_map upt_range ball_simps prod.case)
  qed
  finally show ?thesis .
qed


lemma sight_slope_y:
  assumes "pos_x s \<noteq> pos_x t" "pos_y s \<noteq> pos_y t" "getDistanceX s t < getDistanceY s t"
  shows "checkSightLine m s t \<longleftrightarrow> list_all (\<lambda>(x, y). \<not> blocked m x y (pos_z s)) (sight_line s t)"
proof -
  define lo hi where "lo = (if pos_y t < pos_y s then Pos (pos_x t) (pos_y t) (pos_z s) else s)"
    and "hi = (if pos_y t < pos_y s then Pos (pos_x s) (pos_y s) (pos_z t) else t)"
  have d: "getDistanceX lo hi = getDistanceX s t" "getDistanceY lo hi = getDistanceY s t" "pos_z lo = pos_z s"
    by (auto simp: lo_def hi_def getDistanceX_def getDistanceY_def getOffsetX_def getOffsetY_def)
  have wide: "0 < getDistanceX s t" using assms(1) by (simp add: getDistanceX_def getOffsetX_def word_uint_eq_iff)
  have order: "pos_y lo < pos_y hi" using assms(2) by (auto simp: lo_def hi_def not_less intro: order.not_eq_order_implies_strict)
  note l = slope_y_line [of lo hi m, unfolded d, OF wide less_imp_le [OF assms(3)] order]
  have "(lo, hi) = (if pos_y t < pos_y s then swap_ends s t else (s, t))" by (simp add: lo_def hi_def swap_ends_def)
  then have "checkSightLine m s t \<longleftrightarrow> (if pos_x hi < pos_x lo
      then slope_y (nat (getDistanceY s t - 1)) m (line_slope (getDistanceX s t) (getDistanceY s t)) (- line_slope (getDistanceX s t) (getDistanceY s t)) 0xFFFF lo hi
      else slope_y (nat (getDistanceY s t - 1)) m (line_slope (getDistanceX s t) (getDistanceY s t)) 0 1 lo hi)"
    using assms unfolding checkSightLine_def Let_def by (auto split: prod.splits)
  also note l
  also have "(\<forall>k\<in>{1..nat (getDistanceY s t - 1)}. \<not> blocked m
       (pos_x lo + word_of_int (drift (pos_x lo \<le> pos_x hi) (fraction (getDistanceX s t) (getDistanceY s t)) k)) (pos_y lo + of_nat k) (pos_z s)) \<longleftrightarrow>
      list_all (\<lambda>(x, y). \<not> blocked m x y (pos_z s)) (sight_line s t)"
  proof -
    have "sight_line s t = map (\<lambda>k. (pos_x lo + word_of_int (drift (pos_x lo \<le> pos_x hi) (fraction (getDistanceX s t) (getDistanceY s t)) k),
        pos_y lo + of_nat k)) [1..<nat (getDistanceY s t)]"
      using assms(3) by (simp add: sight_line_def Let_def lo_def hi_def)
    then show ?thesis by (simp only: list_all_iff set_map upt_range ball_simps prod.case)
  qed
  finally show ?thesis .
qed

lemma sight_slope_x:
  assumes "pos_y s \<noteq> pos_y t" "pos_x s \<noteq> pos_x t" "getDistanceY s t \<le> getDistanceX s t"
  shows "checkSightLine m s t \<longleftrightarrow> list_all (\<lambda>(x, y). \<not> blocked m x y (pos_z s)) (sight_line s t)"
proof -
  define lo hi where "lo = (if pos_x t < pos_x s then Pos (pos_x t) (pos_y t) (pos_z s) else s)"
    and "hi = (if pos_x t < pos_x s then Pos (pos_x s) (pos_y s) (pos_z t) else t)"
  have d: "getDistanceY lo hi = getDistanceY s t" "getDistanceX lo hi = getDistanceX s t" "pos_z lo = pos_z s"
    by (auto simp: lo_def hi_def getDistanceY_def getDistanceX_def getOffsetY_def getOffsetX_def)
  have wide: "0 < getDistanceY s t" using assms(1) by (simp add: getDistanceY_def getOffsetY_def word_uint_eq_iff)
  have order: "pos_x lo < pos_x hi" using assms(2) by (auto simp: lo_def hi_def not_less intro: order.not_eq_order_implies_strict)
  note l = slope_x_line [of lo hi m, unfolded d, OF wide assms(3) order]
  have "(lo, hi) = (if pos_x t < pos_x s then swap_ends s t else (s, t))" by (simp add: lo_def hi_def swap_ends_def)
  then have "checkSightLine m s t \<longleftrightarrow> (if pos_y hi < pos_y lo
      then slope_x (nat (getDistanceX s t - 1)) m (line_slope (getDistanceY s t) (getDistanceX s t)) (- line_slope (getDistanceY s t) (getDistanceX s t)) 0xFFFF lo hi
      else slope_x (nat (getDistanceX s t - 1)) m (line_slope (getDistanceY s t) (getDistanceX s t)) 0 1 lo hi)"
    using assms unfolding checkSightLine_def Let_def by (auto split: prod.splits)
  also note l
  also have "(\<forall>k\<in>{1..nat (getDistanceX s t - 1)}. \<not> blocked m
       (pos_x lo + of_nat k) (pos_y lo + word_of_int (drift (pos_y lo \<le> pos_y hi) (fraction (getDistanceY s t) (getDistanceX s t)) k)) (pos_z s)) \<longleftrightarrow>
      list_all (\<lambda>(x, y). \<not> blocked m x y (pos_z s)) (sight_line s t)"
  proof -
    have "sight_line s t = map (\<lambda>k. (pos_x lo + of_nat k,
        pos_y lo + word_of_int (drift (pos_y lo \<le> pos_y hi) (fraction (getDistanceY s t) (getDistanceX s t)) k))) [1..<nat (getDistanceX s t)]"
      using assms(3) by (simp add: sight_line_def Let_def lo_def hi_def)
    then show ?thesis by (simp only: list_all_iff set_map upt_range ball_simps prod.case)
  qed
  finally show ?thesis .
qed

lemma check_iff:
  "checkSightLine m s t \<longleftrightarrow> list_all (\<lambda>(x, y). \<not> blocked m x y (pos_z s)) (sight_line s t)"
proof (cases "pos_x s = pos_x t \<or> pos_y s = pos_y t")
  case True
  then consider "pos_x s = pos_x t" "pos_y s = pos_y t" | "pos_y s = pos_y t" "pos_x s \<noteq> pos_x t" | "pos_x s = pos_x t" "pos_y s \<noteq> pos_y t" by blast
  then show ?thesis
  proof cases
    case 1
    then have "getDistanceX s t = 0" "getDistanceY s t = 0" by (simp_all add: getDistanceX_def getDistanceY_def getOffsetX_def getOffsetY_def)
    then show ?thesis using 1 by (simp add: checkSightLine_def sight_line_def)
  qed (fact sight_straight_x sight_straight_y)+
next
  case False
  then show ?thesis using sight_slope_y [of s t m] sight_slope_x [of s t m] by (cases "getDistanceX s t < getDistanceY s t") auto
qed

subsection \<open>Properties\<close>

lemma distance_commute: "getDistanceX t s = getDistanceX s t" "getDistanceY t s = getDistanceY s t" "getDistanceZ t s = getDistanceZ s t"
  by (simp_all add: getDistanceX_def getDistanceY_def getDistanceZ_def getOffsetX_def getOffsetY_def getOffsetZ_def)

lemma sight_line_commute: "sight_line s t = sight_line t s"
proof (cases "getDistanceX s t < getDistanceY s t")
  case True
  then have "pos_y s \<noteq> pos_y t" by (auto simp: getDistanceX_def getDistanceY_def getOffsetY_def)
  then show ?thesis using True by (auto simp: sight_line_def distance_commute Let_def not_less dest: order.antisym)
next
  case False
  have "sight_line s t = [] \<and> sight_line t s = []" if "pos_x s = pos_x t"
    using that False by (simp add: sight_line_def distance_commute getDistanceX_def getOffsetX_def)
  then show ?thesis using False by (auto simp: sight_line_def distance_commute Let_def not_less dest: order.antisym)
qed

lemma check_commute: "pos_z s = pos_z t \<Longrightarrow> checkSightLine m t s = checkSightLine m s t"
  by (simp add: check_iff sight_line_commute [of t s])


lemma drift_bounds:
  assumes "0 \<le> short" "short \<le> long" "k \<in> {1..<nat long}"
  shows "0 \<le> drift True (fraction short long) k" "drift True (fraction short long) k \<le> short"
    "0 < short \<Longrightarrow> - short \<le> drift False (fraction short long) k" "drift False (fraction short long) k \<le> 0"
proof -
  let ?e = "fraction short long"
  have k: "1 \<le> int k" "int k < long" using assms(3) by auto
  have e: "0 \<le> ?e" "long * ?e \<le> short * 65536" using assms k by (simp_all add: fraction_def pos_imp_zdiv_nonneg_iff mult.commute [of long] minus_mod_eq_mult_div [symmetric])
  have up: "int k * ?e \<le> short * 65536" using mult_right_mono [of "int k" long ?e] k e by linarith
  show "0 \<le> drift True ?e k" using e(1) by (simp add: drift_def pos_imp_zdiv_nonneg_iff)
  have "int k * ?e div 65536 \<le> short * 65536 div 65536" using up by (rule zdiv_mono1) simp
  then show "drift True ?e k \<le> short" by (simp add: drift_def)
  have pos: "0 \<le> (int k - 1) * ?e" using k e(1) by simp
  then have "0 \<le> (int k - 1) * ?e div 65536" by (simp add: pos_imp_zdiv_nonneg_iff)
  then show "drift False ?e k \<le> 0" by (simp add: drift_def)
  assume "0 < short"
  have "(int k - 1) * ?e < short * 65536"
  proof (cases "?e = 0")
    case False
    then have "(int k - 1) * ?e < int k * ?e" using e(1) by (simp add: mult_less_cancel_right)
    then show ?thesis using up by linarith
  qed (use \<open>0 < short\<close> in simp)
  then have "(int k - 1) * ?e div 65536 < short" by presburger
  then show "- short \<le> drift False ?e k" by (simp add: drift_def)
qed


definition between :: "16 word \<Rightarrow> 16 word \<Rightarrow> 16 word \<Rightarrow> bool" where
  "between a b x \<longleftrightarrow> min a b \<le> x \<and> x \<le> max a b"

lemma between_up:
  assumes "a \<le> (b :: 16 word)" "0 \<le> d" "d \<le> uint b - uint a" shows "a \<le> a + word_of_int d \<and> a + word_of_int d \<le> b"
proof -
  have "a + word_of_int d = word_of_int (uint a + d)" by simp
  moreover have "uint (word_of_int (uint a + d) :: 16 word) = uint a + d"
  proof -
    have "0 \<le> uint a + d" "uint a + d < 65536" using assms(2,3) uint16_bounds [of a] uint16_bounds [of b] by linarith+
    then show ?thesis by (simp only: uint_word_of_int) simp
  qed
  ultimately have "uint (a + word_of_int d) = uint a + d" by (simp only:)
  then show ?thesis using assms by (simp add: word_le_def)
qed

lemma between_down:
  assumes "b \<le> (a :: 16 word)" "d \<le> 0" "uint b - uint a \<le> d" shows "b \<le> a + word_of_int d \<and> a + word_of_int d \<le> a"
proof -
  have "a + word_of_int d = word_of_int (uint a + d)" by simp
  moreover have "uint (word_of_int (uint a + d) :: 16 word) = uint a + d"
  proof -
    have "0 \<le> uint a + d" "uint a + d < 65536" using assms(2,3) uint16_bounds [of a] uint16_bounds [of b] by linarith+
    then show ?thesis by (simp only: uint_word_of_int) simp
  qed
  ultimately have "uint (a + word_of_int d) = uint a + d" by (simp only:)
  then show ?thesis using assms by (simp add: word_le_def)
qed

lemma between_drift:
  assumes "\<bar>uint a - uint b\<bar> \<le> long" "k \<in> {1..<nat long}" "long < 65536"
  shows "between a b (a + word_of_int (drift (a \<le> b) (fraction \<bar>uint a - uint b\<bar> long) k))"
proof (cases "a \<le> b")
  case True
  then have "\<bar>uint a - uint b\<bar> = uint b - uint a" by (simp add: word_le_def)
  then show ?thesis using True between_up [OF True] drift_bounds(1,2) [of "\<bar>uint a - uint b\<bar>" long k] assms(1,2)
    by (simp add: between_def)
next
  case False
  then have b: "b \<le> a" by simp
  have u: "uint b < uint a" using False by (simp add: word_le_def)
  then have w: "\<bar>uint a - uint b\<bar> = uint a - uint b" by simp
  note d = drift_bounds(3,4) [of "uint a - uint b" long k, OF _ assms(1) [unfolded w] assms(2)]
  have "b \<le> a + word_of_int (drift False (fraction (uint a - uint b) long) k) \<and> a + word_of_int (drift False (fraction (uint a - uint b) long) k) \<le> a"
    by (rule between_down [OF b]) (use d u in linarith)+
  then show ?thesis using False b unfolding w between_def by simp
qed

lemma between_steps:
  assumes "a < (b :: 16 word)" "k \<in> {1..<nat \<bar>uint a - uint b\<bar>}" shows "between a b (a + of_nat k)"
proof -
  have "a \<le> a + word_of_int (int k) \<and> a + word_of_int (int k) \<le> b"
    by (rule between_up) (use assms in \<open>auto simp: word_less_def word_le_def\<close>)
  then show ?thesis using assms(1) by (simp add: between_def)
qed


lemma line_inside:
  assumes "getDistanceX p q \<le> getDistanceY p q" "pos_y p < pos_y q"
  shows "list_all (\<lambda>(x, y). between (pos_x p) (pos_x q) x \<and> between (pos_y p) (pos_y q) y)
    (map (\<lambda>k. (pos_x p + word_of_int (drift (pos_x p \<le> pos_x q) (fraction (getDistanceX p q) (getDistanceY p q)) k), pos_y p + of_nat k))
      [1..<nat (getDistanceY p q)])"
  using assms distance_bounds [of p q]
  unfolding list_all_iff set_map ball_simps prod.case set_upt getDistanceX_def getDistanceY_def getOffsetX_def getOffsetY_def
  by (intro ballI conjI between_drift between_steps) auto

lemma line_inside_flip:
  assumes "getDistanceY p q \<le> getDistanceX p q" "pos_x p < pos_x q"
  shows "list_all (\<lambda>(x, y). between (pos_x p) (pos_x q) x \<and> between (pos_y p) (pos_y q) y)
    (map (\<lambda>k. (pos_x p + of_nat k, pos_y p + word_of_int (drift (pos_y p \<le> pos_y q) (fraction (getDistanceY p q) (getDistanceX p q)) k)))
      [1..<nat (getDistanceX p q)])"
  using line_inside [of "flip_pos p" "flip_pos q", unfolded flip_sel flip_distance, OF assms] by (simp add: list_all_iff)

lemma between_commute: "between a b = between b a"
  by (rule ext) (simp add: between_def min.commute max.commute)

text \<open>A line of sight stays between its ends: of the tiles it looks at, none lies outside the rectangle that the two positions
  span, and their number is one less than the longer of the two distances.\<close>

theorem sight_line_inside:
  "list_all (\<lambda>(x, y). between (pos_x s) (pos_x t) x \<and> between (pos_y s) (pos_y t) y) (sight_line s t) \<and>
    length (sight_line s t) = nat (max (getDistanceX s t) (getDistanceY s t)) - 1"
proof (cases "getDistanceX s t < getDistanceY s t")
  case True
  then have "pos_y s \<noteq> pos_y t" by (auto simp: getDistanceX_def getDistanceY_def getOffsetY_def)
  then consider "pos_y s < pos_y t" | "pos_y t < pos_y s" by (meson linorder_neqE)
  then show ?thesis
  proof cases
    case 1
    then show ?thesis using True line_inside [of s t] by (simp add: sight_line_def Let_def)
  next
    case 2
    then show ?thesis using True line_inside [of t s] by (simp add: sight_line_def Let_def distance_commute between_commute [of "pos_x s"] between_commute [of "pos_y s"])
  qed
next
  case False
  then consider "pos_x s < pos_x t" | "pos_x t < pos_x s" | "pos_x s = pos_x t" by (meson linorder_neqE)
  then show ?thesis
  proof cases
    case 1
    then show ?thesis using False line_inside_flip [of s t] by (simp add: sight_line_def Let_def)
  next
    case 2
    then show ?thesis using False line_inside_flip [of t s]
      by (simp add: sight_line_def Let_def distance_commute between_commute [of "pos_x s"] between_commute [of "pos_y s"])
  next
    case 3
    then have "getDistanceX s t = 0" by (simp add: getDistanceX_def getOffsetX_def)
    then show ?thesis using False by (simp add: sight_line_def Let_def)
  qed
qed

lemma jump_one: "jump_clear m t (pos_z t - 1) \<longleftrightarrow> \<not> closed_floor m (pos_x t) (pos_y t) (pos_z t - 1)"
  by (simp add: jump_clear_def)

text \<open>C38: On one floor sight is mutual: whoever can see or throw at another position can be seen and hit from it, whether the
  line is clear or leads over an obstacle through the floor above.\<close>

theorem sight_symmetric:
  assumes "pos_z s = pos_z t"
  shows "isSightClear m t s floorCheck = isSightClear m s t floorCheck \<and>
    canThrowObjectTo m t s lineOfSight rangex rangey = canThrowObjectTo m s t lineOfSight rangex rangey"
proof -
  have a: "pos_z (above_pos s) = pos_z (above_pos t)" using assms by (simp add: above_pos_def)
  have r: "areInRange2 1 1 t s = areInRange2 1 1 s t" by (simp add: areInRange2_def distance_commute)
  have c: "isSightClear m t s fc = isSightClear m s t fc" for fc
    using jump_one [of m s] jump_one [of m t] assms
    by (auto simp: isSightClear_def Let_def check_commute [OF assms] check_commute [OF a] r)
  then show ?thesis by (simp add: canThrowObjectTo_def distance_commute assms)
qed

text \<open>A wall on the floor above between the two.\<close>

definition wall_map :: sight_map where
  "wall_map = (\<lambda>x y z. if x = 12 \<and> (z = 7 \<or> z = 6) then Some \<lparr>st_ground = True, st_block = True\<rparr> else None)"

theorem sight_symmetric_witness:
  "\<not> isSightClear wall_map (Pos 15 22 7) (Pos 10 20 7) False \<and> \<not> isSightClear wall_map (Pos 10 20 7) (Pos 15 22 7) False"
proof -
  have "\<not> isSightClear wall_map (Pos 10 20 7) (Pos 15 22 7) False" by code_simp
  then show ?thesis using sight_symmetric [of "Pos 10 20 7" "Pos 15 22 7" wall_map False] by simp
qed

end
