(* ===== verification/Pathfinding.thy ===== *)
theory Pathfinding
  imports Sight
begin

text \<open>
  Path search on the map: the A* search of \<open>Map::getPathMatching\<close> and \<open>Map::getPathMatchingCond\<close> (\<open>map/map.cpp\<close>) over
  \<open>AStarNodes\<close> (\<open>map/utils/astarnodes.cpp\<close>), with the condition \<open>FrozenPathingConditionCall\<close> and \<open>Creature::getPathTo\<close>
  (\<open>creatures/creature.cpp\<close>).  A node is its index in the array of nodes; \<open>nodesTable\<close> repeats the coordinates of the
  nodes and is left out.  Costs are far below the limits of their types: 512 nodes, at most 255 for a step, and a
  heuristic of at most \<open>24 * 65535\<close>.  A creature stands on the tile that the map has at its position.
\<close>

subsection \<open>The goal\<close>

record find_path_params =
  fpp_fullPathSearch :: bool
  fpp_clearSight :: bool
  fpp_allowDiagonal :: bool
  fpp_keepDistance :: bool
  fpp_maxSearchDist :: int
  fpp_minTargetDist :: int
  fpp_maxTargetDist :: int

definition isInRange :: "position \<Rightarrow> position \<Rightarrow> position \<Rightarrow> find_path_params \<Rightarrow> bool" where
  "isInRange targetPos startPos testPos fpp = (let tx = uint (pos_x targetPos); ty = uint (pos_y targetPos);
      x = uint (pos_x testPos); y = uint (pos_y testPos); maxDist = fpp_maxTargetDist fpp in
    if fpp_fullPathSearch fpp
    then \<not> (x > tx + maxDist) \<and> \<not> (x < tx - maxDist) \<and> \<not> (y > ty + maxDist) \<and> \<not> (y < ty - maxDist)
    else let dx = getOffsetX startPos targetPos; dy = getOffsetY startPos targetPos in
      \<not> (x > tx + (if dx \<ge> 0 then maxDist else 0)) \<and> \<not> (x < tx - (if dx \<le> 0 then maxDist else 0))
      \<and> \<not> (y > ty + (if dy \<ge> 0 then maxDist else 0)) \<and> \<not> (y < ty - (if dy \<le> 0 then maxDist else 0)))"

text \<open>The answer and the best distance so far.\<close>

definition path_condition :: "sight_map \<Rightarrow> position \<Rightarrow> position \<Rightarrow> position \<Rightarrow> find_path_params \<Rightarrow> int \<Rightarrow> bool \<times> int" where
  "path_condition m targetPos startPos testPos fpp bestMatchDist =
    (if \<not> isInRange targetPos startPos testPos fpp then (False, bestMatchDist)
     else if fpp_clearSight fpp \<and> \<not> isSightClear m testPos targetPos True then (False, bestMatchDist)
     else let testDist = max (getDistanceX targetPos testPos) (getDistanceY targetPos testPos) in
       if fpp_maxTargetDist fpp = 1
       then (\<not> (testDist < fpp_minTargetDist fpp \<or> testDist > fpp_maxTargetDist fpp), bestMatchDist)
       else if testDist \<le> fpp_maxTargetDist fpp
       then if testDist < fpp_minTargetDist fpp then (False, bestMatchDist)
         else if testDist = fpp_maxTargetDist fpp then (True, 0)
         else if testDist > bestMatchDist then (True, testDist)
         else (False, bestMatchDist)
       else (False, bestMatchDist))"

subsection \<open>Where a creature can walk\<close>

text \<open>Of a tile: whether a creature is seen on it, and the kind of damage of a field on it.\<close>

record tile_info =
  ti_creature :: bool
  ti_field :: "nat option"

text \<open>Of the creature: its immunities and conditions by kind of damage, for a monster the fields it walks on, the cache of
  tiles around it, and what \<open>Tile::queryAdd\<close> answers for it.\<close>

record walker =
  wk_removed :: bool
  wk_pos :: position
  wk_immune :: "nat \<Rightarrow> bool"
  wk_hasCondition :: "nat \<Rightarrow> bool"
  wk_canWalkOnField :: "(nat \<Rightarrow> bool) option"
  wk_useCacheMap :: bool
  wk_localMapCache :: "int \<Rightarrow> int \<Rightarrow> bool"
  wk_accepted :: "position \<Rightarrow> bool"

text \<open>Which of the versions of the node search was compiled: the plain one, or one with vectors of so many lanes.\<close>

datatype simd = Plain | Lanes nat

record path_env =
  pe_tiles :: "position \<Rightarrow> tile_info option"
  pe_walker :: "walker option"
  pe_sight :: sight_map
  pe_simd :: simd

definition maxWalkCacheWidth :: int where "maxWalkCacheWidth = 11"
definition maxWalkCacheHeight :: int where "maxWalkCacheHeight = 11"

definition getWalkCache :: "walker \<Rightarrow> position \<Rightarrow> int" where
  "getWalkCache w pos = (if \<not> wk_useCacheMap w then 2
     else if pos_z (wk_pos w) \<noteq> pos_z pos then 0
     else if pos = wk_pos w then 1
     else let dx = getOffsetX pos (wk_pos w); dy = getOffsetY pos (wk_pos w) in
       if \<bar>dx\<bar> \<le> maxWalkCacheWidth \<and> \<bar>dy\<bar> \<le> maxWalkCacheHeight
       then of_bool (wk_localMapCache w (maxWalkCacheHeight + dy) (maxWalkCacheWidth + dx)) else 2)"

definition canWalkTo :: "path_env \<Rightarrow> walker \<Rightarrow> position \<Rightarrow> tile_info option" where
  "canWalkTo env w pos = (if wk_removed w then None
     else let walkCache = getWalkCache w pos in
       if walkCache = 0 then None
       else if walkCache = 1 then pe_tiles env pos
       else if pos \<noteq> wk_pos w \<and> (pe_tiles env pos = None \<or> \<not> wk_accepted w pos) then None
       else pe_tiles env pos)"

definition getTileWalkCost :: "walker option \<Rightarrow> tile_info \<Rightarrow> nat" where
  "getTileWalkCost creature tile = (case creature of None \<Rightarrow> 0 | Some w \<Rightarrow>
     (if ti_creature tile then 10 * 4 else 0) +
     (case ti_field tile of None \<Rightarrow> 0 | Some c \<Rightarrow>
        if \<not> wk_immune w c \<and> \<not> wk_hasCondition w c \<and> (case wk_canWalkOnField w of None \<Rightarrow> False | Some p \<Rightarrow> \<not> p c)
        then 10 * 18 else 0))"

text \<open>The tile that the search may enter, and its cost.\<close>

definition entry_cost :: "path_env \<Rightarrow> position \<Rightarrow> nat option" where
  "entry_cost env pos = (case (case pe_walker env of None \<Rightarrow> pe_tiles env pos | Some w \<Rightarrow> canWalkTo env w pos) of
     None \<Rightarrow> None | Some tile \<Rightarrow> Some (getTileWalkCost (pe_walker env) tile))"

subsection \<open>The nodes\<close>

record astar_node =
  nd_parent :: "nat option"
  nd_f :: nat
  nd_g :: int
  nd_c :: nat
  nd_x :: "16 word"
  nd_y :: "16 word"

text \<open>The array of nodes up to \<open>curNode\<close>, which of them are open, the sums of costs the vectors read, the number of closed ones.\<close>

record astar_nodes =
  as_nodes :: "astar_node list"
  as_open :: "bool list"
  as_calculated :: "nat \<Rightarrow> int"
  as_closed :: int

definition MAX_NODES :: nat where "MAX_NODES = 512"
definition MAX_COST :: int where "MAX_COST = 2147483647"

definition total_cost :: "astar_node \<Rightarrow> int" where "total_cost nd = int (nd_f nd) + nd_g nd"

definition new_astar :: "16 word \<Rightarrow> 16 word \<Rightarrow> nat \<Rightarrow> astar_nodes" where
  "new_astar x y extraCost = \<lparr>as_nodes = [\<lparr>nd_parent = None, nd_f = 0, nd_g = 0, nd_c = extraCost, nd_x = x, nd_y = y\<rparr>],
     as_open = [True], as_calculated = (\<lambda>_. MAX_COST)(0 := 0), as_closed = 0\<rparr>"

definition createOpenNode :: "nat \<Rightarrow> 16 word \<Rightarrow> 16 word \<Rightarrow> nat \<Rightarrow> int \<Rightarrow> nat \<Rightarrow> astar_nodes \<Rightarrow> astar_nodes option" where
  "createOpenNode parent x y f heuristic extraCost st = (let retNode = length (as_nodes st) in
     if retNode \<ge> MAX_NODES then None
     else Some (st\<lparr>as_nodes := as_nodes st @ [\<lparr>nd_parent = Some parent, nd_f = f, nd_g = heuristic, nd_c = extraCost, nd_x = x, nd_y = y\<rparr>],
       as_open := as_open st @ [True], as_calculated := (as_calculated st)(retNode := int f + heuristic)\<rparr>))"

definition closeNode :: "nat \<Rightarrow> astar_nodes \<Rightarrow> astar_nodes" where
  "closeNode n st = st\<lparr>as_calculated := (as_calculated st)(n := MAX_COST), as_open := (as_open st)[n := False], as_closed := as_closed st + 1\<rparr>"

definition openNode :: "nat \<Rightarrow> astar_nodes \<Rightarrow> astar_nodes" where
  "openNode n st = st\<lparr>as_calculated := (as_calculated st)(n := total_cost (as_nodes st ! n)),
     as_closed := as_closed st - (if as_open st ! n then 0 else 1), as_open := (as_open st)[n := True]\<rparr>"

definition node_key :: "astar_node \<Rightarrow> u32" where
  "node_key nd = or (push_bit 16 (ucast (nd_x nd))) (ucast (nd_y nd))"

fun find_key :: "nat \<Rightarrow> u32 \<Rightarrow> astar_node list \<Rightarrow> nat option" where
  "find_key i xy [] = None"
| "find_key i xy (nd # nds) = (if node_key nd = xy then Some i else find_key (Suc i) xy nds)"

text \<open>The vector version looks from the first node on; the plain one looks at the first node last.\<close>

definition getNodeByPosition :: "simd \<Rightarrow> 16 word \<Rightarrow> 16 word \<Rightarrow> astar_nodes \<Rightarrow> nat option" where
  "getNodeByPosition v x y st = (let xy = or (push_bit 16 (ucast x)) (ucast y) in case v of
     Lanes _ \<Rightarrow> find_key 0 xy (as_nodes st)
   | Plain \<Rightarrow> (case as_nodes st of [] \<Rightarrow> None
       | nd # nds \<Rightarrow> (case find_key 1 xy nds of Some i \<Rightarrow> Some i | None \<Rightarrow> if node_key nd = xy then Some 0 else None)))"

text \<open>The best node.  Each lane keeps the first index at which its value is least, then the first best lane wins; a closed node
  counts with the greatest integer, so that the winner is closed only when there is no open one.\<close>

definition least_index :: "(nat \<Rightarrow> int) \<Rightarrow> nat \<Rightarrow> nat list \<Rightarrow> nat" where
  "least_index calc i ps = fold (\<lambda>p i. if calc p < calc i then p else i) ps i"

definition lane_indices :: "nat \<Rightarrow> nat \<Rightarrow> nat \<Rightarrow> nat list" where
  "lane_indices lanes curNode l = map (\<lambda>j. j * lanes + l) [1..<(curNode + lanes - 1) div lanes]"

definition best_lanes :: "nat \<Rightarrow> astar_nodes \<Rightarrow> nat option" where
  "best_lanes lanes st = (let calc = as_calculated st;
     winners = map (\<lambda>l. least_index calc l (lane_indices lanes (length (as_nodes st)) l)) [0..<lanes];
     best = least_index calc (hd winners) (tl winners) in
     if best < length (as_open st) \<and> as_open st ! best then Some best else None)"

definition plain_step :: "astar_nodes \<Rightarrow> nat \<Rightarrow> nat option \<times> int \<Rightarrow> nat option \<times> int" where
  "plain_step st pos best = (if \<not> (pos < length (as_open st) \<and> as_open st ! pos) then best
     else if total_cost (as_nodes st ! pos) < snd best then (Some pos, total_cost (as_nodes st ! pos)) else best)"

definition best_plain :: "astar_nodes \<Rightarrow> nat option" where
  "best_plain st = fst (fold (plain_step st) [0..<length (as_nodes st)] (None, MAX_COST))"

definition getBestNode :: "simd \<Rightarrow> astar_nodes \<Rightarrow> nat option" where
  "getBestNode v st = (case v of Plain \<Rightarrow> best_plain st | Lanes l \<Rightarrow> best_lanes l st)"

definition getMapWalkCost :: "16 word \<Rightarrow> 16 word \<Rightarrow> 16 word \<Rightarrow> 16 word \<Rightarrow> nat" where
  "getMapWalkCost x y x' y' = nat ((\<bar>uint x - uint x'\<bar> + \<bar>uint y - uint y'\<bar> - 1) * 25 + 10)"

subsection \<open>The search\<close>

text \<open>The arguments of a search: \<open>sc_cond\<close> tells \<open>getPathMatchingCond\<close> from \<open>getPathMatching\<close>, \<open>sc_target\<close> is the target of the
  condition and \<open>sc_toward\<close> that of the heuristic.\<close>

record path_query =
  sc_env :: path_env
  sc_fpp :: find_path_params
  sc_cond :: bool
  sc_start :: position
  sc_target :: position
  sc_toward :: position

definition allNeighbors :: "(int \<times> int) list" where
  "allNeighbors = [(-1, 0), (0, 1), (1, 0), (0, -1), (-1, -1), (1, -1), (1, 1), (-1, 1)]"

fun dirNeighbors :: "direction \<Rightarrow> (int \<times> int) list" where
  "dirNeighbors DIRECTION_NORTH = [(-1, 0), (0, 1), (1, 0), (1, 1), (-1, 1)]"
| "dirNeighbors DIRECTION_EAST = [(-1, 0), (0, 1), (0, -1), (-1, -1), (-1, 1)]"
| "dirNeighbors DIRECTION_SOUTH = [(-1, 0), (1, 0), (0, -1), (-1, -1), (1, -1)]"
| "dirNeighbors DIRECTION_WEST = [(0, 1), (1, 0), (0, -1), (1, -1), (1, 1)]"
| "dirNeighbors DIRECTION_SOUTHWEST = [(1, 0), (0, -1), (-1, -1), (1, -1), (1, 1)]"
| "dirNeighbors DIRECTION_SOUTHEAST = [(-1, 0), (0, -1), (-1, -1), (1, -1), (-1, 1)]"
| "dirNeighbors DIRECTION_NORTHWEST = [(0, 1), (1, 0), (1, -1), (1, 1), (-1, 1)]"
| "dirNeighbors DIRECTION_NORTHEAST = [(-1, 0), (0, 1), (-1, -1), (1, 1), (-1, 1)]"
| "dirNeighbors DIRECTION_NONE = []"

text \<open>The offset of the parent decides which five neighbours are looked at.\<close>

definition parent_direction :: "int \<Rightarrow> int \<Rightarrow> direction" where
  "parent_direction offset_x offset_y =
    (if offset_y = 0 then if offset_x = -1 then DIRECTION_WEST else DIRECTION_EAST
     else if offset_x = 0 then if offset_y = -1 then DIRECTION_NORTH else DIRECTION_SOUTH
     else if offset_y = -1 then if offset_x = -1 then DIRECTION_NORTHWEST else DIRECTION_NORTHEAST
     else if offset_x = -1 then DIRECTION_SOUTHWEST else DIRECTION_SOUTHEAST)"

definition node_neighbors :: "astar_nodes \<Rightarrow> nat \<Rightarrow> (int \<times> int) list" where
  "node_neighbors st n = (let nd = as_nodes st ! n in case nd_parent nd of None \<Rightarrow> allNeighbors
     | Some p \<Rightarrow> let pn = as_nodes st ! p in
         dirNeighbors (parent_direction (uint (nd_x pn) - uint (nd_x nd)) (uint (nd_y pn) - uint (nd_y nd))))"

definition node_pos :: "path_query \<Rightarrow> astar_node \<Rightarrow> position" where
  "node_pos sc nd = Pos (nd_x nd) (nd_y nd) (pos_z (sc_start sc))"

text \<open>What the search with limits passes over.\<close>

definition left_out :: "path_query \<Rightarrow> position \<Rightarrow> bool" where
  "left_out sc pos \<longleftrightarrow> sc_cond sc \<and> (let fpp = sc_fpp sc in
     fpp_maxSearchDist fpp \<noteq> 0 \<and> (getDistanceX (sc_start sc) pos > fpp_maxSearchDist fpp \<or> getDistanceY (sc_start sc) pos > fpp_maxSearchDist fpp)
     \<or> fpp_keepDistance fpp \<and> \<not> isInRange (sc_target sc) (sc_start sc) pos fpp)"

definition heuristic :: "path_query \<Rightarrow> position \<Rightarrow> int" where
  "heuristic sc pos = (let dX = getDistanceX (sc_toward sc) pos; dY = getDistanceY (sc_toward sc) pos;
     sX = getDistanceX (sc_toward sc) (sc_start sc); sY = getDistanceY (sc_toward sc) (sc_start sc) in
     (dX - sX) * 8 + (dY - sY) * 8 + max dX dY * 8)"

text \<open>The neighbours of node \<open>n\<close>, whose cost is \<open>f\<close>; the flag says that no node was left.\<close>

fun expand :: "path_query \<Rightarrow> nat \<Rightarrow> astar_node \<Rightarrow> (int \<times> int) list \<Rightarrow> astar_nodes \<Rightarrow> astar_nodes \<times> bool" where
  "expand sc n nd [] st = (st, False)"
| "expand sc n nd ((dx, dy) # ds) st = (let x = nd_x nd + word_of_int dx; y = nd_y nd + word_of_int dy; pos = Pos x y (pos_z (sc_start sc)) in
     if left_out sc pos then expand sc n nd ds st
     else (case getNodeByPosition (pe_simd (sc_env sc)) x y st of
       Some k \<Rightarrow> let newf = nd_f nd + getMapWalkCost (nd_x nd) (nd_y nd) x y + nd_c (as_nodes st ! k) in
         if nd_f (as_nodes st ! k) \<le> newf then expand sc n nd ds st
         else expand sc n nd ds (openNode k (st\<lparr>as_nodes := (as_nodes st)[k := (as_nodes st ! k)\<lparr>nd_f := newf, nd_parent := Some n\<rparr>]\<rparr>))
     | None \<Rightarrow> (case entry_cost (sc_env sc) pos of None \<Rightarrow> expand sc n nd ds st
         | Some extraCost \<Rightarrow> (case createOpenNode n x y (nd_f nd + getMapWalkCost (nd_x nd) (nd_y nd) x y + extraCost) (heuristic sc pos) extraCost st of
             None \<Rightarrow> (st, True)
           | Some st \<Rightarrow> expand sc n nd ds st))))"

text \<open>The loop; the answer is the node that was found and the nodes.  In \<open>getPathMatching\<close> the start that the condition is given
  is a reference to the position that is being looked at.\<close>

function path_loop :: "path_query \<Rightarrow> nat option \<Rightarrow> int \<Rightarrow> astar_nodes \<Rightarrow> (nat \<times> astar_nodes) option" where
  "path_loop sc found bestMatch st = (case getBestNode (pe_simd (sc_env sc)) st of
     None \<Rightarrow> map_option (\<lambda>i. (i, st)) found
   | Some n \<Rightarrow> let nd = as_nodes st ! n; pos = node_pos sc nd;
       (ok, bestMatch) = path_condition (pe_sight (sc_env sc)) (sc_target sc) (if sc_cond sc then sc_start sc else pos) pos (sc_fpp sc) bestMatch;
       found = (if ok then Some n else found) in
     if ok \<and> bestMatch = 0 then Some (n, st)
     else let (st', full) = expand sc n nd (node_neighbors st n) st in
       if full \<and> found = None then None
       else let st'' = closeNode n st' in
         if sc_cond sc \<and> fpp_maxSearchDist (sc_fpp sc) \<noteq> 0 \<or> as_closed st'' < 100
         then path_loop sc found bestMatch st''
         else map_option (\<lambda>i. (i, st'')) found)"
  by pat_completeness auto

text \<open>The loop ends: each round adds a node, of which there are at most 512, or lowers the cost of a node, or closes one.\<close>

definition cost_sum :: "astar_nodes \<Rightarrow> nat" where "cost_sum st = sum_list (map nd_f (as_nodes st))"

definition open_count :: "astar_nodes \<Rightarrow> nat" where "open_count st = length (filter id (as_open st))"

definition progress :: "astar_nodes \<Rightarrow> astar_nodes \<Rightarrow> bool" where
  "progress st' st \<longleftrightarrow> MAX_NODES - length (as_nodes st') < MAX_NODES - length (as_nodes st) \<or>
     MAX_NODES - length (as_nodes st') = MAX_NODES - length (as_nodes st) \<and> cost_sum st' < cost_sum st"

lemma progress_trans: "progress a b \<Longrightarrow> progress b c \<Longrightarrow> progress a c"
  unfolding progress_def by linarith

lemma find_key_range: "find_key i xy nds = Some k \<Longrightarrow> i \<le> k \<and> k < i + length nds \<and> node_key (nds ! (k - i)) = xy"
  by (induction nds arbitrary: i) (fastforce split: if_splits simp: nth_Cons')+

lemma getNodeByPosition_range: "getNodeByPosition v x y st = Some k \<Longrightarrow> k < length (as_nodes st)"
  by (auto simp: getNodeByPosition_def Let_def dest!: find_key_range split: simd.splits option.splits if_splits list.splits)

lemma cost_sum_less:
  assumes "k < length (as_nodes st)" "v < nd_f (as_nodes st ! k)"
  shows "progress (openNode k (st\<lparr>as_nodes := (as_nodes st)[k := (as_nodes st ! k)\<lparr>nd_f := v, nd_parent := p\<rparr>]\<rparr>)) st"
proof -
  have "sum_list (map nd_f ((as_nodes st)[k := (as_nodes st ! k)\<lparr>nd_f := v, nd_parent := p\<rparr>])) < sum_list (map nd_f (as_nodes st))"
  proof -
    have e: "as_nodes st = take k (as_nodes st) @ as_nodes st ! k # drop (Suc k) (as_nodes st)" using assms(1) by (rule id_take_nth_drop)
    have u: "(as_nodes st)[k := z] = take k (as_nodes st) @ z # drop (Suc k) (as_nodes st)" for z using assms(1) by (rule upd_conv_take_nth_drop)
    show ?thesis unfolding u by (subst (4) e) (use assms(2) in simp)
  qed
  then show ?thesis by (simp add: progress_def openNode_def cost_sum_def)
qed

text \<open>What the two changes of a node keep, the expansion keeps.\<close>

definition reached_cost :: "astar_node \<Rightarrow> int \<Rightarrow> int \<Rightarrow> nat" where
  "reached_cost nd dx dy = nd_f nd + getMapWalkCost (nd_x nd) (nd_y nd) (nd_x nd + word_of_int dx) (nd_y nd + word_of_int dy)"

lemma expand_keeps:
  assumes "expand sc n nd ds st = (st', full)" "P st"
    and cheaper: "\<And>st dx dy k newf. P st \<Longrightarrow> (dx, dy) \<in> set ds \<Longrightarrow>
      getNodeByPosition (pe_simd (sc_env sc)) (nd_x nd + word_of_int dx) (nd_y nd + word_of_int dy) st = Some k \<Longrightarrow>
      newf = reached_cost nd dx dy + nd_c (as_nodes st ! k) \<Longrightarrow> newf < nd_f (as_nodes st ! k) \<Longrightarrow>
      P (openNode k (st\<lparr>as_nodes := (as_nodes st)[k := (as_nodes st ! k)\<lparr>nd_f := newf, nd_parent := Some n\<rparr>]\<rparr>))"
    and created: "\<And>st dx dy c g st1. P st \<Longrightarrow> (dx, dy) \<in> set ds \<Longrightarrow>
      getNodeByPosition (pe_simd (sc_env sc)) (nd_x nd + word_of_int dx) (nd_y nd + word_of_int dy) st = None \<Longrightarrow>
      entry_cost (sc_env sc) (Pos (nd_x nd + word_of_int dx) (nd_y nd + word_of_int dy) (pos_z (sc_start sc))) = Some c \<Longrightarrow>
      g = heuristic sc (Pos (nd_x nd + word_of_int dx) (nd_y nd + word_of_int dy) (pos_z (sc_start sc))) \<Longrightarrow>
      createOpenNode n (nd_x nd + word_of_int dx) (nd_y nd + word_of_int dy) (reached_cost nd dx dy + c) g c st = Some st1 \<Longrightarrow> P st1"
  shows "P st'"
  using assms
proof (induction ds arbitrary: st)
  case (Cons d ds)
  obtain dx dy where d: "d = (dx, dy)" by (cases d)
  let ?x = "nd_x nd + word_of_int dx" and ?y = "nd_y nd + word_of_int dy"
  let ?pos = "Pos ?x ?y (pos_z (sc_start sc))"
  have rest: "P st'" if "expand sc n nd ds s = (st', full)" "P s" for s
    by (rule Cons.IH [OF that], rule Cons.prems(3), assumption, rule list.set_intros(2), assumption+,
        rule Cons.prems(4), assumption, rule list.set_intros(2), assumption+)
  note e = Cons.prems(1) [unfolded d expand.simps Let_def reached_cost_def [symmetric]]
  have in_ds: "(dx, dy) \<in> set (d # ds)" by (simp add: d)
  show ?case
  proof (cases "left_out sc ?pos")
    case True
    then show ?thesis using rest e Cons.prems(2) by simp
  next
    case False
    show ?thesis
    proof (cases "getNodeByPosition (pe_simd (sc_env sc)) ?x ?y st")
      case (Some k)
      show ?thesis
      proof (cases "nd_f (as_nodes st ! k) \<le> reached_cost nd dx dy + nd_c (as_nodes st ! k)")
        case True
        then show ?thesis using rest e Cons.prems(2) False Some by simp
      next
        case less: False
        note p = Cons.prems(3) [OF Cons.prems(2) in_ds Some refl]
        show ?thesis by (rule rest [OF _ p]) (use e False Some less in simp_all)
      qed
    next
      case None
      show ?thesis
      proof (cases "entry_cost (sc_env sc) ?pos")
        case none: None
        then show ?thesis using rest e Cons.prems(2) False None by simp
      next
        case (Some c)
        show ?thesis
        proof (cases "createOpenNode n ?x ?y (reached_cost nd dx dy + c) (heuristic sc ?pos) c st")
          case none: None
          then show ?thesis using e Cons.prems(2) False None Some by simp
        next
          case st: (Some st1)
          note p = Cons.prems(4) [OF Cons.prems(2) in_ds None Some refl st]
          show ?thesis by (rule rest [OF _ p]) (use e False None Some st in simp)
        qed
      qed
    qed
  qed
qed simp

lemma expand_progress:
  assumes "expand sc n nd ds st = (st', full)" shows "st' = st \<or> progress st' st"
proof (rule expand_keeps [OF assms, of "\<lambda>s. s = st \<or> progress s st"])
  show "st = st \<or> progress st st" by simp
next
  fix s dx dy k newf
  assume "s = st \<or> progress s st" "getNodeByPosition (pe_simd (sc_env sc)) (nd_x nd + word_of_int dx) (nd_y nd + word_of_int dy) s = Some k"
    "newf < nd_f (as_nodes s ! k)"
  then show "openNode k (s\<lparr>as_nodes := (as_nodes s)[k := (as_nodes s ! k)\<lparr>nd_f := newf, nd_parent := Some n\<rparr>]\<rparr>) = st \<or>
      progress (openNode k (s\<lparr>as_nodes := (as_nodes s)[k := (as_nodes s ! k)\<lparr>nd_f := newf, nd_parent := Some n\<rparr>]\<rparr>)) st"
    using cost_sum_less [of k s newf] getNodeByPosition_range progress_trans by blast
next
  fix s dx dy c g st1
  assume s: "s = st \<or> progress s st"
    and c: "createOpenNode n (nd_x nd + word_of_int dx) (nd_y nd + word_of_int dy) (reached_cost nd dx dy + c) g c s = Some st1"
  have "progress st1 s" using c by (auto simp: createOpenNode_def progress_def Let_def split: if_splits)
  then show "st1 = st \<or> progress st1 st" using s progress_trans by blast
qed


lemma plain_step_open:
  "fst (fold (plain_step st) ps b) = Some n \<Longrightarrow> fst b = Some n \<or> n < length (as_open st) \<and> as_open st ! n"
proof (induction ps arbitrary: b)
  case (Cons p ps)
  then have "fst (plain_step st p b) = Some n \<or> n < length (as_open st) \<and> as_open st ! n" by simp
  then show ?case by (auto simp: plain_step_def split: if_splits)
qed simp

lemma getBestNode_open: "getBestNode v st = Some n \<Longrightarrow> n < length (as_open st) \<and> as_open st ! n"
  using plain_step_open [of st _ "(None, MAX_COST)" n]
  by (auto simp: getBestNode_def best_plain_def best_lanes_def Let_def split: simd.splits if_splits)

lemma open_count_close:
  assumes "n < length (as_open st)" "as_open st ! n" shows "open_count (closeNode n st) < open_count st"
proof -
  have e: "as_open st = take n (as_open st) @ as_open st ! n # drop (Suc n) (as_open st)" using assms(1) by (rule id_take_nth_drop)
  have u: "(as_open st)[n := False] = take n (as_open st) @ False # drop (Suc n) (as_open st)" using assms(1) by (rule upd_conv_take_nth_drop)
  show ?thesis unfolding open_count_def closeNode_def by (simp add: u) (subst (3) e, use assms(2) in simp)
qed

termination path_loop
proof (relation "measures [\<lambda>(sc, found, bestMatch, st). MAX_NODES - length (as_nodes st), \<lambda>(sc, found, bestMatch, st). cost_sum st,
    \<lambda>(sc, found, bestMatch, st). open_count st]", goal_cases)
  case (2 sc found bestMatch st n nd pos p ok best found' r st' full st'')
  have e: "expand sc n nd (node_neighbors st n) st = (st', full)" using 2 by simp
  have o: "n < length (as_open st)" "as_open st ! n" using getBestNode_open [OF 2(1)] by simp_all
  have "st' = st \<or> progress st' st" by (rule expand_progress [OF e])
  moreover have "as_nodes st'' = as_nodes st'" using 2 by (simp add: closeNode_def)
  moreover have "cost_sum st'' = cost_sum st'" using calculation(2) by (simp add: cost_sum_def)
  moreover have "st' = st \<Longrightarrow> open_count st'' < open_count st" using open_count_close [OF o] 2 by simp
  ultimately show ?case unfolding progress_def by auto
qed simp

subsection \<open>The directions to walk\<close>

text \<open>The step that leads to a position from the one at the given offset before it; nothing is said of other offsets.\<close>

definition step_direction :: "int \<Rightarrow> int \<Rightarrow> direction list" where
  "step_direction dx dy =
    (if dx = 1 then [if dy = 1 then DIRECTION_NORTHWEST else if dy = -1 then DIRECTION_SOUTHWEST else DIRECTION_WEST]
     else if dx = -1 then [if dy = 1 then DIRECTION_NORTHEAST else if dy = -1 then DIRECTION_SOUTHEAST else DIRECTION_EAST]
     else if dy = 1 then [DIRECTION_NORTH] else if dy = -1 then [DIRECTION_SOUTH] else [])"

text \<open>Up the chain of parents: the last step comes first.  \<open>None\<close> when there are more parents than rounds.\<close>

fun build_dirs :: "nat \<Rightarrow> astar_node list \<Rightarrow> nat option \<Rightarrow> 16 word \<Rightarrow> 16 word \<Rightarrow> direction list option" where
  "build_dirs fuel nds None prevx prevy = Some []"
| "build_dirs 0 nds (Some i) prevx prevy = None"
| "build_dirs (Suc fuel) nds (Some i) prevx prevy = (let nd = nds ! i; dx = uint (nd_x nd) - uint prevx; dy = uint (nd_y nd) - uint prevy in
     map_option (\<lambda>ds. step_direction dx dy @ ds) (build_dirs fuel nds (nd_parent nd) (nd_x nd) (nd_y nd)))"

datatype search_result = Not_found | Found "direction list" | Endless

definition run_search :: "path_query \<Rightarrow> search_result" where
  "run_search sc = (let env = sc_env sc; start = sc_start sc;
     cost = (case pe_tiles env start of None \<Rightarrow> 0 | Some t \<Rightarrow> getTileWalkCost (pe_walker env) t) in
     case path_loop sc None 0 (new_astar (pos_x start) (pos_y start) cost) of None \<Rightarrow> Not_found
     | Some (i, st) \<Rightarrow> let nd = as_nodes st ! i in
         (case build_dirs (length (as_nodes st)) (as_nodes st) (nd_parent nd) (nd_x nd) (nd_y nd) of None \<Rightarrow> Endless | Some ds \<Rightarrow> Found ds))"

text \<open>Without a creature the position that is passed is the start.\<close>

definition getPathMatching :: "path_env \<Rightarrow> position \<Rightarrow> position \<Rightarrow> find_path_params \<Rightarrow> search_result" where
  "getPathMatching env pos condTarget fpp = run_search \<lparr>sc_env = env, sc_fpp = fpp, sc_cond = False,
     sc_start = (case pe_walker env of None \<Rightarrow> pos | Some w \<Rightarrow> wk_pos w), sc_target = condTarget,
     sc_toward = (case pe_walker env of None \<Rightarrow> condTarget | Some w \<Rightarrow> pos)\<rparr>"

definition getPathMatchingCond :: "path_env \<Rightarrow> walker \<Rightarrow> position \<Rightarrow> position \<Rightarrow> find_path_params \<Rightarrow> search_result" where
  "getPathMatchingCond env w targetPos condTarget fpp = run_search \<lparr>sc_env = env\<lparr>pe_walker := Some w\<rparr>, sc_fpp = fpp, sc_cond = True,
     sc_start = wk_pos w, sc_target = condTarget, sc_toward = targetPos\<rparr>"

definition getPathTo :: "path_env \<Rightarrow> walker \<Rightarrow> position \<Rightarrow> find_path_params \<Rightarrow> search_result" where
  "getPathTo env w targetPos fpp = (if fpp_maxSearchDist fpp \<noteq> 0 \<or> fpp_keepDistance fpp
     then getPathMatchingCond env w targetPos targetPos fpp
     else getPathMatching (env\<lparr>pe_walker := Some w\<rparr>) targetPos targetPos fpp)"

subsection \<open>The tree of nodes\<close>

text \<open>The first node is the start; every other one was reached from its parent by one step onto a tile that can be entered, at a
  cost above that of the parent; no two nodes have the same place.\<close>

definition child_ok :: "path_query \<Rightarrow> astar_node \<Rightarrow> astar_node \<Rightarrow> bool" where
  "child_ok sc nd pn \<longleftrightarrow> nd_f pn < nd_f nd \<and>
     (\<exists>(dx, dy)\<in>set allNeighbors. nd_x nd = nd_x pn + word_of_int dx \<and> nd_y nd = nd_y pn + word_of_int dy)"

definition tree_ok :: "path_query \<Rightarrow> astar_node list \<Rightarrow> bool" where
  "tree_ok sc nds \<longleftrightarrow> nds \<noteq> [] \<and> length nds \<le> MAX_NODES \<and> distinct (map (\<lambda>nd. (nd_x nd, nd_y nd)) nds) \<and>
     nd_parent (nds ! 0) = None \<and> nd_f (nds ! 0) = 0 \<and> node_pos sc (nds ! 0) = sc_start sc \<and>
     (\<forall>i. 0 < i \<and> i < length nds \<longrightarrow> (\<exists>p. nd_parent (nds ! i) = Some p \<and> p < length nds \<and> child_ok sc (nds ! i) (nds ! p) \<and>
        entry_cost (sc_env sc) (node_pos sc (nds ! i)) \<noteq> None))"

definition astar_ok :: "path_query \<Rightarrow> astar_nodes \<Rightarrow> bool" where
  "astar_ok sc st \<longleftrightarrow> tree_ok sc (as_nodes st) \<and> length (as_open st) = length (as_nodes st) \<and>
     (\<forall>i. as_calculated st i = (if i < length (as_nodes st) \<and> as_open st ! i then total_cost (as_nodes st ! i) else MAX_COST))"

lemma node_key_inject:
  "or (push_bit 16 (ucast x)) (ucast y) = (or (push_bit 16 (ucast x')) (ucast y') :: u32) \<longleftrightarrow> x = (x' :: 16 word) \<and> y = (y' :: 16 word)"
proof
  let ?k = "\<lambda>x y :: 16 word. or (push_bit 16 (ucast x)) (ucast y) :: u32"
  assume h: "?k x y = ?k x' y'"
  have bits: "bit (?k a b) n \<longleftrightarrow> (n < 16 \<and> bit b n) \<or> (16 \<le> n \<and> n < 32 \<and> bit a (n - 16))" for a b n
    by (auto simp: bit_simps dest: bit_imp_le_length)
  have "bit y n = bit y' n" if "n < 16" for n using bits [of x y n] bits [of x' y' n] that by (simp add: h)
  moreover have "bit x n = bit x' n" if "n < 16" for n using bits [of x y "n + 16"] bits [of x' y' "n + 16"] that by (simp add: h)
  ultimately show "x = x' \<and> y = y'" by (auto intro!: bit_word_eqI)
qed simp

lemma find_key_None: "find_key i xy nds = None \<longleftrightarrow> (\<forall>nd\<in>set nds. node_key nd \<noteq> xy)"
  by (induction nds arbitrary: i) auto

lemma getNode_Some:
  assumes "getNodeByPosition v x y st = Some k" shows "k < length (as_nodes st)" "nd_x (as_nodes st ! k) = x" "nd_y (as_nodes st ! k) = y"
proof -
  show "k < length (as_nodes st)" by (rule getNodeByPosition_range [OF assms])
  have "node_key (as_nodes st ! k) = or (push_bit 16 (ucast x)) (ucast y)"
    using assms by (auto simp: getNodeByPosition_def Let_def nth_Cons' dest!: find_key_range split: simd.splits option.splits if_splits list.splits)
  then show "nd_x (as_nodes st ! k) = x" "nd_y (as_nodes st ! k) = y" by (simp_all add: node_key_def node_key_inject)
qed

lemma getNode_None: "getNodeByPosition v x y st = None \<Longrightarrow> nd \<in> set (as_nodes st) \<Longrightarrow> (nd_x nd, nd_y nd) \<noteq> (x, y)"
  by (auto simp: getNodeByPosition_def Let_def find_key_None node_key_def node_key_inject split: simd.splits option.splits if_splits list.splits)

lemma node_neighbors_sub: "set (node_neighbors st n) \<subseteq> set allNeighbors"
proof -
  have "set (dirNeighbors d) \<subseteq> set allNeighbors" for d by (cases d) (auto simp: allNeighbors_def)
  then show ?thesis by (auto simp: node_neighbors_def Let_def split: option.splits)
qed

lemma neighbor_moves:
  assumes "(dx, dy) \<in> set allNeighbors" shows "((x :: 16 word) + word_of_int dx, (y :: 16 word) + word_of_int dy) \<noteq> (x, y)"
  using assms by (auto simp: allNeighbors_def)

lemma reached_cost_less: assumes "(dx, dy) \<in> set allNeighbors" shows "nd_f nd < reached_cost nd dx dy"
proof -
  let ?a = "\<bar>uint (nd_x nd) - uint (nd_x nd + word_of_int dx)\<bar>" and ?b = "\<bar>uint (nd_y nd) - uint (nd_y nd + word_of_int dy)\<bar>"
  have "nd_x nd \<noteq> nd_x nd + word_of_int dx \<or> nd_y nd \<noteq> nd_y nd + word_of_int dy"
    using neighbor_moves [OF assms, of "nd_x nd" "nd_y nd"] by (metis prod.inject)
  then have "0 < ?a \<or> 0 < ?b" unfolding word_uint_eq_iff by (metis eq_iff_diff_eq_0 zero_less_abs_iff)
  moreover have "0 \<le> ?a" "0 \<le> ?b" by (rule abs_ge_zero)+
  moreover have "0 < a \<or> 0 < b \<Longrightarrow> 0 \<le> a \<Longrightarrow> 0 \<le> b \<Longrightarrow> 0 < (a + b - 1) * 25 + 10" for a b :: int
    by presburger
  ultimately have "0 < (?a + ?b - 1) * 25 + 10" by blast
  then show ?thesis by (simp add: reached_cost_def getMapWalkCost_def)
qed

lemma tree_okD:
  assumes "tree_ok sc nds"
  shows "nds \<noteq> []" "length nds \<le> MAX_NODES" "distinct (map (\<lambda>nd. (nd_x nd, nd_y nd)) nds)" "nd_parent (nds ! 0) = None" "nd_f (nds ! 0) = 0"
    "node_pos sc (nds ! 0) = sc_start sc"
    "0 < i \<Longrightarrow> i < length nds \<Longrightarrow> \<exists>p. nd_parent (nds ! i) = Some p \<and> p < length nds \<and> child_ok sc (nds ! i) (nds ! p) \<and>
      entry_cost (sc_env sc) (node_pos sc (nds ! i)) \<noteq> None"
  using assms unfolding tree_ok_def by blast+

lemma tree_ok_cheaper:
  assumes ok: "tree_ok sc nds" and n: "n < length nds" and d: "(dx, dy) \<in> set allNeighbors"
    and k: "k < length nds" "nd_x (nds ! k) = nd_x (nds ! n) + word_of_int dx" "nd_y (nds ! k) = nd_y (nds ! n) + word_of_int dy"
    and f: "nd_f (nds ! n) < v" "v < nd_f (nds ! k)"
  shows "tree_ok sc (nds[k := (nds ! k)\<lparr>nd_f := v, nd_parent := Some n\<rparr>])" "k \<noteq> n"
proof -
  let ?nd = "(nds ! k)\<lparr>nd_f := v, nd_parent := Some n\<rparr>"
  note D = tree_okD [OF ok]
  have k0: "k \<noteq> 0" using f(2) D(5) by (cases "k = 0") simp_all
  show kn: "k \<noteq> n" using neighbor_moves [OF d, of "nd_x (nds ! n)" "nd_y (nds ! n)"] k(2,3) by auto
  have get: "nds[k := ?nd] ! i = (if i = k then ?nd else nds ! i)" if "i < length nds" for i using that by (auto simp: nth_list_update)
  have "map (\<lambda>nd. (nd_x nd, nd_y nd)) (nds[k := ?nd]) = map (\<lambda>nd. (nd_x nd, nd_y nd)) nds"
    unfolding map_update by (simp add: list_update_same_conv k(1))
  moreover have "\<exists>p. nd_parent (nds[k := ?nd] ! i) = Some p \<and> p < length nds \<and> child_ok sc (nds[k := ?nd] ! i) (nds[k := ?nd] ! p) \<and>
      entry_cost (sc_env sc) (node_pos sc (nds[k := ?nd] ! i)) \<noteq> None" if i: "0 < i" "i < length nds" for i
  proof (cases "i = k")
    case True
    have "child_ok sc ?nd (nds ! n)" using f(1) k(2,3) d by (auto simp: child_ok_def)
    moreover have "entry_cost (sc_env sc) (node_pos sc ?nd) \<noteq> None" using D(7) [OF i] True by (auto simp: node_pos_def)
    ultimately show ?thesis using True n k(1) kn by (auto simp: get)
  next
    case False
    obtain p where p: "nd_parent (nds ! i) = Some p" "p < length nds" "child_ok sc (nds ! i) (nds ! p)"
        "entry_cost (sc_env sc) (node_pos sc (nds ! i)) \<noteq> None" using D(7) [OF i] by blast
    have "child_ok sc (nds ! i) (nds[k := ?nd] ! p)" using p(2,3) f(2) by (auto simp: child_ok_def get)
    then show ?thesis using False p i by (auto simp: get)
  qed
  moreover have "nds[k := ?nd] ! 0 = nds ! 0" using k0 D(1) get [of 0] by simp
  ultimately show "tree_ok sc (nds[k := ?nd])" using D(1-6) unfolding tree_ok_def by simp
qed

lemma tree_ok_created:
  assumes ok: "tree_ok sc nds" and n: "n < length nds" and d: "(dx, dy) \<in> set allNeighbors" and room: "length nds < MAX_NODES"
    and nd: "nd = \<lparr>nd_parent = Some n, nd_f = v, nd_g = g, nd_c = c, nd_x = nd_x (nds ! n) + word_of_int dx, nd_y = nd_y (nds ! n) + word_of_int dy\<rparr>"
    and new: "\<And>m. m \<in> set nds \<Longrightarrow> (nd_x m, nd_y m) \<noteq> (nd_x nd, nd_y nd)"
    and f: "nd_f (nds ! n) < v" and e: "entry_cost (sc_env sc) (node_pos sc nd) \<noteq> None"
  shows "tree_ok sc (nds @ [nd])"
proof -
  note D = tree_okD [OF ok]
  have "\<exists>p. nd_parent ((nds @ [nd]) ! i) = Some p \<and> p < length (nds @ [nd]) \<and> child_ok sc ((nds @ [nd]) ! i) ((nds @ [nd]) ! p) \<and>
      entry_cost (sc_env sc) (node_pos sc ((nds @ [nd]) ! i)) \<noteq> None" if i: "0 < i" "i < length (nds @ [nd])" for i
  proof (cases "i = length nds")
    case True
    have "child_ok sc nd (nds ! n)" using f d by (auto simp: child_ok_def nd)
    then show ?thesis using True n e by (auto simp: nth_append nd)
  next
    case False
    then have "i < length nds" using i by simp
    with D(7) [OF i(1)] obtain p where "nd_parent (nds ! i) = Some p" "p < length nds" "child_ok sc (nds ! i) (nds ! p)"
        "entry_cost (sc_env sc) (node_pos sc (nds ! i)) \<noteq> None" by blast
    then show ?thesis using \<open>i < length nds\<close> by (auto simp: nth_append)
  qed
  moreover have "distinct (map (\<lambda>nd. (nd_x nd, nd_y nd)) (nds @ [nd]))" using D(3) new by fastforce
  moreover have "(nds @ [nd]) ! 0 = nds ! 0" using D(1) by (simp add: nth_append)
  ultimately show ?thesis using D(1,4-6) room unfolding tree_ok_def by simp
qed

lemma astar_ok_new: "astar_ok sc (new_astar (pos_x (sc_start sc)) (pos_y (sc_start sc)) c)"
  by (cases "sc_start sc") (auto simp: astar_ok_def tree_ok_def new_astar_def node_pos_def MAX_NODES_def total_cost_def)

lemma calculated_open:
  assumes "\<forall>i. as_calculated st i = (if i < length (as_nodes st) \<and> as_open st ! i then total_cost (as_nodes st ! i) else MAX_COST)"
    and "length (as_open st) = length (as_nodes st)" "k < length (as_nodes st)"
  shows "as_calculated (openNode k (st\<lparr>as_nodes := (as_nodes st)[k := nd]\<rparr>)) i =
    (if i < length (as_nodes st) \<and> (as_open st)[k := True] ! i then total_cost ((as_nodes st)[k := nd] ! i) else MAX_COST)"
  using assms by (cases "i = k") (simp_all add: openNode_def nth_list_update)

lemma astar_ok_expand:
  assumes e: "expand sc n nd ds st = (st', full)" and ds: "set ds \<subseteq> set allNeighbors"
    and ok: "astar_ok sc st" "n < length (as_nodes st)" "as_nodes st ! n = nd"
  shows "astar_ok sc st' \<and> n < length (as_nodes st') \<and> as_nodes st' ! n = nd"
proof (rule expand_keeps [OF e, of "\<lambda>s. astar_ok sc s \<and> n < length (as_nodes s) \<and> as_nodes s ! n = nd"])
  show "astar_ok sc st \<and> n < length (as_nodes st) \<and> as_nodes st ! n = nd" using ok by simp
next
  fix s :: astar_nodes and dx dy k newf
  let ?nds = "(as_nodes s)[k := (as_nodes s ! k)\<lparr>nd_f := newf, nd_parent := Some n\<rparr>]"
  assume s: "astar_ok sc s \<and> n < length (as_nodes s) \<and> as_nodes s ! n = nd" and d: "(dx, dy) \<in> set ds"
    and k: "getNodeByPosition (pe_simd (sc_env sc)) (nd_x nd + word_of_int dx) (nd_y nd + word_of_int dy) s = Some k"
    and f: "newf = reached_cost nd dx dy + nd_c (as_nodes s ! k)" "newf < nd_f (as_nodes s ! k)"
  have d': "(dx, dy) \<in> set allNeighbors" using d ds by blast
  have "nd_f (as_nodes s ! n) < newf" using s f(1) reached_cost_less [OF d', of nd] by simp
  then have t: "tree_ok sc ?nds" "k \<noteq> n"
    using tree_ok_cheaper [OF _ _ d' getNode_Some(1) [OF k], of sc n newf] s getNode_Some(2,3) [OF k] f(2) by (auto simp: astar_ok_def)
  have st: "as_nodes (openNode k (s\<lparr>as_nodes := ?nds\<rparr>)) = ?nds" "as_open (openNode k (s\<lparr>as_nodes := ?nds\<rparr>)) = (as_open s)[k := True]"
    by (simp_all add: openNode_def)
  have c: "\<forall>i. as_calculated (openNode k (s\<lparr>as_nodes := ?nds\<rparr>)) i =
    (if i < length (as_nodes s) \<and> (as_open s)[k := True] ! i then total_cost (?nds ! i) else MAX_COST)"
    using calculated_open [OF _ _ getNode_Some(1) [OF k]] s by (simp add: astar_ok_def)
  show "astar_ok sc (openNode k (s\<lparr>as_nodes := ?nds\<rparr>)) \<and> n < length (as_nodes (openNode k (s\<lparr>as_nodes := ?nds\<rparr>))) \<and>
      as_nodes (openNode k (s\<lparr>as_nodes := ?nds\<rparr>)) ! n = nd"
    using t s c unfolding astar_ok_def st by simp
next
  fix s st1 :: astar_nodes and dx dy c g
  assume s: "astar_ok sc s \<and> n < length (as_nodes s) \<and> as_nodes s ! n = nd" and d: "(dx, dy) \<in> set ds"
    and none: "getNodeByPosition (pe_simd (sc_env sc)) (nd_x nd + word_of_int dx) (nd_y nd + word_of_int dy) s = None"
    and e: "entry_cost (sc_env sc) (Pos (nd_x nd + word_of_int dx) (nd_y nd + word_of_int dy) (pos_z (sc_start sc))) = Some c"
    and st1: "createOpenNode n (nd_x nd + word_of_int dx) (nd_y nd + word_of_int dy) (reached_cost nd dx dy + c) g c s = Some st1"
  have d': "(dx, dy) \<in> set allNeighbors" using d ds by blast
  let ?nd = "\<lparr>nd_parent = Some n, nd_f = reached_cost nd dx dy + c, nd_g = g, nd_c = c, nd_x = nd_x nd + word_of_int dx, nd_y = nd_y nd + word_of_int dy\<rparr>"
  have room: "length (as_nodes s) < MAX_NODES" and e1: "st1 = s\<lparr>as_nodes := as_nodes s @ [?nd], as_open := as_open s @ [True],
      as_calculated := (as_calculated s)(length (as_nodes s) := int (reached_cost nd dx dy + c) + g)\<rparr>"
    using st1 by (auto simp: createOpenNode_def Let_def split: if_splits)
  have "tree_ok sc (as_nodes s @ [?nd])"
  proof (rule tree_ok_created [OF _ _ d' room, of _ n])
    show "tree_ok sc (as_nodes s)" "n < length (as_nodes s)" using s by (simp_all add: astar_ok_def)
    show "?nd = \<lparr>nd_parent = Some n, nd_f = reached_cost nd dx dy + c, nd_g = g, nd_c = c, nd_x = nd_x (as_nodes s ! n) + word_of_int dx,
        nd_y = nd_y (as_nodes s ! n) + word_of_int dy\<rparr>" using s by simp
    show "(nd_x m, nd_y m) \<noteq> (nd_x ?nd, nd_y ?nd)" if "m \<in> set (as_nodes s)" for m using getNode_None [OF none that] by simp
    show "nd_f (as_nodes s ! n) < reached_cost nd dx dy + c" using reached_cost_less [OF d', of nd] s by simp
    show "entry_cost (sc_env sc) (node_pos sc ?nd) \<noteq> None" using e by (simp add: node_pos_def)
  qed
  then show "astar_ok sc st1 \<and> n < length (as_nodes st1) \<and> as_nodes st1 ! n = nd"
    using s by (auto simp: astar_ok_def e1 nth_append total_cost_def less_Suc_eq)
qed

lemma astar_ok_close: "astar_ok sc st \<Longrightarrow> n < length (as_nodes st) \<Longrightarrow> astar_ok sc (closeNode n st)"
  by (auto simp: astar_ok_def closeNode_def nth_list_update)

text \<open>Nodes stay where they are.\<close>

definition same_places :: "astar_nodes \<Rightarrow> astar_nodes \<Rightarrow> bool" where
  "same_places st st' \<longleftrightarrow> length (as_nodes st) \<le> length (as_nodes st') \<and>
     (\<forall>j<length (as_nodes st). nd_x (as_nodes st' ! j) = nd_x (as_nodes st ! j) \<and> nd_y (as_nodes st' ! j) = nd_y (as_nodes st ! j))"

lemma expand_places:
  assumes "expand sc n nd ds st = (st', full)" shows "same_places st st'"
proof (rule expand_keeps [OF assms, of "same_places st"])
  show "same_places st st" by (simp add: same_places_def)
next
  fix s :: astar_nodes and dx dy k newf
  assume "same_places st s" "getNodeByPosition (pe_simd (sc_env sc)) (nd_x nd + word_of_int dx) (nd_y nd + word_of_int dy) s = Some k"
  then show "same_places st (openNode k (s\<lparr>as_nodes := (as_nodes s)[k := (as_nodes s ! k)\<lparr>nd_f := newf, nd_parent := Some n\<rparr>]\<rparr>))"
    using getNode_Some(1) by (auto simp: same_places_def openNode_def nth_list_update)
next
  fix s st1 :: astar_nodes and dx dy c g
  assume "same_places st s" "createOpenNode n (nd_x nd + word_of_int dx) (nd_y nd + word_of_int dy) (reached_cost nd dx dy + c) g c s = Some st1"
  then show "same_places st st1" by (auto simp: same_places_def createOpenNode_def Let_def nth_append split: if_splits)
qed

definition accepted :: "path_query \<Rightarrow> position \<Rightarrow> bool" where
  "accepted sc p \<longleftrightarrow> (\<exists>b b'. path_condition (pe_sight (sc_env sc)) (sc_target sc) (if sc_cond sc then sc_start sc else p) p (sc_fpp sc) b = (True, b'))"

definition found_ok :: "path_query \<Rightarrow> astar_nodes \<Rightarrow> nat option \<Rightarrow> bool" where
  "found_ok sc st found \<longleftrightarrow> (\<forall>j. found = Some j \<longrightarrow> j < length (as_nodes st) \<and> accepted sc (node_pos sc (as_nodes st ! j)))"

lemma found_ok_places:
  assumes "found_ok sc st found" "same_places st st'" shows "found_ok sc st' found"
proof -
  have "j < length (as_nodes st') \<and> node_pos sc (as_nodes st' ! j) = node_pos sc (as_nodes st ! j)" if "j < length (as_nodes st)" for j
    using assms(2) that by (auto simp: same_places_def node_pos_def)
  then show ?thesis using assms(1) by (auto simp: found_ok_def)
qed

lemma path_loop_ok:
  "path_loop sc found best st = Some (i, st') \<Longrightarrow> astar_ok sc st \<Longrightarrow> found_ok sc st found \<Longrightarrow>
    astar_ok sc st' \<and> i < length (as_nodes st') \<and> accepted sc (node_pos sc (as_nodes st' ! i))"
proof (induction sc found best st rule: path_loop.induct)
  case (1 sc found best st)
  show ?case
  proof (cases "getBestNode (pe_simd (sc_env sc)) st")
    case None
    then have "found = Some i" "st' = st" using 1(2) by (subst (asm) (1) path_loop.simps, auto)+
    then show ?thesis using 1(3,4) by (simp add: found_ok_def)
  next
    case (Some n)
    let ?nd = "as_nodes st ! n"
    let ?pos = "node_pos sc ?nd"
    have n: "n < length (as_nodes st)" using getBestNode_open [OF Some] 1(3) by (simp add: astar_ok_def)
    obtain ok best' where c: "path_condition (pe_sight (sc_env sc)) (sc_target sc) (if sc_cond sc then sc_start sc else ?pos) ?pos (sc_fpp sc) best = (ok, best')"
      by (metis prod.exhaust)
    let ?found = "if ok then Some n else found"
    have acc: "accepted sc ?pos" if "ok" unfolding accepted_def
      by (rule exI [of _ best], rule exI [of _ best'], simp only: c that)
    have f: "found_ok sc st ?found" using 1(4) n acc by (auto simp: found_ok_def)
    note loop = 1(2) [unfolded path_loop.simps [of sc found best st] Some option.case Let_def c prod.case]
    show ?thesis
    proof (cases "ok \<and> best' = 0")
      case True
      then show ?thesis using loop f 1(3) by (auto simp: found_ok_def)
    next
      case False
      obtain st1 full where e: "expand sc n ?nd (node_neighbors st n) st = (st1, full)" by (metis prod.exhaust)
      have ok1: "astar_ok sc st1" "n < length (as_nodes st1)"
        using astar_ok_expand [OF e node_neighbors_sub 1(3) n refl] by simp_all
      let ?st2 = "closeNode n st1"
      have ok2: "astar_ok sc ?st2" by (rule astar_ok_close [OF ok1])
      have "found_ok sc st1 ?found" by (rule found_ok_places [OF f expand_places [OF e]])
      then have f2: "found_ok sc ?st2 ?found" by (simp add: found_ok_def closeNode_def)
      note loop = loop [unfolded if_not_P [OF False] e prod.case]
      have nf: "\<not> (full \<and> ?found = None)" using loop by (metis option.distinct(1))
      note loop = loop [unfolded if_not_P [OF nf]]
      show ?thesis
      proof (cases "sc_cond sc \<and> fpp_maxSearchDist (sc_fpp sc) \<noteq> 0 \<or> as_closed ?st2 < 100")
        case True
        have rec: "path_loop sc ?found best' ?st2 = Some (i, st')" using loop unfolding if_P [OF True] .
        show ?thesis
          by (rule 1(1) [OF Some refl refl c [symmetric] refl refl False e [symmetric] refl nf refl True rec ok2 f2])
      next
        case False
        have "?found = Some i" "st' = ?st2" using loop unfolding if_not_P [OF False] by auto
        then show ?thesis using ok2 f2 by (simp add: found_ok_def)
      qed
    qed
  qed
qed

end
