(* ===== verification/PathSearch.thy ===== *)
theory PathSearch
  imports Pathfinding
begin

text \<open>
  What the path search of \<open>Map::getPathMatching\<close> and \<open>Map::getPathMatchingCond\<close> gives (\<open>map/map.cpp\<close>): the directions of a
  way that can be walked to a position the caller accepts, in a list that is always finite; and the node that
  \<open>AStarNodes::getBestNode\<close> chooses.
\<close>

subsection \<open>The directions lead to the position that was found\<close>

text \<open>Directions walked from a position, each step onto a position the search may enter.  The list of a search is walked from
  its end, as \<open>Creature::startAutoWalk\<close> does.\<close>

fun follows :: "path_env \<Rightarrow> position \<Rightarrow> direction list \<Rightarrow> position option" where
  "follows env p [] = Some p"
| "follows env p (d # ds) = (let q = getNextPosition d p in if entry_cost env q = None then None else follows env q ds)"

lemma follows_append: "follows env p (ds @ es) = Option.bind (follows env p ds) (\<lambda>q. follows env q es)"
  by (induction ds arbitrary: p) (auto simp: Let_def)

text \<open>Positions with a neighbour on every side.\<close>

definition inner :: "position \<Rightarrow> bool" where
  "inner p \<longleftrightarrow> 0 < uint (pos_x p) \<and> uint (pos_x p) < 65535 \<and> 0 < uint (pos_y p) \<and> uint (pos_y p) < 65535"

lemma word16_step:
  assumes "0 < uint x" "uint x < 65535" shows "uint ((x :: 16 word) - 1) = uint x - 1" "uint (x + 1) = uint x + 1"
  using assms by (simp_all add: uint_word_ariths)

lemma step_direction_leads:
  assumes "(dx, dy) \<in> set allNeighbors" "inner (Pos x y z)"
  shows "\<exists>d. step_direction (uint x - uint (x + word_of_int dx)) (uint y - uint (y + word_of_int dy)) = [d] \<and>
    getNextPosition d (Pos x y z) = Pos (x + word_of_int dx) (y + word_of_int dy) z"
proof -
  have "0 < uint x" "uint x < 65535" "0 < uint y" "uint y < 65535" using assms(2) by (simp_all add: inner_def)
  note w = word16_step [OF this(1,2)] word16_step [OF this(3,4)]
  show ?thesis using assms(1) by (auto simp: allNeighbors_def step_direction_def w)
qed

lemma step_direction_short: "length (step_direction dx dy) \<le> 1"
  by (simp add: step_direction_def)

text \<open>The nodes that are cheaper than the given one bound the length of the chain of its parents.\<close>

definition cheaper_nodes :: "astar_node list \<Rightarrow> nat \<Rightarrow> nat set" where
  "cheaper_nodes nds i = {j. j < length nds \<and> nd_f (nds ! j) < nd_f (nds ! i)}"

lemma cheaper_nodes_less: "p < length nds \<Longrightarrow> nd_f (nds ! p) < nd_f (nds ! i) \<Longrightarrow> card (cheaper_nodes nds p) < card (cheaper_nodes nds i)"
  by (rule psubset_card_mono) (auto simp: cheaper_nodes_def)

lemma cheaper_nodes_bound: "i < length nds \<Longrightarrow> card (cheaper_nodes nds i) < length nds"
  using psubset_card_mono [of "{..<length nds}" "cheaper_nodes nds i"] by (auto simp: cheaper_nodes_def)

definition inner_map :: "path_query \<Rightarrow> bool" where
  "inner_map sc \<longleftrightarrow> inner (sc_start sc) \<and> (\<forall>q. entry_cost (sc_env sc) q \<noteq> None \<longrightarrow> inner q)"

lemma build_dirs_ok:
  assumes t: "tree_ok sc nds"
  shows "i < length nds \<Longrightarrow> card (cheaper_nodes nds i) \<le> fuel \<Longrightarrow>
    \<exists>ds. build_dirs fuel nds (nd_parent (nds ! i)) (nd_x (nds ! i)) (nd_y (nds ! i)) = Some ds \<and> length ds \<le> card (cheaper_nodes nds i) \<and>
      (inner_map sc \<longrightarrow> follows (sc_env sc) (sc_start sc) (rev ds) = Some (node_pos sc (nds ! i)))"
proof (induction fuel arbitrary: i)
  note D = tree_okD [OF t]
  case (Suc fuel)
  show ?case
  proof (cases "i = 0")
    case True
    then show ?thesis using D(4,6) by simp
  next
    case False
    then obtain p where p: "nd_parent (nds ! i) = Some p" "p < length nds" "child_ok sc (nds ! i) (nds ! p)"
      "entry_cost (sc_env sc) (node_pos sc (nds ! i)) \<noteq> None" using D(7) [of i] Suc.prems(1) by blast
    obtain dx dy where d: "(dx, dy) \<in> set allNeighbors" "nd_x (nds ! i) = nd_x (nds ! p) + word_of_int dx"
      "nd_y (nds ! i) = nd_y (nds ! p) + word_of_int dy" using p(3) by (auto simp: child_ok_def)
    have less: "card (cheaper_nodes nds p) < card (cheaper_nodes nds i)"
      using cheaper_nodes_less [OF p(2)] p(3) by (simp add: child_ok_def)
    then have "card (cheaper_nodes nds p) \<le> fuel" using Suc.prems(2) by simp
    from Suc.IH [OF p(2) this] obtain ds where ds: "build_dirs fuel nds (nd_parent (nds ! p)) (nd_x (nds ! p)) (nd_y (nds ! p)) = Some ds"
      "length ds \<le> card (cheaper_nodes nds p)" "inner_map sc \<Longrightarrow> follows (sc_env sc) (sc_start sc) (rev ds) = Some (node_pos sc (nds ! p))" by blast
    have inner: "inner (node_pos sc (nds ! p))" if m: "inner_map sc"
    proof (cases "p = 0")
      case True
      then show ?thesis using D(6) m by (simp add: inner_map_def)
    next
      case False
      then show ?thesis using D(7) [of p] p(2) m by (auto simp: inner_map_def)
    qed
    have step: "follows (sc_env sc) (sc_start sc) (rev (step_direction (uint (nd_x (nds ! p)) - uint (nd_x (nds ! i)))
        (uint (nd_y (nds ! p)) - uint (nd_y (nds ! i))) @ ds)) = Some (node_pos sc (nds ! i))" if m: "inner_map sc"
    proof -
      from step_direction_leads [OF d(1) inner [OF m, unfolded node_pos_def]] obtain e where
      e: "step_direction (uint (nd_x (nds ! p)) - uint (nd_x (nds ! i))) (uint (nd_y (nds ! p)) - uint (nd_y (nds ! i))) = [e]"
        "getNextPosition e (node_pos sc (nds ! p)) = node_pos sc (nds ! i)" by (auto simp: d(2,3) node_pos_def)
      show ?thesis using ds(3) [OF m] e p(4) by (simp add: follows_append Let_def)
    qed
    have "length (step_direction dx dy @ ds) \<le> card (cheaper_nodes nds i)" for dx dy using step_direction_short [of dx dy] ds(2) less by simp
    then show ?thesis using ds(1) step by (simp add: p(1) Let_def)
  qed
next
  note D = tree_okD [OF t]
  case 0
  have "i = 0"
  proof (rule ccontr)
    assume "i \<noteq> 0"
    then obtain p where "p < length nds" "child_ok sc (nds ! i) (nds ! p)" using D(7) [of i] 0(1) by blast
    then show False using cheaper_nodes_less [of p nds i] 0(2) by (simp add: child_ok_def)
  qed
  then show ?case using D(4,6) by simp
qed

lemma run_search_result:
  "run_search sc \<noteq> Endless \<and> (\<forall>ds. run_search sc = Found ds \<longrightarrow> length ds < MAX_NODES \<and>
     (inner_map sc \<longrightarrow> (\<exists>e. follows (sc_env sc) (sc_start sc) (rev ds) = Some e \<and> accepted sc e)))"
proof -
  define st0 where "st0 = new_astar (pos_x (sc_start sc)) (pos_y (sc_start sc))
    (case pe_tiles (sc_env sc) (sc_start sc) of None \<Rightarrow> 0 | Some t \<Rightarrow> getTileWalkCost (pe_walker (sc_env sc)) t)"
  show ?thesis
  proof (cases "path_loop sc None 0 st0")
    case None
    then show ?thesis by (simp add: run_search_def st0_def)
  next
    case (Some r)
    obtain i st where r: "r = (i, st)" by (cases r)
    have ok: "tree_ok sc (as_nodes st)" "i < length (as_nodes st)" "accepted sc (node_pos sc (as_nodes st ! i))"
      using path_loop_ok [OF Some [unfolded r]] astar_ok_new by (auto simp: st0_def found_ok_def astar_ok_def)
    note bound = cheaper_nodes_bound [OF ok(2)]
    obtain ds where ds: "build_dirs (length (as_nodes st)) (as_nodes st) (nd_parent (as_nodes st ! i)) (nd_x (as_nodes st ! i)) (nd_y (as_nodes st ! i)) = Some ds"
      "length ds \<le> card (cheaper_nodes (as_nodes st) i)"
      "inner_map sc \<Longrightarrow> follows (sc_env sc) (sc_start sc) (rev ds) = Some (node_pos sc (as_nodes st ! i))"
      using build_dirs_ok [OF ok(1,2) less_imp_le [OF bound]] by blast
    have "length ds < MAX_NODES" using ds(2) bound tree_okD(2) [OF ok(1)] by linarith
    then show ?thesis using ds(1,3) ok(3) Some by (auto simp: run_search_def Let_def st0_def r)
  qed
qed

text \<open>What the condition has checked.\<close>

lemma path_condition_True:
  "path_condition m t s p fpp b = (True, b') \<Longrightarrow> isInRange t s p fpp \<and> (fpp_clearSight fpp \<longrightarrow> isSightClear m p t True) \<and>
     fpp_minTargetDist fpp \<le> getDiagonalDistance t p \<and> getDiagonalDistance t p \<le> fpp_maxTargetDist fpp"
  by (auto simp: path_condition_def Let_def getDiagonalDistance_def split: if_splits)

lemma accepted_place:
  "accepted sc p \<Longrightarrow> (fpp_clearSight (sc_fpp sc) \<longrightarrow> isSightClear (pe_sight (sc_env sc)) p (sc_target sc) True) \<and>
     fpp_minTargetDist (sc_fpp sc) \<le> getDiagonalDistance (sc_target sc) p \<and> getDiagonalDistance (sc_target sc) p \<le> fpp_maxTargetDist (sc_fpp sc)"
  unfolding accepted_def using path_condition_True by blast

lemma run_search_place:
  assumes "run_search sc = Found ds" "inner_map sc"
  shows "\<exists>e. follows (sc_env sc) (sc_start sc) (rev ds) = Some e \<and> (fpp_clearSight (sc_fpp sc) \<longrightarrow> isSightClear (pe_sight (sc_env sc)) e (sc_target sc) True) \<and>
     fpp_minTargetDist (sc_fpp sc) \<le> getDiagonalDistance (sc_target sc) e \<and> getDiagonalDistance (sc_target sc) e \<le> fpp_maxTargetDist (sc_fpp sc) \<and>
     length ds < MAX_NODES"
proof -
  note r = run_search_result [of sc]
  have n: "length ds < MAX_NODES" using r assms(1) by blast
  obtain e where "follows (sc_env sc) (sc_start sc) (rev ds) = Some e" "accepted sc e" using r assms by blast
  then show ?thesis using accepted_place [of sc e] n by blast
qed

text \<open>
  C33: A path that \<open>Creature::getPathTo\<close> returns can be walked: its directions, from the last of the list to the first, lead from
  the creature step by step over tiles it may enter to a position whose distance from the target is within the bounds that were
  asked for, and that has a clear line of sight to the target when one was asked for; there are fewer than 512 of them.
\<close>

theorem path_sound:
  assumes "getPathTo env w target fpp = Found ds" "inner (wk_pos w)" "\<And>q. entry_cost (env\<lparr>pe_walker := Some w\<rparr>) q \<noteq> None \<Longrightarrow> inner q"
  shows "\<exists>e. follows (env\<lparr>pe_walker := Some w\<rparr>) (wk_pos w) (rev ds) = Some e \<and> (fpp_clearSight fpp \<longrightarrow> isSightClear (pe_sight env) e target True) \<and>
    fpp_minTargetDist fpp \<le> getDiagonalDistance target e \<and> getDiagonalDistance target e \<le> fpp_maxTargetDist fpp \<and> length ds < MAX_NODES"
proof -
  obtain sc where sc: "run_search sc = Found ds" "sc_env sc = env\<lparr>pe_walker := Some w\<rparr>" "sc_start sc = wk_pos w" "sc_target sc = target" "sc_fpp sc = fpp"
  proof (cases "fpp_maxSearchDist fpp \<noteq> 0 \<or> fpp_keepDistance fpp")
    case True
    then show thesis using assms(1) by (intro that) (auto simp: getPathTo_def getPathMatchingCond_def)
  next
    case False
    then show thesis using assms(1) by (intro that) (auto simp: getPathTo_def getPathMatching_def)
  qed
  have "inner_map sc" using assms(2,3) by (simp add: inner_map_def sc(2,3))
  from run_search_place [OF sc(1) this] show ?thesis by (simp add: sc(2-5))
qed

text \<open>
  C34: The searches come to an end: the loop that looks at nodes stops, and so does the walk up the chain of parents that writes
  the directions, which has a node of smaller cost at each step.
\<close>

theorem path_search_ends:
  "getPathMatching env pos target fpp \<noteq> Endless \<and> getPathMatchingCond env w pos target fpp \<noteq> Endless"
  using run_search_result by (simp add: getPathMatching_def getPathMatchingCond_def)

text \<open>A wall is on the way.\<close>

definition corner_env :: path_env where
  "corner_env = \<lparr>pe_tiles = (\<lambda>p. if pos_z p = 7 \<and> 10 \<le> pos_x p \<and> pos_x p \<le> 13 \<and> 20 \<le> pos_y p \<and> pos_y p \<le> 21 \<and> \<not> (pos_x p = 11 \<and> pos_y p = 20)
       then Some \<lparr>ti_creature = False, ti_field = None\<rparr> else None),
     pe_walker = None, pe_sight = (\<lambda>_ _ _. None), pe_simd = Plain\<rparr>"

definition corner_walker :: walker where
  "corner_walker = \<lparr>wk_removed = False, wk_pos = Pos 10 20 7, wk_immune = (\<lambda>_. False), wk_hasCondition = (\<lambda>_. False), wk_canWalkOnField = None,
     wk_useCacheMap = False, wk_localMapCache = (\<lambda>_ _. False), wk_accepted = (\<lambda>_. True)\<rparr>"

definition next_to :: find_path_params where
  "next_to = \<lparr>fpp_fullPathSearch = True, fpp_clearSight = True, fpp_allowDiagonal = True, fpp_keepDistance = False, fpp_maxSearchDist = 0, fpp_minTargetDist = 1, fpp_maxTargetDist = 1\<rparr>"

lemma corner_path: "getPathTo corner_env corner_walker (Pos 13 20 7) next_to = Found [DIRECTION_EAST, DIRECTION_EAST, DIRECTION_SOUTH]"
  by code_simp

lemma entry_tile: "entry_cost env q \<noteq> None \<Longrightarrow> pe_tiles env q \<noteq> None"
  by (auto simp: entry_cost_def canWalkTo_def Let_def split: option.splits if_splits)

lemma corner_inner: "pe_tiles corner_env q \<noteq> None \<Longrightarrow> inner q"
proof -
  assume "pe_tiles corner_env q \<noteq> None"
  then have "10 \<le> pos_x q \<and> pos_x q \<le> 13 \<and> 20 \<le> pos_y q \<and> pos_y q \<le> 21" by (auto simp: corner_env_def split: if_splits)
  then show "inner q" by (auto simp: inner_def word_le_def)
qed

theorem path_sound_witness:
  "\<exists>e. follows (corner_env\<lparr>pe_walker := Some corner_walker\<rparr>) (Pos 10 20 7) [DIRECTION_SOUTH, DIRECTION_EAST, DIRECTION_EAST] = Some e \<and>
    isSightClear (\<lambda>_ _ _. None) e (Pos 13 20 7) True \<and> getDiagonalDistance (Pos 13 20 7) e = 1"
proof -
  have p: "wk_pos corner_walker = Pos 10 20 7" "pe_sight corner_env = (\<lambda>_ _ _. None)" by (simp_all add: corner_walker_def corner_env_def)
  have s: "inner (wk_pos corner_walker)" by (simp add: p inner_def)
  have t: "inner q" if "entry_cost (corner_env\<lparr>pe_walker := Some corner_walker\<rparr>) q \<noteq> None" for q
    using corner_inner entry_tile [OF that] by simp
  show ?thesis using path_sound [OF corner_path s t] by (auto simp: p next_to_def)
qed

subsection \<open>The best node\<close>

lemma least_index_least:
  "calc (least_index calc i ps) \<le> calc i \<and> (\<forall>p\<in>set ps. calc (least_index calc i ps) \<le> (calc p :: int))"
proof (induction ps arbitrary: i)
  case (Cons p ps)
  have "least_index calc i (p # ps) = least_index calc (if calc p < calc i then p else i) ps" by (simp add: least_index_def)
  moreover note Cons.IH [of "if calc p < calc i then p else i"]
  ultimately show ?case by (auto split: if_splits)
qed (simp add: least_index_def)

lemma lane_of:
  assumes "i < n" "0 < (lanes :: nat)" shows "i = i mod lanes \<or> i \<in> set (lane_indices lanes n (i mod lanes))"
proof (cases "i div lanes = 0")
  case True
  then have "i < lanes" using assms(2) by (simp add: div_eq_0_iff)
  then show ?thesis by simp
next
  case False
  have "Suc (i div lanes) * lanes \<le> i + lanes" by simp
  also have "\<dots> \<le> n + lanes - 1" using assms by linarith
  finally have "Suc (i div lanes) \<le> (n + lanes - 1) div lanes" using assms(2) less_eq_div_iff_mult_less_eq by blast
  then have "i div lanes \<in> set [1..<(n + lanes - 1) div lanes]" using False by simp
  then have "i div lanes * lanes + i mod lanes \<in> set (lane_indices lanes n (i mod lanes))" unfolding lane_indices_def set_map by (rule imageI)
  then show ?thesis by simp
qed

lemma best_lanes_least:
  assumes "0 < lanes" and best: "best = (let winners = map (\<lambda>l. least_index calc l (lane_indices lanes n l)) [0..<lanes] in
      least_index calc (hd winners) (tl winners))" and i: "i < n"
  shows "calc best \<le> (calc i :: int)"
proof -
  let ?w = "map (\<lambda>l. least_index calc l (lane_indices lanes n l)) [0..<lanes]"
  have "?w \<noteq> []" using assms(1) by simp
  then have w: "?w = hd ?w # tl ?w" by simp
  let ?l = "least_index calc (i mod lanes) (lane_indices lanes n (i mod lanes))"
  have "?l \<in> set ?w" using assms(1) by simp
  then have "?l \<in> set (hd ?w # tl ?w)" using w by metis
  then have "calc best \<le> calc ?l" using least_index_least [of calc "hd ?w" "tl ?w"] by (auto simp: best Let_def)
  also have "\<dots> \<le> calc i" using lane_of [OF i assms(1)] least_index_least [of calc "i mod lanes" "lane_indices lanes n (i mod lanes)"] by auto
  finally show ?thesis .
qed

text \<open>The loop without vectors.\<close>

lemma plain_fold:
  assumes "\<forall>nd\<in>set (as_nodes st). total_cost nd < MAX_COST" "length (as_open st) = length (as_nodes st)" "k \<le> length (as_nodes st)"
  shows "(case fold (plain_step st) [0..<k] (None, MAX_COST) of
      (None, c) \<Rightarrow> c = MAX_COST \<and> (\<forall>j<k. \<not> as_open st ! j)
    | (Some n, c) \<Rightarrow> n < k \<and> as_open st ! n \<and> c = total_cost (as_nodes st ! n) \<and> (\<forall>j<k. as_open st ! j \<longrightarrow> c \<le> total_cost (as_nodes st ! j)))"
  using assms(3)
proof (induction k)
  case (Suc k)
  then have k: "k < length (as_nodes st)" by simp
  then have "total_cost (as_nodes st ! k) < MAX_COST" using assms(1) nth_mem by blast
  then show ?case using Suc.IH k assms(2)
    by (auto simp: plain_step_def less_Suc_eq split: prod.splits option.splits if_splits)
qed simp

definition least_open :: "astar_nodes \<Rightarrow> nat option \<Rightarrow> bool" where
  "least_open st r \<longleftrightarrow> (case r of None \<Rightarrow> \<forall>j<length (as_nodes st). \<not> as_open st ! j
    | Some n \<Rightarrow> n < length (as_nodes st) \<and> as_open st ! n \<and>
        (\<forall>j<length (as_nodes st). as_open st ! j \<longrightarrow> total_cost (as_nodes st ! n) \<le> total_cost (as_nodes st ! j)))"

lemma best_plain_least:
  assumes "\<forall>nd\<in>set (as_nodes st). total_cost nd < MAX_COST" "length (as_open st) = length (as_nodes st)"
  shows "least_open st (best_plain st)"
  using plain_fold [OF assms order_refl] by (auto simp: best_plain_def least_open_def split: prod.splits option.splits)

lemma best_lanes_open:
  assumes ok: "astar_ok sc st" and c: "\<forall>nd\<in>set (as_nodes st). total_cost nd < MAX_COST" and l: "0 < lanes"
  shows "least_open st (best_lanes lanes st)"
proof -
  define best where "best = (let winners = map (\<lambda>l. least_index (as_calculated st) l (lane_indices lanes (length (as_nodes st)) l)) [0..<lanes] in
      least_index (as_calculated st) (hd winners) (tl winners))"
  have r: "best_lanes lanes st = (if best < length (as_open st) \<and> as_open st ! best then Some best else None)"
    by (simp add: best_lanes_def best_def Let_def)
  have len: "length (as_open st) = length (as_nodes st)" using ok by (simp add: astar_ok_def)
  have calc: "as_calculated st i = (if i < length (as_nodes st) \<and> as_open st ! i then total_cost (as_nodes st ! i) else MAX_COST)" for i
    using ok by (simp add: astar_ok_def)
  have least: "as_calculated st best \<le> total_cost (as_nodes st ! j)" if "j < length (as_nodes st)" "as_open st ! j" for j
    using best_lanes_least [OF l best_def that(1)] calc [of j] that by simp
  show ?thesis
  proof (cases "best < length (as_nodes st) \<and> as_open st ! best")
    case True
    then show ?thesis using least calc [of best] by (simp add: r len least_open_def)
  next
    case False
    then have top: "as_calculated st best = MAX_COST" by (simp only: calc if_False)
    have "\<not> as_open st ! j" if j: "j < length (as_nodes st)" for j
    proof
      assume "as_open st ! j"
      then have "MAX_COST \<le> total_cost (as_nodes st ! j)" using least [OF j] top by simp
      then show False using c nth_mem [OF j] by fastforce
    qed
    then show ?thesis using False by (simp add: r len least_open_def)
  qed
qed

text \<open>
  C35: Whatever vectors the machine has, \<open>AStarNodes::getBestNode\<close> gives an open node of least cost, and none only when no node
  is open: the search by lanes over the table of sums and the plain loop over the nodes do the same job.
\<close>

theorem best_node_least:
  assumes "astar_ok sc st" "\<forall>nd\<in>set (as_nodes st). total_cost nd < MAX_COST" "v \<noteq> Lanes 0"
  shows "least_open st (getBestNode v st)"
proof (cases v)
  case Plain
  then show ?thesis using best_plain_least assms(1,2) by (simp add: getBestNode_def astar_ok_def)
next
  case (Lanes l)
  then show ?thesis using best_lanes_open [OF assms(1,2)] assms(3) by (simp add: getBestNode_def)
qed

definition corner_search :: path_query where
  "corner_search = \<lparr>sc_env = corner_env\<lparr>pe_walker := Some corner_walker\<rparr>, sc_fpp = next_to, sc_cond = False, sc_start = Pos 10 20 7,
     sc_target = Pos 13 20 7, sc_toward = Pos 13 20 7\<rparr>"

definition corner_nodes :: astar_nodes where
  "corner_nodes = closeNode 0 (fst (expand corner_search 0 (as_nodes (new_astar 10 20 0) ! 0) allNeighbors (new_astar 10 20 0)))"

lemma corner_nodes_ok: "astar_ok corner_search corner_nodes"
proof -
  have s: "astar_ok corner_search (new_astar 10 20 0)" using astar_ok_new [of corner_search 0] by (simp add: corner_search_def)
  have n: "0 < length (as_nodes (new_astar 10 20 0))" by (simp add: new_astar_def)
  obtain st full where e: "expand corner_search 0 (as_nodes (new_astar 10 20 0) ! 0) allNeighbors (new_astar 10 20 0) = (st, full)" by (metis prod.exhaust)
  show ?thesis using astar_ok_expand [OF e subset_refl s n refl] astar_ok_close [of corner_search st 0] by (simp add: corner_nodes_def e)
qed

lemma corner_nodes_costs: "list_all (\<lambda>nd. total_cost nd < MAX_COST) (as_nodes corner_nodes)" "getBestNode (Lanes 8) corner_nodes = Some 1"
  by code_simp+

theorem best_node_least_witness: "least_open corner_nodes (Some 1) \<and> 1 < length (as_nodes corner_nodes)"
proof -
  have "least_open corner_nodes (Some 1)"
    using best_node_least [OF corner_nodes_ok, of "Lanes 8"] corner_nodes_costs by (simp add: list_all_iff)
  then show ?thesis by (simp add: least_open_def)
qed

subsection \<open>The start of the search\<close>

lemma isInRange_at_start:
  assumes "0 \<le> fpp_maxTargetDist fpp"
  shows "isInRange t p p (fpp\<lparr>fpp_fullPathSearch := b\<rparr>) = isInRange t p p (fpp\<lparr>fpp_fullPathSearch := True\<rparr>)"
  using assms by (cases b) (auto simp: isInRange_def Let_def getOffsetX_def getOffsetY_def)

lemma path_condition_at_start:
  assumes "0 \<le> fpp_maxTargetDist fpp"
  shows "path_condition m t p p (fpp\<lparr>fpp_fullPathSearch := b\<rparr>) best = path_condition m t p p (fpp\<lparr>fpp_fullPathSearch := True\<rparr>) best"
  unfolding path_condition_def isInRange_at_start [OF assms, of t p b] by (simp add: Let_def cong: if_cong)

lemma expand_full:
  assumes "\<not> sc_cond sc" shows "expand (sc\<lparr>sc_fpp := fpp\<rparr>) n nd ds st = expand sc n nd ds st"
  using assms by (induction sc n nd ds st rule: expand.induct)
    (simp_all add: left_out_def heuristic_def Let_def split: option.split)

text \<open>Two searches that differ in the flag only.\<close>

lemma path_loop_full:
  "\<not> sc_cond sc \<Longrightarrow> 0 \<le> fpp_maxTargetDist fpp \<Longrightarrow> sc_fpp sc = fpp\<lparr>fpp_fullPathSearch := True\<rparr> \<Longrightarrow>
    path_loop (sc\<lparr>sc_fpp := fpp\<lparr>fpp_fullPathSearch := b\<rparr>\<rparr>) found best st = path_loop sc found best st"
proof (induction sc found best st rule: path_loop.induct)
  case (1 sc found best st)
  let ?sc = "sc\<lparr>sc_fpp := fpp\<lparr>fpp_fullPathSearch := b\<rparr>\<rparr>"
  note loops = path_loop.simps [of ?sc found best st] path_loop.simps [of sc found best st]
  show ?case
  proof (cases "getBestNode (pe_simd (sc_env sc)) st")
    case None
    then show ?thesis unfolding loops by simp
  next
    case (Some n)
    let ?nd = "as_nodes st ! n"
    let ?pos = "node_pos sc ?nd"
    obtain ok best' where c0: "path_condition (pe_sight (sc_env sc)) (sc_target sc) ?pos ?pos (fpp\<lparr>fpp_fullPathSearch := True\<rparr>) best = (ok, best')"
      by (metis prod.exhaust)
    have c1: "path_condition (pe_sight (sc_env sc)) (sc_target sc) ?pos ?pos (fpp\<lparr>fpp_fullPathSearch := b\<rparr>) best = (ok, best')"
      by (rule trans [OF path_condition_at_start [OF 1(3)] c0])
    have c: "path_condition (pe_sight (sc_env sc)) (sc_target sc) (if sc_cond sc then sc_start sc else ?pos) ?pos (sc_fpp sc) best = (ok, best')"
      using c0 1(2,4) by simp
    have np: "node_pos ?sc ?nd = ?pos" by (simp add: node_pos_def)
    let ?found = "if ok then Some n else found"
    obtain st1 full where e: "expand sc n ?nd (node_neighbors st n) st = (st1, full)" by (metis prod.exhaust)
    note vals = Some e 1(2) 1(4) c0 c1 np expand_full [OF 1(2)]
    show ?thesis
    proof (cases "ok \<and> best' = 0")
      case True
      then show ?thesis unfolding loops by (simp add: vals)
    next
      case go: False
      show ?thesis
      proof (cases "full \<and> ?found = None")
        case True
        then show ?thesis unfolding loops using go by (auto simp: vals Let_def simp del: path_loop.simps)
      next
        case nf: False
        show ?thesis
        proof (cases "as_closed (closeNode n st1) < 100")
          case True
          then have more: "sc_cond sc \<and> fpp_maxSearchDist (sc_fpp sc) \<noteq> 0 \<or> as_closed (closeNode n st1) < 100" by simp
          note rec = 1(1) [OF Some refl refl c [symmetric] refl refl go e [symmetric] refl nf refl more 1(2-4)]
          show ?thesis unfolding loops using go nf True rec by (auto simp: vals Let_def simp del: path_loop.simps)
        next
          case False
          then show ?thesis unfolding loops using go nf by (auto simp: vals Let_def simp del: path_loop.simps)
        qed
      qed
    qed
  qed
qed

lemma run_search_full:
  assumes "\<not> sc_cond sc" "0 \<le> fpp_maxTargetDist fpp" "sc_fpp sc = fpp\<lparr>fpp_fullPathSearch := True\<rparr>"
  shows "run_search (sc\<lparr>sc_fpp := fpp\<lparr>fpp_fullPathSearch := b\<rparr>\<rparr>) = run_search sc"
  using path_loop_full [OF assms] by (simp add: run_search_def)

text \<open>
  C36: In \<open>Map::getPathMatching\<close> the flag \<open>fullPathSearch\<close> has no effect: the start that is handed to the condition is a
  reference to the position that is being looked at, so the search never keeps to the side of the target that the creature
  comes from.
\<close>

theorem full_search_always:
  assumes "0 \<le> fpp_maxTargetDist fpp"
  shows "getPathMatching env pos target (fpp\<lparr>fpp_fullPathSearch := False\<rparr>) = getPathMatching env pos target (fpp\<lparr>fpp_fullPathSearch := True\<rparr>)"
proof -
  let ?sc = "\<lparr>sc_env = env, sc_fpp = fpp\<lparr>fpp_fullPathSearch := True\<rparr>, sc_cond = False,
     sc_start = (case pe_walker env of None \<Rightarrow> pos | Some w \<Rightarrow> wk_pos w), sc_target = target,
     sc_toward = (case pe_walker env of None \<Rightarrow> target | Some w \<Rightarrow> pos)\<rparr>"
  have "run_search (?sc\<lparr>sc_fpp := fpp\<lparr>fpp_fullPathSearch := False\<rparr>\<rparr>) = run_search ?sc"
    by (rule run_search_full) (use assms in simp_all)
  then show ?thesis by (simp add: getPathMatching_def)
qed

text \<open>Two steps from the wall, on its other side: \<open>getPathMatchingCond\<close>, which copies the start, heeds the flag.\<close>

definition behind :: find_path_params where
  "behind = \<lparr>fpp_fullPathSearch = False, fpp_clearSight = False, fpp_allowDiagonal = True, fpp_keepDistance = False, fpp_maxSearchDist = 0, fpp_minTargetDist = 2, fpp_maxTargetDist = 2\<rparr>"

lemma behind_cond: "getPathMatchingCond corner_env corner_walker (Pos 11 20 7) (Pos 11 20 7) behind = Not_found"
  by code_simp

lemma behind_full: "getPathMatching (corner_env\<lparr>pe_walker := Some corner_walker\<rparr>) (Pos 11 20 7) (Pos 11 20 7) (behind\<lparr>fpp_fullPathSearch := True\<rparr>) =
    Found [DIRECTION_EAST, DIRECTION_EAST, DIRECTION_EAST, DIRECTION_SOUTH]"
  by code_simp

theorem full_search_always_witness:
  "getPathMatching (corner_env\<lparr>pe_walker := Some corner_walker\<rparr>) (Pos 11 20 7) (Pos 11 20 7) behind =
     Found [DIRECTION_EAST, DIRECTION_EAST, DIRECTION_EAST, DIRECTION_SOUTH] \<and>
   getPathMatchingCond corner_env corner_walker (Pos 11 20 7) (Pos 11 20 7) behind = Not_found"
proof -
  have "0 \<le> fpp_maxTargetDist behind" "behind\<lparr>fpp_fullPathSearch := False\<rparr> = behind" by (simp_all add: behind_def)
  then show ?thesis using full_search_always [of behind "corner_env\<lparr>pe_walker := Some corner_walker\<rparr>"] behind_full behind_cond by simp
qed

end
