(* ===== verification/Condition.thy ===== *)
theory Condition
  imports Prelude Otb Position
begin

text \<open>
  Conditions of creatures, the data and how it is saved: \<open>creatures/combat/condition.hpp\<close>, the factories and the serialization of
  \<open>creatures/combat/condition.cpp\<close> with \<open>PropStream\<close> of \<open>Otb\<close>, and the lists of conditions that
  \<open>io/functions/iologindata_save_player.cpp\<close> writes and \<open>iologindata_load_player.cpp\<close> reads.  The subclasses are the variants
  of \<open>cond_part\<close>.  Signed 32-bit fields are integers, a \<open>float\<close> is its 32 bits.
\<close>

type_synonym byte_list = "u8 list"

subsection \<open>Kinds of conditions\<close>

definition CONDITION_NONE :: u8 where "CONDITION_NONE = 0"
definition CONDITION_POISON :: u8 where "CONDITION_POISON = 1"
definition CONDITION_FIRE :: u8 where "CONDITION_FIRE = 2"
definition CONDITION_ENERGY :: u8 where "CONDITION_ENERGY = 3"
definition CONDITION_BLEEDING :: u8 where "CONDITION_BLEEDING = 4"
definition CONDITION_HASTE :: u8 where "CONDITION_HASTE = 5"
definition CONDITION_PARALYZE :: u8 where "CONDITION_PARALYZE = 6"
definition CONDITION_OUTFIT :: u8 where "CONDITION_OUTFIT = 7"
definition CONDITION_INVISIBLE :: u8 where "CONDITION_INVISIBLE = 8"
definition CONDITION_LIGHT :: u8 where "CONDITION_LIGHT = 9"
definition CONDITION_MANASHIELD :: u8 where "CONDITION_MANASHIELD = 10"
definition CONDITION_INFIGHT :: u8 where "CONDITION_INFIGHT = 11"
definition CONDITION_DRUNK :: u8 where "CONDITION_DRUNK = 12"
definition CONDITION_EXHAUST :: u8 where "CONDITION_EXHAUST = 13"
definition CONDITION_REGENERATION :: u8 where "CONDITION_REGENERATION = 14"
definition CONDITION_SOUL :: u8 where "CONDITION_SOUL = 15"
definition CONDITION_DROWN :: u8 where "CONDITION_DROWN = 16"
definition CONDITION_MUTED :: u8 where "CONDITION_MUTED = 17"
definition CONDITION_CHANNELMUTEDTICKS :: u8 where "CONDITION_CHANNELMUTEDTICKS = 18"
definition CONDITION_YELLTICKS :: u8 where "CONDITION_YELLTICKS = 19"
definition CONDITION_ATTRIBUTES :: u8 where "CONDITION_ATTRIBUTES = 20"
definition CONDITION_FREEZING :: u8 where "CONDITION_FREEZING = 21"
definition CONDITION_DAZZLED :: u8 where "CONDITION_DAZZLED = 22"
definition CONDITION_CURSED :: u8 where "CONDITION_CURSED = 23"
definition CONDITION_EXHAUST_COMBAT :: u8 where "CONDITION_EXHAUST_COMBAT = 24"
definition CONDITION_EXHAUST_HEAL :: u8 where "CONDITION_EXHAUST_HEAL = 25"
definition CONDITION_PACIFIED :: u8 where "CONDITION_PACIFIED = 26"
definition CONDITION_SPELLCOOLDOWN :: u8 where "CONDITION_SPELLCOOLDOWN = 27"
definition CONDITION_SPELLGROUPCOOLDOWN :: u8 where "CONDITION_SPELLGROUPCOOLDOWN = 28"
definition CONDITION_ROOTED :: u8 where "CONDITION_ROOTED = 29"
definition CONDITION_FEARED :: u8 where "CONDITION_FEARED = 30"
definition CONDITION_BAKRAGORE :: u8 where "CONDITION_BAKRAGORE = 39"

lemmas condition_type_defs =
  CONDITION_NONE_def CONDITION_POISON_def CONDITION_FIRE_def CONDITION_ENERGY_def CONDITION_BLEEDING_def CONDITION_HASTE_def CONDITION_PARALYZE_def
  CONDITION_OUTFIT_def CONDITION_INVISIBLE_def CONDITION_LIGHT_def CONDITION_MANASHIELD_def CONDITION_INFIGHT_def CONDITION_DRUNK_def
  CONDITION_EXHAUST_def CONDITION_REGENERATION_def CONDITION_SOUL_def CONDITION_DROWN_def CONDITION_MUTED_def CONDITION_CHANNELMUTEDTICKS_def
  CONDITION_YELLTICKS_def CONDITION_ATTRIBUTES_def CONDITION_FREEZING_def CONDITION_DAZZLED_def CONDITION_CURSED_def CONDITION_EXHAUST_COMBAT_def
  CONDITION_EXHAUST_HEAL_def CONDITION_PACIFIED_def CONDITION_SPELLCOOLDOWN_def CONDITION_SPELLGROUPCOOLDOWN_def CONDITION_ROOTED_def
  CONDITION_FEARED_def CONDITION_BAKRAGORE_def

definition CONDITIONID_DEFAULT :: u8 where "CONDITIONID_DEFAULT = 255"
definition CONDITIONID_COMBAT :: u8 where "CONDITIONID_COMBAT = 0"

definition COMBAT_COUNT :: nat where "COMBAT_COUNT = 14"
definition SKILL_COUNT :: nat where "SKILL_COUNT = 13"
definition STAT_COUNT :: nat where "STAT_COUNT = 5"
definition BUFF_COUNT :: nat where "BUFF_COUNT = 3"

subsection \<open>The subclasses\<close>

record attributes_part =
  at_skills :: "int list"
  at_skillsPercent :: "int list"
  at_stats :: "int list"
  at_statsPercent :: "int list"
  at_buffsPercent :: "int list"
  at_buffs :: "int list"
  at_currentSkill :: nat
  at_currentStat :: nat
  at_currentBuff :: nat
  at_charmChanceModifier :: int
  at_absorbs :: "int list"
  at_absorbsPercent :: "int list"
  at_increases :: "int list"
  at_increasesPercent :: "int list"
  at_disableDefense :: bool

record regeneration_part =
  rg_internalHealthTicks :: u32
  rg_internalManaTicks :: u32
  rg_healthTicks :: u32
  rg_manaTicks :: u32
  rg_healthGain :: u32
  rg_manaGain :: u32

record soul_part =
  so_internalSoulTicks :: u32
  so_soulTicks :: u32
  so_soulGain :: u32

record interval_info =
  ii_timeLeft :: int
  ii_value :: int
  ii_interval :: int

record damage_part =
  dm_maxDamage :: int
  dm_minDamage :: int
  dm_startDamage :: int
  dm_periodDamage :: int
  dm_periodDamageTick :: int
  dm_tickInterval :: int
  dm_forceUpdate :: bool
  dm_delayed :: bool
  dm_field :: bool
  dm_owner :: u32
  dm_damageList :: "interval_info list"

record speed_part =
  sp_speedDelta :: int
  sp_mina :: u32
  sp_minb :: u32
  sp_maxa :: u32
  sp_maxb :: u32

record outfit =
  of_lookType :: "16 word"
  of_lookTypeEx :: "16 word"
  of_lookMount :: "16 word"
  of_lookHead :: u8
  of_lookBody :: u8
  of_lookLegs :: u8
  of_lookFeet :: u8
  of_lookAddons :: u8
  of_lookMountHead :: u8
  of_lookMountBody :: u8
  of_lookMountLegs :: u8
  of_lookMountFeet :: u8
  of_lookFamiliarsType :: "16 word"

record light_part =
  li_level :: u8
  li_color :: u8
  li_internalLightTicks :: u32
  li_lightChangeInterval :: u32

datatype cond_part = Part_Generic | Part_Attributes attributes_part | Part_Regeneration regeneration_part | Part_ManaShield u32
  | Part_Soul soul_part | Part_Invisible | Part_Damage damage_part | Part_Feared position u8 | Part_Speed speed_part
  | Part_Outfit outfit byte_list | Part_Light light_part | Part_SpellCooldown | Part_SpellGroupCooldown

text \<open>The class \<open>Condition\<close>; the number is a signed byte.\<close>

record cond =
  co_drainBodyStage :: u8
  co_endTime :: int
  co_subId :: u32
  co_ticks :: int
  co_type :: u8
  co_id :: u8
  co_isBuff :: bool
  co_isPersistent :: bool
  co_tickSound :: "16 word"
  co_addSound :: "16 word"
  co_part :: cond_part

definition new_attributes :: attributes_part where
  "new_attributes = \<lparr>at_skills = replicate SKILL_COUNT 0, at_skillsPercent = replicate SKILL_COUNT 0, at_stats = replicate STAT_COUNT 0,
     at_statsPercent = replicate STAT_COUNT 0, at_buffsPercent = replicate BUFF_COUNT 0, at_buffs = replicate BUFF_COUNT 0,
     at_currentSkill = 0, at_currentStat = 0, at_currentBuff = 0, at_charmChanceModifier = 0, at_absorbs = replicate COMBAT_COUNT 0,
     at_absorbsPercent = replicate COMBAT_COUNT 0, at_increases = replicate COMBAT_COUNT 0, at_increasesPercent = replicate COMBAT_COUNT 0,
     at_disableDefense = False\<rparr>"

definition new_regeneration :: regeneration_part where
  "new_regeneration = \<lparr>rg_internalHealthTicks = 0, rg_internalManaTicks = 0, rg_healthTicks = 1000, rg_manaTicks = 1000, rg_healthGain = 0, rg_manaGain = 0\<rparr>"

definition new_soul :: soul_part where
  "new_soul = \<lparr>so_internalSoulTicks = 0, so_soulTicks = 0, so_soulGain = 0\<rparr>"

definition new_damage :: damage_part where
  "new_damage = \<lparr>dm_maxDamage = 0, dm_minDamage = 0, dm_startDamage = 0, dm_periodDamage = 0, dm_periodDamageTick = 0, dm_tickInterval = 2000,
     dm_forceUpdate = False, dm_delayed = False, dm_field = False, dm_owner = 0, dm_damageList = []\<rparr>"

definition new_speed :: "int \<Rightarrow> speed_part" where
  "new_speed changeSpeed = \<lparr>sp_speedDelta = changeSpeed, sp_mina = 0, sp_minb = 0, sp_maxa = 0, sp_maxb = 0\<rparr>"

definition new_outfit :: outfit where
  "new_outfit = \<lparr>of_lookType = 0, of_lookTypeEx = 0, of_lookMount = 0, of_lookHead = 0, of_lookBody = 0, of_lookLegs = 0, of_lookFeet = 0,
     of_lookAddons = 0, of_lookMountHead = 0, of_lookMountBody = 0, of_lookMountLegs = 0, of_lookMountFeet = 0, of_lookFamiliarsType = 0\<rparr>"

definition new_light :: "u8 \<Rightarrow> u8 \<Rightarrow> light_part" where
  "new_light level color = \<lparr>li_level = level, li_color = color, li_internalLightTicks = 0, li_lightChangeInterval = 0\<rparr>"

text \<open>The constructor of the base class; a condition of ticks \<open>-1\<close> never ends.\<close>

definition INT64_MAX :: int where "INT64_MAX = 9223372036854775807"

definition new_cond :: "cond_part \<Rightarrow> u8 \<Rightarrow> u8 \<Rightarrow> int \<Rightarrow> bool \<Rightarrow> u32 \<Rightarrow> bool \<Rightarrow> cond" where
  "new_cond part i type ticks buff subId persistent = \<lparr>co_drainBodyStage = 0, co_endTime = (if ticks = -1 then INT64_MAX else 0), co_subId = subId,
     co_ticks = ticks, co_type = type, co_id = i, co_isBuff = buff, co_isPersistent = persistent, co_tickSound = 0, co_addSound = 0, co_part = part\<rparr>"

definition createCondition :: "u8 \<Rightarrow> u8 \<Rightarrow> int \<Rightarrow> u32 \<Rightarrow> bool \<Rightarrow> u32 \<Rightarrow> bool \<Rightarrow> cond option" where
  "createCondition i type ticks param buff subId persistent =
    (let make = (\<lambda>part. Some (new_cond part i type ticks buff subId False)) in
     if type \<in> {CONDITION_POISON, CONDITION_FIRE, CONDITION_ENERGY, CONDITION_DROWN, CONDITION_FREEZING, CONDITION_DAZZLED, CONDITION_CURSED, CONDITION_BLEEDING}
       then Some (new_cond (Part_Damage new_damage) i type 0 buff subId False)
     else if type \<in> {CONDITION_HASTE, CONDITION_PARALYZE} then make (Part_Speed (new_speed (sint param)))
     else if type = CONDITION_INVISIBLE then make Part_Invisible
     else if type = CONDITION_OUTFIT then make (Part_Outfit new_outfit [])
     else if type = CONDITION_LIGHT then make (Part_Light (new_light (ucast (and param 0xFF)) (ucast (drop_bit 8 (and param 0xFF00)))))
     else if type = CONDITION_REGENERATION then make (Part_Regeneration new_regeneration)
     else if type = CONDITION_SOUL then make (Part_Soul new_soul)
     else if type = CONDITION_ATTRIBUTES then make (Part_Attributes new_attributes)
     else if type = CONDITION_SPELLCOOLDOWN then make Part_SpellCooldown
     else if type = CONDITION_SPELLGROUPCOOLDOWN then make Part_SpellGroupCooldown
     else if type = CONDITION_MANASHIELD then make (Part_ManaShield 0)
     else if type = CONDITION_FEARED then make (Part_Feared (Pos 0 0 0) 99)
     else if type \<in> {CONDITION_ROOTED, CONDITION_INFIGHT, CONDITION_DRUNK, CONDITION_EXHAUST, CONDITION_EXHAUST_COMBAT, CONDITION_EXHAUST_HEAL,
         CONDITION_MUTED, CONDITION_CHANNELMUTEDTICKS, CONDITION_YELLTICKS, CONDITION_PACIFIED} then make Part_Generic
     else if type = CONDITION_BAKRAGORE then Some (new_cond Part_Generic i type ticks buff subId persistent)
     else None)"

subsection \<open>Writing\<close>

definition CONDITIONATTR_TYPE :: nat where "CONDITIONATTR_TYPE = 1"
definition CONDITIONATTR_ID :: nat where "CONDITIONATTR_ID = 2"
definition CONDITIONATTR_TICKS :: nat where "CONDITIONATTR_TICKS = 3"
definition CONDITIONATTR_HEALTHTICKS :: nat where "CONDITIONATTR_HEALTHTICKS = 4"
definition CONDITIONATTR_HEALTHGAIN :: nat where "CONDITIONATTR_HEALTHGAIN = 5"
definition CONDITIONATTR_MANATICKS :: nat where "CONDITIONATTR_MANATICKS = 6"
definition CONDITIONATTR_MANAGAIN :: nat where "CONDITIONATTR_MANAGAIN = 7"
definition CONDITIONATTR_DELAYED :: nat where "CONDITIONATTR_DELAYED = 8"
definition CONDITIONATTR_OWNER :: nat where "CONDITIONATTR_OWNER = 9"
definition CONDITIONATTR_INTERVALDATA :: nat where "CONDITIONATTR_INTERVALDATA = 10"
definition CONDITIONATTR_SPEEDDELTA :: nat where "CONDITIONATTR_SPEEDDELTA = 11"
definition CONDITIONATTR_FORMULA_MINA :: nat where "CONDITIONATTR_FORMULA_MINA = 12"
definition CONDITIONATTR_FORMULA_MINB :: nat where "CONDITIONATTR_FORMULA_MINB = 13"
definition CONDITIONATTR_FORMULA_MAXA :: nat where "CONDITIONATTR_FORMULA_MAXA = 14"
definition CONDITIONATTR_FORMULA_MAXB :: nat where "CONDITIONATTR_FORMULA_MAXB = 15"
definition CONDITIONATTR_LIGHTCOLOR :: nat where "CONDITIONATTR_LIGHTCOLOR = 16"
definition CONDITIONATTR_LIGHTLEVEL :: nat where "CONDITIONATTR_LIGHTLEVEL = 17"
definition CONDITIONATTR_LIGHTTICKS :: nat where "CONDITIONATTR_LIGHTTICKS = 18"
definition CONDITIONATTR_LIGHTINTERVAL :: nat where "CONDITIONATTR_LIGHTINTERVAL = 19"
definition CONDITIONATTR_SOULTICKS :: nat where "CONDITIONATTR_SOULTICKS = 20"
definition CONDITIONATTR_SOULGAIN :: nat where "CONDITIONATTR_SOULGAIN = 21"
definition CONDITIONATTR_SKILLS :: nat where "CONDITIONATTR_SKILLS = 22"
definition CONDITIONATTR_STATS :: nat where "CONDITIONATTR_STATS = 23"
definition CONDITIONATTR_BUFFS :: nat where "CONDITIONATTR_BUFFS = 24"
definition CONDITIONATTR_OUTFIT :: nat where "CONDITIONATTR_OUTFIT = 25"
definition CONDITIONATTR_PERIODDAMAGE :: nat where "CONDITIONATTR_PERIODDAMAGE = 26"
definition CONDITIONATTR_ISBUFF :: nat where "CONDITIONATTR_ISBUFF = 27"
definition CONDITIONATTR_SUBID :: nat where "CONDITIONATTR_SUBID = 28"
definition CONDITIONATTR_MANASHIELD :: nat where "CONDITIONATTR_MANASHIELD = 29"
definition CONDITIONATTR_ADDSOUND :: nat where "CONDITIONATTR_ADDSOUND = 30"
definition CONDITIONATTR_TICKSOUND :: nat where "CONDITIONATTR_TICKSOUND = 31"
definition CONDITIONATTR_ABSORBS :: nat where "CONDITIONATTR_ABSORBS = 32"
definition CONDITIONATTR_INCREASES :: nat where "CONDITIONATTR_INCREASES = 33"
definition CONDITIONATTR_CHARM_CHANCE_MODIFIER :: nat where "CONDITIONATTR_CHARM_CHANCE_MODIFIER = 34"
definition CONDITIONATTR_PERSISTENT :: nat where "CONDITIONATTR_PERSISTENT = 35"
definition CONDITIONATTR_END :: nat where "CONDITIONATTR_END = 254"

lemmas condition_attr_defs =
  CONDITIONATTR_TYPE_def CONDITIONATTR_ID_def CONDITIONATTR_TICKS_def CONDITIONATTR_HEALTHTICKS_def CONDITIONATTR_HEALTHGAIN_def
  CONDITIONATTR_MANATICKS_def CONDITIONATTR_MANAGAIN_def CONDITIONATTR_DELAYED_def CONDITIONATTR_OWNER_def CONDITIONATTR_INTERVALDATA_def
  CONDITIONATTR_SPEEDDELTA_def CONDITIONATTR_FORMULA_MINA_def CONDITIONATTR_FORMULA_MINB_def CONDITIONATTR_FORMULA_MAXA_def
  CONDITIONATTR_FORMULA_MAXB_def CONDITIONATTR_LIGHTCOLOR_def CONDITIONATTR_LIGHTLEVEL_def CONDITIONATTR_LIGHTTICKS_def
  CONDITIONATTR_LIGHTINTERVAL_def CONDITIONATTR_SOULTICKS_def CONDITIONATTR_SOULGAIN_def CONDITIONATTR_SKILLS_def CONDITIONATTR_STATS_def
  CONDITIONATTR_BUFFS_def CONDITIONATTR_OUTFIT_def CONDITIONATTR_PERIODDAMAGE_def CONDITIONATTR_ISBUFF_def CONDITIONATTR_SUBID_def
  CONDITIONATTR_MANASHIELD_def CONDITIONATTR_ADDSOUND_def CONDITIONATTR_TICKSOUND_def CONDITIONATTR_ABSORBS_def CONDITIONATTR_INCREASES_def
  CONDITIONATTR_CHARM_CHANCE_MODIFIER_def CONDITIONATTR_PERSISTENT_def CONDITIONATTR_END_def

text \<open>A signed integer of 32 bits as the number its bytes spell, and back.\<close>

definition s32_to_nat :: "int \<Rightarrow> nat" where "s32_to_nat i = unat (word_of_int i :: u32)"
definition nat_to_s32 :: "nat \<Rightarrow> int" where "nat_to_s32 n = sint (word_of_nat n :: u32)"

text \<open>A tag of one byte and a value.\<close>

definition write_prop :: "nat \<Rightarrow> nat \<Rightarrow> nat \<Rightarrow> byte_list \<Rightarrow> byte_list" where
  "write_prop tag w n p = ps_write w n (ps_write 1 tag p)"

definition serialize_base :: "cond \<Rightarrow> byte_list \<Rightarrow> byte_list" where
  "serialize_base c p = (let
     p = write_prop CONDITIONATTR_TYPE 1 (unat (co_type c)) p;
     p = write_prop CONDITIONATTR_ID 4 (unat (scast (co_id c) :: u32)) p;
     p = write_prop CONDITIONATTR_TICKS 4 (s32_to_nat (co_ticks c)) p;
     p = write_prop CONDITIONATTR_ISBUFF 1 (of_bool (co_isBuff c)) p;
     p = write_prop CONDITIONATTR_SUBID 4 (unat (co_subId c)) p;
     p = write_prop CONDITIONATTR_TICKSOUND 2 (unat (co_tickSound c)) p;
     p = write_prop CONDITIONATTR_ADDSOUND 2 (unat (co_addSound c)) p
   in write_prop CONDITIONATTR_PERSISTENT 1 (of_bool (co_isPersistent c)) p)"

text \<open>Entries of an array with a tag each, and a table with its indices after one tag.\<close>

definition write_entries :: "nat \<Rightarrow> int list \<Rightarrow> byte_list \<Rightarrow> byte_list" where
  "write_entries tag xs p = fold (\<lambda>x p. write_prop tag 4 (s32_to_nat x) p) xs p"

definition write_table :: "nat \<Rightarrow> int list \<Rightarrow> byte_list \<Rightarrow> byte_list" where
  "write_table tag xs p = fold (\<lambda>(i, x) p. ps_write 4 (s32_to_nat x) (ps_write 1 i p)) (enumerate 0 xs) (ps_write 1 tag p)"

definition serialize_attributes :: "attributes_part \<Rightarrow> byte_list \<Rightarrow> byte_list" where
  "serialize_attributes a p = (let
     p = write_entries CONDITIONATTR_SKILLS (at_skills a) p;
     p = write_entries CONDITIONATTR_STATS (at_stats a) p;
     p = write_entries CONDITIONATTR_BUFFS (at_buffs a) p;
     p = write_table CONDITIONATTR_ABSORBS (at_absorbs a) p;
     p = write_table CONDITIONATTR_INCREASES (at_increases a) p
   in write_prop CONDITIONATTR_CHARM_CHANCE_MODIFIER 1 (unat (word_of_int (at_charmChanceModifier a) :: u8)) p)"

definition serialize_regeneration :: "regeneration_part \<Rightarrow> byte_list \<Rightarrow> byte_list" where
  "serialize_regeneration r p = (let
     p = write_prop CONDITIONATTR_HEALTHTICKS 4 (unat (rg_healthTicks r)) p;
     p = write_prop CONDITIONATTR_HEALTHGAIN 4 (unat (rg_healthGain r)) p;
     p = write_prop CONDITIONATTR_MANATICKS 4 (unat (rg_manaTicks r)) p
   in write_prop CONDITIONATTR_MANAGAIN 4 (unat (rg_manaGain r)) p)"

definition serialize_soul :: "soul_part \<Rightarrow> byte_list \<Rightarrow> byte_list" where
  "serialize_soul s p = write_prop CONDITIONATTR_SOULTICKS 4 (unat (so_soulTicks s)) (write_prop CONDITIONATTR_SOULGAIN 4 (unat (so_soulGain s)) p)"

definition write_interval :: "interval_info \<Rightarrow> byte_list \<Rightarrow> byte_list" where
  "write_interval i p = ps_write 4 (s32_to_nat (ii_interval i)) (ps_write 4 (s32_to_nat (ii_value i))
     (write_prop CONDITIONATTR_INTERVALDATA 4 (s32_to_nat (ii_timeLeft i)) p))"

definition serialize_damage :: "damage_part \<Rightarrow> byte_list \<Rightarrow> byte_list" where
  "serialize_damage d p = fold write_interval (dm_damageList d)
     (write_prop CONDITIONATTR_PERIODDAMAGE 4 (s32_to_nat (dm_periodDamage d)) (write_prop CONDITIONATTR_DELAYED 1 (of_bool (dm_delayed d)) p))"

definition serialize_speed :: "speed_part \<Rightarrow> byte_list \<Rightarrow> byte_list" where
  "serialize_speed s p = (let
     p = write_prop CONDITIONATTR_SPEEDDELTA 4 (s32_to_nat (sp_speedDelta s)) p;
     p = write_prop CONDITIONATTR_FORMULA_MINA 4 (unat (sp_mina s)) p;
     p = write_prop CONDITIONATTR_FORMULA_MINB 4 (unat (sp_minb s)) p;
     p = write_prop CONDITIONATTR_FORMULA_MAXA 4 (unat (sp_maxa s)) p
   in write_prop CONDITIONATTR_FORMULA_MAXB 4 (unat (sp_maxb s)) p)"

text \<open>The memory of an outfit: the byte that aligns its last field is written as zero.\<close>

definition write_outfit :: "outfit \<Rightarrow> byte_list \<Rightarrow> byte_list" where
  "write_outfit ou p = (let
     p = fold (\<lambda>x p. ps_write 2 (unat x) p) [of_lookType ou, of_lookTypeEx ou, of_lookMount ou] p;
     p = fold (\<lambda>x p. ps_write 1 (unat x) p) [of_lookHead ou, of_lookBody ou, of_lookLegs ou, of_lookFeet ou, of_lookAddons ou,
       of_lookMountHead ou, of_lookMountBody ou, of_lookMountLegs ou, of_lookMountFeet ou, 0] p
   in ps_write 2 (unat (of_lookFamiliarsType ou)) p)"

definition serialize_light :: "light_part \<Rightarrow> byte_list \<Rightarrow> byte_list" where
  "serialize_light l p = (let
     p = write_prop CONDITIONATTR_LIGHTCOLOR 4 (unat (li_color l)) p;
     p = write_prop CONDITIONATTR_LIGHTLEVEL 4 (unat (li_level l)) p;
     p = write_prop CONDITIONATTR_LIGHTTICKS 4 (unat (li_internalLightTicks l)) p
   in write_prop CONDITIONATTR_LIGHTINTERVAL 4 (unat (li_lightChangeInterval l)) p)"

definition serialize :: "cond \<Rightarrow> byte_list \<Rightarrow> byte_list" where
  "serialize c p = (let p = serialize_base c p in case co_part c of
     Part_Attributes a \<Rightarrow> serialize_attributes a p
   | Part_Regeneration r \<Rightarrow> serialize_regeneration r p
   | Part_ManaShield m \<Rightarrow> write_prop CONDITIONATTR_MANASHIELD 4 (unat m) p
   | Part_Soul s \<Rightarrow> serialize_soul s p
   | Part_Damage d \<Rightarrow> serialize_damage d p
   | Part_Speed s \<Rightarrow> serialize_speed s p
   | Part_Outfit ou _ \<Rightarrow> write_outfit ou (ps_write 1 CONDITIONATTR_OUTFIT p)
   | Part_Light l \<Rightarrow> serialize_light l p
   | _ \<Rightarrow> p)"

definition cond_isPersistent :: "cond \<Rightarrow> bool" where
  "cond_isPersistent c = (if co_isPersistent c then True else if co_ticks c = -1 then False
     else if \<not> (co_id c = CONDITIONID_DEFAULT \<or> co_id c = CONDITIONID_COMBAT) then False else True)"

definition savePlayerConditions :: "cond list \<Rightarrow> byte_list" where
  "savePlayerConditions cs = fold (\<lambda>c p. if cond_isPersistent c then ps_write 1 CONDITIONATTR_END (serialize c p) else p) cs []"

subsection \<open>Reading\<close>

text \<open>A value into a field; when the stream is too short the answer is false and nothing is read.\<close>

definition read_prop :: "nat \<Rightarrow> (nat \<Rightarrow> cond \<Rightarrow> cond) \<Rightarrow> byte_list \<Rightarrow> cond \<Rightarrow> (bool \<times> byte_list \<times> cond) option" where
  "read_prop w f p c = (case ps_read w p of None \<Rightarrow> Some (False, p, c) | Some (n, p) \<Rightarrow> Some (True, p, f n c))"

definition unserializeProp_base :: "nat \<Rightarrow> byte_list \<Rightarrow> cond \<Rightarrow> (bool \<times> byte_list \<times> cond) option" where
  "unserializeProp_base attr p c =
    (if attr = CONDITIONATTR_TYPE then read_prop 4 (\<lambda>n c. c\<lparr>co_type := word_of_nat n\<rparr>) p c
     else if attr = CONDITIONATTR_ID then read_prop 4 (\<lambda>n c. c\<lparr>co_id := word_of_nat n\<rparr>) p c
     else if attr = CONDITIONATTR_TICKS then read_prop 4 (\<lambda>n c. c\<lparr>co_ticks := nat_to_s32 n\<rparr>) p c
     else if attr = CONDITIONATTR_ISBUFF then read_prop 1 (\<lambda>n c. c\<lparr>co_isBuff := n \<noteq> 0\<rparr>) p c
     else if attr = CONDITIONATTR_SUBID then read_prop 4 (\<lambda>n c. c\<lparr>co_subId := word_of_nat n\<rparr>) p c
     else if attr = CONDITIONATTR_TICKSOUND then read_prop 2 (\<lambda>n c. c\<lparr>co_tickSound := word_of_nat n\<rparr>) p c
     else if attr = CONDITIONATTR_ADDSOUND then read_prop 2 (\<lambda>n c. c\<lparr>co_addSound := word_of_nat n\<rparr>) p c
     else if attr = CONDITIONATTR_PERSISTENT then read_prop 1 (\<lambda>n c. c\<lparr>co_isPersistent := n \<noteq> 0\<rparr>) p c
     else Some (attr = CONDITIONATTR_END, p, c))"

text \<open>The next entry of an array, whose index is not checked: \<open>None\<close> is a write behind the array.\<close>

definition read_entry :: "(attributes_part \<Rightarrow> int list) \<Rightarrow> (attributes_part \<Rightarrow> nat) \<Rightarrow> (nat \<Rightarrow> int list \<Rightarrow> attributes_part \<Rightarrow> attributes_part)
    \<Rightarrow> byte_list \<Rightarrow> attributes_part \<Rightarrow> (bool \<times> byte_list \<times> attributes_part) option" where
  "read_entry get current put p a = (let i = current a in case ps_read 4 p of
     None \<Rightarrow> Some (False, p, put (Suc i) (get a) a)
   | Some (n, p) \<Rightarrow> if length (get a) \<le> i then None else Some (True, p, put (Suc i) ((get a)[i := nat_to_s32 n]) a))"

text \<open>\<open>setAbsorb\<close> and \<open>setIncrease\<close> catch the exception of an index out of range.\<close>

definition set_at :: "nat \<Rightarrow> int \<Rightarrow> int list \<Rightarrow> int list" where
  "set_at i x xs = (if i < length xs then xs[i := x] else xs)"

fun read_table :: "nat \<Rightarrow> byte_list \<Rightarrow> int list \<Rightarrow> bool \<times> byte_list \<times> int list" where
  "read_table 0 p xs = (True, p, xs)"
| "read_table (Suc n) p xs = (case ps_read 1 p of None \<Rightarrow> (False, p, xs)
     | Some (i, p) \<Rightarrow> (case ps_read 4 p of None \<Rightarrow> (False, p, xs) | Some (x, p) \<Rightarrow> read_table n p (set_at i (nat_to_s32 x) xs)))"

definition unserializeProp_attributes :: "nat \<Rightarrow> byte_list \<Rightarrow> attributes_part \<Rightarrow> cond \<Rightarrow> (bool \<times> byte_list \<times> cond) option" where
  "unserializeProp_attributes attr p a c =
    (let part = map_option (\<lambda>(ok, p, a). (ok, p, c\<lparr>co_part := Part_Attributes a\<rparr>)) in
     if attr = CONDITIONATTR_SKILLS then part (read_entry at_skills at_currentSkill (\<lambda>i xs a. a\<lparr>at_currentSkill := i, at_skills := xs\<rparr>) p a)
     else if attr = CONDITIONATTR_STATS then part (read_entry at_stats at_currentStat (\<lambda>i xs a. a\<lparr>at_currentStat := i, at_stats := xs\<rparr>) p a)
     else if attr = CONDITIONATTR_BUFFS then part (read_entry at_buffs at_currentBuff (\<lambda>i xs a. a\<lparr>at_currentBuff := i, at_buffs := xs\<rparr>) p a)
     else if attr = CONDITIONATTR_ABSORBS
       then (case read_table COMBAT_COUNT p (at_absorbs a) of (ok, p, xs) \<Rightarrow> part (Some (ok, p, a\<lparr>at_absorbs := xs\<rparr>)))
     else if attr = CONDITIONATTR_INCREASES
       then (case read_table COMBAT_COUNT p (at_increases a) of (ok, p, xs) \<Rightarrow> part (Some (ok, p, a\<lparr>at_increases := xs\<rparr>)))
     else if attr = CONDITIONATTR_CHARM_CHANCE_MODIFIER
       then read_prop 1 (\<lambda>n c. c\<lparr>co_part := Part_Attributes (a\<lparr>at_charmChanceModifier := sint (word_of_nat n :: u8)\<rparr>)\<rparr>) p c
     else unserializeProp_base attr p c)"

definition unserializeProp_regeneration :: "nat \<Rightarrow> byte_list \<Rightarrow> regeneration_part \<Rightarrow> cond \<Rightarrow> (bool \<times> byte_list \<times> cond) option" where
  "unserializeProp_regeneration attr p r c =
    (if attr = CONDITIONATTR_HEALTHTICKS then read_prop 4 (\<lambda>n c. c\<lparr>co_part := Part_Regeneration (r\<lparr>rg_healthTicks := word_of_nat n\<rparr>)\<rparr>) p c
     else if attr = CONDITIONATTR_HEALTHGAIN then read_prop 4 (\<lambda>n c. c\<lparr>co_part := Part_Regeneration (r\<lparr>rg_healthGain := word_of_nat n\<rparr>)\<rparr>) p c
     else if attr = CONDITIONATTR_MANATICKS then read_prop 4 (\<lambda>n c. c\<lparr>co_part := Part_Regeneration (r\<lparr>rg_manaTicks := word_of_nat n\<rparr>)\<rparr>) p c
     else if attr = CONDITIONATTR_MANAGAIN then read_prop 4 (\<lambda>n c. c\<lparr>co_part := Part_Regeneration (r\<lparr>rg_manaGain := word_of_nat n\<rparr>)\<rparr>) p c
     else unserializeProp_base attr p c)"

definition unserializeProp_soul :: "nat \<Rightarrow> byte_list \<Rightarrow> soul_part \<Rightarrow> cond \<Rightarrow> (bool \<times> byte_list \<times> cond) option" where
  "unserializeProp_soul attr p s c =
    (if attr = CONDITIONATTR_SOULGAIN then read_prop 4 (\<lambda>n c. c\<lparr>co_part := Part_Soul (s\<lparr>so_soulGain := word_of_nat n\<rparr>)\<rparr>) p c
     else if attr = CONDITIONATTR_SOULTICKS then read_prop 4 (\<lambda>n c. c\<lparr>co_part := Part_Soul (s\<lparr>so_soulTicks := word_of_nat n\<rparr>)\<rparr>) p c
     else unserializeProp_base attr p c)"

definition setTicks :: "int \<Rightarrow> int \<Rightarrow> cond \<Rightarrow> cond" where
  "setTicks now newTicks c = c\<lparr>co_ticks := newTicks, co_endTime := newTicks + now\<rparr>"

definition read_interval :: "byte_list \<Rightarrow> (interval_info \<times> byte_list) option" where
  "read_interval p = (if length p < 12 then None else
     Some (\<lparr>ii_timeLeft = nat_to_s32 (le_to_nat (take 4 p)), ii_value = nat_to_s32 (le_to_nat (take 4 (drop 4 p))),
       ii_interval = nat_to_s32 (le_to_nat (take 4 (drop 8 p)))\<rparr>, drop 12 p))"

definition unserializeProp_damage :: "int \<Rightarrow> nat \<Rightarrow> byte_list \<Rightarrow> damage_part \<Rightarrow> cond \<Rightarrow> (bool \<times> byte_list \<times> cond) option" where
  "unserializeProp_damage now attr p d c =
    (if attr = CONDITIONATTR_DELAYED then read_prop 1 (\<lambda>n c. c\<lparr>co_part := Part_Damage (d\<lparr>dm_delayed := n \<noteq> 0\<rparr>)\<rparr>) p c
     else if attr = CONDITIONATTR_PERIODDAMAGE then read_prop 4 (\<lambda>n c. c\<lparr>co_part := Part_Damage (d\<lparr>dm_periodDamage := nat_to_s32 n\<rparr>)\<rparr>) p c
     else if attr = CONDITIONATTR_OWNER then (case ps_skip 4 p of None \<Rightarrow> Some (False, p, c) | Some p \<Rightarrow> Some (True, p, c))
     else if attr = CONDITIONATTR_INTERVALDATA
       then (case read_interval p of None \<Rightarrow> Some (False, p, c)
         | Some (i, p) \<Rightarrow> let c = c\<lparr>co_part := Part_Damage (d\<lparr>dm_damageList := dm_damageList d @ [i]\<rparr>)\<rparr> in
             Some (True, p, if co_ticks c \<noteq> -1 then setTicks now (co_ticks c + ii_interval i) c else c))
     else unserializeProp_base attr p c)"

definition unserializeProp_speed :: "nat \<Rightarrow> byte_list \<Rightarrow> speed_part \<Rightarrow> cond \<Rightarrow> (bool \<times> byte_list \<times> cond) option" where
  "unserializeProp_speed attr p s c =
    (if attr = CONDITIONATTR_SPEEDDELTA then read_prop 4 (\<lambda>n c. c\<lparr>co_part := Part_Speed (s\<lparr>sp_speedDelta := nat_to_s32 n\<rparr>)\<rparr>) p c
     else if attr = CONDITIONATTR_FORMULA_MINA then read_prop 4 (\<lambda>n c. c\<lparr>co_part := Part_Speed (s\<lparr>sp_mina := word_of_nat n\<rparr>)\<rparr>) p c
     else if attr = CONDITIONATTR_FORMULA_MINB then read_prop 4 (\<lambda>n c. c\<lparr>co_part := Part_Speed (s\<lparr>sp_minb := word_of_nat n\<rparr>)\<rparr>) p c
     else if attr = CONDITIONATTR_FORMULA_MAXA then read_prop 4 (\<lambda>n c. c\<lparr>co_part := Part_Speed (s\<lparr>sp_maxa := word_of_nat n\<rparr>)\<rparr>) p c
     else if attr = CONDITIONATTR_FORMULA_MAXB then read_prop 4 (\<lambda>n c. c\<lparr>co_part := Part_Speed (s\<lparr>sp_maxb := word_of_nat n\<rparr>)\<rparr>) p c
     else unserializeProp_base attr p c)"

definition read_outfit :: "byte_list \<Rightarrow> (outfit \<times> byte_list) option" where
  "read_outfit p = (if length p < 18 then None else
     Some (\<lparr>of_lookType = word_of_nat (le_to_nat (take 2 p)), of_lookTypeEx = word_of_nat (le_to_nat (take 2 (drop 2 p))),
       of_lookMount = word_of_nat (le_to_nat (take 2 (drop 4 p))), of_lookHead = p ! 6, of_lookBody = p ! 7, of_lookLegs = p ! 8,
       of_lookFeet = p ! 9, of_lookAddons = p ! 10, of_lookMountHead = p ! 11, of_lookMountBody = p ! 12, of_lookMountLegs = p ! 13,
       of_lookMountFeet = p ! 14, of_lookFamiliarsType = word_of_nat (le_to_nat (take 2 (drop 16 p)))\<rparr>, drop 18 p))"

definition unserializeProp_light :: "nat \<Rightarrow> byte_list \<Rightarrow> light_part \<Rightarrow> cond \<Rightarrow> (bool \<times> byte_list \<times> cond) option" where
  "unserializeProp_light attr p l c =
    (if attr = CONDITIONATTR_LIGHTCOLOR then read_prop 4 (\<lambda>n c. c\<lparr>co_part := Part_Light (l\<lparr>li_color := word_of_nat n\<rparr>)\<rparr>) p c
     else if attr = CONDITIONATTR_LIGHTLEVEL then read_prop 4 (\<lambda>n c. c\<lparr>co_part := Part_Light (l\<lparr>li_level := word_of_nat n\<rparr>)\<rparr>) p c
     else if attr = CONDITIONATTR_LIGHTTICKS then read_prop 4 (\<lambda>n c. c\<lparr>co_part := Part_Light (l\<lparr>li_internalLightTicks := word_of_nat n\<rparr>)\<rparr>) p c
     else if attr = CONDITIONATTR_LIGHTINTERVAL then read_prop 4 (\<lambda>n c. c\<lparr>co_part := Part_Light (l\<lparr>li_lightChangeInterval := word_of_nat n\<rparr>)\<rparr>) p c
     else unserializeProp_base attr p c)"

definition unserializeProp :: "int \<Rightarrow> nat \<Rightarrow> byte_list \<Rightarrow> cond \<Rightarrow> (bool \<times> byte_list \<times> cond) option" where
  "unserializeProp now attr p c = (case co_part c of
     Part_Attributes a \<Rightarrow> unserializeProp_attributes attr p a c
   | Part_Regeneration r \<Rightarrow> unserializeProp_regeneration attr p r c
   | Part_ManaShield m \<Rightarrow> (if attr = CONDITIONATTR_MANASHIELD then read_prop 4 (\<lambda>n c. c\<lparr>co_part := Part_ManaShield (word_of_nat n)\<rparr>) p c
       else unserializeProp_base attr p c)
   | Part_Soul s \<Rightarrow> unserializeProp_soul attr p s c
   | Part_Damage d \<Rightarrow> unserializeProp_damage now attr p d c
   | Part_Speed s \<Rightarrow> unserializeProp_speed attr p s c
   | Part_Outfit _ monsterName \<Rightarrow> (if attr = CONDITIONATTR_OUTFIT
       then (case read_outfit p of None \<Rightarrow> Some (False, p, c) | Some (ou, p) \<Rightarrow> Some (True, p, c\<lparr>co_part := Part_Outfit ou monsterName\<rparr>))
       else unserializeProp_base attr p c)
   | Part_Light l \<Rightarrow> unserializeProp_light attr p l c
   | _ \<Rightarrow> unserializeProp_base attr p c)"

text \<open>Reading never gives bytes back.\<close>

lemma ps_read_shorter: "ps_read w p = Some (n, q) \<Longrightarrow> length q + w = length p"
  by (auto simp: ps_read_def split: if_splits)

lemma read_prop_shorter: "read_prop w f p c = Some (ok, q, d) \<Longrightarrow> length q \<le> length p"
  by (auto simp: read_prop_def split: option.splits dest: ps_read_shorter)

lemma base_shorter: "unserializeProp_base attr p c = Some (ok, q, d) \<Longrightarrow> length q \<le> length p"
  by (auto simp: unserializeProp_base_def split: if_splits dest: read_prop_shorter)

lemma read_entry_shorter: "read_entry get current put p a = Some (ok, q, b) \<Longrightarrow> length q \<le> length p"
  by (auto simp: read_entry_def Let_def split: option.splits if_splits dest: ps_read_shorter)

lemma read_table_shorter: "read_table n p xs = (ok, q, ys) \<Longrightarrow> length q \<le> length p"
  by (induction n arbitrary: p xs) (fastforce split: option.splits dest: ps_read_shorter)+

lemma attributes_shorter: "unserializeProp_attributes attr p a c = Some (ok, q, d) \<Longrightarrow> length q \<le> length p"
  by (auto simp: unserializeProp_attributes_def Let_def split: if_splits prod.splits
      dest: read_prop_shorter base_shorter read_entry_shorter read_table_shorter)

lemma damage_shorter: "unserializeProp_damage now attr p x c = Some (ok, q, d) \<Longrightarrow> length q \<le> length p"
  by (auto simp: unserializeProp_damage_def Let_def read_interval_def ps_skip_def split: if_splits option.splits
      dest: read_prop_shorter base_shorter)

lemma part_shorter:
  "unserializeProp_regeneration attr p r c = Some (ok, q, d) \<Longrightarrow> length q \<le> length p"
  "unserializeProp_soul attr p s c = Some (ok, q, d) \<Longrightarrow> length q \<le> length p"
  "unserializeProp_speed attr p v c = Some (ok, q, d) \<Longrightarrow> length q \<le> length p"
  "unserializeProp_light attr p l c = Some (ok, q, d) \<Longrightarrow> length q \<le> length p"
  by (auto simp: unserializeProp_regeneration_def unserializeProp_soul_def unserializeProp_speed_def unserializeProp_light_def
      split: if_splits dest: read_prop_shorter base_shorter)

lemma unserializeProp_shorter: "unserializeProp now attr p c = Some (ok, q, d) \<Longrightarrow> length q \<le> length p"
  unfolding unserializeProp_def
  by (auto simp: read_outfit_def split: cond_part.splits if_splits option.splits
      dest: read_prop_shorter base_shorter attributes_shorter damage_shorter part_shorter)

function unserialize :: "int \<Rightarrow> byte_list \<Rightarrow> cond \<Rightarrow> (bool \<times> byte_list \<times> cond) option" where
  "unserialize now p c = (case ps_read 1 p of None \<Rightarrow> Some (True, p, c)
     | Some (attr, p) \<Rightarrow> if attr = CONDITIONATTR_END then Some (True, p, c)
         else (case unserializeProp now attr p c of None \<Rightarrow> None
           | Some (ok, p, c) \<Rightarrow> if ok then unserialize now p c else Some (False, p, c)))"
  by pat_completeness auto

termination unserialize
  by (relation "measure (\<lambda>(now, p, c). length p)") (auto dest!: ps_read_shorter unserializeProp_shorter)

declare unserialize.simps [simp del]

lemma unserialize_shorter: "unserialize now p c = Some (ok, q, d) \<Longrightarrow> length q \<le> length p"
proof (induction now p c rule: unserialize.induct)
  case (1 now p c)
  show ?case
  proof (cases "ps_read 1 p")
    case None
    then show ?thesis using 1(2) by (simp add: unserialize.simps [of now p c])
  next
    case (Some r)
    obtain attr p1 where r: "r = (attr, p1)" by (cases r)
    have p1: "length p1 < length p" using ps_read_shorter [OF Some [unfolded r]] by simp
    show ?thesis
    proof (cases "attr = CONDITIONATTR_END")
      case True
      then show ?thesis using 1(2) Some p1 by (simp add: unserialize.simps [of now p c] r)
    next
      case False
      then obtain ok' p2 c2 where u: "unserializeProp now attr p1 c = Some (ok', p2, c2)"
        using 1(2) Some by (auto simp: unserialize.simps [of now p c] r split: option.splits)
      note p2 = unserializeProp_shorter [OF u]
      show ?thesis
      proof (cases ok')
        case True
        then have "unserialize now p2 c2 = Some (ok, q, d)" using 1(2) Some False u by (simp add: unserialize.simps [of now p c] r)
        from 1(1) [OF Some [unfolded r] refl False u refl refl True this] show ?thesis using p1 p2 by simp
      next
        case no: False
        then show ?thesis using 1(2) Some False u p1 p2 by (simp add: unserialize.simps [of now p c] r)
      qed
    qed
  qed
qed

text \<open>The factory that reads the first fields, each after its own tag.\<close>

definition read_tagged :: "nat \<Rightarrow> nat \<Rightarrow> byte_list \<Rightarrow> (nat \<times> byte_list) option" where
  "read_tagged tag w p = (case ps_read 1 p of None \<Rightarrow> None | Some (attr, p) \<Rightarrow> if attr \<noteq> tag then None else ps_read w p)"

definition createCondition_stream :: "byte_list \<Rightarrow> (cond \<times> byte_list) option" where
  "createCondition_stream p = (case read_tagged CONDITIONATTR_TYPE 1 p of None \<Rightarrow> None
     | Some (type, p) \<Rightarrow> (case read_tagged CONDITIONATTR_ID 4 p of None \<Rightarrow> None
     | Some (i, p) \<Rightarrow> (case read_tagged CONDITIONATTR_TICKS 4 p of None \<Rightarrow> None
     | Some (ticks, p) \<Rightarrow> (case read_tagged CONDITIONATTR_ISBUFF 1 p of None \<Rightarrow> None
     | Some (buff, p) \<Rightarrow> (case read_tagged CONDITIONATTR_SUBID 4 p of None \<Rightarrow> None
     | Some (subId, p) \<Rightarrow> map_option (\<lambda>c. (c, p))
         (createCondition (word_of_nat i) (word_of_nat type) (nat_to_s32 ticks) 0 (buff \<noteq> 0) (word_of_nat subId) False))))))"

lemma read_tagged_shorter: "read_tagged tag w p = Some (n, q) \<Longrightarrow> length q < length p"
  by (auto simp: read_tagged_def split: option.splits if_splits dest!: ps_read_shorter)

lemma createCondition_stream_shorter: "createCondition_stream p = Some (c, q) \<Longrightarrow> length q < length p"
  by (auto simp: createCondition_stream_def split: option.splits dest!: read_tagged_shorter)

function loadPlayerConditions :: "int \<Rightarrow> byte_list \<Rightarrow> cond list \<Rightarrow> cond list option" where
  "loadPlayerConditions now p stored = (case createCondition_stream p of None \<Rightarrow> Some stored
     | Some (c, p) \<Rightarrow> (case unserialize now p c of None \<Rightarrow> None
         | Some (ok, p, c) \<Rightarrow> loadPlayerConditions now p (if ok then stored @ [c] else stored)))"
  by pat_completeness auto

termination loadPlayerConditions
  by (relation "measure (\<lambda>(now, p, stored). length p)") (auto dest!: createCondition_stream_shorter unserialize_shorter)

declare loadPlayerConditions.simps [simp del]

end
