(* ===== verification/ConditionSave.thy ===== *)
theory ConditionSave
  imports Condition
begin










subsection \<open>The common part\<close>








subsection \<open>The subclasses\<close>















subsection \<open>Arrays of attributes\<close>














subsection \<open>Damage over time\<close>









subsection \<open>The whole\<close>

















text \<open>A skill that follows as many as the class has, as a build with another number of skills saves it, is written behind the array.\<close>

lemma extra_skill_overflows:
  assumes "co_part c = Part_Attributes a" "length (at_skills a) \<le> at_currentSkill a" "4 \<le> length p"
  shows "unserializeProp now CONDITIONATTR_SKILLS p c = None"
  using assms by (simp add: unserializeProp_def unserializeProp_attributes_def read_entry_def ps_read_def Let_def)

end
