(* ===== verification/Spec2Isabelle.thy ===== *)
theory Spec2Isabelle
  imports Position NetMessage Xtea Protocol Money Bank Account Vip Waitlist KvStore WildcardTree Dispatcher Connection
    Otb FileStream Sectors Spectators MapLoad Party ItemAttr ItemSave HouseItems
    Containers ContainerTree ContainerMoves ContainerInside ContainerReach ContainerStock ContainerSpec Sight Pathfinding PathSearch Condition ConditionSave
begin

text \<open>
  Verification library of the Canary game server (C++ sources under \<open>src/src\<close>).

  The program and how its parts interact.  A client connects over TCP.  \<open>Connection\<close> reads the
  frames of the socket and hands them to a \<open>Protocol\<close>, which checks sequence number or checksum,
  decrypts them with XTEA and passes the body on as a \<open>NetworkMessage\<close>; output goes the other way.
  The protocol puts every action of a player into the \<open>Dispatcher\<close>, the single thread of the game,
  which also runs scheduled events.  The game itself keeps the map as sectors of tiles, filled by the
  map loader, finds out with spectator queries who sees an event, and changes players, items, bank
  balances, accounts, buddy lists and a key-value store.

  Theories, in the order of their dependence, with the code they model and what is proved.

  \<^item> \<open>Prelude\<close>: machine types, sixteen-bit truncation, little-endian byte strings, flat memory and
    the rewrite rules (\<open>mem_simps\<close>, \<open>wrap_simps\<close>) the proofs about buffers share.
  \<^item> \<open>Position\<close>: \<open>game/movement/position.hpp\<close> and the direction helpers of \<open>utils/tools.cpp\<close>.
    Distances, order, hash (injective), steps and the choice of a direction towards a target.
  \<^item> \<open>NetMessage\<close>: \<open>server/network/message\<close>.  Readers and writers over a fixed array; the locale
    \<open>wire_type\<close> states what a field type of the wire is and is interpreted for each width.  Round trip of fields;
    no writer leaves the body area.
  \<^item> \<open>Xtea\<close>, \<open>Protocol\<close>: \<open>server/network/protocol/protocol.cpp\<close> and \<open>adlerChecksum\<close>.  The locale \<open>block_cipher\<close>
    lifts a block cipher to byte strings and is interpreted by XTEA.  Decryption inverts encryption,
    the chunked checksum is Adler-32, what one side sends the other side in step with it accepts
    unchanged, and in sequence mode no packet is accepted twice.
  \<^item> \<open>Connection\<close>: \<open>server/network/connection/connection.cpp\<close> and the autosend pool of
    \<open>outputmessage.cpp\<close>.  Handlers on the state of a connection, asynchronous completions as steps of
    the relation \<open>conn_step\<close>; messages leave in order, each encoded once.
  \<^item> \<open>Dispatcher\<close>: \<open>game/scheduling\<close>.  Rounds of the main loop over event lists and a priority queue of
    scheduled tasks; a stopped task does not run, a one-shot task runs once, a due task runs.
  \<^item> \<open>Money\<close>, \<open>Bank\<close>: the coin functions of \<open>game/game.cpp\<close> over an explicit store of items, and
    \<open>game/bank/bank.cpp\<close>; the locale \<open>bankable\<close> is what the bank needs of an account holder, interpreted for
    players and guilds.  Exact payment and change, conservation of the sum of balances.
  \<^item> \<open>Account\<close>: \<open>account/account.cpp\<close> over \<open>account_repository_db.cpp\<close>.  Ledger of coins, premium days.
  \<^item> \<open>Vip\<close>, \<open>Waitlist\<close>, \<open>WildcardTree\<close>: buddy lists (\<open>player_vip.cpp\<close>), the login queue with the connection
    throttle (\<open>waitlist.cpp\<close>, \<open>ban.cpp\<close>) and the completion of player names (\<open>wildcardtree.cpp\<close>).
  \<^item> \<open>KvStore\<close>: \<open>kv\<close>.  The LRU cache behaves as a map over any backend with the laws of the locale
    \<open>kv_backend\<close>, interpreted by the SQL backend.
  \<^item> \<open>Otb\<close>, \<open>FileStream\<close>: \<open>io/fileloader.cpp\<close> and \<open>io/filestream.cpp\<close>, the two readers of the binary node
    format.  Round trip and well-formedness of loaded trees; the readers move forward only.
  \<^item> \<open>Sectors\<close>, \<open>Spectators\<close>: \<open>map/utils/mapsector\<close>, the sector part of \<open>map/mapcache.cpp\<close> and \<open>map/map.cpp\<close>,
    \<open>map/spectators.cpp\<close>.  The relation \<open>grid\<close> collects the tables the game can build; sectors link to their
    neighbours and list their creatures, the table implements a map from positions to tiles, and a
    query finds exactly the creatures in view.
  \<^item> \<open>MapLoad\<close>: \<open>io/iomap.cpp\<close> and the descriptions of items and tiles in \<open>map/mapcache.cpp\<close>.  Loading ends.
  \<^item> \<open>Party\<close>: \<open>creatures/players/grouping/party.cpp\<close>, the invitations of \<open>player.cpp\<close> and the party handlers of
    \<open>game.cpp\<close>.  In the states of \<open>party_reach\<close> parties and players' pointers agree; leaving and logging out refine
    operations on rosters (leader first); the analyzer's running totals equal recomputed ones.
  \<^item> \<open>ItemAttr\<close>, \<open>ItemSave\<close>, \<open>HouseItems\<close>: \<open>items/functions/item\<close>, the attributes, sub-types and creation of items
    (\<open>item.hpp\<close>, \<open>item.cpp\<close>), \<open>Item::serializeAttr\<close> and \<open>Item::readAttr\<close>, and the house items of
    \<open>io/iomapserialize.cpp\<close>.  Laws of attributes, when two items are equal, an item and a tree of
    containers come back as they were saved.
  \<^item> \<open>Containers\<close>: \<open>items/containers/container.cpp\<close>, the parents, owners and copies of items (\<open>item.cpp\<close>), and
    \<open>Game::internalMoveItem\<close> and \<open>Game::internalAddItem\<close> between containers, over a store of items: the list of
    a container and the parent of an item are two views of one tree.  \<open>ContainerTree\<close> has the invariant
    (\<open>store_inv\<close>) and what each change does to it, \<open>ContainerMoves\<close> that queries rule out cycles and that moves and
    additions keep the invariant and end, \<open>ContainerInside\<close> the iterator, \<open>ContainerReach\<close> the reachable states
    (\<open>ct_reach\<close>), \<open>ContainerStock\<close> the conservation of items, \<open>ContainerSpec\<close> the properties.
  \<^item> \<open>Sight\<close>: \<open>checkSightLine\<close>, \<open>isSightClear\<close> and \<open>canThrowObjectTo\<close> of \<open>map/map.cpp\<close>.  The line that is drawn with a
    fraction of sixteen bits is the line of exact fractions, and sight on one floor is mutual.
  \<^item> \<open>Pathfinding\<close>: \<open>map/utils/astarnodes.cpp\<close>, the two path searches of \<open>map.cpp\<close> and the condition of \<open>creature.cpp\<close>.  The
    loop keeps a tree of nodes (\<open>astar_ok\<close>).  \<open>PathSearch\<close>: a path that is found can be walked to a position that was
    asked for, the searches end, and every version of \<open>getBestNode\<close> gives a least node.
  \<^item> \<open>Condition\<close>: the classes of \<open>creatures/combat/condition.cpp\<close>, their creation, and how they are saved for a player and loaded
    again (\<open>iologindata_save_player.cpp\<close>, \<open>iologindata_load_player.cpp\<close>).  \<open>ConditionSave\<close>: what was saved comes back.

  Correspondence.  A class is a record with the fields of the class, a method a function that takes
  and returns it; pointers are keys of an explicit store; a null pointer, a failed lookup and an
  exception are values.  Unsigned integers have their width (words, or natural numbers with the
  truncation written out); signed 32-bit values that cannot overflow are integers.

  Bounds and fuel.  Loops whose end does not follow from their structure take a number of rounds:
  \<open>replace_loop\<close> (\<open>KvStore\<close>) may indeed not end, which is a theorem; the collection of items in
  \<open>Money\<close> and \<open>Bank\<close> needs as many rounds as there are containers; the loops of \<open>MapLoad\<close> and the
  nesting of items need one more than the bytes of the file (\<open>map_load_ends\<close>); the nesting of house items
  (\<open>loadItem\<close>) is bounded by the bytes of the stream.  Walks over parents take as many rounds as there are
  items and three more (\<open>chain_fuel\<close>: the items of a chain are distinct, a player and a tile follow), the
  iterator one for each item (\<open>iterator_exact\<close>), an addition 256, since the count of each remainder is smaller
  (\<open>internalAddItem_total\<close>); a destination is asked sixteen times, as in the code.  The list of
  directions (\<open>build_dirs\<close>) takes as many rounds as there are nodes, more than any chain of parents has
  (\<open>path_search_ends\<close>).  The loop over nodes, the functions of
  \<open>Spectators\<close> and the checksum loop are total with a termination proof.

  Parameters.  zlib (\<open>zstream\<close>), password hashes, the SQL engine, the string hash of the container
  library, the configuration values, the range of creature numbers, the table of item types, the tile lookup of the lines of sight and path
  searches, the answers of \<open>Tile::queryAdd\<close> for a creature and its walk cache are arguments of the definitions that use them.

  Not modelled.  Lua bindings and callbacks (\<open>src/lua\<close>), which only forward to the functions of the
  game; the packets of the game protocol (\<open>protocolgame.cpp\<close>), which are sequences of the readers and
  writers modelled here; combat, spells, the effects of conditions, monsters and NPCs, whose results depend on random
  numbers, scripts and floating point; the rest of \<open>game.cpp\<close>, \<open>player.cpp\<close> and \<open>item.cpp\<close>; tiles and inventory
  slots as source or destination of a move, the queries of depots, inboxes and reward chests, and the decay of items;
  the access lists of houses, guilds, chat, prey, market and the wheel; RSA and protobuf, metrics, webhooks, logging and
  the configuration, which are libraries or pure input and output.

  Next would come tiles and inventory slots as cylinders beside containers, the decay of items, and the trade
  between two players, which rests on the moves of \<open>Containers\<close>.
\<close>

end
